(* ===== verification/Prelude.thy ===== *)
theory Prelude
  imports Main "HOL-Library.Word"
begin

text \<open>
  Shared material of the development: the machine-integer type synonyms the C sources
  use, the outcome type of a call that may block, monadic folds that model counted loops
  whose body can fail, and generic lemmas about words, lists and function updates.
  The collection \<open>kdefs\<close> gathers the defining equations of small helpers that
  proofs always want unfolded.
\<close>

unbundle bit_operations_syntax

named_theorems kdefs "defining equations of small kernel helpers"

type_synonym u8 = "8 word"
type_synonym u16 = "16 word"
type_synonym u32 = "32 word"
type_synonym u64 = "64 word"

subsection \<open>Outcome of a call made by a task\<close>

text \<open>
  \<open>Ret v\<close>: the function returns \<open>v\<close>. \<open>Block\<close>: the calling task has been marked not
  runnable and the context switch is pending, the call goes on when the task is resumed.
  \<open>Again\<close>: the loop of the function starts over without blocking (\<open>continue\<close>).
  \<open>Trap\<close>: a NULL pointer is dereferenced. \<open>Hang\<close>: a pointer walk never ends.
\<close>

datatype 'a outcome = Ret 'a | Block | Again | Trap | Hang

subsection \<open>Loops whose body can fail\<close>

fun fold_opt :: "('a \<Rightarrow> 's \<Rightarrow> 's option) \<Rightarrow> 'a list \<Rightarrow> 's \<Rightarrow> 's option" where
  "fold_opt f [] s = Some s"
| "fold_opt f (x # xs) s = (case f x s of None \<Rightarrow> None | Some s' \<Rightarrow> fold_opt f xs s')"

lemma fold_opt_append:
  "fold_opt f (xs @ ys) s = (case fold_opt f xs s of None \<Rightarrow> None | Some s' \<Rightarrow> fold_opt f ys s')"
  by (induction xs arbitrary: s) (auto split: option.splits)

lemma fold_opt_inv:
  assumes "P s" and "\<And>x s. x \<in> set xs \<Longrightarrow> P s \<Longrightarrow> \<exists>s'. f x s = Some s' \<and> P s'"
  shows "\<exists>s'. fold_opt f xs s = Some s' \<and> P s'"
  using assms
proof (induction xs arbitrary: s)
  case Nil
  then show ?case by simp
next
  case (Cons x xs)
  from Cons.prems obtain s1 where "f x s = Some s1" and "P s1"
    by (metis list.set_intros(1))
  with Cons.IH [of s1] Cons.prems(2) show ?case
    by auto
qed

lemma fold_opt_rel:
  assumes "fold_opt f xs s = Some s'" and "R s s"
    and "\<And>x u v. x \<in> set xs \<Longrightarrow> R s u \<Longrightarrow> f x u = Some v \<Longrightarrow> R s v"
  shows "R s s'"
proof -
  have "fold_opt f xs u = Some s' \<Longrightarrow> R s u \<Longrightarrow> R s s'" for u
    using assms(3)
  proof (induction xs arbitrary: u)
    case Nil
    then show ?case by simp
  next
    case (Cons x xs)
    then obtain w where w: "f x u = Some w" "fold_opt f xs w = Some s'"
      by (auto split: option.splits)
    with Cons.prems have "R s w" by auto
    with w Cons.IH [of w] Cons.prems(3) show ?case by auto
  qed
  with assms(1,2) show ?thesis by blast
qed

subsection \<open>First element found by a counted loop with a break\<close>

lemma find_upt_Some:
  "find P [m..<n] = Some i \<longleftrightarrow> m \<le> i \<and> i < n \<and> P i \<and> (\<forall>j. m \<le> j \<and> j < i \<longrightarrow> \<not> P j)"
proof
  assume "find P [m..<n] = Some i"
  then obtain a where a: "a < length [m..<n]" "P ([m..<n] ! a)" "i = [m..<n] ! a"
    "\<forall>j<a. \<not> P ([m..<n] ! j)"
    by (auto simp: find_Some_iff)
  have "\<not> P j" if "m \<le> j" "j < i" for j
  proof -
    have "j - m < a" and "[m..<n] ! (j - m) = j" using that a by auto
    with a(4) show ?thesis by metis
  qed
  with a show "m \<le> i \<and> i < n \<and> P i \<and> (\<forall>j. m \<le> j \<and> j < i \<longrightarrow> \<not> P j)" by auto
next
  assume *: "m \<le> i \<and> i < n \<and> P i \<and> (\<forall>j. m \<le> j \<and> j < i \<longrightarrow> \<not> P j)"
  then show "find P [m..<n] = Some i"
    by (auto simp: find_Some_iff intro!: exI [of _ "i - m"])
qed

lemma find_upt_None: "find P [m..<n] = None \<longleftrightarrow> (\<forall>i. m \<le> i \<and> i < n \<longrightarrow> \<not> P i)"
  by (auto simp: find_None_iff)

subsection \<open>Words\<close>

lemma unat_add_if_no_wrap:
  fixes a b :: "'a::len word"
  shows "unat a + unat b < 2 ^ LENGTH('a) \<Longrightarrow> unat (a + b) = unat a + unat b"
  by (simp add: unat_word_ariths)

lemma word_pos_iff: "(0 < (x :: 'a::len word)) = (x \<noteq> 0)"
  by (simp add: word_neq_0_conv)

text \<open>The casts to \<open>int32_t\<close>.\<close>

lemma unat_ucast_up:
  "LENGTH('a) \<le> LENGTH('b) \<Longrightarrow> unat (ucast (w :: 'a::len word) :: 'b::len word) = unat w"
proof -
  assume le: "LENGTH('a) \<le> LENGTH('b)"
  have "(unat w :: nat) < 2 ^ LENGTH('a)" by (rule unsigned_less)
  also have "\<dots> \<le> 2 ^ LENGTH('b)" using le by (rule power_increasing) simp
  finally show ?thesis by (simp add: unsigned_ucast_eq take_bit_nat_eq_self)
qed

lemma unat32_less: "unat (x :: u32) < 4294967296"
  using unsigned_less [of x, where 'a = nat] by simp

lemma sint32_small: "unat (x :: u32) < 2 ^ 31 \<Longrightarrow> sint x = int (unat x)"
proof -
  assume a: "unat x < 2 ^ 31"
  define n where "n = unat x"
  have "signed_take_bit 31 (int n) = int n"
    using a by (intro signed_take_bit_int_eq_self) (simp_all add: n_def [symmetric])
  then show "sint x = int (unat x)" by (simp only: sint_uint uint_nat n_def) simp
qed

lemma sint32_large: "2 ^ 31 \<le> unat (x :: u32) \<Longrightarrow> sint x = int (unat x) - 2 ^ 32"
proof -
  assume a: "2 ^ 31 \<le> unat x"
  define n where "n = unat x"
  have n: "2 ^ 31 \<le> n" "n < 4294967296" using a unat32_less [of x] by (simp_all add: n_def)
  have "signed_take_bit 31 (int n) = signed_take_bit 31 (int n - 2 ^ 32)"
    by (simp add: signed_take_bit_eq_iff_take_bit_eq take_bit_eq_mod)
  also have "\<dots> = int n - 2 ^ 32" by (rule signed_take_bit_int_eq_self) (use n in simp_all)
  finally show "sint x = int (unat x) - 2 ^ 32" by (simp only: sint_uint uint_nat n_def) simp
qed

lemma sint32_nonneg_iff: "0 \<le> sint (x :: u32) \<longleftrightarrow> unat x < 2 ^ 31"
proof (cases "unat x < 2 ^ 31")
  case True
  then show ?thesis by (simp add: sint32_small)
next
  case False
  then have "sint x = int (unat x) - 2 ^ 32" by (intro sint32_large) simp
  moreover have "int (unat x) < 4294967296" using unat32_less [of x] by linarith
  ultimately have "sint x < 0" by simp
  with False show ?thesis by simp
qed

lemma sint32_of_int: "- (2 ^ 31) \<le> d \<Longrightarrow> d < 2 ^ 31 \<Longrightarrow> sint (word_of_int d :: u32) = d"
  by (simp add: signed_of_int signed_take_bit_int_eq_self)

lemma sint32_diff_neg:
  assumes "a < b" and "b < 2 ^ 31"
  shows "sint (word_of_int (int a - int b) :: u32) = int a - int b"
  by (rule sint32_of_int) (use assms in simp_all)

lemma unat32_uminus: "x \<noteq> 0 \<Longrightarrow> unat (- x :: u32) = 2 ^ 32 - unat x"
proof -
  assume "x \<noteq> 0"
  then have "0 < unat x" by (simp add: unat_gt_0)
  have "unat (x + - x) = (unat x + unat (- x)) mod 2 ^ 32" by (subst unat_word_ariths) simp
  then have "(unat x + unat (- x)) mod 2 ^ 32 = 0" by simp
  then obtain q where "unat x + unat (- x) = 2 ^ 32 * q" by (auto simp: mod_eq_0_iff_dvd)
  with \<open>0 < unat x\<close> unat32_less [of x] unat32_less [of "- x"] have "q = 1" by simp
  with \<open>unat x + unat (- x) = 2 ^ 32 * q\<close> show ?thesis by simp
qed

subsection \<open>Lists\<close>

lemma distinct_pred_unique:
  assumes "distinct xs" and "xs = us @ u # t # zs" and "xs = as @ v # t # bs"
  shows "u = v"
proof -
  have "xs ! Suc (length us) = t" "xs ! Suc (length as) = t"
    using assms(2) apply (simp add: nth_append)
    using assms(3) by (simp add: nth_append)
  moreover have "Suc (length us) < length xs" "Suc (length as) < length xs"
    using assms(2) apply simp
    using assms(3) by simp
  ultimately have "length us = length as"
    using assms(1) by (metis nth_eq_iff_index_eq Suc_inject)
  moreover have "xs ! length us = u" "xs ! length as = v"
    using assms(2) apply (simp add: nth_append)
    using assms(3) by (simp add: nth_append)
  ultimately show ?thesis by simp
qed

subsection \<open>Ring indices\<close>

lemma mod_add_inj:
  fixes h :: nat
  assumes "(h + i) mod c = (h + j) mod c" and "i < c" and "j < c"
  shows "i = j"
proof -
  have *: "i = j" if "i \<le> j" "(h + j) mod c = (h + i) mod c" "j < c" for i j
  proof -
    from that have "c dvd (h + j) - (h + i)" by (subst mod_eq_dvd_iff_nat [symmetric]) auto
    then have "c dvd j - i" by simp
    with that show ?thesis by (auto dest: dvd_imp_le)
  qed
  from *[of i j] *[of j i] assms show ?thesis by (cases "i \<le> j") auto
qed

end
