(* ===== verification/Task.thy ===== *)
theory Task
  imports Prelude
begin

text \<open>
  \<open>include/task.h\<close> and the global variables of \<open>kernel/core/scheduler.c\<close>: the task
  control block, the kernel state, and the store the intrusive wait lists live in.

  A \<open>task_t *\<close> is a \<open>tid option\<close>: \<open>None\<close> is NULL, \<open>Task i\<close> is \<open>&s_tasks[i]\<close> and
  \<open>Idle\<close> is \<open>&s_idle_tcb\<close>. A \<open>task_t **\<close> that points at the \<open>waiters\<close> member of a
  kernel object is a \<open>wait_cell\<close>, named after the object that owns it; the contents of
  all these cells are the component \<open>wait_head\<close> of the kernel state, so that a pointer to
  a cell kept in a task (\<open>wait_list_head\<close>) and the object see the same value.
\<close>

definition TASK_MAX :: nat where "TASK_MAX = 12"
definition TASK_STACK_SIZE :: nat where "TASK_STACK_SIZE = 640"

definition TASK_PRIORITY_HIGH :: u8 where "TASK_PRIORITY_HIGH = 0"
definition TASK_PRIORITY_NORMAL :: u8 where "TASK_PRIORITY_NORMAL = 1"
definition TASK_PRIORITY_LOW :: u8 where "TASK_PRIORITY_LOW = 2"
definition TASK_PRIORITY_IDLE :: u8 where "TASK_PRIORITY_IDLE = 3"

datatype task_state = TASK_READY | TASK_RUNNING | TASK_BLOCKED | TASK_PAUSED | TASK_DEAD

datatype tid = Task nat | Idle

datatype wait_cell =
    SemWaiters nat | MutexWaiters nat | QueueSendWaiters nat | QueueReceiveWaiters nat
  | EventWaiters nat

text \<open>
  The saved stack pointer is the word index \<open>t->sp - t->stack\<close>; \<open>func\<close> is the address of
  the entry point, 0 for NULL.
\<close>

record task_t =
  sp :: nat
  state :: task_state
  priority :: u8
  delay_ticks :: u32
  func :: u32
  wait_next :: "tid option"
  wait_list_head :: "wait_cell option"
  timed_out :: u8
  notify_pending :: u8
  notify_value :: u32
  stack :: "u32 list"

text \<open>
  \<open>primask\<close>: interrupts masked; \<open>pendsv\<close>: the PendSV exception is pending
  (\<open>SCB_ICSR.PENDSVSET\<close>); \<open>mpu_guard\<close>: the task whose stack bottom the MPU guard
  region covers; \<open>s_ticks\<close>: the millisecond counter of \<open>systick.c\<close>.
\<close>

record kern =
  tcb :: "tid \<Rightarrow> task_t"
  s_task_count :: nat
  g_current_task :: "tid option"
  g_next_task :: "tid option"
  s_started :: u8
  s_tickless_idle_enabled :: u8
  s_idle_loop_count :: u32
  wait_head :: "wait_cell \<Rightarrow> tid option"
  primask :: bool
  pendsv :: bool
  mpu_guard :: "tid option"
  s_ticks :: u32

subsection \<open>Access to the store\<close>

definition upd_tcb :: "tid \<Rightarrow> (task_t \<Rightarrow> task_t) \<Rightarrow> kern \<Rightarrow> kern" where
  "upd_tcb t f k = k\<lparr>tcb := (tcb k)(t := f (tcb k t))\<rparr>"

definition set_head :: "wait_cell \<Rightarrow> tid option \<Rightarrow> kern \<Rightarrow> kern" where
  "set_head c h k = k\<lparr>wait_head := (wait_head k)(c := h)\<rparr>"

definition set_state :: "tid \<Rightarrow> task_state \<Rightarrow> kern \<Rightarrow> kern" where
  "set_state t st = upd_tcb t (\<lambda>x. x\<lparr>state := st\<rparr>)"

definition set_next :: "tid \<Rightarrow> tid option \<Rightarrow> kern \<Rightarrow> kern" where
  "set_next t n = upd_tcb t (\<lambda>x. x\<lparr>wait_next := n\<rparr>)"

lemma upd_tcb_simps [simp]:
  "tcb (upd_tcb t f k) = (tcb k)(t := f (tcb k t))"
  "s_task_count (upd_tcb t f k) = s_task_count k"
  "g_current_task (upd_tcb t f k) = g_current_task k"
  "g_next_task (upd_tcb t f k) = g_next_task k"
  "s_started (upd_tcb t f k) = s_started k"
  "s_tickless_idle_enabled (upd_tcb t f k) = s_tickless_idle_enabled k"
  "s_idle_loop_count (upd_tcb t f k) = s_idle_loop_count k"
  "wait_head (upd_tcb t f k) = wait_head k"
  "primask (upd_tcb t f k) = primask k"
  "pendsv (upd_tcb t f k) = pendsv k"
  "mpu_guard (upd_tcb t f k) = mpu_guard k"
  "s_ticks (upd_tcb t f k) = s_ticks k"
  by (simp_all add: upd_tcb_def)

lemma set_head_simps [simp]:
  "tcb (set_head c h k) = tcb k"
  "s_task_count (set_head c h k) = s_task_count k"
  "g_current_task (set_head c h k) = g_current_task k"
  "g_next_task (set_head c h k) = g_next_task k"
  "s_started (set_head c h k) = s_started k"
  "s_tickless_idle_enabled (set_head c h k) = s_tickless_idle_enabled k"
  "s_idle_loop_count (set_head c h k) = s_idle_loop_count k"
  "wait_head (set_head c h k) = (wait_head k)(c := h)"
  "primask (set_head c h k) = primask k"
  "pendsv (set_head c h k) = pendsv k"
  "mpu_guard (set_head c h k) = mpu_guard k"
  "s_ticks (set_head c h k) = s_ticks k"
  by (simp_all add: set_head_def)

lemma set_state_simps [simp]:
  "tcb (set_state t st k) = (tcb k)(t := (tcb k t)\<lparr>state := st\<rparr>)"
  "s_task_count (set_state t st k) = s_task_count k"
  "g_current_task (set_state t st k) = g_current_task k"
  "g_next_task (set_state t st k) = g_next_task k"
  "s_started (set_state t st k) = s_started k"
  "s_tickless_idle_enabled (set_state t st k) = s_tickless_idle_enabled k"
  "s_idle_loop_count (set_state t st k) = s_idle_loop_count k"
  "wait_head (set_state t st k) = wait_head k"
  "primask (set_state t st k) = primask k"
  "pendsv (set_state t st k) = pendsv k"
  "mpu_guard (set_state t st k) = mpu_guard k"
  "s_ticks (set_state t st k) = s_ticks k"
  by (simp_all add: set_state_def)

lemma set_next_simps [simp]:
  "tcb (set_next t n k) = (tcb k)(t := (tcb k t)\<lparr>wait_next := n\<rparr>)"
  "s_task_count (set_next t n k) = s_task_count k"
  "g_current_task (set_next t n k) = g_current_task k"
  "g_next_task (set_next t n k) = g_next_task k"
  "s_started (set_next t n k) = s_started k"
  "s_tickless_idle_enabled (set_next t n k) = s_tickless_idle_enabled k"
  "s_idle_loop_count (set_next t n k) = s_idle_loop_count k"
  "wait_head (set_next t n k) = wait_head k"
  "primask (set_next t n k) = primask k"
  "pendsv (set_next t n k) = pendsv k"
  "mpu_guard (set_next t n k) = mpu_guard k"
  "s_ticks (set_next t n k) = s_ticks k"
  by (simp_all add: set_next_def)

subsection \<open>Critical sections\<close>

text \<open>
  \<open>include/sched_critical.h\<close>: \<open>sched_critical_enter\<close> returns the PRIMASK value it
  found and masks interrupts, \<open>sched_critical_exit\<close> restores the value it is given.
\<close>

definition sched_critical_enter :: "kern \<Rightarrow> bool \<times> kern" where
  "sched_critical_enter k = (primask k, k\<lparr>primask := True\<rparr>)"

definition sched_critical_exit :: "bool \<Rightarrow> kern \<Rightarrow> kern" where
  "sched_critical_exit p k = k\<lparr>primask := p\<rparr>"

declare sched_critical_enter_def [kdefs] sched_critical_exit_def [kdefs]

subsection \<open>Initial memory\<close>

text \<open>Static storage is zeroed before \<open>main\<close>: state 0 is \<open>TASK_READY\<close>.\<close>

definition zero_task :: task_t where
  "zero_task = \<lparr>sp = 0, state = TASK_READY, priority = 0, delay_ticks = 0, func = 0,
     wait_next = None, wait_list_head = None, timed_out = 0, notify_pending = 0,
     notify_value = 0, stack = replicate TASK_STACK_SIZE 0\<rparr>"

definition boot_kern :: kern where
  "boot_kern = \<lparr>tcb = (\<lambda>_. zero_task), s_task_count = 0, g_current_task = None,
     g_next_task = None, s_started = 0, s_tickless_idle_enabled = 0, s_idle_loop_count = 0,
     wait_head = (\<lambda>_. None), primask = False, pendsv = False, mpu_guard = None, s_ticks = 0\<rparr>"

end
