(* ===== verification/StackMonitor.thy ===== *)
theory StackMonitor
  imports Task
begin

text \<open>
  Task stacks: the initial frame \<open>scheduler.c: task_stack_init\<close> builds, the context save
  and restore of \<open>PendSV_Handler\<close> (\<open>kernel/arch/cortex_m7\<close>), and the high-water mark of
  \<open>kernel/core/stack_monitor.c\<close>. A stack pointer is a word index into the stack; the
  stack array is 32-byte aligned, so an address rounded down to 8 bytes is an index
  rounded down to an even number.
\<close>

subsection \<open>Pushing and popping words\<close>

definition push_word :: "u32 \<Rightarrow> nat \<times> u32 list \<Rightarrow> nat \<times> u32 list" where
  "push_word v s = (fst s - 1, (snd s)[fst s - 1 := v])"

definition task_stack_init :: "u32 list \<Rightarrow> nat \<Rightarrow> u32 \<Rightarrow> nat \<times> u32 list" where
  "task_stack_init st sp0 f =
     fold push_word
       [0x01000000, f OR 1, 0xFFFFFFFD, 0, 0, 0, 0, 0,
        0xFFFFFFFD, 0, 0, 0, 0, 0, 0, 0, 0]
       (sp0 - sp0 mod 2, st)"

subsection \<open>The high-water mark\<close>

definition STACK_FILL_BYTE :: u8 where "STACK_FILL_BYTE = 0xA5"
definition STACK_SCAN_START_INDEX :: nat where "STACK_SCAN_START_INDEX = 9"

text \<open>The four bytes of a word in memory (little endian), and the word \<open>memset\<close> leaves.\<close>

definition word_bytes :: "u32 \<Rightarrow> u8 list" where
  "word_bytes w = [ucast w, ucast (drop_bit 8 w), ucast (drop_bit 16 w), ucast (drop_bit 24 w)]"

definition fill_word :: u32 where "fill_word = 0xA5A5A5A5"

definition stack_monitor_fill :: "task_t \<Rightarrow> task_t" where
  "stack_monitor_fill t =
     (if sp t \<le> STACK_SCAN_START_INDEX then t
      else t\<lparr>stack := take STACK_SCAN_START_INDEX (stack t)
                @ replicate (sp t - STACK_SCAN_START_INDEX) fill_word @ drop (sp t) (stack t)\<rparr>)"

definition stack_monitor_get_used_bytes :: "task_t option \<Rightarrow> nat" where
  "stack_monitor_get_used_bytes t =
     (case t of
        None \<Rightarrow> 0
      | Some t \<Rightarrow>
          (let bytes = concat (map word_bytes (drop STACK_SCAN_START_INDEX (stack t)));
               region_bytes = (TASK_STACK_SIZE - STACK_SCAN_START_INDEX) * 4;
               untouched = length (takeWhile (\<lambda>b. b = STACK_FILL_BYTE) (take region_bytes bytes))
           in region_bytes - untouched))"

definition stack_monitor_get_used_percent :: "task_t option \<Rightarrow> u8" where
  "stack_monitor_get_used_percent t =
     (case t of
        None \<Rightarrow> 0
      | Some _ \<Rightarrow>
          (let total_bytes = TASK_STACK_SIZE * 4;
               used_bytes = stack_monitor_get_used_bytes t
           in of_nat ((used_bytes * 100) div total_bytes)))"

end
