(* ===== verification/WaitList.thy ===== *)
theory WaitList
  imports Task
begin

text \<open>
  The priority-ordered intrusive wait lists. \<open>queue.c\<close>, \<open>mutex.c\<close>, \<open>semaphore.c\<close> and
  \<open>event.c\<close> each hold a static copy of \<open>wq_insert\<close> (and all but \<open>event.c\<close> of
  \<open>wq_pop\<close>); \<open>scheduler.c\<close> holds \<open>sched_wait_list_remove\<close>. They are modelled on the
  pointer level: the walks follow \<open>wait_next\<close> through the store, and a walk over a cyclic
  chain does not end (\<open>None\<close>). The lemmas relate them to lists: \<open>wlist k c xs\<close> says that
  the cell \<open>c\<close> heads an acyclic chain of exactly the tasks \<open>xs\<close>; on such chains the
  operations end and compute \<open>prio_insert\<close>, \<open>tl\<close> and \<open>remove1\<close>.
\<close>

subsection \<open>Pointer-level operations\<close>

text \<open>\<open>while (cur->wait_next != NULL && cur->wait_next->priority <= t->priority)\<close>\<close>

partial_function (option) wq_walk :: "(tid \<Rightarrow> task_t) \<Rightarrow> u8 \<Rightarrow> tid \<Rightarrow> tid option" where
  "wq_walk st p cur =
     (case wait_next (st cur) of
        None \<Rightarrow> Some cur
      | Some n \<Rightarrow> if priority (st n) \<le> p then wq_walk st p n else Some cur)"

declare wq_walk.simps [code]

definition wq_insert :: "wait_cell \<Rightarrow> tid \<Rightarrow> kern \<Rightarrow> kern option" where
  "wq_insert c t k =
     (let k1 = set_next t None k;
          front = set_head c (Some t) (set_next t (wait_head k1 c) k1)
      in case wait_head k1 c of
           None \<Rightarrow> Some front
         | Some h \<Rightarrow>
             if priority (tcb k1 t) < priority (tcb k1 h) then Some front
             else (case wq_walk (tcb k1) (priority (tcb k1 t)) h of
                     None \<Rightarrow> None
                   | Some cur \<Rightarrow>
                       Some (set_next cur (Some t) (set_next t (wait_next (tcb k1 cur)) k1))))"

definition wq_pop :: "wait_cell \<Rightarrow> kern \<Rightarrow> tid option \<times> kern" where
  "wq_pop c k =
     (case wait_head k c of
        None \<Rightarrow> (None, k)
      | Some t \<Rightarrow> (Some t, set_head c (wait_next (tcb k t)) k))"

text \<open>\<open>while ((cur != NULL) && (cur->wait_next != t))\<close>: the predecessor of \<open>t\<close>, if any.\<close>

partial_function (option) wl_find_prev ::
    "(tid \<Rightarrow> task_t) \<Rightarrow> tid \<Rightarrow> tid option \<Rightarrow> tid option option" where
  "wl_find_prev st t cur =
     (case cur of
        None \<Rightarrow> Some None
      | Some u \<Rightarrow> if wait_next (st u) \<noteq> Some t then wl_find_prev st t (wait_next (st u))
                  else Some (Some u))"

declare wl_find_prev.simps [code]

definition sched_wait_list_remove :: "wait_cell \<Rightarrow> tid \<Rightarrow> kern \<Rightarrow> kern option" where
  "sched_wait_list_remove c t k =
     (if wait_head k c = Some t then Some (set_head c (wait_next (tcb k t)) k)
      else (case wl_find_prev (tcb k) t (wait_head k c) of
              None \<Rightarrow> None
            | Some None \<Rightarrow> Some k
            | Some (Some cur) \<Rightarrow> Some (set_next cur (wait_next (tcb k t)) k)))"

subsection \<open>Chains and lists\<close>

primrec wseg :: "(tid \<Rightarrow> tid option) \<Rightarrow> tid option \<Rightarrow> tid list \<Rightarrow> tid option \<Rightarrow> bool" where
  "wseg nx a [] b \<longleftrightarrow> a = b"
| "wseg nx a (t # ts) b \<longleftrightarrow> a = Some t \<and> wseg nx (nx t) ts b"

definition wlist :: "kern \<Rightarrow> wait_cell \<Rightarrow> tid list \<Rightarrow> bool" where
  "wlist k c xs \<longleftrightarrow> wseg (\<lambda>u. wait_next (tcb k u)) (wait_head k c) xs None"

lemma wseg_append: "wseg nx a (xs @ ys) b \<longleftrightarrow> (\<exists>m. wseg nx a xs m \<and> wseg nx m ys b)"
  by (induction xs arbitrary: a) auto

lemma wseg_cong: "(\<And>u. u \<in> set xs \<Longrightarrow> nx u = nx' u) \<Longrightarrow> wseg nx a xs b = wseg nx' a xs b"
  by (induction xs arbitrary: a) auto

lemma wseg_upd [simp]: "t \<notin> set xs \<Longrightarrow> wseg (nx(t := v)) a xs b = wseg nx a xs b"
  by (rule wseg_cong) auto

lemma wseg_unique: "wseg nx a xs None \<Longrightarrow> wseg nx a ys None \<Longrightarrow> xs = ys"
proof (induction xs arbitrary: a ys)
  case Nil
  then show ?case by (cases ys) auto
next
  case (Cons x xs)
  then obtain zs where "ys = x # zs" by (cases ys) auto
  with Cons show ?case by auto
qed

lemma wseg_distinct: "wseg nx a xs None \<Longrightarrow> distinct xs"
proof (induction xs arbitrary: a)
  case (Cons x xs)
  from Cons.prems have tail: "wseg nx (nx x) xs None" by simp
  have "x \<notin> set xs"
  proof
    assume "x \<in> set xs"
    then obtain ys zs where "xs = ys @ x # zs" by (meson split_list)
    with tail have "wseg nx (nx x) zs None" by (auto simp: wseg_append)
    with tail have "zs = xs" by (rule wseg_unique [symmetric])
    with \<open>xs = ys @ x # zs\<close> have "length zs = length ys + Suc (length zs)"
      by (metis length_append length_Cons)
    then show False by simp
  qed
  with Cons.IH [OF tail] show ?case by simp
qed simp

lemma wlist_unique: "wlist k c xs \<Longrightarrow> wlist k c ys \<Longrightarrow> xs = ys"
  unfolding wlist_def by (rule wseg_unique)

lemma wlist_distinct: "wlist k c xs \<Longrightarrow> distinct xs"
  unfolding wlist_def by (rule wseg_distinct)

lemma wlist_Nil [simp]: "wlist k c [] \<longleftrightarrow> wait_head k c = None"
  by (auto simp: wlist_def)

lemma wlist_head_None: "wlist k c xs \<Longrightarrow> wait_head k c = None \<Longrightarrow> xs = []"
  by (cases xs) (auto simp: wlist_def)

lemma wlist_head_Some: "wlist k c xs \<Longrightarrow> wait_head k c = Some t \<Longrightarrow> \<exists>ys. xs = t # ys"
  by (cases xs) (auto simp: wlist_def)

lemma wlist_cong:
  assumes "wait_head k' c = wait_head k c"
    and "\<And>u. u \<in> set xs \<Longrightarrow> wait_next (tcb k' u) = wait_next (tcb k u)"
  shows "wlist k' c xs = wlist k c xs"
  using assms by (auto simp: wlist_def intro: wseg_cong [THEN iffD1, rotated])

text \<open>Everything of the kernel state but the links of the wait lists.\<close>

definition erase_links :: "kern \<Rightarrow> kern" where
  "erase_links k = k\<lparr>tcb := (\<lambda>u. (tcb k u)\<lparr>wait_next := None\<rparr>), wait_head := (\<lambda>_. None)\<rparr>"

lemma erase_links_set_next [simp]: "erase_links (set_next t n k) = erase_links k"
  by (simp add: erase_links_def set_next_def upd_tcb_def fun_eq_iff)

lemma erase_links_set_head [simp]: "erase_links (set_head c h k) = erase_links k"
  by (simp add: erase_links_def set_head_def)

lemma erase_links_eqD:
  assumes "erase_links k' = erase_links k"
  shows "state (tcb k' u) = state (tcb k u)" "priority (tcb k' u) = priority (tcb k u)"
    "delay_ticks (tcb k' u) = delay_ticks (tcb k u)"
    "wait_list_head (tcb k' u) = wait_list_head (tcb k u)"
    "timed_out (tcb k' u) = timed_out (tcb k u)"
    "notify_pending (tcb k' u) = notify_pending (tcb k u)"
    "notify_value (tcb k' u) = notify_value (tcb k u)"
    "g_current_task k' = g_current_task k" "g_next_task k' = g_next_task k"
    "s_task_count k' = s_task_count k" "primask k' = primask k" "pendsv k' = pendsv k"
    "mpu_guard k' = mpu_guard k" "s_ticks k' = s_ticks k"
proof -
  from assms have t: "tcb (erase_links k') u = tcb (erase_links k) u" by simp
  then have "(tcb k' u)\<lparr>wait_next := None\<rparr> = (tcb k u)\<lparr>wait_next := None\<rparr>"
    by (simp add: erase_links_def)
  then show "state (tcb k' u) = state (tcb k u)" "priority (tcb k' u) = priority (tcb k u)"
    "delay_ticks (tcb k' u) = delay_ticks (tcb k u)"
    "wait_list_head (tcb k' u) = wait_list_head (tcb k u)"
    "timed_out (tcb k' u) = timed_out (tcb k u)"
    "notify_pending (tcb k' u) = notify_pending (tcb k u)"
    "notify_value (tcb k' u) = notify_value (tcb k u)"
    by (cases "tcb k' u"; cases "tcb k u"; simp)+
  from assms show "g_current_task k' = g_current_task k" "g_next_task k' = g_next_task k"
    "s_task_count k' = s_task_count k" "primask k' = primask k" "pendsv k' = pendsv k"
    "mpu_guard k' = mpu_guard k" "s_ticks k' = s_ticks k"
    by (cases k'; cases k; simp add: erase_links_def)+
qed

subsection \<open>The list-level operations\<close>

fun prio_insert :: "('a \<Rightarrow> u8) \<Rightarrow> 'a \<Rightarrow> 'a list \<Rightarrow> 'a list" where
  "prio_insert p t [] = [t]"
| "prio_insert p t (x # xs) = (if p t < p x then t # x # xs else x # prio_insert p t xs)"

definition prio_sorted :: "('a \<Rightarrow> u8) \<Rightarrow> 'a list \<Rightarrow> bool" where
  "prio_sorted p xs = sorted_wrt (\<lambda>a b. p a \<le> p b) xs"

lemma set_prio_insert [simp]: "set (prio_insert p t xs) = insert t (set xs)"
  by (induction xs) auto

lemma distinct_prio_insert: "distinct xs \<Longrightarrow> t \<notin> set xs \<Longrightarrow> distinct (prio_insert p t xs)"
  by (induction xs) auto

lemma length_prio_insert [simp]: "length (prio_insert p t xs) = Suc (length xs)"
  by (induction xs) auto

lemma prio_sorted_insert: "prio_sorted p xs \<Longrightarrow> prio_sorted p (prio_insert p t xs)"
  unfolding prio_sorted_def
  by (induction xs) (auto simp: not_less)

lemma prio_insert_stable:
  "prio_sorted p xs \<Longrightarrow>
   filter (\<lambda>x. p x = q) (prio_insert p t xs)
     = filter (\<lambda>x. p x = q) xs @ (if p t = q then [t] else [])"
proof (induction xs)
  case (Cons x xs)
  show ?case
  proof (cases "p t < p x")
    case True
    with Cons.prems have "\<forall>y\<in>set (x # xs). p y \<noteq> p t"
      by (auto simp: prio_sorted_def)
    then have "filter (\<lambda>x. p x = p t) (x # xs) = []" by (simp add: filter_empty_conv)
    with True show ?thesis by auto
  next
    case False
    with Cons show ?thesis by (auto simp: prio_sorted_def)
  qed
qed simp

lemma prio_insert_split:
  "\<forall>y\<in>set ys. p y \<le> p t \<Longrightarrow> zs = [] \<or> p t < p (hd zs) \<Longrightarrow>
   prio_insert p t (ys @ zs) = ys @ t # zs"
proof (induction ys)
  case Nil
  then show ?case by (cases zs) auto
next
  case (Cons y ys)
  then show ?case by (auto simp: not_less)
qed

lemma prio_sorted_hd_le: "prio_sorted p (x # xs) \<Longrightarrow> y \<in> set (x # xs) \<Longrightarrow> p x \<le> p y"
  by (auto simp: prio_sorted_def)

lemma prio_sorted_tl: "prio_sorted p xs \<Longrightarrow> prio_sorted p (tl xs)"
  by (cases xs) (auto simp: prio_sorted_def)

lemma prio_sorted_remove1: "prio_sorted p xs \<Longrightarrow> prio_sorted p (remove1 t xs)"
proof (induction xs)
  case (Cons x xs)
  then show ?case
    using set_remove1_subset [of t xs] by (auto simp: prio_sorted_def)
qed simp

lemma prio_sorted_cong:
  "(\<And>x. x \<in> set xs \<Longrightarrow> p x = q x) \<Longrightarrow> prio_sorted p xs = prio_sorted q xs"
  unfolding prio_sorted_def by (induction xs) auto

lemma prio_insert_cong:
  "(\<And>x. x \<in> insert t (set xs) \<Longrightarrow> p x = q x) \<Longrightarrow> prio_insert p t xs = prio_insert q t xs"
  by (induction xs) auto


subsection \<open>Refinement: the pointer operations compute the list operations\<close>

lemma wq_walk_ends:
  "wseg (\<lambda>u. wait_next (st u)) (Some h) (h # xs) None \<Longrightarrow> priority (st h) \<le> p \<Longrightarrow>
   \<exists>ys cur zs. h # xs = ys @ cur # zs \<and> wq_walk st p h = Some cur
     \<and> (\<forall>y\<in>set (ys @ [cur]). priority (st y) \<le> p) \<and> (zs = [] \<or> p < priority (st (hd zs)))"
proof (induction xs arbitrary: h)
  case Nil
  then have "wq_walk st p h = Some h" by (subst wq_walk.simps) simp
  with Nil.prems show ?case by (intro exI [of _ "[]"] exI [of _ h]) auto
next
  case (Cons x xs)
  then have nx: "wait_next (st h) = Some x" by simp
  show ?case
  proof (cases "priority (st x) \<le> p")
    case True
    with Cons.IH [of x] Cons.prems obtain ys cur zs where
      *: "x # xs = ys @ cur # zs" "wq_walk st p x = Some cur"
        "\<forall>y\<in>set (ys @ [cur]). priority (st y) \<le> p" "zs = [] \<or> p < priority (st (hd zs))"
      by auto
    from nx True *(2) have "wq_walk st p h = Some cur" by (subst wq_walk.simps) simp
    with * Cons.prems(2) show ?thesis
      by (intro exI [of _ "h # ys"] exI [of _ cur] exI [of _ zs]) auto
  next
    case False
    with nx have "wq_walk st p h = Some h" by (subst wq_walk.simps) simp
    with False Cons.prems show ?thesis
      by (intro exI [of _ "[]"] exI [of _ h] exI [of _ "x # xs"]) (auto simp: not_le)
  qed
qed

text \<open>Linking a fresh node after \<open>cur\<close>.\<close>

lemma wseg_insert_after:
  assumes "wseg nx a (ys @ cur # zs) None" and "t \<notin> set (ys @ cur # zs)"
  shows "wseg (nx(t := nx cur, cur := Some t)) a (ys @ cur # t # zs) None"
proof -
  from assms(1) have "distinct (ys @ cur # zs)" by (rule wseg_distinct)
  with assms show ?thesis by (auto simp: wseg_append)
qed

text \<open>The two cases of the insertion: before the head, and behind the last task it yields to.\<close>

lemma wq_insert_front:
  assumes w: "wlist k c xs" and t: "t \<notin> set xs"
    and front: "xs = [] \<or> priority (tcb k t) < priority (tcb k (hd xs))"
  shows "wq_insert c t k = Some (set_head c (Some t) (set_next t (wait_head k c) (set_next t None k)))"
    and "wlist (set_head c (Some t) (set_next t (wait_head k c) (set_next t None k))) c (t # xs)"
proof -
  show "wq_insert c t k = Some (set_head c (Some t) (set_next t (wait_head k c) (set_next t None k)))"
  proof (cases xs)
    case Nil
    with w show ?thesis by (simp add: wq_insert_def)
  next
    case (Cons h hs)
    with w have "wait_head k c = Some h" by (simp add: wlist_def)
    with front Cons t show ?thesis by (auto simp: wq_insert_def Let_def)
  qed
  show "wlist (set_head c (Some t) (set_next t (wait_head k c) (set_next t None k))) c (t # xs)"
    using w t by (auto simp: wlist_def intro: wseg_cong [THEN iffD1, rotated])
qed

lemma wq_insert_behind:
  assumes w: "wlist k c xs" and t: "t \<notin> set xs"
    and behind: "xs \<noteq> []" "priority (tcb k (hd xs)) \<le> priority (tcb k t)"
  shows "\<exists>cur \<in> set xs. wq_insert c t k = Some (set_next cur (Some t) (set_next t (wait_next (tcb k cur)) (set_next t None k)))
    \<and> wlist (set_next cur (Some t) (set_next t (wait_next (tcb k cur)) (set_next t None k))) c
        (prio_insert (\<lambda>u. priority (tcb k u)) t xs)"
proof -
  let ?p = "\<lambda>u. priority (tcb k u)" and ?k1 = "set_next t None k"
  have w1: "wlist ?k1 c xs" by (rule wlist_cong [THEN iffD2, OF _ _ w]) (use t in auto)
  obtain h hs where xs: "xs = h # hs" using behind(1) by (cases xs) auto
  from w xs have hd: "wait_head k c = Some h" by (simp add: wlist_def)
  from w1 xs have seg: "wseg (\<lambda>u. wait_next (tcb ?k1 u)) (Some h) (h # hs) None" by (simp add: wlist_def)
  have p1: "priority (tcb ?k1 y) = ?p y" for y by simp
  have le1: "priority (tcb ?k1 h) \<le> priority (tcb ?k1 t)" unfolding p1 using behind(2) xs by simp
  obtain ys cur zs where *: "h # hs = ys @ cur # zs"
    "wq_walk (tcb ?k1) (priority (tcb ?k1 t)) h = Some cur"
    "\<forall>y\<in>set (ys @ [cur]). priority (tcb ?k1 y) \<le> priority (tcb ?k1 t)"
    "zs = [] \<or> priority (tcb ?k1 t) < priority (tcb ?k1 (hd zs))"
    using wq_walk_ends [OF seg le1] by blast
  have tn: "t \<notin> set (ys @ cur # zs)" using t xs * by auto
  then have same: "wait_next (tcb ?k1 cur) = wait_next (tcb k cur)" by auto
  let ?f = "set_next cur (Some t) (set_next t (wait_next (tcb k cur)) ?k1)"
  have "wq_insert c t k = Some ?f"
    using hd le1 *(2) same unfolding wq_insert_def Let_def by (simp add: not_less del: set_next_simps(1))
  moreover have pins: "prio_insert ?p t xs = (ys @ [cur]) @ t # zs"
    using prio_insert_split [of "ys @ [cur]" ?p t zs] *(1,3,4) xs unfolding p1 by simp
  have "wlist ?f c (ys @ cur # t # zs)"
  proof -
    have "wseg (\<lambda>u. wait_next (tcb ?k1 u)) (wait_head k c) (ys @ cur # zs) None"
      using w1 xs * by (simp add: wlist_def)
    from wseg_insert_after [OF this tn]
    have "wseg ((\<lambda>u. wait_next (tcb ?k1 u))(t := wait_next (tcb ?k1 cur), cur := Some t))
      (wait_head k c) (ys @ cur # t # zs) None" .
    moreover have "(\<lambda>u. wait_next (tcb ?k1 u))(t := wait_next (tcb ?k1 cur), cur := Some t)
      = (\<lambda>u. wait_next (tcb ?f u))"
      using tn by (auto simp: fun_eq_iff)
    ultimately show ?thesis by (simp add: wlist_def)
  qed
  then have "wlist ?f c (prio_insert ?p t xs)" using pins by simp
  moreover have "cur \<in> set xs" using * xs by auto
  ultimately show ?thesis by blast
qed

lemma wq_insert_refines:
  assumes w: "wlist k c xs" and t: "t \<notin> set xs"
  shows "\<exists>k'. wq_insert c t k = Some k' \<and> erase_links k' = erase_links k
     \<and> wlist k' c (prio_insert (\<lambda>u. priority (tcb k u)) t xs)
     \<and> (\<forall>d. d \<noteq> c \<longrightarrow> wait_head k' d = wait_head k d)
     \<and> (\<forall>u. u \<notin> insert t (set xs) \<longrightarrow> wait_next (tcb k' u) = wait_next (tcb k u))"
proof (cases "xs = [] \<or> priority (tcb k t) < priority (tcb k (hd xs))")
  case True
  from True have "prio_insert (\<lambda>u. priority (tcb k u)) t xs = t # xs" by (cases xs) auto
  then show ?thesis using wq_insert_front [OF w t True] by auto
next
  case False
  then have "xs \<noteq> []" "priority (tcb k (hd xs)) \<le> priority (tcb k t)" by (simp_all add: not_less)
  from wq_insert_behind [OF w t this] show ?thesis by auto
qed

lemma wq_pop_Nil: "wlist k c [] \<Longrightarrow> wq_pop c k = (None, k)"
  by (simp add: wq_pop_def)

lemma wq_pop_Cons:
  assumes "wlist k c (t # xs)"
  shows "\<exists>k'. wq_pop c k = (Some t, k') \<and> wlist k' c xs \<and> tcb k' = tcb k
     \<and> erase_links k' = erase_links k \<and> (\<forall>d. d \<noteq> c \<longrightarrow> wait_head k' d = wait_head k d)"
  using assms by (auto simp: wq_pop_def wlist_def)

lemma wq_pop_erase_links [simp]: "erase_links (snd (wq_pop c k)) = erase_links k"
  by (simp add: wq_pop_def split: option.splits)

lemma wq_insert_erase_links: "wq_insert c t k = Some k' \<Longrightarrow> erase_links k' = erase_links k"
  by (auto simp: wq_insert_def Let_def split: option.splits if_splits)

lemma wl_find_prev_ends:
  "wseg (\<lambda>u. wait_next (st u)) a xs None \<Longrightarrow> a \<noteq> Some t \<Longrightarrow>
   (t \<notin> set xs \<and> wl_find_prev st t a = Some None)
   \<or> (\<exists>ys cur zs. xs = ys @ cur # t # zs \<and> wl_find_prev st t a = Some (Some cur))"
proof (induction xs arbitrary: a)
  case Nil
  then show ?case by (simp add: wl_find_prev.simps)
next
  case (Cons x xs)
  then have a: "a = Some x" and tail: "wseg (\<lambda>u. wait_next (st u)) (wait_next (st x)) xs None"
    by auto
  show ?case
  proof (cases "wait_next (st x) = Some t")
    case True
    with a have "wl_find_prev st t a = Some (Some x)" by (simp add: wl_find_prev.simps)
    moreover from True tail obtain zs where "xs = t # zs" by (cases xs) auto
    ultimately show ?thesis by (intro disjI2 exI [of _ "[]"]) auto
  next
    case False
    with a have *: "wl_find_prev st t a = wl_find_prev st t (wait_next (st x))"
      by (subst wl_find_prev.simps) simp
    from Cons.IH [OF tail False] show ?thesis
    proof
      assume "t \<notin> set xs \<and> wl_find_prev st t (wait_next (st x)) = Some None"
      with * a Cons.prems show ?thesis by auto
    next
      assume "\<exists>ys cur zs. xs = ys @ cur # t # zs
        \<and> wl_find_prev st t (wait_next (st x)) = Some (Some cur)"
      then obtain ys cur zs where "xs = ys @ cur # t # zs"
        "wl_find_prev st t (wait_next (st x)) = Some (Some cur)" by blast
      with * show ?thesis by (intro disjI2 exI [of _ "x # ys"]) auto
    qed
  qed
qed

lemma wseg_unlink:
  assumes "wseg nx a (ys @ cur # t # zs) None"
  shows "wseg (nx(cur := nx t)) a (ys @ cur # zs) None"
proof -
  from assms have "distinct (ys @ cur # t # zs)" by (rule wseg_distinct)
  with assms show ?thesis by (auto simp: wseg_append)
qed

lemma sched_wait_list_remove_refines:
  assumes w: "wlist k c xs"
  shows "\<exists>k'. sched_wait_list_remove c t k = Some k' \<and> erase_links k' = erase_links k
     \<and> wlist k' c (remove1 t xs) \<and> (\<forall>d. d \<noteq> c \<longrightarrow> wait_head k' d = wait_head k d)
     \<and> (\<forall>u. u \<notin> set xs \<longrightarrow> wait_next (tcb k' u) = wait_next (tcb k u))"
proof (cases "wait_head k c = Some t")
  case True
  with w obtain ys where xs: "xs = t # ys" using wlist_head_Some by blast
  with w True show ?thesis
    by (auto simp: sched_wait_list_remove_def wlist_def)
next
  case False
  from w have seg: "wseg (\<lambda>u. wait_next (tcb k u)) (wait_head k c) xs None"
    by (simp add: wlist_def)
  from wl_find_prev_ends [OF seg False] show ?thesis
  proof
    assume "t \<notin> set xs \<and> wl_find_prev (tcb k) t (wait_head k c) = Some None"
    with False w show ?thesis
      by (simp add: sched_wait_list_remove_def remove1_idem)
  next
    assume "\<exists>ys cur zs. xs = ys @ cur # t # zs
      \<and> wl_find_prev (tcb k) t (wait_head k c) = Some (Some cur)"
    then obtain ys cur zs where xs: "xs = ys @ cur # t # zs"
      and p: "wl_find_prev (tcb k) t (wait_head k c) = Some (Some cur)" by blast
    let ?f = "set_next cur (wait_next (tcb k t)) k"
    from False p have rm: "sched_wait_list_remove c t k = Some ?f"
      by (simp add: sched_wait_list_remove_def)
    from w have d: "distinct xs" by (rule wlist_distinct)
    with xs have "remove1 t xs = ys @ cur # zs" by (auto simp: remove1_append)
    moreover have "wlist ?f c (ys @ cur # zs)"
      using wseg_unlink [of "\<lambda>u. wait_next (tcb k u)" "wait_head k c" ys cur t zs] w xs
      unfolding wlist_def
      by (auto elim!: wseg_cong [THEN iffD1, rotated])
    ultimately show ?thesis using rm xs by auto
  qed
qed

end
