(* ===== verification/Scheduler.thy ===== *)
theory Scheduler
  imports StackMonitor WaitList
begin

text \<open>
  \<open>kernel/core/scheduler.c\<close>: choice of the next task, the tick, the delays, pausing and
  resuming, blocking and waking. Every function is a step on the kernel state. A counted
  loop is a fold over the indices; a loop with \<open>break\<close> is \<open>find\<close>. A function that
  dereferences \<open>g_current_task\<close> ends in \<open>Trap\<close> where it is NULL.
\<close>

subsection \<open>Constants and register writes\<close>

definition TASK_STACK_CANARY_INDEX :: nat where "TASK_STACK_CANARY_INDEX = 8"
definition TASK_STACK_CANARY_VALUE :: u32 where "TASK_STACK_CANARY_VALUE = 0xDEADBEEF"
definition TASK_STACK_CANARY_ALL_OK :: u8 where "TASK_STACK_CANARY_ALL_OK = 0xFF"

definition trigger_pendsv :: "kern \<Rightarrow> kern" where
  "trigger_pendsv k = k\<lparr>pendsv := True\<rparr>"

definition mpu_set_stack_guard :: "tid \<Rightarrow> kern \<Rightarrow> kern" where
  "mpu_set_stack_guard t k = k\<lparr>mpu_guard := Some t\<rparr>"

subsection \<open>Who runs next\<close>

definition sched_best :: "kern \<Rightarrow> u8 \<times> tid" where
  "sched_best k =
     fold (\<lambda>i (best, chosen).
             if state (tcb k (Task i)) = TASK_READY \<and> priority (tcb k (Task i)) < best
             then (priority (tcb k (Task i)), Task i) else (best, chosen))
          [0..<s_task_count k] (0xFF, Idle)"

definition sched_start_index :: "kern \<Rightarrow> nat" where
  "sched_start_index k =
     (case find (\<lambda>i. g_current_task k = Some (Task i)) [0..<s_task_count k] of
        None \<Rightarrow> 0 | Some i \<Rightarrow> i)"

definition sched_select_next :: "kern \<Rightarrow> tid" where
  "sched_select_next k =
     (let (best, chosen) = sched_best k; n = s_task_count k in
      if chosen \<noteq> Idle \<and> g_current_task k \<noteq> None then
        (let start = sched_start_index k in
         case find (\<lambda>j. let idx = (start + j) mod n in
                      state (tcb k (Task idx)) = TASK_READY
                      \<and> priority (tcb k (Task idx)) = best) [1..<n] of
           None \<Rightarrow> chosen
         | Some j \<Rightarrow> Task ((start + j) mod n))
      else chosen)"

text \<open>
  The first statement of \<open>sched_commit_next\<close>: a task that was chosen but never switched to
  goes back to READY.
\<close>

definition demote_next :: "kern \<Rightarrow> kern" where
  "demote_next k =
     (case g_next_task k of
        None \<Rightarrow> k
      | Some n \<Rightarrow>
          if g_next_task k \<noteq> g_current_task k \<and> state (tcb k n) = TASK_RUNNING
          then set_state n TASK_READY k else k)"

definition sched_commit_next :: "kern \<Rightarrow> kern" where
  "sched_commit_next k =
     (let k1 = demote_next k;
          n = sched_select_next k1;
          k2 = k1\<lparr>g_next_task := Some n\<rparr>;
          k3 = (if state (tcb k2 n) = TASK_READY then set_state n TASK_RUNNING k2 else k2)
      in mpu_set_stack_guard n k3)"

text \<open>\<open>if ((g_current_task != NULL) && (g_current_task->state == TASK_RUNNING)) ...\<close>\<close>

definition demote_current :: "kern \<Rightarrow> kern" where
  "demote_current k =
     (case g_current_task k of
        None \<Rightarrow> k
      | Some c \<Rightarrow> if state (tcb k c) = TASK_RUNNING then set_state c TASK_READY k else k)"

text \<open>\<open>if (g_next_task != g_current_task) trigger_pendsv();\<close>\<close>

definition pend_if_switch :: "kern \<Rightarrow> kern" where
  "pend_if_switch k = (if g_next_task k \<noteq> g_current_task k then trigger_pendsv k else k)"

subsection \<open>The tick\<close>

definition tick_one :: "u32 \<Rightarrow> nat \<Rightarrow> kern \<Rightarrow> kern option" where
  "tick_one elapsed_ms i k =
     (let t = Task i; x = tcb k t in
      if state x = TASK_BLOCKED \<and> delay_ticks x > 0 then
        if delay_ticks x \<le> elapsed_ms then
          (let k1 = upd_tcb t (\<lambda>y. y\<lparr>delay_ticks := 0\<rparr>) k in
           case (case wait_list_head x of
                   None \<Rightarrow> Some k1
                 | Some c \<Rightarrow>
                     (case sched_wait_list_remove c t k1 of
                        None \<Rightarrow> None
                      | Some k2 \<Rightarrow>
                          Some (upd_tcb t (\<lambda>y. y\<lparr>wait_list_head := None, timed_out := 1\<rparr>) k2))) of
             None \<Rightarrow> None
           | Some k3 \<Rightarrow> Some (set_state t TASK_READY k3))
        else Some (upd_tcb t (\<lambda>y. y\<lparr>delay_ticks := delay_ticks y - elapsed_ms\<rparr>) k)
      else Some k)"

definition sched_tick_n :: "u32 \<Rightarrow> kern \<Rightarrow> kern option" where
  "sched_tick_n elapsed_ms k =
     (case fold_opt (tick_one elapsed_ms) [0..<s_task_count k] k of
        None \<Rightarrow> None
      | Some k1 \<Rightarrow> Some (pend_if_switch (sched_commit_next (demote_current k1))))"

definition sched_tick :: "kern \<Rightarrow> kern option" where
  "sched_tick k = sched_tick_n 1 k"

text \<open>One round of the loop of \<open>sched_get_next_wakeup_ms\<close>.\<close>

definition wakeup_one :: "kern \<Rightarrow> nat \<Rightarrow> u32 \<Rightarrow> u32" where
  "wakeup_one k i soonest =
     (let x = tcb k (Task i) in
      if state x = TASK_BLOCKED \<and> delay_ticks x > 0 \<and> delay_ticks x < soonest
      then delay_ticks x else soonest)"

definition sched_get_next_wakeup_ms :: "kern \<Rightarrow> u32 \<times> kern" where
  "sched_get_next_wakeup_ms k =
     (let (p, k0) = sched_critical_enter k;
          soonest = fold (wakeup_one k0) [0..<s_task_count k0] 0xFFFFFFFF
      in (soonest, sched_critical_exit p k0))"

subsection \<open>Voluntary yields\<close>

definition sched_delay_ms :: "u32 \<Rightarrow> kern \<Rightarrow> unit outcome \<times> kern" where
  "sched_delay_ms ms k =
     (if ms = 0 then (Ret (), k)
      else case g_current_task k of
             None \<Rightarrow> (Trap, k)
           | Some c \<Rightarrow>
               (let (p, k0) = sched_critical_enter k;
                    k1 = upd_tcb c (\<lambda>y. y\<lparr>delay_ticks := ms, state := TASK_BLOCKED\<rparr>) k0;
                    k2 = sched_critical_exit p (sched_commit_next k1)
                in (Block, trigger_pendsv k2)))"

text \<open>
  The rest of \<open>sched_delay_ms\<close> once the task \<open>t\<close> runs again:
  \<open>while (*ticks > 0U) wfi\<close> on its own \<open>delay_ticks\<close>.
\<close>

definition sched_delay_ms_resume :: "tid \<Rightarrow> kern \<Rightarrow> unit outcome" where
  "sched_delay_ms_resume t k = (if delay_ticks (tcb k t) > 0 then Again else Ret ())"

definition sched_task_pause :: "nat \<Rightarrow> kern \<Rightarrow> kern" where
  "sched_task_pause index k =
     (if index \<ge> s_task_count k then k
      else (let (p, k0) = sched_critical_enter k
            in sched_critical_exit p (set_state (Task index) TASK_PAUSED k0)))"

definition sched_task_resume :: "nat \<Rightarrow> kern \<Rightarrow> kern" where
  "sched_task_resume index k =
     (if index \<ge> s_task_count k then k
      else (let (p, k0) = sched_critical_enter k;
                k1 = (if state (tcb k0 (Task index)) = TASK_PAUSED
                      then set_state (Task index) TASK_READY k0 else k0)
            in sched_critical_exit p k1))"

definition sched_yield :: "kern \<Rightarrow> kern" where
  "sched_yield k =
     (let (p, k0) = sched_critical_enter k;
          k1 = (case g_current_task k0 of
                  None \<Rightarrow> k0
                | Some c \<Rightarrow> sched_commit_next (set_state c TASK_READY k0))
      in trigger_pendsv (sched_critical_exit p k1))"

subsection \<open>Blocking and waking\<close>

definition sched_pick_and_mark :: "kern \<Rightarrow> tid option \<times> kern" where
  "sched_pick_and_mark k =
     (let k1 = sched_commit_next (demote_current k) in (g_next_task k1, k1))"

definition sched_block_locked :: "kern \<Rightarrow> kern" where
  "sched_block_locked k =
     (let (n, k1) = sched_pick_and_mark k in trigger_pendsv (k1\<lparr>g_next_task := n\<rparr>))"

definition sched_block :: "kern \<Rightarrow> kern" where
  "sched_block k =
     (let (p, k0) = sched_critical_enter k; (n, k1) = sched_pick_and_mark k0
      in trigger_pendsv (sched_critical_exit p (k1\<lparr>g_next_task := n\<rparr>)))"

definition sched_wake_task :: "tid option \<Rightarrow> kern \<Rightarrow> kern" where
  "sched_wake_task t k =
     (case t of
        None \<Rightarrow> k
      | Some t \<Rightarrow>
          (let (p, k0) = sched_critical_enter k;
               k1 = upd_tcb t (\<lambda>y. y\<lparr>wait_next := None, delay_ticks := 0, state := TASK_READY\<rparr>) k0;
               k2 = sched_commit_next (demote_current k1)
           in pend_if_switch (sched_critical_exit p k2)))"

text \<open>The PendSV handler (\<open>kernel/arch\<close>) makes the chosen task the current one.\<close>

definition PendSV_Handler :: "kern \<Rightarrow> kern" where
  "PendSV_Handler k = k\<lparr>g_current_task := g_next_task k, pendsv := False\<rparr>"

subsection \<open>Start-up, creation, diagnostics\<close>

definition sched_init :: "u32 \<Rightarrow> kern \<Rightarrow> kern" where
  "sched_init idle_task_func k =
     (let k1 = k\<lparr>g_current_task := None, g_next_task := None, s_task_count := 0\<rparr>
      in upd_tcb Idle (\<lambda>x.
           (let (sp', st) = task_stack_init (stack x) TASK_STACK_SIZE idle_task_func
            in stack_monitor_fill
                 (x\<lparr>priority := TASK_PRIORITY_IDLE, state := TASK_READY, func := idle_task_func,
                    sp := sp',
                    stack := st[TASK_STACK_CANARY_INDEX := TASK_STACK_CANARY_VALUE]\<rparr>))) k1)"

definition sched_task_create :: "u32 \<Rightarrow> u8 \<Rightarrow> kern \<Rightarrow> int \<times> kern" where
  "sched_task_create f prio k =
     (if s_task_count k \<ge> TASK_MAX \<or> f = 0 then (-1, k)
      else (let (p, k0) = sched_critical_enter k;
                t = Task (s_task_count k0);
                k1 = upd_tcb t (\<lambda>x.
                  (let (sp', st) = task_stack_init (stack x) TASK_STACK_SIZE f
                   in (stack_monitor_fill
                        (x\<lparr>func := f, priority := prio, state := TASK_READY, delay_ticks := 0,
                           wait_list_head := None, timed_out := 0, sp := sp',
                           stack := st[TASK_STACK_CANARY_INDEX := TASK_STACK_CANARY_VALUE]\<rparr>))
                      \<lparr>notify_pending := 0, notify_value := 0\<rparr>)) k0;
                k2 = sched_critical_exit p (k1\<lparr>s_task_count := s_task_count k1 + 1\<rparr>)
            in (int (s_task_count k2) - 1, k2)))"

definition sched_start :: "kern \<Rightarrow> kern" where
  "sched_start k =
     (let k1 = k\<lparr>s_started := 1\<rparr>;
          n = sched_select_next k1;
          k2 = k1\<lparr>g_current_task := Some n, g_next_task := Some n\<rparr>
      in mpu_set_stack_guard n (set_state n TASK_RUNNING k2))"

definition sched_check_stack_canaries :: "kern \<Rightarrow> u8" where
  "sched_check_stack_canaries k =
     (case find (\<lambda>i. stack (tcb k (Task i)) ! TASK_STACK_CANARY_INDEX \<noteq> TASK_STACK_CANARY_VALUE)
             [0..<s_task_count k] of
        None \<Rightarrow> TASK_STACK_CANARY_ALL_OK
      | Some i \<Rightarrow> of_nat i)"

definition sched_tickless_idle_is_enabled :: "kern \<Rightarrow> u8" where
  "sched_tickless_idle_is_enabled k = s_tickless_idle_enabled k"

definition sched_get_idle_loop_count :: "kern \<Rightarrow> u32" where
  "sched_get_idle_loop_count k = s_idle_loop_count k"

definition sched_tickless_idle_enable :: "kern \<Rightarrow> kern" where
  "sched_tickless_idle_enable k = k\<lparr>s_tickless_idle_enabled := 1\<rparr>"

definition sched_tickless_idle_disable :: "kern \<Rightarrow> kern" where
  "sched_tickless_idle_disable k = k\<lparr>s_tickless_idle_enabled := 0\<rparr>"

end
