(* ===== verification/SchedSelect.thy ===== *)
theory SchedSelect
  imports Scheduler
begin

text \<open>
  What \<open>sched_select_next\<close> computes: the idle task exactly when no created task is ready
  below priority 255; otherwise a ready task of the best priority, the first one met
  cyclically after the current task. The current task itself comes last among its equals.
\<close>

definition ready_at :: "kern \<Rightarrow> nat \<Rightarrow> bool" where
  "ready_at k i \<longleftrightarrow> i < s_task_count k \<and> state (tcb k (Task i)) = TASK_READY"

definition prio_at :: "kern \<Rightarrow> nat \<Rightarrow> u8" where
  "prio_at k i = priority (tcb k (Task i))"

text \<open>A ready task that no ready task outranks.\<close>

definition top_ready :: "kern \<Rightarrow> nat \<Rightarrow> bool" where
  "top_ready k i \<longleftrightarrow> ready_at k i \<and> prio_at k i < 0xFF \<and> (\<forall>j. ready_at k j \<longrightarrow> prio_at k i \<le> prio_at k j)"

subsection \<open>The scan for the best priority\<close>

definition best_upto :: "kern \<Rightarrow> nat \<Rightarrow> u8 \<times> tid \<Rightarrow> bool" where
  "best_upto k n r \<longleftrightarrow>
     (case r of
        (best, Idle) \<Rightarrow> best = 0xFF
          \<and> (\<forall>j<n. state (tcb k (Task j)) = TASK_READY \<longrightarrow> prio_at k j = 0xFF)
      | (best, Task i) \<Rightarrow> i < n \<and> state (tcb k (Task i)) = TASK_READY \<and> prio_at k i = best
          \<and> best < 0xFF \<and> (\<forall>j<n. state (tcb k (Task j)) = TASK_READY \<longrightarrow> best \<le> prio_at k j))"

lemma u8_not_less_FF: "\<not> (p :: u8) < 0xFF \<Longrightarrow> p = 0xFF"
proof -
  assume "\<not> p < 0xFF"
  then have "0xFF \<le> p" by (simp add: not_less)
  moreover have "p \<le> (-1 :: u8)" by (rule word_n1_ge)
  moreover have "(-1 :: u8) = 0xFF" by simp
  ultimately show ?thesis by (metis antisym)
qed

lemma best_upto_fold:
  "best_upto k n
     (fold (\<lambda>i (best, chosen).
             if state (tcb k (Task i)) = TASK_READY \<and> priority (tcb k (Task i)) < best
             then (priority (tcb k (Task i)), Task i) else (best, chosen))
          [0..<n] (0xFF, Idle))"
proof (induction n)
  case 0
  show ?case by (simp add: best_upto_def)
next
  case (Suc n)
  let ?f = "\<lambda>i (best, chosen).
    if state (tcb k (Task i)) = TASK_READY \<and> priority (tcb k (Task i)) < best
    then (priority (tcb k (Task i)), Task i) else (best, chosen)"
  obtain b c where r: "fold ?f [0..<n] (0xFF, Idle) = (b, c)" by fastforce
  with Suc.IH have IH: "best_upto k n (b, c)" by simp
  have step: "fold ?f [0..<Suc n] (0xFF, Idle) = ?f n (b, c)" using r by simp
  show ?case
  proof (cases c)
    case Idle
    with IH show ?thesis unfolding step
      by (auto simp: best_upto_def prio_at_def less_Suc_eq dest: u8_not_less_FF)
  next
    case (Task i)
    with IH show ?thesis unfolding step
      by (auto simp: best_upto_def prio_at_def less_Suc_eq not_less intro: less_imp_le less_le_trans
          order.trans)
  qed
qed

lemma sched_best_spec: "best_upto k (s_task_count k) (sched_best k)"
  unfolding sched_best_def by (rule best_upto_fold)

lemma sched_best_Idle:
  "snd (sched_best k) = Idle \<longleftrightarrow> (\<forall>i. ready_at k i \<longrightarrow> prio_at k i = 0xFF)"
  using sched_best_spec [of k]
  by (cases "sched_best k"; cases "snd (sched_best k)")
    (auto simp: best_upto_def ready_at_def)

lemma sched_best_Task:
  assumes "sched_best k = (b, Task i)"
  shows "top_ready k i" and "b = prio_at k i"
  using sched_best_spec [of k] assms
  by (auto simp: best_upto_def top_ready_def ready_at_def)

lemma sched_start_index_less: "0 < s_task_count k \<Longrightarrow> sched_start_index k < s_task_count k"
  by (auto simp: sched_start_index_def find_upt_Some split: option.splits)

lemma sched_start_index_current:
  "g_current_task k = Some (Task c) \<Longrightarrow> c < s_task_count k \<Longrightarrow> sched_start_index k = c"
  by (auto simp: sched_start_index_def find_upt_Some find_upt_None split: option.splits)

subsection \<open>The choice\<close>

lemma sched_select_Idle:
  "sched_select_next k = Idle \<longleftrightarrow> (\<forall>i. ready_at k i \<longrightarrow> prio_at k i = 0xFF)"
proof -
  have "sched_select_next k = Idle \<longleftrightarrow> snd (sched_best k) = Idle"
    by (auto simp: sched_select_next_def Let_def split: prod.splits option.splits)
  then show ?thesis by (simp add: sched_best_Idle)
qed

lemma sched_select_top_ready:
  assumes "sched_select_next k = Task i"
  shows "top_ready k i"
proof -
  obtain b c where bc: "sched_best k = (b, c)" by fastforce
  let ?n = "s_task_count k" and ?s = "sched_start_index k"
  from assms bc have "c \<noteq> Idle"
    by (auto simp: sched_select_next_def Let_def split: if_splits)
  then obtain m where c: "c = Task m" by (cases c) auto
  note top = sched_best_Task [OF bc [unfolded c]]
  show ?thesis
  proof (cases "i = m")
    case True
    with top show ?thesis by simp
  next
    case False
    with assms bc c obtain j where j: "1 \<le> j" "j < ?n" and i: "i = (?s + j) mod ?n"
      and rd: "state (tcb k (Task i)) = TASK_READY" and pr: "priority (tcb k (Task i)) = b"
      by (auto simp: sched_select_next_def Let_def find_upt_Some split: option.splits if_splits)
    from j i have "i < ?n" by simp
    with rd have "ready_at k i" by (simp add: ready_at_def)
    with top pr show ?thesis by (auto simp: top_ready_def prio_at_def)
  qed
qed

lemma sched_select_round_robin:
  assumes sel: "sched_select_next k = Task i" and cur: "g_current_task k = Some (Task c)"
    and c: "c < s_task_count k" and j: "1 \<le> j" "j < s_task_count k"
    and top: "top_ready k ((c + j) mod s_task_count k)"
  shows "\<exists>d. 1 \<le> d \<and> d \<le> j \<and> i = (c + d) mod s_task_count k"
proof -
  let ?n = "s_task_count k"
  obtain b ch where bc: "sched_best k = (b, ch)" by fastforce
  from sel bc have "ch \<noteq> Idle"
    by (auto simp: sched_select_next_def Let_def split: if_splits)
  then obtain m where ch: "ch = Task m" by (cases ch) auto
  note best = sched_best_Task [OF bc [unfolded ch]]
  have start: "sched_start_index k = c" using cur c by (rule sched_start_index_current)
  from top best have "prio_at k ((c + j) mod ?n) = b"
    by (auto simp: top_ready_def intro: antisym)
  with top have P: "state (tcb k (Task ((c + j) mod ?n))) = TASK_READY
      \<and> priority (tcb k (Task ((c + j) mod ?n))) = b"
    by (simp add: top_ready_def ready_at_def prio_at_def)
  let ?P = "\<lambda>j. state (tcb k (Task ((c + j) mod ?n))) = TASK_READY
      \<and> priority (tcb k (Task ((c + j) mod ?n))) = b"
  have "find ?P [1..<?n] \<noteq> None" using P j by (auto simp: find_None_iff)
  then obtain d where d: "find ?P [1..<?n] = Some d" by blast
  with sel bc ch cur start have "i = (c + d) mod ?n"
    by (simp add: sched_select_next_def Let_def)
  moreover from d have "1 \<le> d" and "\<forall>j. 1 \<le> j \<and> j < d \<longrightarrow> \<not> ?P j"
    by (auto simp: find_upt_Some)
  with P j(1) have "d \<le> j" using not_le by blast
  ultimately show ?thesis using \<open>1 \<le> d\<close> by blast
qed

text \<open>Every ready task of the best priority is chosen before the current one again.\<close>

lemma sched_select_not_current:
  assumes cur: "g_current_task k = Some (Task c)" and c: "c < s_task_count k"
    and top: "top_ready k i" and "i \<noteq> c"
  shows "sched_select_next k \<noteq> Task c"
proof
  assume sel: "sched_select_next k = Task c"
  let ?n = "s_task_count k"
  from top have i: "i < ?n" by (simp add: top_ready_def ready_at_def)
  define j where "j = (if c < i then i - c else ?n + i - c)"
  have j: "1 \<le> j" "j < ?n" using i c \<open>i \<noteq> c\<close> by (auto simp: j_def)
  have "(c + j) mod ?n = i" using i c by (auto simp: j_def)
  with sched_select_round_robin [OF sel cur c j] top obtain d
    where d: "1 \<le> d" "d \<le> j" "c = (c + d) mod ?n" by auto
  with j c have "d < ?n" by simp
  with d(1) c have "(c + d) mod ?n \<noteq> c"
    by (cases "c + d < ?n") (auto simp: mod_if)
  with d(3) show False by simp
qed

end
