(* ===== verification/SchedInv.thy ===== *)
theory SchedInv
  imports SchedSelect
begin

text \<open>
  The invariant of the kernel state and its preservation by the scheduler. \<open>kern_inv k W\<close>:
  every wait cell heads an acyclic chain, the lists \<open>W\<close> of these chains are disjoint, every
  queued task is blocked and, when its wait is timed, points back at its cell; a task with
  a running delay is blocked; and at most one task is RUNNING, the one \<open>g_next_task\<close> names.
\<close>

definition queues_wf :: "kern \<Rightarrow> (wait_cell \<Rightarrow> tid list) \<Rightarrow> bool" where
  "queues_wf k W \<longleftrightarrow> (\<forall>c. wlist k c (W c))
     \<and> (\<forall>c d t. t \<in> set (W c) \<longrightarrow> t \<in> set (W d) \<longrightarrow> c = d)"

definition wait_inv :: "kern \<Rightarrow> (wait_cell \<Rightarrow> tid list) \<Rightarrow> bool" where
  "wait_inv k W \<longleftrightarrow> queues_wf k W
     \<and> (\<forall>c t. t \<in> set (W c) \<longrightarrow> state (tcb k t) = TASK_BLOCKED
          \<and> (delay_ticks (tcb k t) \<noteq> 0 \<longrightarrow> wait_list_head (tcb k t) = Some c))
     \<and> (\<forall>t. delay_ticks (tcb k t) \<noteq> 0 \<longrightarrow> state (tcb k t) = TASK_BLOCKED)"

definition running_inv :: "kern \<Rightarrow> bool" where
  "running_inv k \<longleftrightarrow> (\<forall>t. state (tcb k t) = TASK_RUNNING \<longrightarrow> g_next_task k = Some t)"

definition kern_inv :: "kern \<Rightarrow> (wait_cell \<Rightarrow> tid list) \<Rightarrow> bool" where
  "kern_inv k W \<longleftrightarrow> wait_inv k W \<and> running_inv k"

definition unqueued :: "(wait_cell \<Rightarrow> tid list) \<Rightarrow> tid \<Rightarrow> bool" where
  "unqueued W t \<longleftrightarrow> (\<forall>c. t \<notin> set (W c))"

text \<open>No ready task outranks the one that runs next.\<close>

definition highest_next :: "kern \<Rightarrow> bool" where
  "highest_next k \<longleftrightarrow>
     (case g_next_task k of
        None \<Rightarrow> False
      | Some Idle \<Rightarrow> \<forall>j. ready_at k j \<longrightarrow> prio_at k j = 0xFF
      | Some (Task i) \<Rightarrow> i < s_task_count k \<and> state (tcb k (Task i)) = TASK_RUNNING
          \<and> (\<forall>j. ready_at k j \<longrightarrow> prio_at k i \<le> prio_at k j))"

subsection \<open>What the wait invariant reads\<close>

definition wait_view :: "kern \<Rightarrow>
    (wait_cell \<Rightarrow> tid option) \<times> (tid \<Rightarrow> tid option \<times> u32 \<times> wait_cell option \<times> bool)" where
  "wait_view k = (wait_head k,
     \<lambda>t. (wait_next (tcb k t), delay_ticks (tcb k t), wait_list_head (tcb k t),
          state (tcb k t) = TASK_BLOCKED))"

lemma wait_view_eqD:
  assumes "wait_view k' = wait_view k"
  shows "wait_head k' = wait_head k" "wait_next (tcb k' t) = wait_next (tcb k t)"
    "delay_ticks (tcb k' t) = delay_ticks (tcb k t)"
    "wait_list_head (tcb k' t) = wait_list_head (tcb k t)"
    "(state (tcb k' t) = TASK_BLOCKED) = (state (tcb k t) = TASK_BLOCKED)"
  using assms by (simp_all add: wait_view_def fun_eq_iff)

lemma wait_inv_cong: "wait_view k' = wait_view k \<Longrightarrow> wait_inv k' W = wait_inv k W"
  unfolding wait_inv_def queues_wf_def wlist_def
  by (simp add: wait_view_eqD [of k' k])

lemma wait_view_trigger [simp]: "wait_view (trigger_pendsv k) = wait_view k"
  by (simp add: wait_view_def trigger_pendsv_def)

lemma wait_view_pend [simp]: "wait_view (pend_if_switch k) = wait_view k"
  by (simp add: pend_if_switch_def)

lemma wait_view_exit [simp]: "wait_view (sched_critical_exit p k) = wait_view k"
  by (simp add: wait_view_def sched_critical_exit_def)

lemma wait_view_primask [simp]: "wait_view (k\<lparr>primask := p\<rparr>) = wait_view k"
  by (simp add: wait_view_def)

lemma wait_view_next [simp]: "wait_view (k\<lparr>g_next_task := n\<rparr>) = wait_view k"
  by (simp add: wait_view_def)

lemma wait_view_guard [simp]: "wait_view (mpu_set_stack_guard t k) = wait_view k"
  by (simp add: wait_view_def mpu_set_stack_guard_def)

lemma wait_view_set_state [simp]:
  "state (tcb k t) \<noteq> TASK_BLOCKED \<Longrightarrow> s \<noteq> TASK_BLOCKED \<Longrightarrow> wait_view (set_state t s k) = wait_view k"
  by (auto simp: wait_view_def fun_eq_iff)

lemma wait_view_demote [simp]: "wait_view (demote_current k) = wait_view k"
  by (auto simp: demote_current_def split: option.splits)

lemma wait_view_demote_next [simp]: "wait_view (demote_next k) = wait_view k"
  by (auto simp: demote_next_def split: option.splits)

lemma wait_view_commit [simp]: "wait_view (sched_commit_next k) = wait_view k"
proof -
  have "wait_view (if state (tcb j n) = TASK_READY then set_state n TASK_RUNNING j else j)
      = wait_view j" for j n by auto
  then show ?thesis unfolding sched_commit_next_def Let_def
    by (simp only: wait_view_guard wait_view_next wait_view_demote_next)
qed

subsection \<open>Rescheduling\<close>

lemma demote_current_simps [simp]:
  "g_current_task (demote_current k) = g_current_task k"
  "g_next_task (demote_current k) = g_next_task k"
  "s_task_count (demote_current k) = s_task_count k"
  "primask (demote_current k) = primask k"
  "s_ticks (demote_current k) = s_ticks k"
  "priority (tcb (demote_current k) t) = priority (tcb k t)"
  "timed_out (tcb (demote_current k) t) = timed_out (tcb k t)"
  by (auto simp: demote_current_def split: option.splits)

lemma demote_next_simps [simp]:
  "g_current_task (demote_next k) = g_current_task k"
  "g_next_task (demote_next k) = g_next_task k"
  "s_task_count (demote_next k) = s_task_count k"
  "primask (demote_next k) = primask k"
  "s_ticks (demote_next k) = s_ticks k"
  "priority (tcb (demote_next k) t) = priority (tcb k t)"
  "timed_out (tcb (demote_next k) t) = timed_out (tcb k t)"
  by (auto simp: demote_next_def split: option.splits)

lemma sched_commit_next_simps [simp]:
  "g_current_task (sched_commit_next k) = g_current_task k"
  "g_next_task (sched_commit_next k) = Some (sched_select_next (demote_next k))"
  "s_task_count (sched_commit_next k) = s_task_count k"
  "primask (sched_commit_next k) = primask k"
  "s_ticks (sched_commit_next k) = s_ticks k"
  "priority (tcb (sched_commit_next k) t) = priority (tcb k t)"
  "timed_out (tcb (sched_commit_next k) t) = timed_out (tcb k t)"
  "mpu_guard (sched_commit_next k) = Some (sched_select_next (demote_next k))"
  by (simp_all add: sched_commit_next_def Let_def mpu_set_stack_guard_def)

lemma sched_commit_next_state:
  "state (tcb (sched_commit_next k) t) =
     (let n = sched_select_next (demote_next k) in
      if t = n \<and> state (tcb (demote_next k) n) = TASK_READY then TASK_RUNNING
      else state (tcb (demote_next k) t))"
  by (simp add: sched_commit_next_def Let_def mpu_set_stack_guard_def)

lemma pend_if_switch_simps [simp]:
  "tcb (pend_if_switch k) = tcb k" "g_current_task (pend_if_switch k) = g_current_task k"
  "g_next_task (pend_if_switch k) = g_next_task k"
  "s_task_count (pend_if_switch k) = s_task_count k"
  "primask (pend_if_switch k) = primask k" "wait_head (pend_if_switch k) = wait_head k"
  "mpu_guard (pend_if_switch k) = mpu_guard k" "s_ticks (pend_if_switch k) = s_ticks k"
  by (simp_all add: pend_if_switch_def trigger_pendsv_def)

lemma trigger_pendsv_simps [simp]:
  "tcb (trigger_pendsv k) = tcb k" "g_current_task (trigger_pendsv k) = g_current_task k"
  "g_next_task (trigger_pendsv k) = g_next_task k"
  "s_task_count (trigger_pendsv k) = s_task_count k"
  "primask (trigger_pendsv k) = primask k" "wait_head (trigger_pendsv k) = wait_head k"
  "mpu_guard (trigger_pendsv k) = mpu_guard k" "pendsv (trigger_pendsv k)"
  "s_ticks (trigger_pendsv k) = s_ticks k"
  by (simp_all add: trigger_pendsv_def)

lemma demote_next_none_running:
  assumes "running_inv k"
    and "\<And>c. g_current_task k = Some c \<Longrightarrow> state (tcb k c) \<noteq> TASK_RUNNING"
  shows "state (tcb (demote_next k) t) \<noteq> TASK_RUNNING"
proof
  assume r: "state (tcb (demote_next k) t) = TASK_RUNNING"
  then have "state (tcb k t) = TASK_RUNNING"
    by (auto simp: demote_next_def split: option.splits if_splits)
  with assms(1) have "g_next_task k = Some t" by (simp add: running_inv_def)
  moreover from this assms(2) \<open>state (tcb k t) = TASK_RUNNING\<close> have "g_current_task k \<noteq> Some t"
    by blast
  ultimately show False using r \<open>state (tcb k t) = TASK_RUNNING\<close>
    by (simp add: demote_next_def)
qed

lemma sched_commit_next_running:
  assumes "running_inv k"
    and "\<And>c. g_current_task k = Some c \<Longrightarrow> state (tcb k c) \<noteq> TASK_RUNNING"
  shows "running_inv (sched_commit_next k)"
  unfolding running_inv_def sched_commit_next_state Let_def
  using demote_next_none_running [OF assms] by auto

lemma commit_highest: "highest_next (sched_commit_next k)"
proof (cases "sched_select_next (demote_next k)")
  case Idle
  then have "\<forall>i. ready_at (demote_next k) i \<longrightarrow> prio_at (demote_next k) i = 0xFF"
    by (simp only: sched_select_Idle)
  with Idle show ?thesis
    by (auto simp: highest_next_def ready_at_def prio_at_def sched_commit_next_state Let_def
        split: if_splits)
next
  case (Task i)
  then have "top_ready (demote_next k) i" by (rule sched_select_top_ready)
  with Task show ?thesis
    by (auto simp: highest_next_def ready_at_def prio_at_def sched_commit_next_state Let_def
        top_ready_def split: if_splits)
qed

lemma demote_current_running: "running_inv k \<Longrightarrow> running_inv (demote_current k)"
  unfolding running_inv_def demote_current_def by (simp split: option.splits) (metis option.inject)

lemma demote_current_not_running:
  "g_current_task k = Some c \<Longrightarrow> state (tcb (demote_current k) c) \<noteq> TASK_RUNNING"
  by (auto simp: demote_current_def)

lemma running_inv_frame:
  "tcb k' = tcb k \<Longrightarrow> g_next_task k' = g_next_task k \<Longrightarrow> running_inv k' = running_inv k"
  by (simp add: running_inv_def)

lemma reschedule_inv:
  assumes "wait_inv k W" and "running_inv k"
  shows "kern_inv (sched_commit_next (demote_current k)) W"
proof -
  have v: "wait_view (sched_commit_next (demote_current k)) = wait_view k" by simp
  have "wait_inv (sched_commit_next (demote_current k)) W"
    unfolding wait_inv_cong [OF v] by (rule assms(1))
  moreover have "running_inv (sched_commit_next (demote_current k))"
    using demote_current_running [OF assms(2)]
    by (rule sched_commit_next_running) (simp add: demote_current_not_running)
  ultimately show ?thesis by (simp add: kern_inv_def)
qed

lemma kern_inv_cong:
  assumes "wait_view k' = wait_view k" and "tcb k' = tcb k" and "g_next_task k' = g_next_task k"
  shows "kern_inv k' W = kern_inv k W"
  unfolding kern_inv_def wait_inv_cong [OF assms(1)] running_inv_frame [OF assms(2,3)] by simp

lemma highest_next_frame:
  assumes "tcb k' = tcb k" and "g_next_task k' = g_next_task k" and "s_task_count k' = s_task_count k"
  shows "highest_next k' = highest_next k"
proof -
  have "ready_at k' = ready_at k" and "prio_at k' = prio_at k"
    using assms by (auto simp: ready_at_def prio_at_def fun_eq_iff)
  with assms show ?thesis by (simp add: highest_next_def split: option.split tid.split)
qed

lemma exit_simps [simp]:
  "tcb (sched_critical_exit p k) = tcb k" "g_next_task (sched_critical_exit p k) = g_next_task k"
  "g_current_task (sched_critical_exit p k) = g_current_task k"
  "s_task_count (sched_critical_exit p k) = s_task_count k"
  "wait_head (sched_critical_exit p k) = wait_head k"
  "primask (sched_critical_exit p k) = p" "mpu_guard (sched_critical_exit p k) = mpu_guard k"
  "s_ticks (sched_critical_exit p k) = s_ticks k"
  by (simp_all add: sched_critical_exit_def)

subsection \<open>One task changes\<close>

lemma wlist_upd_other:
  assumes "wlist k c xs" and "t \<notin> set xs"
  shows "wlist (upd_tcb t f k) c xs"
  by (rule wlist_cong [THEN iffD2, OF _ _ assms(1)]) (use assms(2) in auto)

lemma queues_wf_upd: "queues_wf k W \<Longrightarrow> unqueued W t \<Longrightarrow> queues_wf (upd_tcb t f k) W"
  by (auto simp: queues_wf_def unqueued_def intro: wlist_upd_other)

lemma wait_inv_upd:
  assumes "wait_inv k W" and "unqueued W t"
    and "delay_ticks (f (tcb k t)) \<noteq> 0 \<Longrightarrow> state (f (tcb k t)) = TASK_BLOCKED"
  shows "wait_inv (upd_tcb t f k) W"
  using assms by (auto simp: wait_inv_def queues_wf_upd unqueued_def)

lemma wait_inv_unqueued: "wait_inv k W \<Longrightarrow> state (tcb k t) \<noteq> TASK_BLOCKED \<Longrightarrow> unqueued W t"
  by (auto simp: wait_inv_def unqueued_def)

lemma kern_inv_unqueued: "kern_inv k W \<Longrightarrow> state (tcb k t) \<noteq> TASK_BLOCKED \<Longrightarrow> unqueued W t"
  unfolding kern_inv_def by (blast intro: wait_inv_unqueued)

lemma running_inv_upd:
  "running_inv k \<Longrightarrow> state (f (tcb k t)) \<noteq> TASK_RUNNING \<Longrightarrow> running_inv (upd_tcb t f k)"
  by (auto simp: running_inv_def)

lemma kern_inv_upd:
  assumes "kern_inv k W" and "unqueued W t"
    and "delay_ticks (f (tcb k t)) \<noteq> 0 \<Longrightarrow> state (f (tcb k t)) = TASK_BLOCKED"
    and "state (f (tcb k t)) \<noteq> TASK_RUNNING"
  shows "kern_inv (upd_tcb t f k) W"
  using assms by (simp add: kern_inv_def wait_inv_upd running_inv_upd)

text \<open>Fields no part of the invariant reads.\<close>

lemma kern_inv_upd_frame:
  assumes "kern_inv k W"
    and "wait_next (f (tcb k t)) = wait_next (tcb k t)"
    and "delay_ticks (f (tcb k t)) = delay_ticks (tcb k t)"
    and "wait_list_head (f (tcb k t)) = wait_list_head (tcb k t)"
    and "state (f (tcb k t)) = state (tcb k t)"
  shows "kern_inv (upd_tcb t f k) W"
proof -
  have v: "wait_view (upd_tcb t f k) = wait_view k"
    using assms(2-5) by (auto simp: wait_view_def fun_eq_iff)
  moreover have "running_inv (upd_tcb t f k) = running_inv k"
    using assms(5) by (auto simp: running_inv_def)
  ultimately show ?thesis using assms(1) by (simp add: kern_inv_def wait_inv_cong [OF v])
qed

lemma kern_inv_exit [simp]: "kern_inv (sched_critical_exit p k) W = kern_inv k W"
  by (rule kern_inv_cong) simp_all

lemma kern_inv_primask [simp]: "kern_inv (k\<lparr>primask := p\<rparr>) W = kern_inv k W"
  by (rule kern_inv_cong) simp_all

lemma kern_inv_trigger [simp]: "kern_inv (trigger_pendsv k) W = kern_inv k W"
  by (rule kern_inv_cong) simp_all

lemma kern_inv_pend [simp]: "kern_inv (pend_if_switch k) W = kern_inv k W"
  by (rule kern_inv_cong) simp_all

lemma highest_next_exit [simp]: "highest_next (sched_critical_exit p k) = highest_next k"
  by (rule highest_next_frame) simp_all

lemma highest_next_trigger [simp]: "highest_next (trigger_pendsv k) = highest_next k"
  by (rule highest_next_frame) simp_all

lemma highest_next_pend [simp]: "highest_next (pend_if_switch k) = highest_next k"
  by (rule highest_next_frame) simp_all

lemma kern_inv_reschedule:
  "kern_inv k W \<Longrightarrow> kern_inv (sched_commit_next (demote_current k)) W"
  using reschedule_inv [of k W] by (simp add: kern_inv_def)

lemma kern_inv_commit:
  assumes "kern_inv k W"
    and "\<And>c. g_current_task k = Some c \<Longrightarrow> state (tcb k c) \<noteq> TASK_RUNNING"
  shows "kern_inv (sched_commit_next k) W"
proof -
  have v: "wait_view (sched_commit_next k) = wait_view k" by simp
  from assms show ?thesis
    by (simp add: kern_inv_def wait_inv_cong [OF v] sched_commit_next_running)
qed

subsection \<open>Every scheduler operation keeps the invariant\<close>

lemma sched_block_locked_eq:
  "sched_block_locked k = trigger_pendsv (sched_commit_next (demote_current k))"
  by (simp add: sched_block_locked_def sched_pick_and_mark_def Let_def
      sched_commit_next_def mpu_set_stack_guard_def)

lemma sched_block_locked_inv: "kern_inv k W \<Longrightarrow> kern_inv (sched_block_locked k) W"
  by (simp add: sched_block_locked_eq kern_inv_reschedule)

lemma sched_block_inv: "kern_inv k W \<Longrightarrow> kern_inv (sched_block k) W"
proof -
  assume "kern_inv k W"
  then have "kern_inv (sched_commit_next (demote_current (k\<lparr>primask := True\<rparr>))) W"
    by (simp add: kern_inv_reschedule)
  moreover have "sched_block k = trigger_pendsv (sched_critical_exit (primask k)
      (sched_commit_next (demote_current (k\<lparr>primask := True\<rparr>))))"
    by (simp add: sched_block_def sched_pick_and_mark_def Let_def sched_critical_enter_def
      sched_commit_next_def mpu_set_stack_guard_def)
  ultimately show ?thesis by simp
qed

lemma sched_wake_task_inv:
  assumes "kern_inv k W" and "unqueued W t"
  shows "kern_inv (sched_wake_task (Some t) k) W"
proof -
  have "kern_inv (upd_tcb t (\<lambda>y. y\<lparr>wait_next := None, delay_ticks := 0, state := TASK_READY\<rparr>)
      (k\<lparr>primask := True\<rparr>)) W"
    by (rule kern_inv_upd) (use assms in auto)
  from kern_inv_reschedule [OF this] show ?thesis
    by (simp add: sched_wake_task_def sched_critical_enter_def)
qed

lemma sched_wake_task_highest: "highest_next (sched_wake_task (Some t) k)"
  by (simp add: sched_wake_task_def sched_critical_enter_def commit_highest)

lemma sched_yield_inv:
  assumes "kern_inv k W" and "\<And>c. g_current_task k = Some c \<Longrightarrow> unqueued W c \<and> delay_ticks (tcb k c) = 0"
  shows "kern_inv (sched_yield k) W"
proof (cases "g_current_task k")
  case None
  with assms show ?thesis by (simp add: sched_yield_def sched_critical_enter_def)
next
  case (Some c)
  have "kern_inv (set_state c TASK_READY (k\<lparr>primask := True\<rparr>)) W"
    unfolding set_state_def by (rule kern_inv_upd) (use assms Some in auto)
  then have "kern_inv (sched_commit_next (set_state c TASK_READY (k\<lparr>primask := True\<rparr>))) W"
    by (rule kern_inv_commit) (use Some in auto)
  with Some show ?thesis by (simp add: sched_yield_def sched_critical_enter_def)
qed

lemma sched_delay_ms_inv:
  assumes "kern_inv k W" and "\<And>c. g_current_task k = Some c \<Longrightarrow> unqueued W c"
  shows "kern_inv (snd (sched_delay_ms ms k)) W"
proof (cases "g_current_task k")
  case None
  with assms show ?thesis by (simp add: sched_delay_ms_def)
next
  case (Some c)
  let ?k1 = "upd_tcb c (\<lambda>y. y\<lparr>delay_ticks := ms, state := TASK_BLOCKED\<rparr>) (k\<lparr>primask := True\<rparr>)"
  have "kern_inv ?k1 W" by (rule kern_inv_upd) (use assms Some in auto)
  then have "kern_inv (sched_commit_next ?k1) W"
    by (rule kern_inv_commit) (use Some in auto)
  with Some assms show ?thesis by (simp add: sched_delay_ms_def sched_critical_enter_def)
qed

lemma PendSV_Handler_inv: "kern_inv k W \<Longrightarrow> kern_inv (PendSV_Handler k) W"
  by (subst kern_inv_cong [of "PendSV_Handler k" k])
    (simp_all add: PendSV_Handler_def wait_view_def)

end
