(* ===== verification/SchedTick.thy ===== *)
theory SchedTick
  imports SchedInv
begin

text \<open>
  \<open>sched_tick_n\<close>: on a well-formed kernel state the tick returns (no pointer walk hangs),
  every delay is counted down by the elapsed time, every delay that runs out makes its task
  ready and takes it off its wait list, and the scheduler invariant is kept.
\<close>

definition expired :: "u32 \<Rightarrow> kern \<Rightarrow> tid \<Rightarrow> bool" where
  "expired e k t \<longleftrightarrow> state (tcb k t) = TASK_BLOCKED \<and> 0 < delay_ticks (tcb k t)
     \<and> delay_ticks (tcb k t) \<le> e"

text \<open>What one tick does to one task, links aside.\<close>

definition tick_task :: "u32 \<Rightarrow> task_t \<Rightarrow> task_t" where
  "tick_task e x =
     (if state x = TASK_BLOCKED \<and> 0 < delay_ticks x then
        if delay_ticks x \<le> e
        then x\<lparr>state := TASK_READY, delay_ticks := 0, wait_list_head := None,
               timed_out := (if wait_list_head x = None then timed_out x else 1)\<rparr>
        else x\<lparr>delay_ticks := delay_ticks x - e\<rparr>
      else x)"

definition nolink :: "task_t \<Rightarrow> task_t" where
  "nolink x = x\<lparr>wait_next := None\<rparr>"

definition drop_task :: "tid \<Rightarrow> (wait_cell \<Rightarrow> tid list) \<Rightarrow> wait_cell \<Rightarrow> tid list" where
  "drop_task t W c = filter (\<lambda>u. u \<noteq> t) (W c)"

lemma nolink_simps [simp]:
  "state (nolink x) = state x" "delay_ticks (nolink x) = delay_ticks x"
  "wait_list_head (nolink x) = wait_list_head x" "timed_out (nolink x) = timed_out x"
  "priority (nolink x) = priority x" "nolink (x\<lparr>wait_next := n\<rparr>) = nolink x"
  by (simp_all add: nolink_def)

lemma nolink_tick_task: "nolink x = nolink y \<Longrightarrow> nolink (tick_task e x) = nolink (tick_task e y)"
  by (cases x; cases y) (simp add: nolink_def tick_task_def)

lemma nolink_eqD:
  assumes "nolink x = nolink y"
  shows "state x = state y" "delay_ticks x = delay_ticks y" "priority x = priority y"
    "wait_list_head x = wait_list_head y" "timed_out x = timed_out y"
    "notify_pending x = notify_pending y" "notify_value x = notify_value y"
  using assms by (cases x; cases y; simp add: nolink_def)+

lemma erase_links_nolink: "erase_links k' = erase_links k \<Longrightarrow> nolink (tcb k' u) = nolink (tcb k u)"
proof -
  assume "erase_links k' = erase_links k"
  then have "tcb (erase_links k') u = tcb (erase_links k) u" by simp
  then show ?thesis by (simp add: erase_links_def nolink_def)
qed

lemma unqueued_drop_task: "unqueued (drop_task t W) t"
  by (simp add: unqueued_def drop_task_def)

lemma drop_task_unqueued: "unqueued W t \<Longrightarrow> drop_task t W = W"
  by (auto simp: unqueued_def drop_task_def fun_eq_iff filter_id_conv)

subsection \<open>Taking a task off a list keeps the invariant\<close>

lemma sched_wait_list_remove_inv:
  assumes inv: "kern_inv k W" and only: "\<And>d. t \<in> set (W d) \<Longrightarrow> d = c"
  shows "\<exists>k'. sched_wait_list_remove c t k = Some k' \<and> kern_inv k' (drop_task t W)
     \<and> erase_links k' = erase_links k"
proof -
  from inv have w: "wlist k d (W d)" for d
    by (simp add: kern_inv_def wait_inv_def queues_wf_def)
  from inv have dis: "u \<in> set (W c) \<Longrightarrow> u \<in> set (W d) \<Longrightarrow> c = d" for u d
    by (auto simp: kern_inv_def wait_inv_def queues_wf_def)
  obtain k' where k': "sched_wait_list_remove c t k = Some k'" "erase_links k' = erase_links k"
    "wlist k' c (remove1 t (W c))" "\<And>d. d \<noteq> c \<Longrightarrow> wait_head k' d = wait_head k d"
    "\<And>u. u \<notin> set (W c) \<Longrightarrow> wait_next (tcb k' u) = wait_next (tcb k u)"
    using sched_wait_list_remove_refines [OF w, of c t] by blast
  have "wlist k' d (drop_task t W d)" for d
  proof (cases "d = c")
    case True
    have "distinct (W c)" using w by (rule wlist_distinct)
    then have "remove1 t (W c) = drop_task t W c"
      by (simp add: drop_task_def distinct_remove1_removeAll removeAll_filter_not_eq)
        (metis (mono_tags, lifting) filter_cong)
    with True k'(3) show ?thesis by simp
  next
    case False
    with only have "drop_task t W d = W d"
      by (auto simp: drop_task_def filter_id_conv)
    moreover have "wlist k' d (W d)"
    proof (rule wlist_cong [THEN iffD2, OF _ _ w])
      show "wait_head k' d = wait_head k d" using k'(4) False .
      show "wait_next (tcb k' u) = wait_next (tcb k u)" if "u \<in> set (W d)" for u
        using that dis [of u d] False by (intro k'(5)) blast
    qed
    ultimately show ?thesis by simp
  qed
  moreover note eq = erase_links_eqD [OF k'(2)]
  ultimately have "kern_inv k' (drop_task t W)"
    using inv by (auto simp: kern_inv_def wait_inv_def queues_wf_def running_inv_def drop_task_def)
  with k' show ?thesis by blast
qed

lemma kern_inv_upd_delay:
  assumes inv: "kern_inv k W"
    and f: "\<And>x. wait_next (f x) = wait_next x" "\<And>x. wait_list_head (f x) = wait_list_head x"
      "\<And>x. state (f x) = state x"
    and d: "delay_ticks (f (tcb k t)) \<noteq> 0 \<Longrightarrow> delay_ticks (tcb k t) \<noteq> 0"
  shows "kern_inv (upd_tcb t f k) W"
proof -
  have "wlist (upd_tcb t f k) c (W c)" for c
    by (rule wlist_cong [THEN iffD2, of _ c k])
      (use inv f in \<open>auto simp: kern_inv_def wait_inv_def queues_wf_def\<close>)
  with inv f d show ?thesis
    by (auto simp: kern_inv_def wait_inv_def queues_wf_def running_inv_def)
qed

subsection \<open>One task\<close>

text \<open>A task whose delay runs out: off its list, if it is on one, marked and made ready.\<close>

lemma tick_one_expired_free:
  assumes inv: "kern_inv k W" and x: "expired e k (Task i)" and n: "wait_list_head (tcb k (Task i)) = None"
  shows "unqueued W (Task i)"
    and "kern_inv (set_state (Task i) TASK_READY (upd_tcb (Task i) (\<lambda>y. y\<lparr>delay_ticks := 0\<rparr>) k)) W"
proof -
  have inv1: "kern_inv (upd_tcb (Task i) (\<lambda>y. y\<lparr>delay_ticks := 0\<rparr>) k) W"
    by (rule kern_inv_upd_delay [OF inv]) auto
  show uq: "unqueued W (Task i)"
    using inv x n by (auto simp: expired_def kern_inv_def wait_inv_def unqueued_def word_pos_iff)
  show "kern_inv (set_state (Task i) TASK_READY (upd_tcb (Task i) (\<lambda>y. y\<lparr>delay_ticks := 0\<rparr>) k)) W"
    unfolding set_state_def by (rule kern_inv_upd [OF inv1 uq]) auto
qed

lemma tick_one_expired_queued:
  assumes inv: "kern_inv k W" and x: "expired e k (Task i)" and c: "wait_list_head (tcb k (Task i)) = Some c"
  obtains k2 where "sched_wait_list_remove c (Task i) (upd_tcb (Task i) (\<lambda>y. y\<lparr>delay_ticks := 0\<rparr>) k) = Some k2"
    "erase_links k2 = erase_links (upd_tcb (Task i) (\<lambda>y. y\<lparr>delay_ticks := 0\<rparr>) k)"
    "kern_inv (set_state (Task i) TASK_READY
        (upd_tcb (Task i) (\<lambda>y. y\<lparr>wait_list_head := None, timed_out := 1\<rparr>) k2)) (drop_task (Task i) W)"
proof -
  let ?t = "Task i" and ?k1 = "upd_tcb (Task i) (\<lambda>y. y\<lparr>delay_ticks := 0\<rparr>) k"
  have inv1: "kern_inv ?k1 W" by (rule kern_inv_upd_delay [OF inv]) auto
  have only: "d = c" if "?t \<in> set (W d)" for d
    using that inv x c by (auto simp: expired_def kern_inv_def wait_inv_def word_pos_iff)
  from sched_wait_list_remove_inv [OF inv1 only] obtain k2 where
    k2: "sched_wait_list_remove c ?t ?k1 = Some k2" "kern_inv k2 (drop_task ?t W)"
      "erase_links k2 = erase_links ?k1" by blast
  let ?k3 = "upd_tcb ?t (\<lambda>y. y\<lparr>wait_list_head := None, timed_out := 1\<rparr>) k2"
  note eq = erase_links_eqD [OF k2(3)]
  have d0: "delay_ticks (tcb k2 ?t) = 0" by (simp add: eq)
  have "kern_inv ?k3 (drop_task ?t W)"
    by (rule kern_inv_upd [OF k2(2) unqueued_drop_task]) (use x in \<open>simp_all add: d0 eq expired_def\<close>)
  then have "kern_inv (set_state ?t TASK_READY ?k3) (drop_task ?t W)"
    unfolding set_state_def by (rule kern_inv_upd [OF _ unqueued_drop_task]) (simp_all add: d0)
  with k2(1,3) that show thesis by blast
qed

lemma tick_one_spec:
  assumes inv: "kern_inv k W"
  shows "\<exists>k'. tick_one e i k = Some k'
     \<and> kern_inv k' (if expired e k (Task i) then drop_task (Task i) W else W)
     \<and> (\<forall>u. nolink (tcb k' u) = nolink (if u = Task i then tick_task e (tcb k u) else tcb k u))
     \<and> g_next_task k' = g_next_task k \<and> g_current_task k' = g_current_task k
     \<and> s_task_count k' = s_task_count k \<and> primask k' = primask k \<and> s_ticks k' = s_ticks k"
proof -
  let ?t = "Task i" and ?x = "tcb k (Task i)"
  consider (idle) "\<not> (state ?x = TASK_BLOCKED \<and> 0 < delay_ticks ?x)"
    | (running) "state ?x = TASK_BLOCKED" "0 < delay_ticks ?x" "\<not> delay_ticks ?x \<le> e"
    | (free) "expired e k ?t" "wait_list_head ?x = None"
    | (queued) c where "expired e k ?t" "wait_list_head ?x = Some c" by (auto simp: expired_def)
  then show ?thesis
  proof cases
    case idle
    with inv show ?thesis by (auto simp: tick_one_def expired_def tick_task_def)
  next
    case running
    let ?k' = "upd_tcb ?t (\<lambda>y. y\<lparr>delay_ticks := delay_ticks y - e\<rparr>) k"
    from running have "tick_one e i k = Some ?k'" by (simp add: tick_one_def Let_def)
    moreover have "kern_inv ?k' W"
      by (rule kern_inv_upd_delay [OF inv]) (use running in \<open>auto simp: word_pos_iff\<close>)
    ultimately show ?thesis using running by (auto simp: expired_def tick_task_def)
  next
    case free
    let ?k' = "set_state ?t TASK_READY (upd_tcb ?t (\<lambda>y. y\<lparr>delay_ticks := 0\<rparr>) k)"
    from free have "tick_one e i k = Some ?k'" by (simp add: tick_one_def Let_def expired_def)
    then show ?thesis using free tick_one_expired_free [OF inv free]
      by (auto simp: drop_task_unqueued tick_task_def nolink_def expired_def)
  next
    case queued
    from tick_one_expired_queued [OF inv queued] obtain k2 where
      k2: "sched_wait_list_remove c ?t (upd_tcb ?t (\<lambda>y. y\<lparr>delay_ticks := 0\<rparr>) k) = Some k2"
        "erase_links k2 = erase_links (upd_tcb ?t (\<lambda>y. y\<lparr>delay_ticks := 0\<rparr>) k)"
        "kern_inv (set_state ?t TASK_READY (upd_tcb ?t (\<lambda>y. y\<lparr>wait_list_head := None, timed_out := 1\<rparr>) k2))
          (drop_task ?t W)" .
    let ?k' = "set_state ?t TASK_READY (upd_tcb ?t (\<lambda>y. y\<lparr>wait_list_head := None, timed_out := 1\<rparr>) k2)"
    from queued k2(1) have "tick_one e i k = Some ?k'" by (simp add: tick_one_def Let_def expired_def)
    moreover have "nolink (tcb ?k' u) = nolink (if u = ?t then tick_task e (tcb k u) else tcb k u)" for u
      using erase_links_nolink [OF k2(2), of u] queued
      by (cases "tcb k2 u"; cases "tcb k u") (auto simp: tick_task_def nolink_def expired_def)
    ultimately show ?thesis using queued(1) k2(3) by (simp add: erase_links_eqD [OF k2(2)])
  qed
qed

subsection \<open>The loop over all tasks\<close>

text \<open>The tasks with an index below \<open>m\<close> whose delay runs out, taken off every list.\<close>

definition drop_expired :: "u32 \<Rightarrow> kern \<Rightarrow> nat \<Rightarrow> (wait_cell \<Rightarrow> tid list) \<Rightarrow> wait_cell \<Rightarrow> tid list" where
  "drop_expired e k m W c = filter (\<lambda>t. \<not> (\<exists>i<m. t = Task i \<and> expired e k t)) (W c)"

lemma drop_expired_Suc:
  "drop_expired e k (Suc m) W
     = (if expired e k (Task m) then drop_task (Task m) (drop_expired e k m W)
        else drop_expired e k m W)"
  by (auto simp: drop_expired_def drop_task_def fun_eq_iff less_Suc_eq intro!: filter_cong)

lemma tick_loop_spec:
  assumes inv: "kern_inv k W"
  shows "\<exists>k'. fold_opt (tick_one e) [0..<m] k = Some k'
     \<and> kern_inv k' (drop_expired e k m W)
     \<and> (\<forall>u. nolink (tcb k' u)
          = nolink (if \<exists>i<m. u = Task i then tick_task e (tcb k u) else tcb k u))
     \<and> g_next_task k' = g_next_task k \<and> g_current_task k' = g_current_task k
     \<and> s_task_count k' = s_task_count k \<and> primask k' = primask k \<and> s_ticks k' = s_ticks k"
proof (induction m)
  case 0
  with inv show ?case by (simp add: drop_expired_def)
next
  case (Suc m)
  then obtain k1 where k1: "fold_opt (tick_one e) [0..<m] k = Some k1"
    "kern_inv k1 (drop_expired e k m W)"
    and tcb1: "\<And>u. nolink (tcb k1 u)
          = nolink (if \<exists>i<m. u = Task i then tick_task e (tcb k u) else tcb k u)"
    and fr1: "g_next_task k1 = g_next_task k" "g_current_task k1 = g_current_task k"
      "s_task_count k1 = s_task_count k" "primask k1 = primask k" "s_ticks k1 = s_ticks k"
    by auto
  obtain k2 where k2: "tick_one e m k1 = Some k2"
    "kern_inv k2 (if expired e k1 (Task m) then drop_task (Task m) (drop_expired e k m W)
        else drop_expired e k m W)"
    and tcb2: "\<And>u. nolink (tcb k2 u)
          = nolink (if u = Task m then tick_task e (tcb k1 u) else tcb k1 u)"
    and fr2: "g_next_task k2 = g_next_task k1" "g_current_task k2 = g_current_task k1"
      "s_task_count k2 = s_task_count k1" "primask k2 = primask k1" "s_ticks k2 = s_ticks k1"
    using tick_one_spec [OF k1(2), of e m] by blast
  have m1: "nolink (tcb k1 (Task m)) = nolink (tcb k (Task m))"
    using tcb1 [of "Task m"] by auto
  then have ex: "expired e k1 (Task m) = expired e k (Task m)"
    by (simp add: expired_def nolink_eqD [OF m1])
  have "fold_opt (tick_one e) [0..<Suc m] k = Some k2"
    using k1(1) k2(1) by (simp add: fold_opt_append)
  moreover have "kern_inv k2 (drop_expired e k (Suc m) W)"
    using k2(2) unfolding ex drop_expired_Suc by simp
  moreover have "nolink (tcb k2 u)
      = nolink (if \<exists>i<Suc m. u = Task i then tick_task e (tcb k u) else tcb k u)" for u
    using tcb1 [of u] tcb2 [of u] nolink_tick_task [OF m1, of e]
    by (auto simp: less_Suc_eq)
  ultimately show ?case using fr1 fr2 by auto
qed

subsection \<open>The whole tick\<close>

lemma sched_tick_n_spec:
  assumes inv: "kern_inv k W"
  obtains k' k1 where "sched_tick_n e k = Some k'"
    and "fold_opt (tick_one e) [0..<s_task_count k] k = Some k1"
    and "k' = pend_if_switch (sched_commit_next (demote_current k1))"
    and "kern_inv k' (drop_expired e k (s_task_count k) W)" and "highest_next k'"
    and "\<And>u. nolink (tcb k1 u)
          = nolink (if \<exists>i < s_task_count k. u = Task i then tick_task e (tcb k u) else tcb k u)"
    and "primask k' = primask k" and "s_ticks k' = s_ticks k"
    and "g_current_task k' = g_current_task k" and "s_task_count k' = s_task_count k"
proof -
  obtain k1 where k1: "fold_opt (tick_one e) [0..<s_task_count k] k = Some k1"
    "kern_inv k1 (drop_expired e k (s_task_count k) W)"
    and tcb1: "\<And>u. nolink (tcb k1 u)
          = nolink (if \<exists>i < s_task_count k. u = Task i then tick_task e (tcb k u) else tcb k u)"
    and fr: "g_current_task k1 = g_current_task k" "s_task_count k1 = s_task_count k"
      "primask k1 = primask k" "s_ticks k1 = s_ticks k"
    using tick_loop_spec [OF inv, of e "s_task_count k"] by blast
  let ?k' = "pend_if_switch (sched_commit_next (demote_current k1))"
  have "sched_tick_n e k = Some ?k'" using k1(1) by (simp add: sched_tick_n_def)
  moreover have "kern_inv ?k' (drop_expired e k (s_task_count k) W)"
    using kern_inv_reschedule [OF k1(2)] by simp
  moreover have "highest_next ?k'" by (simp add: commit_highest)
  ultimately show thesis using that [of ?k' k1] k1(1) tcb1 fr by simp
qed

text \<open>Rescheduling touches nothing of a task but its run state.\<close>

lemma wait_view_reschedule: "wait_view (sched_commit_next (demote_current k)) = wait_view k"
  by simp

lemma demote_timed_out [simp]:
  "timed_out (tcb (demote_current k) u) = timed_out (tcb k u)"
  "timed_out (tcb (demote_next k) u) = timed_out (tcb k u)"
  by (simp_all add: demote_current_def demote_next_def split: option.split)

lemma reschedule_timed_out:
  "timed_out (tcb (sched_commit_next (demote_current k)) u) = timed_out (tcb k u)"
  by (simp add: sched_commit_next_def mpu_set_stack_guard_def Let_def)

lemma reschedule_task:
  "delay_ticks (tcb (sched_commit_next (demote_current k)) u) = delay_ticks (tcb k u)"
  "wait_list_head (tcb (sched_commit_next (demote_current k)) u) = wait_list_head (tcb k u)"
  "state (tcb (sched_commit_next (demote_current k)) u) = TASK_BLOCKED
     \<longleftrightarrow> state (tcb k u) = TASK_BLOCKED"
  "timed_out (tcb (sched_commit_next (demote_current k)) u) = timed_out (tcb k u)"
  using wait_view_eqD(3-5) [OF wait_view_reschedule, of k u] reschedule_timed_out [of k u]
  by blast+

text \<open>The delay fields after a tick of \<open>e\<close> milliseconds.\<close>

lemma sched_tick_n_delays:
  assumes "kern_inv k W" and "sched_tick_n e k = Some k'" and "i < s_task_count k"
  shows "delay_ticks (tcb k' (Task i)) = delay_ticks (tick_task e (tcb k (Task i)))"
    and "timed_out (tcb k' (Task i)) = timed_out (tick_task e (tcb k (Task i)))"
    and "wait_list_head (tcb k' (Task i)) = wait_list_head (tick_task e (tcb k (Task i)))"
    and "state (tcb k' (Task i)) = TASK_BLOCKED
      \<longleftrightarrow> state (tick_task e (tcb k (Task i))) = TASK_BLOCKED"
proof -
  obtain k2 k1 where k2: "sched_tick_n e k = Some k2"
      "k2 = pend_if_switch (sched_commit_next (demote_current k1))"
    and n1: "\<And>u. nolink (tcb k1 u)
          = nolink (if \<exists>i < s_task_count k. u = Task i then tick_task e (tcb k u) else tcb k u)"
    by (rule sched_tick_n_spec [OF assms(1), of e]) (rule that, assumption+)
  from k2 assms(2) have k': "k' = pend_if_switch (sched_commit_next (demote_current k1))" by simp
  from n1 [of "Task i"] assms(3) have n: "nolink (tcb k1 (Task i)) = nolink (tick_task e (tcb k (Task i)))"
    by (simp split: if_splits)
  note nd = nolink_eqD [OF n]
  show "delay_ticks (tcb k' (Task i)) = delay_ticks (tick_task e (tcb k (Task i)))"
    "timed_out (tcb k' (Task i)) = timed_out (tick_task e (tcb k (Task i)))"
    "wait_list_head (tcb k' (Task i)) = wait_list_head (tick_task e (tcb k (Task i)))"
    "state (tcb k' (Task i)) = TASK_BLOCKED
      \<longleftrightarrow> state (tick_task e (tcb k (Task i))) = TASK_BLOCKED"
    by (simp_all add: k' reschedule_task nd)
qed

text \<open>Ticking \<open>a + b\<close> milliseconds at once is ticking \<open>a\<close> and then \<open>b\<close>, for every task's delay.\<close>

lemma tick_task_add:
  assumes "unat a + unat b < 2 ^ 32"
  shows "tick_task b (tick_task a x) = tick_task (a + b) x"
proof -
  have ab: "unat (a + b) = unat a + unat b" using assms by (simp add: unat_add_if_no_wrap)
  have le: "a \<le> a + b" using ab by (simp add: word_le_nat_alt)
  show ?thesis
  proof (cases "state x = TASK_BLOCKED \<and> 0 < delay_ticks x \<and> \<not> delay_ticks x \<le> a")
    case True
    then have "a < delay_ticks x" by (simp add: not_le)
    then have sub: "unat (delay_ticks x - a) = unat (delay_ticks x) - unat a"
      by (simp add: unat_sub)
    have "(delay_ticks x - a \<le> b) = (delay_ticks x \<le> a + b)"
      using sub ab \<open>a < delay_ticks x\<close> by (auto simp: word_le_nat_alt word_less_nat_alt)
    moreover have "0 < delay_ticks x - a"
      using sub \<open>a < delay_ticks x\<close> by (simp add: word_less_nat_alt)
    ultimately show ?thesis using True by (auto simp: tick_task_def algebra_simps)
  next
    case False
    then show ?thesis using le by (auto simp: tick_task_def intro: order.trans)
  qed
qed

end
