(* ===== verification/WaitQueue.thy ===== *)
theory WaitQueue
  imports SchedTick
begin

text \<open>
  The interface between the kernel objects and their wait lists. Every object keeps a
  priority-ordered list of waiting tasks through a static \<open>wq_insert\<close> and (events apart)
  \<open>wq_pop\<close> of its own file. The locale \<open>wait_insert\<close> states what the object relies on when
  it queues a task, \<open>wait_queue\<close> adds the laws of taking the first one off; the lemmas
  proved inside them (queueing and blocking keeps the kernel invariant, popping and waking
  keeps it) serve all four kinds of object, whose theories interpret the locales.
\<close>

subsection \<open>The statements every blocking call shares\<close>

text \<open>\<open>g_current_task->state = TASK_BLOCKED\<close>\<close>

definition untimed_wait :: "task_t \<Rightarrow> task_t" where
  "untimed_wait x = x\<lparr>state := TASK_BLOCKED\<rparr>"

text \<open>The four assignments to \<open>g_current_task\<close> before a wait with a timeout.\<close>

definition timed_wait :: "wait_cell \<Rightarrow> u32 \<Rightarrow> task_t \<Rightarrow> task_t" where
  "timed_wait c remaining x =
     x\<lparr>state := TASK_BLOCKED, delay_ticks := remaining, wait_list_head := Some c, timed_out := 0\<rparr>"

text \<open>
  \<open>block_on ins f t k\<close>: the fields of the calling task \<open>t\<close> are set by \<open>f\<close>, the task is
  queued by \<open>ins\<close>, and \<open>sched_block_locked\<close> chooses the next task.
\<close>

definition block_on :: "(tid \<Rightarrow> kern \<Rightarrow> kern option) \<Rightarrow> (task_t \<Rightarrow> task_t) \<Rightarrow> tid \<Rightarrow> kern \<Rightarrow> kern option"
  where
  "block_on ins f t k =
     (case ins t (upd_tcb t f k) of None \<Rightarrow> None | Some k1 \<Rightarrow> Some (sched_block_locked k1))"

text \<open>What a timed call does when it runs again: \<open>if (g_current_task->timed_out) ...\<close>\<close>

definition timed_resume :: "tid \<Rightarrow> kern \<Rightarrow> int outcome \<times> kern" where
  "timed_resume t k =
     (if timed_out (tcb k t) \<noteq> 0
      then (Ret (-1), upd_tcb t (\<lambda>x. x\<lparr>timed_out := 0, wait_list_head := None\<rparr>) k)
      else (Again, k))"

definition systick_get_ms :: "kern \<Rightarrow> u32" where
  "systick_get_ms k = s_ticks k"

subsection \<open>The lists as the kernel invariant names them\<close>

abbreviation kprio :: "kern \<Rightarrow> tid \<Rightarrow> u8" where
  "kprio k \<equiv> \<lambda>t. priority (tcb k t)"

definition enq :: "wait_cell \<Rightarrow> tid \<Rightarrow> kern \<Rightarrow> (wait_cell \<Rightarrow> tid list) \<Rightarrow> wait_cell \<Rightarrow> tid list" where
  "enq c t k W = W(c := prio_insert (kprio k) t (W c))"

definition deq :: "wait_cell \<Rightarrow> (wait_cell \<Rightarrow> tid list) \<Rightarrow> wait_cell \<Rightarrow> tid list" where
  "deq c W = W(c := tl (W c))"

lemma deq_other [simp]: "d \<noteq> c \<Longrightarrow> deq c W d = W d"
  by (simp add: deq_def)

lemma deq_same [simp]: "deq c W c = tl (W c)"
  by (simp add: deq_def)

lemma enq_other [simp]: "d \<noteq> c \<Longrightarrow> enq c t k W d = W d"
  by (simp add: enq_def)

lemma enq_same [simp]: "enq c t k W c = prio_insert (kprio k) t (W c)"
  by (simp add: enq_def)

lemma deq_Nil [simp]: "W c = [] \<Longrightarrow> deq c W = W"
  by (auto simp: deq_def fun_eq_iff)

lemma kern_inv_wlist: "kern_inv k W \<Longrightarrow> wlist k c (W c)"
  by (simp add: kern_inv_def wait_inv_def queues_wf_def)

lemma kern_inv_disjoint: "kern_inv k W \<Longrightarrow> t \<in> set (W c) \<Longrightarrow> t \<in> set (W d) \<Longrightarrow> c = d"
  by (auto simp: kern_inv_def wait_inv_def queues_wf_def)

lemma kern_inv_blocked: "kern_inv k W \<Longrightarrow> t \<in> set (W c) \<Longrightarrow> state (tcb k t) = TASK_BLOCKED"
  by (auto simp: kern_inv_def wait_inv_def)

lemma kern_inv_W_unique:
  assumes "kern_inv k W" and "kern_inv k V"
  shows "W = V"
proof
  fix c
  from assms show "W c = V c" by (meson kern_inv_wlist wlist_unique)
qed

lemma set_enq: "u \<in> set (enq c t k W d) \<longleftrightarrow> u \<in> set (W d) \<or> (d = c \<and> u = t)"
  by (auto simp: enq_def)

subsection \<open>Queueing\<close>

locale wait_insert =
  fixes cell :: wait_cell and ins :: "tid \<Rightarrow> kern \<Rightarrow> kern option"
  assumes ins_spec: "wlist k cell xs \<Longrightarrow> t \<notin> set xs \<Longrightarrow>
    \<exists>k'. ins t k = Some k' \<and> erase_links k' = erase_links k
       \<and> wlist k' cell (prio_insert (kprio k) t xs)
       \<and> (\<forall>d. d \<noteq> cell \<longrightarrow> wait_head k' d = wait_head k d)
       \<and> (\<forall>u. u \<notin> insert t (set xs) \<longrightarrow> wait_next (tcb k' u) = wait_next (tcb k u))"
begin

lemma ins_inv:
  assumes inv: "kern_inv k W" and t: "unqueued W t" "state (tcb k t) = TASK_BLOCKED"
    and dl: "delay_ticks (tcb k t) \<noteq> 0 \<Longrightarrow> wait_list_head (tcb k t) = Some cell"
  shows "\<exists>k'. ins t k = Some k' \<and> kern_inv k' (enq cell t k W) \<and> erase_links k' = erase_links k"
proof -
  from t have tn: "t \<notin> set (W d)" for d by (simp add: unqueued_def)
  obtain k' where k': "ins t k = Some k'" "erase_links k' = erase_links k"
    "wlist k' cell (prio_insert (kprio k) t (W cell))"
    "\<And>d. d \<noteq> cell \<Longrightarrow> wait_head k' d = wait_head k d"
    "\<And>u. u \<notin> insert t (set (W cell)) \<Longrightarrow> wait_next (tcb k' u) = wait_next (tcb k u)"
    using ins_spec [OF kern_inv_wlist [OF inv] tn] by blast
  have "wlist k' d (enq cell t k W d)" for d
  proof (cases "d = cell")
    case True
    with k'(3) show ?thesis by simp
  next
    case False
    have "wlist k' d (W d)"
    proof (rule wlist_cong [THEN iffD2, OF _ _ kern_inv_wlist [OF inv]])
      show "wait_head k' d = wait_head k d" using k'(4) False .
      show "wait_next (tcb k' u) = wait_next (tcb k u)" if "u \<in> set (W d)" for u
        using that kern_inv_disjoint [OF inv] tn False by (intro k'(5)) blast
    qed
    with False show ?thesis by simp
  qed
  moreover note eq = erase_links_eqD [OF k'(2)]
  ultimately have "kern_inv k' (enq cell t k W)"
    using inv t dl tn
    by (auto simp: kern_inv_def wait_inv_def queues_wf_def running_inv_def set_enq)
  with k' show ?thesis by blast
qed

lemma block_on_inv:
  assumes inv: "kern_inv k W" and t: "unqueued W t"
    and f: "state (f (tcb k t)) = TASK_BLOCKED" "priority (f (tcb k t)) = priority (tcb k t)"
      "delay_ticks (f (tcb k t)) \<noteq> 0 \<Longrightarrow> wait_list_head (f (tcb k t)) = Some cell"
  shows "\<exists>k'. block_on ins f t k = Some k' \<and> kern_inv k' (enq cell t k W) \<and> highest_next k'"
proof -
  have inv1: "kern_inv (upd_tcb t f k) W"
    by (rule kern_inv_upd [OF inv t]) (simp_all add: f)
  have p: "kprio (upd_tcb t f k) = kprio k"
    using f by (auto simp: fun_eq_iff)
  obtain k1 where k1: "ins t (upd_tcb t f k) = Some k1" "kern_inv k1 (enq cell t k W)"
    using ins_inv [OF inv1 t] f p by (auto simp: enq_def)
  then have "block_on ins f t k = Some (sched_block_locked k1)"
    by (simp add: block_on_def)
  moreover have "kern_inv (sched_block_locked k1) (enq cell t k W)"
    using k1(2) by (rule sched_block_locked_inv)
  moreover have "highest_next (sched_block_locked k1)"
    by (simp add: sched_block_locked_eq commit_highest)
  ultimately show ?thesis by blast
qed

lemma block_untimed_inv:
  assumes "kern_inv k W" "unqueued W t" "delay_ticks (tcb k t) = 0"
  shows "\<exists>k'. block_on ins untimed_wait t k = Some k' \<and> kern_inv k' (enq cell t k W) \<and> highest_next k'"
  using assms by (intro block_on_inv) (simp_all add: untimed_wait_def)

lemma block_timed_inv:
  assumes "kern_inv k W" "unqueued W t"
  shows "\<exists>k'. block_on ins (timed_wait cell r) t k = Some k' \<and> kern_inv k' (enq cell t k W)
    \<and> highest_next k'"
  using assms by (intro block_on_inv) (simp_all add: timed_wait_def)

end

subsection \<open>Queueing and taking off\<close>

locale wait_queue = wait_insert +
  fixes pop :: "kern \<Rightarrow> tid option \<times> kern"
  assumes pop_empty: "wlist k cell [] \<Longrightarrow> pop k = (None, k)"
    and pop_first: "wlist k cell (t # xs) \<Longrightarrow>
      \<exists>k'. pop k = (Some t, k') \<and> wlist k' cell xs \<and> tcb k' = tcb k
         \<and> erase_links k' = erase_links k \<and> (\<forall>d. d \<noteq> cell \<longrightarrow> wait_head k' d = wait_head k d)"
begin

lemma pop_inv_Nil: "kern_inv k W \<Longrightarrow> W cell = [] \<Longrightarrow> pop k = (None, k)"
  by (metis kern_inv_wlist pop_empty)

lemma pop_inv_Cons:
  assumes inv: "kern_inv k W" and W: "W cell = t # xs"
  shows "\<exists>k'. pop k = (Some t, k') \<and> kern_inv k' (deq cell W) \<and> unqueued (deq cell W) t
     \<and> tcb k' = tcb k \<and> erase_links k' = erase_links k"
proof -
  have w: "wlist k cell (t # xs)" using kern_inv_wlist [OF inv, of cell] W by simp
  from pop_first [OF w] obtain k' where k': "pop k = (Some t, k')" "wlist k' cell xs"
    "tcb k' = tcb k" "erase_links k' = erase_links k"
    "\<And>d. d \<noteq> cell \<Longrightarrow> wait_head k' d = wait_head k d" by blast
  have "wlist k' d (deq cell W d)" for d
  proof (cases "d = cell")
    case True
    with k'(2) W show ?thesis by (simp add: deq_def)
  next
    case False
    have "wlist k' d (W d)"
      by (rule wlist_cong [THEN iffD2, OF _ _ kern_inv_wlist [OF inv]]) (use k' False in auto)
    with False show ?thesis by (simp add: deq_def)
  qed
  moreover note eq = erase_links_eqD [OF k'(4)]
  moreover have sub: "set (deq cell W d) \<subseteq> set (W d)" for d
    by (auto simp: deq_def W)
  ultimately have "kern_inv k' (deq cell W)"
    using inv unfolding kern_inv_def wait_inv_def queues_wf_def running_inv_def k'(3)
    by (metis subsetD)
  moreover have "unqueued (deq cell W) t"
    using kern_inv_disjoint [OF inv, of t cell] W wlist_distinct [OF w]
    by (auto simp: unqueued_def deq_def)
  ultimately show ?thesis using k' by blast
qed

text \<open>Popping, doing anything that keeps the invariant, and waking what was popped.\<close>

lemma pop_wake_inv:
  assumes inv: "kern_inv k W"
    and frame: "\<And>k1 V. kern_inv k1 V \<Longrightarrow> kern_inv (g k1) V"
  shows "kern_inv (sched_wake_task (fst (pop k)) (g (snd (pop k)))) (deq cell W)"
proof (cases "W cell")
  case Nil
  with inv frame show ?thesis by (simp add: pop_inv_Nil sched_wake_task_def)
next
  case (Cons t xs)
  from pop_inv_Cons [OF inv Cons] obtain k' where "pop k = (Some t, k')"
    "kern_inv k' (deq cell W)" "unqueued (deq cell W) t" by blast
  then show ?thesis using sched_wake_task_inv [OF frame] by simp
qed

end

subsection \<open>The copy in \<open>queue.c\<close>, for any cell\<close>

lemma wait_queue_wq: "wait_queue c (wq_insert c) (wq_pop c)"
proof
  show "\<exists>k'. wq_insert c t k = Some k' \<and> erase_links k' = erase_links k
       \<and> wlist k' c (prio_insert (kprio k) t xs)
       \<and> (\<forall>d. d \<noteq> c \<longrightarrow> wait_head k' d = wait_head k d)
       \<and> (\<forall>u. u \<notin> insert t (set xs) \<longrightarrow> wait_next (tcb k' u) = wait_next (tcb k u))"
    if "wlist k c xs" "t \<notin> set xs" for k xs t
    using that by (rule wq_insert_refines)
  show "wq_pop c k = (None, k)" if "wlist k c []" for k
    using that by (rule wq_pop_Nil)
  show "\<exists>k'. wq_pop c k = (Some t, k') \<and> wlist k' c xs \<and> tcb k' = tcb k
         \<and> erase_links k' = erase_links k \<and> (\<forall>d. d \<noteq> c \<longrightarrow> wait_head k' d = wait_head k d)"
    if "wlist k c (t # xs)" for k t xs
    using that by (rule wq_pop_Cons)
qed

interpretation wq: wait_queue c "wq_insert c" "wq_pop c" for c
  by (rule wait_queue_wq)

text \<open>Waking the current task's rescheduling never changes a priority or a timeout flag.\<close>

lemma sched_wake_task_None [simp]: "sched_wake_task None k = k"
  by (simp add: sched_wake_task_def)

end
