(* ===== verification/KernSteps.thy ===== *)
theory KernSteps
  imports WaitQueue
begin

text \<open>
  The steps of the kernel that go on around the calls on one kernel object: the tick
  interrupt, the PendSV exception, and yields and delays of whichever task is running.
  \<open>bg_step P\<close> is that relation, where \<open>P\<close> are the tasks in the middle of a blocking call
  (they do nothing else before it returns). The lemmas say what such a step leaves alone.
\<close>

definition runnable :: "kern \<Rightarrow> tid \<Rightarrow> bool" where
  "runnable k t \<longleftrightarrow> state (tcb k t) = TASK_READY \<or> state (tcb k t) = TASK_RUNNING"

definition running :: "kern \<Rightarrow> tid \<Rightarrow> bool" where
  "running k t \<longleftrightarrow> g_current_task k = Some t \<and> state (tcb k t) = TASK_RUNNING"

inductive bg_step :: "tid set \<Rightarrow> kern \<Rightarrow> kern \<Rightarrow> bool" for P where
  bg_tick: "sched_tick_n e k = Some k' \<Longrightarrow> bg_step P k k'"
| bg_pendsv: "bg_step P k (PendSV_Handler k)"
| bg_yield: "running k c \<Longrightarrow> bg_step P k (sched_yield k)"
| bg_delay: "running k c \<Longrightarrow> c \<notin> P \<Longrightarrow> sched_delay_ms ms k = (r, k') \<Longrightarrow> bg_step P k k'"

inductive_cases bg_stepE: "bg_step P k k'"

lemma runnable_demote_current [simp]: "runnable (demote_current k) t = runnable k t"
  by (auto simp: runnable_def demote_current_def split: option.split)

lemma runnable_demote_next [simp]: "runnable (demote_next k) t = runnable k t"
  by (auto simp: runnable_def demote_next_def split: option.split)

lemma runnable_commit [simp]: "runnable (sched_commit_next k) t = runnable k t"
proof -
  have "runnable (sched_commit_next k) t = runnable (demote_next k) t"
    by (auto simp: runnable_def sched_commit_next_state Let_def)
  then show ?thesis by simp
qed

lemma runnable_frame [simp]:
  "runnable (sched_critical_exit p k) t = runnable k t"
  "runnable (trigger_pendsv k) t = runnable k t"
  "runnable (pend_if_switch k) t = runnable k t"
  "runnable (k\<lparr>primask := b\<rparr>) t = runnable k t"
  "runnable (PendSV_Handler k) t = runnable k t"
  by (simp_all add: runnable_def trigger_pendsv_def pend_if_switch_def PendSV_Handler_def)

lemma runnable_not_blocked: "runnable k t \<Longrightarrow> state (tcb k t) \<noteq> TASK_BLOCKED"
  by (auto simp: runnable_def)

lemma runnable_block_locked [simp]: "runnable (sched_block_locked k) t = runnable k t"
  by (simp add: sched_block_locked_eq)

lemma sched_wake_task_eq:
  "sched_wake_task (Some t) k = pend_if_switch (sched_critical_exit (primask k)
     (sched_commit_next (demote_current
       (upd_tcb t (\<lambda>y. y\<lparr>wait_next := None, delay_ticks := 0, state := TASK_READY\<rparr>)
         (k\<lparr>primask := True\<rparr>)))))"
  by (simp add: sched_wake_task_def sched_critical_enter_def)

lemma runnable_wake: "runnable (sched_wake_task (Some t) k) u \<longleftrightarrow> u = t \<or> runnable k u"
  unfolding sched_wake_task_eq runnable_frame runnable_commit runnable_demote_current
  by (auto simp: runnable_def)

lemma runnable_erase_links: "erase_links k' = erase_links k \<Longrightarrow> runnable k' t = runnable k t"
  by (simp add: runnable_def erase_links_eqD(1) [of k' k])

text \<open>The delay of a task, as the wait view shows it, survives waking another one.\<close>

lemma delay_trigger [simp]: "tcb (trigger_pendsv k) = tcb k" "tcb (pend_if_switch k) = tcb k"
  by (simp_all add: trigger_pendsv_def pend_if_switch_def)

lemma delay_commit [simp]: "delay_ticks (tcb (sched_commit_next k) u) = delay_ticks (tcb k u)"
  by (fact wait_view_eqD(3) [OF wait_view_commit])

lemma delay_demote [simp]: "delay_ticks (tcb (demote_current k) u) = delay_ticks (tcb k u)"
  by (fact wait_view_eqD(3) [OF wait_view_demote])

lemma delay_wake:
  "delay_ticks (tcb (sched_wake_task (Some t) k) u) = (if u = t then 0 else delay_ticks (tcb k u))"
  unfolding sched_wake_task_eq by simp

lemma delay_block_locked [simp]:
  "delay_ticks (tcb (sched_block_locked k) u) = delay_ticks (tcb k u)"
  by (simp add: sched_block_locked_eq)

text \<open>Blocked with no delay running: only a wake-up can end that.\<close>

definition sleeping :: "kern \<Rightarrow> tid \<Rightarrow> bool" where
  "sleeping k t \<longleftrightarrow> state (tcb k t) = TASK_BLOCKED \<and> delay_ticks (tcb k t) = 0"

lemma sleeping_view: "wait_view k' = wait_view k \<Longrightarrow> sleeping k' t = sleeping k t"
  using wait_view_eqD(3,5) [of k' k t] by (simp add: sleeping_def)

lemma sleeping_simps [simp]:
  "sleeping (sched_commit_next k) t = sleeping k t" "sleeping (demote_current k) t = sleeping k t"
  by (rule sleeping_view, simp)+

lemma sleeping_frame [simp]:
  "sleeping (sched_critical_exit p k) t = sleeping k t" "sleeping (trigger_pendsv k) t = sleeping k t"
  "sleeping (pend_if_switch k) t = sleeping k t" "sleeping (k\<lparr>primask := b\<rparr>) t = sleeping k t"
  "sleeping (PendSV_Handler k) t = sleeping k t"
  by (simp_all add: sleeping_def PendSV_Handler_def)

lemma sleeping_upd: "u \<noteq> t \<Longrightarrow> sleeping (upd_tcb t f k) u = sleeping k u"
  by (simp add: sleeping_def)

lemma sleeping_wake: "sleeping (sched_wake_task (Some t) k) u \<longleftrightarrow> u \<noteq> t \<and> sleeping k u"
  unfolding sched_wake_task_eq sleeping_frame sleeping_simps by (simp add: sleeping_def)

lemma sleeping_not_running: "sleeping k t \<Longrightarrow> \<not> running k t"
  by (simp add: sleeping_def running_def)

lemma sleeping_block_locked [simp]: "sleeping (sched_block_locked k) t = sleeping k t"
  by (simp add: sched_block_locked_eq)

text \<open>The fields of a task that choosing and waking tasks never touch.\<close>

definition task_const ::
    "task_t \<Rightarrow> u8 \<times> u8 \<times> u32 \<times> u32 \<times> nat \<times> u32 list \<times> u8 \<times> wait_cell option" where
  "task_const x = (priority x, notify_pending x, notify_value x, func x, sp x, stack x,
     timed_out x, wait_list_head x)"

lemma task_constD:
  "task_const x = task_const y \<Longrightarrow> priority x = priority y"
  "task_const x = task_const y \<Longrightarrow> notify_pending x = notify_pending y"
  "task_const x = task_const y \<Longrightarrow> notify_value x = notify_value y"
  "task_const x = task_const y \<Longrightarrow> timed_out x = timed_out y"
  by (simp_all add: task_const_def)

lemma task_const_upd [simp]:
  "task_const (x\<lparr>state := st\<rparr>) = task_const x"
  "task_const (x\<lparr>delay_ticks := d\<rparr>) = task_const x"
  "task_const (x\<lparr>wait_next := n\<rparr>) = task_const x"
  by (simp_all add: task_const_def)

lemma task_const_demote [simp]:
  "task_const (tcb (demote_current k) u) = task_const (tcb k u)"
  "task_const (tcb (demote_next k) u) = task_const (tcb k u)"
  by (simp_all add: task_const_def demote_current_def demote_next_def split: option.split)

lemma task_const_commit [simp]: "task_const (tcb (sched_commit_next k) u) = task_const (tcb k u)"
proof -
  have "task_const (tcb (sched_commit_next k) u) = task_const (tcb (demote_next k) u)"
    by (simp add: task_const_def sched_commit_next_def mpu_set_stack_guard_def Let_def)
  then show ?thesis by simp
qed

lemma task_const_wake [simp]:
  "task_const (tcb (sched_wake_task t k) u) = task_const (tcb k u)"
proof (cases t)
  case (Some v)
  have "x\<lparr>state := a, delay_ticks := b, wait_next := c\<rparr> = x\<lparr>wait_next := c\<rparr>\<lparr>delay_ticks := b\<rparr>\<lparr>state := a\<rparr>"
    for a b c and x :: task_t by simp
  then show ?thesis unfolding Some sched_wake_task_eq
    by (simp del: task_t.update_convs)
qed (simp add: sched_wake_task_def)

lemma task_const_block_locked [simp]:
  "task_const (tcb (sched_block_locked k) u) = task_const (tcb k u)"
  by (simp add: sched_block_locked_eq)

lemma priority_frame [simp]:
  "priority (tcb (sched_wake_task t k) u) = priority (tcb k u)"
  "priority (tcb (sched_block_locked k) u) = priority (tcb k u)"
  "timed_out (tcb (sched_wake_task t k) u) = timed_out (tcb k u)"
  "timed_out (tcb (sched_block_locked k) u) = timed_out (tcb k u)"
  by (rule task_constD; simp)+

lemma task_const_yield [simp]:
  "task_const (tcb (sched_yield k) u) = task_const (tcb k u)"
  by (simp add: sched_yield_def sched_critical_enter_def split: option.split)

lemma task_const_delay:
  "sched_delay_ms ms k = (r, k') \<Longrightarrow> task_const (tcb k' u) = task_const (tcb k u)"
  by (auto simp: sched_delay_ms_def sched_critical_enter_def split: if_splits option.splits)

text \<open>Queueing the caller changes nobody else.\<close>

lemma block_on_frame:
  assumes "\<And>t k k'. ins t k = Some k' \<Longrightarrow> erase_links k' = erase_links k"
    and "block_on ins f t k = Some k'"
  shows "u \<noteq> t \<Longrightarrow> runnable k' u = runnable k u"
    and "delay_ticks (tcb k' u) = delay_ticks (tcb (upd_tcb t f k) u)"
    and "priority (tcb k' u) = priority (tcb (upd_tcb t f k) u)"
    and "timed_out (tcb k' u) = timed_out (tcb (upd_tcb t f k) u)"
    and "g_current_task k' = g_current_task k" and "s_task_count k' = s_task_count k"
    and "u \<noteq> t \<Longrightarrow> sleeping k' u = sleeping k u"
proof -
  from assms(2) obtain k1 where k1: "ins t (upd_tcb t f k) = Some k1" "k' = sched_block_locked k1"
    by (auto simp: block_on_def split: option.splits)
  from assms(1) [OF k1(1)] have e: "erase_links k1 = erase_links (upd_tcb t f k)" .
  note e1 = erase_links_eqD(1,3,2,5) [OF e, of u]
  from e1(1) show "u \<noteq> t \<Longrightarrow> runnable k' u = runnable k u"
    unfolding k1(2) by (simp add: runnable_def [of k1] runnable_def [of k])
  from e1(1,2) show "u \<noteq> t \<Longrightarrow> sleeping k' u = sleeping k u"
    unfolding k1(2) by (simp add: sleeping_def [of k1] sleeping_def [of k])
  from e1(2) show "delay_ticks (tcb k' u) = delay_ticks (tcb (upd_tcb t f k) u)"
    unfolding k1(2) by simp
  from e1(3) show "priority (tcb k' u) = priority (tcb (upd_tcb t f k) u)"
    unfolding k1(2) by simp
  from e1(4) show "timed_out (tcb k' u) = timed_out (tcb (upd_tcb t f k) u)"
    unfolding k1(2) by simp
  from erase_links_eqD(8,10) [OF e]
  show "g_current_task k' = g_current_task k" "s_task_count k' = s_task_count k"
    unfolding k1(2) by (simp_all add: sched_block_locked_eq trigger_pendsv_def)
qed

subsection \<open>Background steps\<close>

lemma running_unqueued: "kern_inv k W \<Longrightarrow> running k t \<Longrightarrow> unqueued W t \<and> delay_ticks (tcb k t) = 0"
  by (auto simp: running_def kern_inv_def wait_inv_def unqueued_def)

lemma drop_expired_untimed:
  "\<forall>t\<in>set (W c). delay_ticks (tcb k t) = 0 \<Longrightarrow> drop_expired e k n W c = W c"
  by (auto simp: drop_expired_def filter_id_conv expired_def)

lemma tick_bg:
  assumes inv: "kern_inv k W" and tick: "sched_tick_n e k = Some k'"
  shows "kern_inv k' (drop_expired e k (s_task_count k) W)"
    and "runnable k t \<Longrightarrow> runnable k' t"
    and "delay_ticks (tcb k t) = 0 \<Longrightarrow> delay_ticks (tcb k' t) = 0"
    and "\<not> (\<exists>i < s_task_count k. t = Task i \<and> expired e k t) \<Longrightarrow> timed_out (tcb k' t) = timed_out (tcb k t)"
    and "priority (tcb k' t) = priority (tcb k t)"
    and "sleeping k t \<Longrightarrow> sleeping k' t"
    and "notify_pending (tcb k' t) = notify_pending (tcb k t)"
    and "notify_value (tcb k' t) = notify_value (tcb k t)"
proof -
  obtain k2 k1 where k2: "sched_tick_n e k = Some k2"
      "k2 = pend_if_switch (sched_commit_next (demote_current k1))"
    and inv2: "kern_inv k2 (drop_expired e k (s_task_count k) W)"
    and n: "\<And>u. nolink (tcb k1 u)
          = nolink (if \<exists>i < s_task_count k. u = Task i then tick_task e (tcb k u) else tcb k u)"
    by (rule sched_tick_n_spec [OF inv, of e]) (rule that, assumption+)
  from k2 tick have k': "k' = pend_if_switch (sched_commit_next (demote_current k1))" by simp
  show "kern_inv k' (drop_expired e k (s_task_count k) W)" using inv2 k2 k' by simp
  have "notify_pending (tcb k1 t) = notify_pending (tcb k t)" "notify_value (tcb k1 t) = notify_value (tcb k t)"
    using nolink_eqD(6,7) [OF n [of t]] by (simp_all add: tick_task_def split: if_splits)
  then show "notify_pending (tcb k' t) = notify_pending (tcb k t)"
    "notify_value (tcb k' t) = notify_value (tcb k t)"
    unfolding k' using task_constD(2,3) [OF task_const_commit, of "demote_current k1" t]
      task_constD(2,3) [OF task_const_demote(1), of k1 t] by simp_all
  have "priority (tcb k1 t) = priority (tcb k t)"
    using nolink_eqD(3) [OF n [of t]] by (simp add: tick_task_def split: if_splits)
  then show "priority (tcb k' t) = priority (tcb k t)"
    unfolding k' using task_constD(1) [OF task_const_commit, of "demote_current k1" t]
      task_constD(1) [OF task_const_demote(1), of k1 t] by simp
  have n': "nolink (tcb k1 t) = nolink (tick_task e (tcb k t)) \<or> nolink (tcb k1 t) = nolink (tcb k t)"
    using n [of t] by (simp split: if_splits)
  then have "state (tcb k1 t) = state (tick_task e (tcb k t)) \<or> state (tcb k1 t) = state (tcb k t)"
    and "delay_ticks (tcb k1 t) = delay_ticks (tick_task e (tcb k t))
      \<or> delay_ticks (tcb k1 t) = delay_ticks (tcb k t)"
    using nolink_eqD by blast+
  moreover have "timed_out (tcb k1 t) = timed_out (tcb k t)"
    if "\<not> (\<exists>i < s_task_count k. t = Task i \<and> expired e k t)"
    using nolink_eqD(5) [OF n [of t]] that by (auto simp: tick_task_def expired_def split: if_splits)
  then show "\<not> (\<exists>i < s_task_count k. t = Task i \<and> expired e k t) \<Longrightarrow> timed_out (tcb k' t) = timed_out (tcb k t)"
    unfolding k' by (simp add: reschedule_timed_out)
  ultimately show "runnable k t \<Longrightarrow> runnable k' t"
    and "delay_ticks (tcb k t) = 0 \<Longrightarrow> delay_ticks (tcb k' t) = 0"
    and "sleeping k t \<Longrightarrow> sleeping k' t"
    unfolding k' by (auto simp: runnable_def [of k] runnable_def [of k1] tick_task_def
        sleeping_def [of k] sleeping_def [of k1])
qed

lemma yield_bg:
  assumes inv: "kern_inv k W" and r: "running k c"
  shows "kern_inv (sched_yield k) W" and "runnable k t \<Longrightarrow> runnable (sched_yield k) t"
    and "delay_ticks (tcb (sched_yield k) t) = delay_ticks (tcb k t)"
    and "sleeping k t \<Longrightarrow> sleeping (sched_yield k) t"
proof -
  from running_unqueued [OF inv r] r show "kern_inv (sched_yield k) W"
    by (intro sched_yield_inv [OF inv]) (simp add: running_def)
  have y: "sched_yield k = trigger_pendsv (sched_critical_exit (primask k)
      (sched_commit_next (set_state c TASK_READY (k\<lparr>primask := True\<rparr>))))"
    using r by (simp add: sched_yield_def sched_critical_enter_def running_def)
  show "delay_ticks (tcb (sched_yield k) t) = delay_ticks (tcb k t)"
    unfolding y by simp
  show "sleeping k t \<Longrightarrow> sleeping (sched_yield k) t"
    using sleeping_not_running [of k t] r unfolding y
    by (auto simp: sleeping_def [of "set_state _ _ _"] sleeping_def [of k])
  show "runnable k t \<Longrightarrow> runnable (sched_yield k) t"
    unfolding y by (simp add: runnable_def [of "set_state _ _ _"] runnable_def [of k])
qed

lemma delay_bg:
  assumes inv: "kern_inv k W" and r: "running k c" and d: "sched_delay_ms ms k = (r', k')"
  shows "kern_inv k' W" and "t \<noteq> c \<Longrightarrow> runnable k t \<Longrightarrow> runnable k' t"
    and "t \<noteq> c \<Longrightarrow> delay_ticks (tcb k' t) = delay_ticks (tcb k t)"
    and "sleeping k t \<Longrightarrow> sleeping k' t"
proof -
  from running_unqueued [OF inv r] r d show "kern_inv k' W"
    using sched_delay_ms_inv [OF inv, of ms] by (simp add: running_def)
  have k': "k' = (if ms = 0 then k else trigger_pendsv (sched_critical_exit (primask k)
      (sched_commit_next (upd_tcb c (\<lambda>y. y\<lparr>delay_ticks := ms, state := TASK_BLOCKED\<rparr>)
        (k\<lparr>primask := True\<rparr>)))))"
    using r d by (auto simp: sched_delay_ms_def sched_critical_enter_def running_def)
  show "t \<noteq> c \<Longrightarrow> runnable k t \<Longrightarrow> runnable k' t"
    unfolding k' by (simp add: runnable_def [of "upd_tcb _ _ _"] runnable_def [of k])
  show "t \<noteq> c \<Longrightarrow> delay_ticks (tcb k' t) = delay_ticks (tcb k t)"
    unfolding k' by simp
  show "sleeping k t \<Longrightarrow> sleeping k' t"
    using sleeping_not_running [of k t] r unfolding k' by (cases "t = c") (auto simp: sleeping_upd)
qed

lemma bg_step_inv:
  assumes inv: "kern_inv k W" and "bg_step P k k'"
  shows "\<exists>V. kern_inv k' V
     \<and> (\<forall>c. (\<forall>t\<in>set (W c). delay_ticks (tcb k t) = 0)
           \<longrightarrow> V c = W c \<and> (\<forall>t\<in>set (V c). delay_ticks (tcb k' t) = 0))
     \<and> (\<forall>c. set (V c) \<subseteq> set (W c)) \<and> (\<forall>t\<in>P. runnable k t \<longrightarrow> runnable k' t)
     \<and> (\<forall>t c. t \<in> set (V c) \<or> runnable k t \<longrightarrow> timed_out (tcb k' t) = timed_out (tcb k t))
     \<and> (\<forall>t. sleeping k t \<longrightarrow> sleeping k' t)"
  using assms(2)
proof cases
  case (bg_tick e)
  have "timed_out (tcb k' t) = timed_out (tcb k t)" if "runnable k t" for t
    using that by (intro tick_bg(4) [OF inv bg_tick]) (auto simp: runnable_def expired_def)
  moreover have "timed_out (tcb k' t) = timed_out (tcb k t)"
    if "t \<in> set (drop_expired e k (s_task_count k) W c)" for t c
    using that by (intro tick_bg(4) [OF inv bg_tick]) (auto simp: drop_expired_def)
  ultimately show ?thesis
    using tick_bg(1-3,6) [OF inv bg_tick] drop_expired_untimed [of W _ k e "s_task_count k"]
    by (intro exI [of _ "drop_expired e k (s_task_count k) W"]) (auto simp: drop_expired_def)
next
  case bg_pendsv
  then show ?thesis using PendSV_Handler_inv [OF inv]
    by (intro exI [of _ W]) (simp_all add: runnable_def sleeping_def PendSV_Handler_def)
next
  case (bg_yield c)
  have "timed_out (tcb k' t) = timed_out (tcb k t)" for t
    unfolding bg_yield(1) by (rule task_constD) simp
  with bg_yield yield_bg [OF inv] show ?thesis by (intro exI [of _ W]) simp
next
  case (bg_delay c ms r)
  then have "unqueued W c" using running_unqueued [OF inv] by blast
  then have "t \<in> set (W d) \<Longrightarrow> t \<noteq> c" for t d by (auto simp: unqueued_def)
  moreover have "t \<in> P \<Longrightarrow> t \<noteq> c" for t using bg_delay by blast
  moreover note d = delay_bg [OF inv bg_delay(1,3)]
  moreover have "timed_out (tcb k' t) = timed_out (tcb k t)" for t
    by (rule task_constD) (rule task_const_delay [OF bg_delay(3)])
  ultimately show ?thesis using d(1) by (intro exI [of _ W]) (auto simp: d)
qed

end
