(* ===== verification/SchedWakeup.thy ===== *)
theory SchedWakeup
  imports KernSteps
begin

text \<open>
  Time in the scheduler: runs of ticks, tickless idle (one large tick in place of many small
  ones), the next wake-up time, and how long \<open>sched_delay_ms\<close> keeps its caller blocked. The
  theory also holds the small kernel state the witnesses of the kernel properties run on.
\<close>

subsection \<open>A concrete kernel state\<close>

definition demo_task :: "task_state \<Rightarrow> u8 \<Rightarrow> task_t" where
  "demo_task st p = zero_task\<lparr>state := st, priority := p, func := 1, stack := []\<rparr>"

text \<open>
  Three tasks: 0 runs with priority 1, 1 and 2 are ready with priorities 1 and 2; nobody
  waits.
\<close>

definition demo_kern :: kern where
  "demo_kern = boot_kern\<lparr>
     tcb := (\<lambda>t. if t = Task 0 then demo_task TASK_RUNNING 1
                 else if t = Task 1 then demo_task TASK_READY 1
                 else if t = Task 2 then demo_task TASK_READY 2
                 else demo_task TASK_READY 3),
     s_task_count := 3, g_current_task := Some (Task 0), g_next_task := Some (Task 0),
     s_started := 1\<rparr>"

lemma kern_inv_fresh:
  assumes "\<And>c. wait_head k c = None" and "\<And>t. delay_ticks (tcb k t) = 0" and "running_inv k"
  shows "kern_inv k (\<lambda>_. [])"
  using assms by (simp add: kern_inv_def wait_inv_def queues_wf_def wlist_def)

lemma demo_kern_inv: "kern_inv demo_kern (\<lambda>_. [])"
  by (rule kern_inv_fresh)
    (auto simp: demo_kern_def boot_kern_def demo_task_def zero_task_def running_inv_def)

lemma demo_running: "running demo_kern (Task 0)"
  by (simp add: running_def demo_kern_def demo_task_def)

text \<open>Task \<open>c\<close> runs, the others are ready, with the given priorities.\<close>

definition demo_run :: "nat \<Rightarrow> (tid \<Rightarrow> u8) \<Rightarrow> kern" where
  "demo_run c ps = demo_kern\<lparr>
     tcb := (\<lambda>t. demo_task (if t = Task c then TASK_RUNNING else TASK_READY) (ps t)),
     g_current_task := Some (Task c), g_next_task := Some (Task c)\<rparr>"

lemma demo_run_inv: "kern_inv (demo_run c ps) (\<lambda>_. [])"
  by (rule kern_inv_fresh)
    (auto simp: demo_run_def demo_kern_def boot_kern_def demo_task_def zero_task_def running_inv_def)

lemma demo_run_simps [simp]:
  "running (demo_run c ps) (Task c)" "g_current_task (demo_run c ps) = Some (Task c)"
  "priority (tcb (demo_run c ps) t) = ps t" "s_task_count (demo_run c ps) = 3"
  "wait_head (demo_run c ps) d = None"  "s_ticks (demo_run c ps) = 0"
  by (simp_all add: running_def demo_run_def demo_kern_def demo_task_def boot_kern_def)

subsection \<open>Runs of ticks\<close>

definition sched_ticks :: "u32 list \<Rightarrow> kern \<Rightarrow> kern option" where
  "sched_ticks es k = fold_opt sched_tick_n es k"

lemma sched_tick_n_count: "kern_inv k W \<Longrightarrow> sched_tick_n e k = Some k' \<Longrightarrow> s_task_count k' = s_task_count k"
  by (rule sched_tick_n_spec [of k W e]) simp_all

lemma sched_tick_n_ex: "kern_inv k W \<Longrightarrow> \<exists>k'. sched_tick_n e k = Some k'"
  by (rule sched_tick_n_spec [of k W e]) auto

text \<open>What \<open>tick_task\<close> reads of a task, READY and RUNNING taken together.\<close>

definition run_state :: "task_t \<Rightarrow> task_state" where
  "run_state x = (if state x = TASK_RUNNING then TASK_READY else state x)"

definition tick_view :: "task_t \<Rightarrow> task_state \<times> u32 \<times> u8 \<times> wait_cell option" where
  "tick_view x = (run_state x, delay_ticks x, timed_out x, wait_list_head x)"

lemma run_state_blocked [simp]: "run_state x = TASK_BLOCKED \<longleftrightarrow> state x = TASK_BLOCKED"
  by (simp add: run_state_def)

lemma run_state_demote [simp]:
  "run_state (tcb (demote_current k) u) = run_state (tcb k u)"
  "run_state (tcb (demote_next k) u) = run_state (tcb k u)"
  by (auto simp: run_state_def demote_current_def demote_next_def split: option.split)

lemma run_state_commit [simp]: "run_state (tcb (sched_commit_next k) u) = run_state (tcb k u)"
proof -
  have "run_state (tcb (sched_commit_next k) u) = run_state (tcb (demote_next k) u)"
    by (auto simp: run_state_def sched_commit_next_state Let_def)
  then show ?thesis by simp
qed

lemma tick_view_tick_task: "tick_view x = tick_view y \<Longrightarrow> tick_view (tick_task e x) = tick_view (tick_task e y)"
  using run_state_blocked [of x] run_state_blocked [of y]
  by (auto simp: tick_view_def tick_task_def run_state_def split: if_splits)

lemma tick_view_nolink: "nolink x = nolink y \<Longrightarrow> tick_view x = tick_view y"
  using nolink_eqD [of x y] by (auto simp: tick_view_def run_state_def)

lemma tick_view_tick:
  assumes "kern_inv k W" "sched_tick_n e k = Some k'" "i < s_task_count k"
  shows "tick_view (tcb k' (Task i)) = tick_view (tick_task e (tcb k (Task i)))"
proof -
  obtain k2 k1 where k2: "sched_tick_n e k = Some k2"
      "k2 = pend_if_switch (sched_commit_next (demote_current k1))"
    and n: "\<And>u. nolink (tcb k1 u)
          = nolink (if \<exists>i < s_task_count k. u = Task i then tick_task e (tcb k u) else tcb k u)"
    by (rule sched_tick_n_spec [OF assms(1), of e]) (rule that, assumption+)
  from k2 assms(2) have k': "k' = pend_if_switch (sched_commit_next (demote_current k1))" by simp
  have "tick_view (tcb k' (Task i)) = tick_view (tcb k1 (Task i))"
    unfolding k' by (simp add: tick_view_def reschedule_task)
  also have "\<dots> = tick_view (tick_task e (tcb k (Task i)))"
    using n [of "Task i"] assms(3) by (intro tick_view_nolink) (simp split: if_splits)
  finally show ?thesis .
qed

lemma tick_view_ticks:
  assumes "kern_inv k W" and "i < s_task_count k" and "(\<Sum>e\<leftarrow>es. unat e) < 2 ^ 32"
  shows "\<exists>k' V. sched_ticks es k = Some k' \<and> kern_inv k' V \<and> s_task_count k' = s_task_count k
     \<and> tick_view (tcb k' (Task i)) = tick_view (tick_task (sum_list es) (tcb k (Task i)))"
  using assms
proof (induction es arbitrary: k W)
  case Nil
  have "tick_task 0 x = x" for x by (auto simp: tick_task_def)
  with Nil show ?case by (auto simp: sched_ticks_def)
next
  case (Cons e es)
  from sched_tick_n_ex [OF Cons.prems(1)] obtain k1 where k1: "sched_tick_n e k = Some k1" by blast
  note inv1 = tick_bg(1) [OF Cons.prems(1) k1]
  note n1 = sched_tick_n_count [OF Cons.prems(1) k1]
  from Cons.prems(2) n1 have "i < s_task_count k1" by simp
  moreover from Cons.prems(3) have s: "(\<Sum>e\<leftarrow>es. unat e) < 2 ^ 32" by simp
  ultimately obtain k' V where k': "sched_ticks es k1 = Some k'" "kern_inv k' V"
    "s_task_count k' = s_task_count k1"
    "tick_view (tcb k' (Task i)) = tick_view (tick_task (sum_list es) (tcb k1 (Task i)))"
    using Cons.IH [OF inv1] by blast
  have su: "unat (sum_list es) = (\<Sum>e\<leftarrow>es. unat e)"
    using s by (induction es) (simp_all add: unat_add_if_no_wrap)
  have "tick_view (tick_task (sum_list es) (tcb k1 (Task i)))
      = tick_view (tick_task (sum_list es) (tick_task e (tcb k (Task i))))"
    by (rule tick_view_tick_task) (rule tick_view_tick [OF Cons.prems(1) k1 Cons.prems(2)])
  also have "tick_task (sum_list es) (tick_task e (tcb k (Task i)))
      = tick_task (e + sum_list es) (tcb k (Task i))"
    using Cons.prems(3) su by (intro tick_task_add) simp
  finally show ?case using k' k1 n1 by (auto simp: sched_ticks_def)
qed

text \<open>A task whose delay runs out is ready or running after the tick.\<close>

lemma tick_expired_runnable:
  assumes "kern_inv k W" and "sched_tick_n e k = Some k'" and "i < s_task_count k"
    and "expired e k (Task i)"
  shows "runnable k' (Task i)"
proof -
  from tick_view_tick [OF assms(1-3)] assms(4) have "run_state (tcb k' (Task i)) = TASK_READY"
    by (simp add: tick_view_def tick_task_def expired_def run_state_def)
  then show ?thesis by (auto simp: run_state_def runnable_def split: if_splits)
qed

subsection \<open>The next wake-up\<close>

definition counting :: "kern \<Rightarrow> nat \<Rightarrow> bool" where
  "counting k i \<longleftrightarrow> state (tcb k (Task i)) = TASK_BLOCKED \<and> delay_ticks (tcb k (Task i)) > 0"

lemma next_wakeup_fold:
  "(\<forall>i<n. counting k i \<longrightarrow> fold (wakeup_one k) [0..<n] m \<le> delay_ticks (tcb k (Task i)))
    \<and> (fold (wakeup_one k) [0..<n] m = m
        \<or> (\<exists>i<n. counting k i \<and> fold (wakeup_one k) [0..<n] m = delay_ticks (tcb k (Task i))))"
proof (induction n)
  case 0
  then show ?case by simp
next
  case (Suc n)
  let ?r = "fold (wakeup_one k) [0..<n] m"
  have step: "fold (wakeup_one k) [0..<Suc n] m = wakeup_one k n ?r" by simp
  have r: "wakeup_one k n ?r \<le> ?r"
    and "counting k n \<Longrightarrow> wakeup_one k n ?r \<le> delay_ticks (tcb k (Task n))"
    and n: "wakeup_one k n ?r = ?r \<or> (counting k n \<and> wakeup_one k n ?r = delay_ticks (tcb k (Task n)))"
    by (auto simp: wakeup_one_def counting_def Let_def)
  then have "\<forall>i<Suc n. counting k i \<longrightarrow> wakeup_one k n ?r \<le> delay_ticks (tcb k (Task i))"
    using Suc by (auto simp: less_Suc_eq intro: order.trans [OF r])
  then show ?case unfolding step using Suc n by (metis less_Suc_eq)
qed

lemma wakeup_one_primask [simp]: "wakeup_one (k\<lparr>primask := b\<rparr>) = wakeup_one k"
  by (simp add: wakeup_one_def fun_eq_iff)

lemma next_wakeup_eq:
  "sched_get_next_wakeup_ms k = (fold (wakeup_one k) [0..<s_task_count k] 0xFFFFFFFF, k)"
  by (simp add: sched_get_next_wakeup_ms_def kdefs Let_def)

subsection \<open>Properties\<close>

text \<open>
  C4: A tick of any length on a well-formed kernel state ends (no walk over a wait list
  hangs) and keeps the kernel invariant: each task whose delay runs out is ready, off every wait list and
  marked as timed out if it was on one, every other delay is shorter by exactly the elapsed
  time, and no ready task outranks the task that runs next.
\<close>

theorem sched_tick_n_correct:
  assumes "kern_inv k W"
  shows "\<exists>k'. sched_tick_n e k = Some k' \<and> kern_inv k' (drop_expired e k (s_task_count k) W)
     \<and> highest_next k'
     \<and> (\<forall>i < s_task_count k.
          tick_view (tcb k' (Task i)) = tick_view (tick_task e (tcb k (Task i)))
          \<and> (expired e k (Task i) \<longrightarrow> (\<forall>c. Task i \<notin> set (drop_expired e k (s_task_count k) W c))
                \<and> runnable k' (Task i)))"
proof -
  obtain k' where k': "sched_tick_n e k = Some k'"
      "kern_inv k' (drop_expired e k (s_task_count k) W)" "highest_next k'"
    by (rule sched_tick_n_spec [OF assms, of e]) (rule that, assumption+)
  show ?thesis
    using k' tick_view_tick [OF assms k'(1)] tick_expired_runnable [OF assms k'(1)]
    by (auto simp: drop_expired_def)
qed

theorem sched_tick_n_correct_witness:
  "\<exists>k'. sched_tick_n 5 demo_kern = Some k'
     \<and> kern_inv k' (drop_expired 5 demo_kern (s_task_count demo_kern) (\<lambda>_. [])) \<and> highest_next k'"
  using sched_tick_n_correct [OF demo_kern_inv, of 5] by blast

text \<open>
  C9: Tickless idle is sound: replaying any sequence of ticks as one tick of their sum (while
  the sum fits 32 bits) leaves the delay, the timeout flag, the list pointer and the blocked
  status of every task the same.
\<close>

theorem tickless_equivalent:
  assumes "kern_inv k W" and "(\<Sum>e\<leftarrow>es. unat e) < 2 ^ 32" and "i < s_task_count k"
  shows "\<exists>k1 k2. sched_ticks es k = Some k1 \<and> sched_tick_n (sum_list es) k = Some k2
     \<and> tick_view (tcb k1 (Task i)) = tick_view (tcb k2 (Task i))"
proof -
  from tick_view_ticks [OF assms(1,3,2)] obtain k1 where k1: "sched_ticks es k = Some k1"
    "tick_view (tcb k1 (Task i)) = tick_view (tick_task (sum_list es) (tcb k (Task i)))" by blast
  from sched_tick_n_ex [OF assms(1)] obtain k2 where k2: "sched_tick_n (sum_list es) k = Some k2" by blast
  from tick_view_tick [OF assms(1) k2 assms(3)] k1 k2 show ?thesis by auto
qed

theorem tickless_equivalent_witness:
  "\<exists>k1 k2. sched_ticks [1, 2, 3] demo_kern = Some k1 \<and> sched_tick_n (sum_list [1, 2, 3]) demo_kern = Some k2
     \<and> tick_view (tcb k1 (Task 1)) = tick_view (tcb k2 (Task 1))"
  by (rule tickless_equivalent [OF demo_kern_inv]) (simp_all add: demo_kern_def)

text \<open>
  \<open>sched_get_next_wakeup_ms\<close> changes nothing and returns the time of the next wake-up: a
  shorter tick wakes nobody, and unless it returns 0xFFFFFFFF a tick of exactly that length
  wakes some task.
\<close>

theorem next_wakeup_exact:
  "\<exists>m. sched_get_next_wakeup_ms k = (m, k)
     \<and> (\<forall>e i. e < m \<and> i < s_task_count k \<longrightarrow> \<not> expired e k (Task i))
     \<and> (m \<noteq> 0xFFFFFFFF \<longrightarrow> (\<exists>j < s_task_count k. expired m k (Task j)))"
proof -
  let ?m = "fold (wakeup_one k) [0..<s_task_count k] 0xFFFFFFFF"
  note f = next_wakeup_fold [where n = "s_task_count k" and k = k and m = "0xFFFFFFFF"]
  have "\<not> expired e k (Task i)" if "e < ?m" "i < s_task_count k" for e i
    using f that by (auto simp: expired_def counting_def dest: order.strict_trans2)
  moreover have "\<exists>j < s_task_count k. expired ?m k (Task j)" if "?m \<noteq> 0xFFFFFFFF"
    using f that by (auto simp: expired_def counting_def)
  ultimately show ?thesis by (simp add: next_wakeup_eq)
qed

text \<open>Task 1 sleeps for 7 ms and task 2 for 4 ms.\<close>

definition demo_sleepers :: kern where
  "demo_sleepers = demo_kern\<lparr>tcb := (tcb demo_kern)
     (Task 1 := (demo_task TASK_BLOCKED 1)\<lparr>delay_ticks := 7\<rparr>,
      Task 2 := (demo_task TASK_BLOCKED 2)\<lparr>delay_ticks := 4\<rparr>)\<rparr>"

theorem next_wakeup_exact_witness:
  "fst (sched_get_next_wakeup_ms demo_sleepers) = 4 \<and> \<not> expired 3 demo_sleepers (Task 2)
     \<and> (\<exists>j < s_task_count demo_sleepers. expired 4 demo_sleepers (Task j))"
proof -
  have *: "fold (wakeup_one demo_sleepers) [0..<s_task_count demo_sleepers] 0xFFFFFFFF = 4"
    by (simp add: demo_sleepers_def demo_kern_def wakeup_one_def demo_task_def upt_rec)
  have "s_task_count demo_sleepers = 3" by (simp add: demo_sleepers_def demo_kern_def)
  with next_wakeup_exact [of demo_sleepers] * show ?thesis
    by (auto simp: next_wakeup_eq)
qed

text \<open>
  C10: \<open>sched_delay_ms ms\<close> suspends its caller for exactly \<open>ms\<close> milliseconds: however the
  elapsed time is split into ticks, the task stays blocked with the rest of the delay while
  less than \<open>ms\<close> has passed, and is ready to return from the call once \<open>ms\<close> has passed.
\<close>

theorem delay_ms_exact:
  assumes "kern_inv k W" and "running k (Task i)" and "i < s_task_count k" and "ms \<noteq> 0"
    and "(\<Sum>e\<leftarrow>es. unat e) < 2 ^ 32"
  shows "\<exists>k0 k'. sched_delay_ms ms k = (Block, k0) \<and> sched_ticks es k0 = Some k'
     \<and> (if sum_list es < ms
        then state (tcb k' (Task i)) = TASK_BLOCKED
          \<and> delay_ticks (tcb k' (Task i)) = ms - sum_list es \<and> sched_delay_ms_resume (Task i) k' = Again
        else runnable k' (Task i) \<and> sched_delay_ms_resume (Task i) k' = Ret ())"
proof -
  let ?k1 = "upd_tcb (Task i) (\<lambda>y. y\<lparr>delay_ticks := ms, state := TASK_BLOCKED\<rparr>) (k\<lparr>primask := True\<rparr>)"
  let ?k0 = "trigger_pendsv (sched_critical_exit (primask k) (sched_commit_next ?k1))"
  have d: "sched_delay_ms ms k = (Block, ?k0)"
    using assms(2,4) by (simp add: sched_delay_ms_def sched_critical_enter_def running_def)
  note inv0 = delay_bg(1) [OF assms(1,2) d]
  have n0: "i < s_task_count ?k0" using assms(3) by (simp add: trigger_pendsv_def)
  have "run_state (tcb ?k0 (Task i)) = TASK_BLOCKED" "delay_ticks (tcb ?k0 (Task i)) = ms"
    by (simp_all add: run_state_def [of "_\<lparr>state := _\<rparr>"])
  moreover obtain k' where k': "sched_ticks es ?k0 = Some k'"
    "tick_view (tcb k' (Task i)) = tick_view (tick_task (sum_list es) (tcb ?k0 (Task i)))"
    using tick_view_ticks [OF inv0 n0 assms(5)] by blast
  ultimately show ?thesis using d assms(4)
    by (intro exI [of _ ?k0] exI [of _ k'])
      (auto simp: tick_view_def tick_task_def sched_delay_ms_resume_def runnable_def run_state_def
        word_pos_iff not_less split: if_splits)
qed

theorem delay_ms_exact_witness:
  "\<exists>k0 k'. sched_delay_ms 7 demo_kern = (Block, k0) \<and> sched_ticks [3, 4] k0 = Some k'
     \<and> runnable k' (Task 0) \<and> sched_delay_ms_resume (Task 0) k' = Ret ()"
  using delay_ms_exact [OF demo_kern_inv demo_running, of 7 "[3, 4]"] by (simp add: demo_kern_def)

end
