(* ===== verification/Semaphore.thy ===== *)
theory Semaphore
  imports SchedWakeup
begin

text \<open>
  \<open>kernel/core/semaphore.c\<close>. The \<open>waiters\<close> member of semaphore \<open>i\<close> is the cell
  \<open>SemWaiters i\<close> of the kernel state; the record holds the other members. \<open>count\<close> and
  \<open>max\<close> are \<open>int32_t\<close>: \<open>sem_wf\<close> bounds them, and every operation keeps the bound, so the
  32-bit arithmetic never wraps. A call of \<open>sem_take\<close> is one round of its loop, ended by
  \<open>Ret\<close> (token taken) or \<open>Block\<close> (queued; the next round runs when the task runs again).
\<close>

record sem_t =
  sem_count :: int
  sem_max :: int

definition sem_init :: "nat \<Rightarrow> int \<Rightarrow> int \<Rightarrow> kern \<Rightarrow> sem_t \<times> kern" where
  "sem_init i initial mx k =
     (\<lparr>sem_count = initial, sem_max = mx\<rparr>, set_head (SemWaiters i) None k)"

definition sem_wq_pop :: "nat \<Rightarrow> kern \<Rightarrow> tid option \<times> kern" where
  "sem_wq_pop i k =
     (case wait_head k (SemWaiters i) of
        None \<Rightarrow> (None, k)
      | Some t \<Rightarrow> (Some t, set_head (SemWaiters i) (wait_next (tcb k t)) k))"

definition sem_wq_insert :: "nat \<Rightarrow> tid \<Rightarrow> kern \<Rightarrow> kern option" where
  "sem_wq_insert i t k = wq_insert (SemWaiters i) t k"

definition sem_take :: "nat \<Rightarrow> sem_t \<Rightarrow> kern \<Rightarrow> unit outcome \<times> sem_t \<times> kern" where
  "sem_take i s k =
     (let (p, k0) = sched_critical_enter k in
      if sem_count s > 0 then
        (Ret (), s\<lparr>sem_count := sem_count s - 1\<rparr>, sched_critical_exit p k0)
      else case g_current_task k0 of
             None \<Rightarrow> (Trap, s, k0)
           | Some c \<Rightarrow>
               (case block_on (sem_wq_insert i) untimed_wait c k0 of
                  None \<Rightarrow> (Hang, s, k0)
                | Some k1 \<Rightarrow> (Block, s, sched_critical_exit p k1)))"

definition sem_give :: "nat \<Rightarrow> sem_t \<Rightarrow> kern \<Rightarrow> sem_t \<times> kern" where
  "sem_give i s k =
     (let (p, k0) = sched_critical_enter k;
          (waiter, k1) = sem_wq_pop i k0
      in case waiter of
           Some t \<Rightarrow>
             (if sem_count s < sem_max s then s\<lparr>sem_count := sem_count s + 1\<rparr> else s,
              sched_critical_exit p (sched_wake_task (Some t) k1))
         | None \<Rightarrow>
             (if sem_count s < sem_max s then s\<lparr>sem_count := sem_count s + 1\<rparr> else s,
              sched_critical_exit p k1))"

definition sem_trytake :: "nat \<Rightarrow> sem_t \<Rightarrow> kern \<Rightarrow> int \<times> sem_t \<times> kern" where
  "sem_trytake i s k =
     (let (p, k0) = sched_critical_enter k in
      if sem_count s > 0 then
        (1, s\<lparr>sem_count := sem_count s - 1\<rparr>, sched_critical_exit p k0)
      else (0, s, sched_critical_exit p k0))"

subsection \<open>The wait list of a semaphore\<close>

lemma sem_wq_pop_eq: "sem_wq_pop i = wq_pop (SemWaiters i)"
  by (simp add: fun_eq_iff sem_wq_pop_def wq_pop_def)

lemma sem_wq_insert_eq: "sem_wq_insert i = wq_insert (SemWaiters i)"
  by (simp add: fun_eq_iff sem_wq_insert_def)

interpretation semq: wait_queue "SemWaiters i" "sem_wq_insert i" "sem_wq_pop i" for i
  unfolding sem_wq_pop_eq sem_wq_insert_eq by (rule wait_queue_wq)

subsection \<open>Bounds\<close>

definition sem_wf :: "sem_t \<Rightarrow> bool" where
  "sem_wf s \<longleftrightarrow> 0 \<le> sem_count s \<and> sem_count s \<le> sem_max s \<and> sem_max s < 2 ^ 31"

lemma sem_give_count:
  "fst (sem_give i s k) = s\<lparr>sem_count := (if sem_count s < sem_max s then sem_count s + 1 else sem_count s)\<rparr>"
  by (auto simp: sem_give_def Let_def split: prod.split option.split)

lemma sem_take_count:
  "fst (snd (sem_take i s k)) = (if sem_count s > 0 then s\<lparr>sem_count := sem_count s - 1\<rparr> else s)"
  by (auto simp: sem_take_def Let_def split: prod.split option.split)

lemma sem_trytake_count:
  "fst (snd (sem_trytake i s k)) = (if sem_count s > 0 then s\<lparr>sem_count := sem_count s - 1\<rparr> else s)"
  by (auto simp: sem_trytake_def Let_def split: prod.split)

subsection \<open>Effect on the kernel\<close>

lemma sem_take_token:
  "sem_count s > 0 \<Longrightarrow> sem_take i s k = (Ret (), s\<lparr>sem_count := sem_count s - 1\<rparr>, k)"
  by (simp add: sem_take_def kdefs)

lemma sem_trytake_kern [simp]: "snd (snd (sem_trytake i s k)) = k"
  by (simp add: sem_trytake_def kdefs)

lemma sem_take_blocks:
  assumes inv: "kern_inv k W" and r: "running k c" and n: "sem_count s \<le> 0"
  shows "\<exists>k'. sem_take i s k = (Block, s, k') \<and> kern_inv k' (enq (SemWaiters i) c k W)
     \<and> highest_next k' \<and> primask k' = primask k"
proof -
  let ?k0 = "k\<lparr>primask := True\<rparr>"
  from running_unqueued [OF inv r] inv have *: "kern_inv ?k0 W" "unqueued W c"
    "delay_ticks (tcb ?k0 c) = 0" by auto
  from semq.block_untimed_inv [OF *] obtain k' where
    k': "block_on (sem_wq_insert i) untimed_wait c ?k0 = Some k'"
      "kern_inv k' (enq (SemWaiters i) c ?k0 W)" "highest_next k'" by blast
  have "enq (SemWaiters i) c ?k0 W = enq (SemWaiters i) c k W" by (simp add: enq_def)
  with k' r n show ?thesis
    by (simp add: sem_take_def sched_critical_enter_def running_def)
qed

lemma sem_give_Nil:
  assumes inv: "kern_inv k W" and W: "W (SemWaiters i) = []"
  shows "snd (sem_give i s k) = k"
proof -
  have "sem_wq_pop i (k\<lparr>primask := True\<rparr>) = (None, k\<lparr>primask := True\<rparr>)"
    using semq.pop_inv_Nil [of "k\<lparr>primask := True\<rparr>" W i] inv W by simp
  then show ?thesis by (simp add: sem_give_def kdefs)
qed

lemma sem_give_Cons:
  assumes inv: "kern_inv k W" and W: "W (SemWaiters i) = t # xs"
  shows "\<exists>k'. snd (sem_give i s k) = k' \<and> kern_inv k' (deq (SemWaiters i) W)
     \<and> highest_next k' \<and> primask k' = primask k
     \<and> (\<forall>u. runnable k' u \<longleftrightarrow> u = t \<or> runnable k u)
     \<and> (\<forall>u. delay_ticks (tcb k' u) = (if u = t then 0 else delay_ticks (tcb k u)))"
proof -
  let ?k0 = "k\<lparr>primask := True\<rparr>"
  from inv have inv0: "kern_inv ?k0 W" by simp
  from semq.pop_inv_Cons [OF inv0 W] obtain k1 where
    k1: "sem_wq_pop i ?k0 = (Some t, k1)" "kern_inv k1 (deq (SemWaiters i) W)"
      "unqueued (deq (SemWaiters i) W) t" "tcb k1 = tcb k" by auto
  let ?k' = "sched_critical_exit (primask k) (sched_wake_task (Some t) k1)"
  have "snd (sem_give i s k) = ?k'"
    using k1(1) by (simp add: sem_give_def sched_critical_enter_def)
  moreover have "kern_inv ?k' (deq (SemWaiters i) W)"
    using sched_wake_task_inv [OF k1(2,3)] by simp
  moreover have "runnable k1 u = runnable k u" for u by (simp add: runnable_def k1(4))
  ultimately show ?thesis
    by (simp add: sched_wake_task_highest runnable_wake delay_wake k1(4))
qed

subsection \<open>One semaphore among running tasks\<close>

text \<open>
  The semaphore with the kernel around it; \<open>P\<close> holds the tasks \<open>sem_give\<close> has woken and
  that have not made their next round of \<open>sem_take\<close> yet.
\<close>

inductive sem_step :: "nat \<Rightarrow> sem_t \<times> kern \<times> tid set \<Rightarrow> sem_t \<times> kern \<times> tid set \<Rightarrow> bool" for i where
  ss_take: "running k c \<Longrightarrow> sem_take i s k = (r, s', k') \<Longrightarrow> sem_step i (s, k, P) (s', k', P - {c})"
| ss_try: "running k c \<Longrightarrow> c \<notin> P \<Longrightarrow> sem_trytake i s k = (r, s', k') \<Longrightarrow> sem_step i (s, k, P) (s', k', P)"
| ss_give: "sem_give i s k = (s', k') \<Longrightarrow>
    sem_step i (s, k, P) (s', k', P \<union> set_option (wait_head k (SemWaiters i)))"
| ss_bg: "bg_step P k k' \<Longrightarrow> sem_step i (s, k, P) (s, k', P)"

inductive sem_reach :: "nat \<Rightarrow> sem_t \<times> kern \<times> tid set \<Rightarrow> sem_t \<times> kern \<times> tid set \<Rightarrow> bool" for i where
  sr_refl: "sem_reach i a a"
| sr_step: "sem_reach i a b \<Longrightarrow> sem_step i b c \<Longrightarrow> sem_reach i a c"

definition sem_sys_inv :: "nat \<Rightarrow> sem_t \<times> kern \<times> tid set \<Rightarrow> bool" where
  "sem_sys_inv i S \<longleftrightarrow> (case S of (s, k, P) \<Rightarrow>
     sem_wf s \<and> finite P \<and> (\<exists>W. kern_inv k W
       \<and> (\<forall>t\<in>set (W (SemWaiters i)). delay_ticks (tcb k t) = 0)
       \<and> (\<forall>t\<in>P. runnable k t)
       \<and> (W (SemWaiters i) \<noteq> [] \<longrightarrow> sem_count s \<le> int (card P))))"

lemma sem_sys_invI:
  "sem_wf s \<Longrightarrow> finite P \<Longrightarrow> kern_inv k W \<Longrightarrow>
   (\<And>t. t \<in> set (W (SemWaiters i)) \<Longrightarrow> delay_ticks (tcb k t) = 0) \<Longrightarrow>
   (\<And>t. t \<in> P \<Longrightarrow> runnable k t) \<Longrightarrow>
   (W (SemWaiters i) \<noteq> [] \<Longrightarrow> sem_count s \<le> int (card P)) \<Longrightarrow> sem_sys_inv i (s, k, P)"
  unfolding sem_sys_inv_def by auto

lemma sem_sys_invE:
  assumes "sem_sys_inv i (s, k, P)"
  obtains W where "sem_wf s" "finite P" "kern_inv k W"
    "\<And>t. t \<in> set (W (SemWaiters i)) \<Longrightarrow> delay_ticks (tcb k t) = 0"
    "\<And>t. t \<in> P \<Longrightarrow> runnable k t"
    "W (SemWaiters i) \<noteq> [] \<Longrightarrow> sem_count s \<le> int (card P)"
  using assms by (auto simp: sem_sys_inv_def)

text \<open>One lemma per kind of step.\<close>

lemma sem_take_inv:
  assumes S: "sem_sys_inv i (s, k, P)" and c: "running k c" and e: "sem_take i s k = (r, s', k')"
  shows "sem_sys_inv i (s', k', P - {c})"
proof -
  from S obtain W where wf: "sem_wf s" "finite P" and inv: "kern_inv k W"
    and d: "\<And>t. t \<in> set (W (SemWaiters i)) \<Longrightarrow> delay_ticks (tcb k t) = 0"
    and P: "\<And>t. t \<in> P \<Longrightarrow> runnable k t"
    and cnt: "W (SemWaiters i) \<noteq> [] \<Longrightarrow> sem_count s \<le> int (card P)" by (rule sem_sys_invE) blast
  show ?thesis
  proof (cases "sem_count s > 0")
    case True
    with e have s': "s' = s\<lparr>sem_count := sem_count s - 1\<rparr>" "k' = k" by (simp_all add: sem_take_token)
    have "int (card P) - 1 \<le> int (card (P - {c}))"
      using wf(2) by (cases "c \<in> P") (auto simp: card_Diff_singleton)
    then show ?thesis unfolding s' using wf True inv d P cnt
      by (intro sem_sys_invI [where W = W]) (auto simp: sem_wf_def)
  next
    case False
    then have n: "sem_count s \<le> 0" by simp
    let ?V = "enq (SemWaiters i) c k W"
    from sem_take_blocks [OF inv c n, of i] e have s': "s' = s" and k': "kern_inv k' ?V" by auto
    obtain k1 where k1: "block_on (sem_wq_insert i) untimed_wait c (k\<lparr>primask := True\<rparr>) = Some k1"
      "k' = sched_critical_exit (primask k) k1"
      using e c n sem_take_blocks [OF inv c n, of i]
      by (auto simp: sem_take_def sched_critical_enter_def running_def split: option.splits)
    note fr = block_on_frame [OF _ k1(1), folded k1(2), unfolded sem_wq_insert_eq,
        OF wq_insert_erase_links]
    have "runnable k' t" if "t \<noteq> c" "runnable k t" for t
      using fr(1) [where u = t] that k1(2) by simp
    moreover have "delay_ticks (tcb k' t) = delay_ticks (tcb k t)" for t
      using fr(2) [where u = t] k1(2) by (simp add: untimed_wait_def)
    then have "delay_ticks (tcb k' t) = 0" if "t \<in> set (?V (SemWaiters i))" for t
      using that d running_unqueued [OF inv c] by (auto simp: set_enq)
    ultimately show ?thesis unfolding s' using wf k' n P
      by (intro sem_sys_invI [where W = ?V]) (auto simp: sem_wf_def)
  qed
qed

lemma sem_trytake_inv:
  assumes "sem_sys_inv i (s, k, P)" and "sem_trytake i s k = (r, s', k')"
  shows "sem_sys_inv i (s', k', P)"
proof -
  from assms(2) have e: "k' = k" "s' = (if sem_count s > 0 then s\<lparr>sem_count := sem_count s - 1\<rparr> else s)"
    using sem_trytake_kern [of i s k] sem_trytake_count [of i s k] by auto
  from assms(1) show ?thesis unfolding e
    by (rule sem_sys_invE) (rule sem_sys_invI, auto simp: sem_wf_def)
qed

lemma sem_give_inv:
  assumes S: "sem_sys_inv i (s, k, P)" and e: "sem_give i s k = (s', k')"
  shows "sem_sys_inv i (s', k', P \<union> set_option (wait_head k (SemWaiters i)))"
proof -
  from S obtain W where wf: "sem_wf s" "finite P" and inv: "kern_inv k W"
    and d: "\<And>t. t \<in> set (W (SemWaiters i)) \<Longrightarrow> delay_ticks (tcb k t) = 0"
    and P: "\<And>t. t \<in> P \<Longrightarrow> runnable k t"
    and cnt: "W (SemWaiters i) \<noteq> [] \<Longrightarrow> sem_count s \<le> int (card P)" by (rule sem_sys_invE) blast
  have s': "s' = s\<lparr>sem_count := (if sem_count s < sem_max s then sem_count s + 1 else sem_count s)\<rparr>"
    using sem_give_count [of i s k] e by simp
  show ?thesis
  proof (cases "W (SemWaiters i)")
    case Nil
    then have "k' = k" "wait_head k (SemWaiters i) = None"
      using sem_give_Nil [OF inv Nil, of s] e kern_inv_wlist [OF inv, of "SemWaiters i"]
      by (auto simp: wlist_def)
    with s' wf inv d P Nil show ?thesis
      by (intro sem_sys_invI [where W = W]) (auto simp: sem_wf_def)
  next
    case (Cons t xs)
    from kern_inv_wlist [OF inv, of "SemWaiters i"] Cons
    have h: "wait_head k (SemWaiters i) = Some t" by (simp add: wlist_def)
    have "t \<notin> P" using P runnable_not_blocked kern_inv_blocked [OF inv] Cons by (metis list.set_intros(1))
    then have "int (card (P \<union> {t})) = int (card P) + 1" using wf(2) by simp
    with sem_give_Cons [OF inv Cons, of s] e s' wf d P cnt h Cons show ?thesis
      by (intro sem_sys_invI [where W = "deq (SemWaiters i) W"]) (auto simp: sem_wf_def)
  qed
qed

lemma sem_bg_inv:
  assumes S: "sem_sys_inv i (s, k, P)" and b: "bg_step P k k'"
  shows "sem_sys_inv i (s, k', P)"
proof -
  from S obtain W where wf: "sem_wf s" "finite P" and inv: "kern_inv k W"
    and d: "\<And>t. t \<in> set (W (SemWaiters i)) \<Longrightarrow> delay_ticks (tcb k t) = 0"
    and P: "\<And>t. t \<in> P \<Longrightarrow> runnable k t"
    and cnt: "W (SemWaiters i) \<noteq> [] \<Longrightarrow> sem_count s \<le> int (card P)" by (rule sem_sys_invE) blast
  from bg_step_inv [OF inv b] obtain V where V: "kern_inv k' V"
    "V (SemWaiters i) = W (SemWaiters i)"
    "\<forall>t\<in>set (V (SemWaiters i)). delay_ticks (tcb k' t) = 0"
    "\<forall>t\<in>P. runnable k t \<longrightarrow> runnable k' t" using d by blast
  with wf P cnt show ?thesis by (intro sem_sys_invI [where W = V]) auto
qed

lemma sem_step_inv: "sem_sys_inv i (s, k, P) \<Longrightarrow> sem_step i (s, k, P) (s', k', P') \<Longrightarrow> sem_sys_inv i (s', k', P')"
  by (auto elim!: sem_step.cases dest: sem_take_inv sem_trytake_inv sem_give_inv sem_bg_inv)

lemma sem_reach_inv: "sem_reach i A B \<Longrightarrow> sem_sys_inv i A \<Longrightarrow> sem_sys_inv i B"
proof (induction rule: sem_reach.induct)
  case (sr_refl a)
  then show ?case .
next
  case (sr_step a b c)
  then show ?case by (cases b; cases c) (auto intro: sem_step_inv)
qed

subsection \<open>Properties\<close>


text \<open>Task 0 blocks on an empty semaphore, which is then given.\<close>

definition demo_sem :: sem_t where "demo_sem = \<lparr>sem_count = 0, sem_max = 1\<rparr>"


text \<open>
  Handing a token over works. When tasks wait, \<open>sem_give\<close> makes the first of the list
  (the earliest of the highest priority queued) ready with its delay cleared, removes it
  from the list, adds a token unless the count is at max, leaves the interrupt mask as it
  was and the best ready task chosen to run; on a semaphore of max at least 1 the woken
  task's next round of \<open>sem_take\<close> returns with the token.
\<close>

theorem sem_give_hands_over:
  assumes "sem_wf s" and "1 \<le> sem_max s" and "kern_inv k W" and "W (SemWaiters i) = t # xs"
  shows "\<exists>s' k'. sem_give i s k = (s', k') \<and> kern_inv k' (deq (SemWaiters i) W)
     \<and> runnable k' t \<and> delay_ticks (tcb k' t) = 0 \<and> highest_next k' \<and> primask k' = primask k
     \<and> sem_count s' = min (sem_count s + 1) (sem_max s)
     \<and> sem_take i s' k' = (Ret (), s'\<lparr>sem_count := sem_count s' - 1\<rparr>, k')"
proof -
  obtain s' k' where g: "sem_give i s k = (s', k')" by fastforce
  have s': "sem_count s' = min (sem_count s + 1) (sem_max s)"
    using sem_give_count [of i s k] g assms(1) by (simp add: sem_wf_def min_def)
  with assms(1,2) have "sem_count s' > 0" by (auto simp: sem_wf_def)
  from sem_take_token [OF this, of i k'] sem_give_Cons [OF assms(3,4), of s] g s' show ?thesis
    by auto
qed

theorem sem_give_hands_over_witness:
  "\<exists>k1 s' k'. sem_take 0 demo_sem demo_kern = (Block, demo_sem, k1)
     \<and> sem_give 0 demo_sem k1 = (s', k') \<and> runnable k' (Task 0) \<and> sem_count s' = 1"
proof -
  have n: "sem_count demo_sem \<le> 0" and wf: "sem_wf demo_sem" "1 \<le> sem_max demo_sem"
    by (simp_all add: demo_sem_def sem_wf_def)
  from sem_take_blocks [OF demo_kern_inv demo_running n, of 0] obtain k1 where
    k1: "sem_take 0 demo_sem demo_kern = (Block, demo_sem, k1)"
      "kern_inv k1 (enq (SemWaiters 0) (Task 0) demo_kern (\<lambda>_. []))" by blast
  have "enq (SemWaiters 0) (Task 0) demo_kern (\<lambda>_. []) (SemWaiters 0) = Task 0 # []" by simp
  from sem_give_hands_over [OF wf k1(2) this] k1(1) show ?thesis by (auto simp: demo_sem_def)
qed

end
