(* ===== verification/Mutex.thy ===== *)
theory Mutex
  imports SchedWakeup
begin

text \<open>
  \<open>kernel/core/mutex.c\<close>: mutexes with priority inheritance. The \<open>waiters\<close> member of mutex
  \<open>i\<close> is the cell \<open>MutexWaiters i\<close>. \<open>mutex_lock\<close> and \<open>mutex_lock_timeout\<close> are one round of
  their loops; the round has two critical sections, the second of which is
  \<open>mutex_lock_block\<close>. A timed call computes its deadline on entry
  (\<open>mutex_lock_timeout_enter\<close>) and, when it runs again after blocking, goes through
  \<open>timed_resume\<close> before its next round.
\<close>

record mutex_t =
  mtx_task :: "tid option"
  owner_original_priority :: u8
  is_elevated :: u8

definition mutex_init :: "nat \<Rightarrow> kern \<Rightarrow> mutex_t \<times> kern" where
  "mutex_init i k =
     (\<lparr>mtx_task = None, owner_original_priority = 0, is_elevated = 0\<rparr>,
      set_head (MutexWaiters i) None k)"

definition mutex_wq_insert :: "nat \<Rightarrow> tid \<Rightarrow> kern \<Rightarrow> kern option" where
  "mutex_wq_insert i t k = wq_insert (MutexWaiters i) t k"

definition mutex_wq_pop :: "nat \<Rightarrow> kern \<Rightarrow> tid option \<times> kern" where
  "mutex_wq_pop i k =
     (case wait_head k (MutexWaiters i) of
        None \<Rightarrow> (None, k)
      | Some t \<Rightarrow> (Some t, set_head (MutexWaiters i) (wait_next (tcb k t)) k))"

definition mutex_try_acquire :: "mutex_t \<Rightarrow> kern \<Rightarrow> int \<times> mutex_t \<times> kern" where
  "mutex_try_acquire m k =
     (let (p, k0) = sched_critical_enter k;
          (result, m1) = (if mtx_task m = None then (1, m\<lparr>mtx_task := g_current_task k0\<rparr>)
                          else (0, m))
      in (result, m1, sched_critical_exit p k0))"

text \<open>The owner \<open>ow\<close> inherits the priority of the caller \<open>c\<close>.\<close>

definition mutex_elevate :: "tid \<Rightarrow> tid \<Rightarrow> mutex_t \<Rightarrow> kern \<Rightarrow> mutex_t \<times> kern" where
  "mutex_elevate c ow m k =
     (if priority (tcb k c) < priority (tcb k ow) then
        (if is_elevated m = 0
         then m\<lparr>owner_original_priority := priority (tcb k ow), is_elevated := 1\<rparr> else m,
         upd_tcb ow (\<lambda>x. x\<lparr>priority := priority (tcb k c)\<rparr>) k)
      else (m, k))"

text \<open>
  The second critical section of a round; \<open>f\<close> sets the fields of the caller
  (\<open>untimed_wait\<close>, or \<open>timed_wait\<close> in the version with a timeout).
\<close>

definition mutex_lock_block ::
    "nat \<Rightarrow> (task_t \<Rightarrow> task_t) \<Rightarrow> mutex_t \<Rightarrow> kern \<Rightarrow> int outcome \<times> mutex_t \<times> kern" where
  "mutex_lock_block i f m k =
     (let (p, k0) = sched_critical_enter k in
      case mtx_task m of
        None \<Rightarrow> (Again, m, sched_critical_exit p k0)
      | Some ow \<Rightarrow>
          (case g_current_task k0 of
             None \<Rightarrow> (Trap, m, k0)
           | Some c \<Rightarrow>
               (let (m1, k1) = mutex_elevate c ow m k0 in
                case block_on (mutex_wq_insert i) f c k1 of
                  None \<Rightarrow> (Hang, m1, k1)
                | Some k2 \<Rightarrow> (Block, m1, sched_critical_exit p k2))))"

definition mutex_lock :: "nat \<Rightarrow> mutex_t \<Rightarrow> kern \<Rightarrow> int outcome \<times> mutex_t \<times> kern" where
  "mutex_lock i m k =
     (let (result, m1, k1) = mutex_try_acquire m k in
      if result \<noteq> 0 then (Ret 0, m1, k1) else mutex_lock_block i untimed_wait m1 k1)"

definition mutex_lock_timeout_enter :: "u32 \<Rightarrow> kern \<Rightarrow> u32" where
  "mutex_lock_timeout_enter timeout_ms k = systick_get_ms k + timeout_ms"

definition mutex_lock_timeout :: "nat \<Rightarrow> u32 \<Rightarrow> mutex_t \<Rightarrow> kern \<Rightarrow> int outcome \<times> mutex_t \<times> kern" where
  "mutex_lock_timeout i deadline m k =
     (let (result, m1, k1) = mutex_try_acquire m k in
      if result \<noteq> 0 then
        (case g_current_task k1 of
           None \<Rightarrow> (Trap, m1, k1)
         | Some c \<Rightarrow> (Ret 0, m1, upd_tcb c (\<lambda>x. x\<lparr>wait_list_head := None\<rparr>) k1))
      else
        (let now = systick_get_ms k1 in
         if now \<ge> deadline then (Ret (-1), m1, k1)
         else mutex_lock_block i (timed_wait (MutexWaiters i) (deadline - now)) m1 k1))"

definition mutex_unlock :: "nat \<Rightarrow> mutex_t \<Rightarrow> kern \<Rightarrow> mutex_t \<times> kern" where
  "mutex_unlock i m k =
     (if mtx_task m \<noteq> g_current_task k then (m, k)
      else
        (let (p, k0) = sched_critical_enter k;
             (waiter, k1) = mutex_wq_pop i k0;
             (m2, k2) = (if is_elevated m \<noteq> 0
                         then (m\<lparr>is_elevated := 0\<rparr>,
                               (case mtx_task m of
                                  None \<Rightarrow> k1
                                | Some ow \<Rightarrow>
                                    upd_tcb ow (\<lambda>x. x\<lparr>priority := owner_original_priority m\<rparr>) k1))
                         else (m, k1));
             m3 = m2\<lparr>mtx_task := None\<rparr>;
             k3 = sched_wake_task waiter k2
         in (m3, sched_critical_exit p k3)))"

definition mutex_trylock :: "mutex_t \<Rightarrow> kern \<Rightarrow> int \<times> mutex_t \<times> kern" where
  "mutex_trylock m k = mutex_try_acquire m k"

subsection \<open>The wait list of a mutex\<close>

lemma mutex_wq_pop_eq: "mutex_wq_pop i = wq_pop (MutexWaiters i)"
  by (simp add: fun_eq_iff mutex_wq_pop_def wq_pop_def)

lemma mutex_wq_insert_eq: "mutex_wq_insert i = wq_insert (MutexWaiters i)"
  by (simp add: fun_eq_iff mutex_wq_insert_def)

interpretation mtxq: wait_queue "MutexWaiters i" "mutex_wq_insert i" "mutex_wq_pop i" for i
  unfolding mutex_wq_pop_eq mutex_wq_insert_eq by (rule wait_queue_wq)

subsection \<open>One operation\<close>

lemma mutex_try_acquire_eq:
  "mutex_try_acquire m k =
     (if mtx_task m = None then (1, m\<lparr>mtx_task := g_current_task k\<rparr>, k) else (0, m, k))"
  by (simp add: mutex_try_acquire_def kdefs)

text \<open>What a round of \<open>mutex_lock\<close> and \<open>mutex_unlock\<close> do to the owner, in any state of the kernel.\<close>

lemma mutex_lock_returns:
  "mutex_lock i m k = (r, m', k') \<Longrightarrow> g_current_task k = Some c \<Longrightarrow>
     if mtx_task m = None then r = Ret 0 \<and> mtx_task m' = Some c else r \<noteq> Ret 0 \<and> mtx_task m' = mtx_task m"
  by (auto simp: mutex_lock_def mutex_try_acquire_eq mutex_lock_block_def mutex_elevate_def Let_def
      sched_critical_enter_def split: prod.splits option.splits if_splits)

lemma mutex_unlock_returns:
  "mutex_unlock i m k = (m', k') \<Longrightarrow> mtx_task m = g_current_task k \<Longrightarrow> mtx_task m' = None"
  by (auto simp: mutex_unlock_def Let_def split: prod.splits option.splits if_splits)

lemma mutex_elevate_frame:
  assumes "mutex_elevate c ow m k = (m', k')"
  shows "mtx_task m' = mtx_task m" "kern_inv k W \<Longrightarrow> kern_inv k' W"
    "g_current_task k' = g_current_task k" "runnable k' t = runnable k t" "running k' t = running k t"
    "delay_ticks (tcb k' t) = delay_ticks (tcb k t)" "primask k' = primask k"
    "timed_out (tcb k' t) = timed_out (tcb k t)" "s_task_count k' = s_task_count k"
    "priority (tcb k' t) = (if t = ow then min (priority (tcb k ow)) (priority (tcb k c))
                            else priority (tcb k t))"
  using assms
  by (auto simp: mutex_elevate_def runnable_def running_def min_def split: if_splits
      intro: kern_inv_upd_frame)

lemma mutex_lock_block_spec:
  assumes inv: "kern_inv k W" and r: "running k c" and ow: "mtx_task m = Some ow"
    and f: "f = untimed_wait \<or> (\<exists>d. f = timed_wait (MutexWaiters i) d)"
  shows "\<exists>m' k' V. mutex_lock_block i f m k = (Block, m', k') \<and> kern_inv k' V
     \<and> set (V (MutexWaiters i)) = insert c (set (W (MutexWaiters i)))
     \<and> (\<forall>d. d \<noteq> MutexWaiters i \<longrightarrow> V d = W d)
     \<and> highest_next k' \<and> primask k' = primask k \<and> mtx_task m' = Some ow
     \<and> (\<forall>t. t \<noteq> c \<longrightarrow> runnable k' t = runnable k t)
     \<and> (\<forall>t. timed_out (tcb k' t) = (if t = c \<and> f \<noteq> untimed_wait then 0 else timed_out (tcb k t)))
     \<and> (\<forall>t. priority (tcb k' t) = (if t = ow then min (priority (tcb k ow)) (priority (tcb k c))
                                    else priority (tcb k t)))
     \<and> (\<forall>d. f = timed_wait (MutexWaiters i) d \<longrightarrow> delay_ticks (tcb k' c) = d)
     \<and> s_task_count k' = s_task_count k
     \<and> (m', snd (mutex_elevate c ow m (k\<lparr>primask := True\<rparr>))) = mutex_elevate c ow m (k\<lparr>primask := True\<rparr>)"
proof -
  let ?k0 = "k\<lparr>primask := True\<rparr>"
  obtain m1 k1 where e: "mutex_elevate c ow m ?k0 = (m1, k1)" by fastforce
  note ef = mutex_elevate_frame [OF e]
  have inv1: "kern_inv k1 W" using ef(2) inv by simp
  have r1: "running k1 c" using r ef(5) by (simp add: running_def)
  note u = running_unqueued [OF inv1 r1]
  obtain k2 where k2: "block_on (mutex_wq_insert i) f c k1 = Some k2"
    "kern_inv k2 (enq (MutexWaiters i) c k1 W)" "highest_next k2"
    using f u mtxq.block_untimed_inv [OF inv1, of c i] mtxq.block_timed_inv [OF inv1, of c i] by blast
  note fr = block_on_frame [OF _ k2(1), unfolded mutex_wq_insert_eq, OF wq_insert_erase_links]
  have ff: "priority (f x) = priority x" for x
    using f by (auto simp: untimed_wait_def timed_wait_def)
  have "priority (tcb k2 t) = priority (tcb k1 t)" for t
    using fr(3) [where u = t] ff by simp
  moreover have "timed_out (f x) = (if f \<noteq> untimed_wait then 0 else timed_out x)" for x
    using f by (auto simp: untimed_wait_def timed_wait_def)
  then have "timed_out (tcb k2 t) = (if t = c \<and> f \<noteq> untimed_wait then 0 else timed_out (tcb k1 t))" for t
    using fr(4) [where u = t] by (simp add: untimed_wait_def)
  moreover have "mutex_lock_block i f m k = (Block, m1, sched_critical_exit (primask k) k2)"
    using ow r ef(3) k2(1) e by (simp add: mutex_lock_block_def sched_critical_enter_def running_def)
  moreover have "\<forall>d. f = timed_wait (MutexWaiters i) d \<longrightarrow> delay_ticks (tcb k2 c) = d"
    using fr(2) [where u = c] by (auto simp: timed_wait_def)
  ultimately show ?thesis using k2 ef ow e fr(1,6)
    by (intro exI [of _ m1] exI [of _ "sched_critical_exit (primask k) k2"]
        exI [of _ "enq (MutexWaiters i) c k1 W"]) (auto simp: runnable_def [of "k\<lparr>primask := True\<rparr>"])
qed

lemma mutex_unlock_not_owner: "mtx_task m \<noteq> g_current_task k \<Longrightarrow> mutex_unlock i m k = (m, k)"
  by (simp add: mutex_unlock_def)

text \<open>The owner's priority as \<open>mutex_unlock\<close> leaves it.\<close>

definition restored :: "mutex_t \<Rightarrow> tid \<Rightarrow> kern \<Rightarrow> u8" where
  "restored m c k = (if is_elevated m \<noteq> 0 then owner_original_priority m else priority (tcb k c))"

lemma mutex_unlock_spec:
  assumes inv: "kern_inv k W" and cur: "g_current_task k = Some c" and ow: "mtx_task m = Some c"
  shows "\<exists>k'. mutex_unlock i m k = (m\<lparr>is_elevated := 0, mtx_task := None\<rparr>, k')
     \<and> kern_inv k' (deq (MutexWaiters i) W) \<and> primask k' = primask k
     \<and> (\<forall>t. timed_out (tcb k' t) = timed_out (tcb k t))
     \<and> (\<forall>t. priority (tcb k' t) = (if t = c then restored m c k else priority (tcb k t)))
     \<and> (case W (MutexWaiters i) of
          [] \<Rightarrow> \<forall>t. runnable k' t = runnable k t
        | w # _ \<Rightarrow> highest_next k' \<and> (\<forall>t. runnable k' t \<longleftrightarrow> t = w \<or> runnable k t)
            \<and> delay_ticks (tcb k' w) = 0)"
proof -
  let ?k0 = "k\<lparr>primask := True\<rparr>"
  from inv have inv0: "kern_inv ?k0 W" by simp
  obtain w k1 where p: "mutex_wq_pop i ?k0 = (w, k1)" by fastforce
  define g where "g = (\<lambda>k1 :: kern. if is_elevated m \<noteq> 0
      then upd_tcb c (\<lambda>x. x\<lparr>priority := owner_original_priority m\<rparr>) k1 else k1)"
  have gi: "kern_inv (g j) V" if "kern_inv j V" for j V
    using that unfolding g_def by (auto intro: kern_inv_upd_frame)
  have gf: "runnable (g j) t = runnable j t" "primask (g j) = primask j"
    "timed_out (tcb (g j) t) = timed_out (tcb j t)" "delay_ticks (tcb (g j) t) = delay_ticks (tcb j t)"
    "priority (tcb (g j) t) = (if t = c then restored m c j else priority (tcb j t))" for j t
    by (auto simp: g_def runnable_def restored_def)
  have un: "mutex_unlock i m k = (m\<lparr>is_elevated := 0, mtx_task := None\<rparr>,
      sched_critical_exit (primask k) (sched_wake_task w (g k1)))"
    using cur ow p by (cases m) (auto simp: mutex_unlock_def sched_critical_enter_def g_def)
  have k1: "tcb k1 = tcb k"
    using mtxq.pop_inv_Nil [OF inv0, of i] mtxq.pop_inv_Cons [OF inv0, of i] p
    by (cases "W (MutexWaiters i)") auto
  have inv': "kern_inv (sched_wake_task w (g k1)) (deq (MutexWaiters i) W)"
    using mtxq.pop_wake_inv [OF inv0, of g i] gi p by simp
  have rk: "runnable k1 t = runnable k t" for t by (simp add: runnable_def k1)
  have rs: "restored m c k1 = restored m c k" by (simp add: restored_def k1)
  show ?thesis
  proof (cases "W (MutexWaiters i)")
    case Nil
    then have "w = None" using mtxq.pop_inv_Nil [OF inv0 Nil] p by simp
    with un inv' gf Nil show ?thesis by (auto simp: rk rs k1)
  next
    case (Cons t xs)
    then have "w = Some t" using mtxq.pop_inv_Cons [OF inv0 Cons] p by auto
    with un inv' gf Cons show ?thesis
      by (auto simp: rk rs k1 runnable_wake sched_wake_task_highest delay_wake)
  qed
qed

subsection \<open>One mutex among running tasks\<close>

text \<open>
  \<open>H\<close>: the tasks that have been given the mutex by a lock call and have not unlocked it;
  \<open>P\<close>: the tasks \<open>mutex_unlock\<close> has woken and that have not made their next round yet;
  \<open>T\<close>: the tasks blocked in, or just woken in, a call with a timeout.
\<close>

record mutex_sys =
  sys_m :: mutex_t
  sys_k :: kern
  sys_H :: "tid set"
  sys_P :: "tid set"
  sys_T :: "tid set"

definition got :: "'a outcome \<Rightarrow> ('a \<Rightarrow> bool) \<Rightarrow> tid \<Rightarrow> tid set" where
  "got r ok c = (case r of Ret v \<Rightarrow> if ok v then {c} else {} | _ \<Rightarrow> {})"

inductive mutex_step :: "nat \<Rightarrow> mutex_sys \<Rightarrow> mutex_sys \<Rightarrow> bool" for i where
  ms_lock: "running k c \<Longrightarrow> mutex_lock i m k = (r, m', k') \<Longrightarrow>
    mutex_step i \<lparr>sys_m = m, sys_k = k, sys_H = H, sys_P = P, sys_T = T\<rparr>
      \<lparr>sys_m = m', sys_k = k', sys_H = H \<union> got r (\<lambda>v. v = 0) c, sys_P = P - {c}, sys_T = T - {c}\<rparr>"
| ms_lock_timeout: "running k c \<Longrightarrow> mutex_lock_timeout i dl m k = (r, m', k') \<Longrightarrow>
    mutex_step i \<lparr>sys_m = m, sys_k = k, sys_H = H, sys_P = P, sys_T = T\<rparr>
      \<lparr>sys_m = m', sys_k = k', sys_H = H \<union> got r (\<lambda>v. v = 0) c, sys_P = P - {c},
       sys_T = T - {c} \<union> (if r = Block then {c} else {})\<rparr>"
| ms_resume: "running k c \<Longrightarrow> c \<in> T \<Longrightarrow> timed_resume c k = (r, k') \<Longrightarrow>
    mutex_step i \<lparr>sys_m = m, sys_k = k, sys_H = H, sys_P = P, sys_T = T\<rparr>
      \<lparr>sys_m = m, sys_k = k', sys_H = H, sys_P = P - (if r = Again then {} else {c}), sys_T = T - {c}\<rparr>"
| ms_try: "running k c \<Longrightarrow> c \<notin> P \<Longrightarrow> mutex_trylock m k = (v, m', k') \<Longrightarrow>
    mutex_step i \<lparr>sys_m = m, sys_k = k, sys_H = H, sys_P = P, sys_T = T\<rparr>
      \<lparr>sys_m = m', sys_k = k', sys_H = H \<union> got (Ret v) (\<lambda>v. v \<noteq> 0) c, sys_P = P, sys_T = T\<rparr>"
| ms_unlock: "running k c \<Longrightarrow> mutex_unlock i m k = (m', k') \<Longrightarrow>
    mutex_step i \<lparr>sys_m = m, sys_k = k, sys_H = H, sys_P = P, sys_T = T\<rparr>
      \<lparr>sys_m = m', sys_k = k', sys_H = H - {c},
       sys_P = P \<union> (if mtx_task m = Some c then set_option (wait_head k (MutexWaiters i)) else {}),
       sys_T = T\<rparr>"
| ms_bg: "bg_step P k k' \<Longrightarrow>
    mutex_step i \<lparr>sys_m = m, sys_k = k, sys_H = H, sys_P = P, sys_T = T\<rparr>
      \<lparr>sys_m = m, sys_k = k', sys_H = H, sys_P = P, sys_T = T\<rparr>"

inductive mutex_reach :: "nat \<Rightarrow> mutex_sys \<Rightarrow> mutex_sys \<Rightarrow> bool" for i where
  mr_refl: "mutex_reach i a a"
| mr_step: "mutex_reach i a b \<Longrightarrow> mutex_step i b c \<Longrightarrow> mutex_reach i a c"

definition mutex_sys_inv :: "nat \<Rightarrow> mutex_t \<Rightarrow> kern \<Rightarrow> tid set \<Rightarrow> tid set \<Rightarrow> tid set \<Rightarrow> (wait_cell \<Rightarrow> tid list) \<Rightarrow> bool" where
  "mutex_sys_inv i m k H P T W \<longleftrightarrow> kern_inv k W \<and> H = set_option (mtx_task m)
     \<and> (\<forall>t\<in>P. runnable k t)
     \<and> (\<forall>t\<in>T. t \<in> set (W (MutexWaiters i)) \<or> t \<in> P \<longrightarrow> timed_out (tcb k t) = 0)
     \<and> (mtx_task m = None \<longrightarrow> W (MutexWaiters i) \<noteq> [] \<longrightarrow> P \<noteq> {})"

lemma mutex_sys_invI:
  assumes "kern_inv k W" "H = set_option (mtx_task m)" "\<And>t. t \<in> P \<Longrightarrow> runnable k t"
    "\<And>t. t \<in> T \<Longrightarrow> t \<in> set (W (MutexWaiters i)) \<or> t \<in> P \<Longrightarrow> timed_out (tcb k t) = 0"
    "mtx_task m = None \<Longrightarrow> W (MutexWaiters i) \<noteq> [] \<Longrightarrow> P \<noteq> {}"
  shows "mutex_sys_inv i m k H P T W"
  using assms by (simp add: mutex_sys_inv_def)

text \<open>A round that acquires the mutex, possibly clearing the caller's list pointer.\<close>

lemma mutex_acquire_inv:
  assumes I: "mutex_sys_inv i m k H P T W" and n: "mtx_task m = None"
    and g: "g = id \<or> g = upd_tcb c (\<lambda>x. x\<lparr>wait_list_head := None\<rparr>)"
    and r: "running k c" and m': "m' = m\<lparr>mtx_task := Some c\<rparr>" and T: "T' \<subseteq> T" and P: "P' \<subseteq> P"
  shows "mutex_sys_inv i m' (g k) (H \<union> {c}) P' T' W"
proof -
  have "kern_inv (g k) W"
  proof -
    have inv: "kern_inv k W" using I by (simp add: mutex_sys_inv_def)
    have "kern_inv (upd_tcb c (\<lambda>x. x\<lparr>wait_list_head := None\<rparr>) k) W"
    proof -
      have v: "unqueued W c" "delay_ticks (tcb k c) = 0" using running_unqueued [OF inv r] by auto
      have "wait_inv (upd_tcb c (\<lambda>x. x\<lparr>wait_list_head := None\<rparr>) k) W"
        by (rule wait_inv_upd) (use inv v in \<open>auto simp: kern_inv_def\<close>)
      then show ?thesis using inv by (auto simp: kern_inv_def running_inv_def)
    qed
    with g inv show ?thesis by auto
  qed
  moreover have "runnable (g k) t = runnable k t" "timed_out (tcb (g k) t) = timed_out (tcb k t)" for t
    using g by (auto simp: runnable_def split: if_splits)
  ultimately show ?thesis using I n m' T P
    by (auto simp: mutex_sys_inv_def)
qed

lemma mutex_block_inv:
  assumes I: "mutex_sys_inv i m k H P T W" and r: "running k c" and ow: "mtx_task m = Some ow"
    and f: "f = untimed_wait \<or> (\<exists>d. f = timed_wait (MutexWaiters i) d)"
    and b: "mutex_lock_block i f m k = (out, m', k')"
    and T: "T' = T - {c} \<union> (if f = untimed_wait then {} else {c})"
  shows "out = Block \<and> (\<exists>V. mutex_sys_inv i m' k' H (P - {c}) T' V)"
proof -
  from I have inv: "kern_inv k W" by (simp add: mutex_sys_inv_def)
  from mutex_lock_block_spec [OF inv r ow f] b obtain V where V: "out = Block" "kern_inv k' V"
    "set (V (MutexWaiters i)) = insert c (set (W (MutexWaiters i)))" "mtx_task m' = Some ow"
    "\<forall>t. t \<noteq> c \<longrightarrow> runnable k' t = runnable k t"
    "\<forall>t. timed_out (tcb k' t) = (if t = c \<and> f \<noteq> untimed_wait then 0 else timed_out (tcb k t))"
    by auto
  have "mutex_sys_inv i m' k' H (P - {c}) T' V"
    by (rule mutex_sys_invI) (use V I ow T in \<open>auto simp: mutex_sys_inv_def split: if_splits\<close>)
  with V show ?thesis by blast
qed

lemma timed_wait_not_untimed: "timed_wait c d \<noteq> untimed_wait"
proof
  assume *: "timed_wait c d = untimed_wait"
  have "timed_out (timed_wait c d (zero_task\<lparr>timed_out := 1\<rparr>)) = 0" by (simp add: timed_wait_def)
  moreover have "timed_out (untimed_wait (zero_task\<lparr>timed_out := 1\<rparr>)) = 1" by (simp add: untimed_wait_def)
  ultimately show False using * by simp
qed

text \<open>One lemma per kind of step.\<close>

lemma mutex_lock_inv:
  assumes I: "mutex_sys_inv i m k H P T W" and c: "running k c" and l: "mutex_lock i m k = (r, m', k')"
  shows "\<exists>V. mutex_sys_inv i m' k' (H \<union> got r (\<lambda>v. v = 0) c) (P - {c}) (T - {c}) V"
proof (cases "mtx_task m")
  case None
  with l c have "r = Ret 0" "k' = k" "m' = m\<lparr>mtx_task := Some c\<rparr>"
    by (auto simp: mutex_lock_def mutex_try_acquire_eq running_def)
  moreover have "mutex_sys_inv i (m\<lparr>mtx_task := Some c\<rparr>) (id k) (H \<union> {c}) (P - {c}) (T - {c}) W"
    by (rule mutex_acquire_inv [OF I None _ c]) auto
  ultimately show ?thesis by (auto simp: got_def)
next
  case (Some ow)
  with l have b: "mutex_lock_block i untimed_wait m k = (r, m', k')"
    by (simp add: mutex_lock_def mutex_try_acquire_eq)
  from mutex_block_inv [OF I c Some _ b] show ?thesis by (auto simp: got_def)
qed

lemma mutex_lock_timeout_inv:
  assumes I: "mutex_sys_inv i m k H P T W" and c: "running k c"
    and l: "mutex_lock_timeout i dl m k = (r, m', k')"
  shows "\<exists>V. mutex_sys_inv i m' k' (H \<union> got r (\<lambda>v. v = 0) c) (P - {c})
    (T - {c} \<union> (if r = Block then {c} else {})) V"
proof -
  consider (free) "mtx_task m = None"
    | (late) ow where "mtx_task m = Some ow" "systick_get_ms k \<ge> dl"
    | (wait) ow where "mtx_task m = Some ow" "\<not> systick_get_ms k \<ge> dl" by fastforce
  then show ?thesis
  proof cases
    case free
    with l c have "r = Ret 0" "m' = m\<lparr>mtx_task := Some c\<rparr>"
      "k' = upd_tcb c (\<lambda>x. x\<lparr>wait_list_head := None\<rparr>) k"
      by (auto simp: mutex_lock_timeout_def mutex_try_acquire_eq running_def)
    moreover have "mutex_sys_inv i (m\<lparr>mtx_task := Some c\<rparr>) (upd_tcb c (\<lambda>x. x\<lparr>wait_list_head := None\<rparr>) k)
        (H \<union> {c}) (P - {c}) (T - {c}) W"
      by (rule mutex_acquire_inv [OF I free _ c]) auto
    ultimately show ?thesis by (auto simp: got_def)
  next
    case late
    with l have "r = Ret (-1)" "m' = m" "k' = k"
      by (auto simp: mutex_lock_timeout_def mutex_try_acquire_eq Let_def)
    with I late show ?thesis by (intro exI [of _ W]) (auto simp: got_def mutex_sys_inv_def)
  next
    case wait
    with l have b: "mutex_lock_block i (timed_wait (MutexWaiters i) (dl - systick_get_ms k)) m k = (r, m', k')"
      by (simp add: mutex_lock_timeout_def mutex_try_acquire_eq Let_def)
    from mutex_block_inv [OF I c wait(1) _ b refl] show ?thesis
      by (auto simp: got_def timed_wait_not_untimed)
  qed
qed

lemma mutex_resume_inv:
  assumes I: "mutex_sys_inv i m k H P T W" and c: "running k c" "c \<in> T" and l: "timed_resume c k = (r, k')"
  shows "\<exists>V. mutex_sys_inv i m k' H (P - (if r = Again then {} else {c})) (T - {c}) V"
proof (cases "timed_out (tcb k c) = 0")
  case True
  with l have "r = Again" "k' = k" by (auto simp: timed_resume_def)
  with I show ?thesis by (intro exI [of _ W]) (auto simp: mutex_sys_inv_def)
next
  case False
  with l have rk: "r = Ret (-1)" "k' = upd_tcb c (\<lambda>x. x\<lparr>timed_out := 0, wait_list_head := None\<rparr>) k"
    by (auto simp: timed_resume_def)
  from I have inv: "kern_inv k W" by (simp add: mutex_sys_inv_def)
  note u = running_unqueued [OF inv c(1)]
  have "wait_inv k' W"
    unfolding rk(2) by (rule wait_inv_upd) (use inv u in \<open>auto simp: kern_inv_def\<close>)
  then have "kern_inv k' W" using inv rk(2) by (auto simp: kern_inv_def running_inv_def)
  moreover have cP: "c \<notin> P" using False I c by (auto simp: mutex_sys_inv_def)
  ultimately have "mutex_sys_inv i m k' H P (T - {c}) W"
    using I by (intro mutex_sys_invI) (auto simp: mutex_sys_inv_def rk(2) runnable_def)
  with cP rk show ?thesis by auto
qed

lemma mutex_trylock_inv:
  assumes I: "mutex_sys_inv i m k H P T W" and c: "running k c" and l: "mutex_trylock m k = (v, m', k')"
  shows "\<exists>V. mutex_sys_inv i m' k' (H \<union> got (Ret v) (\<lambda>v. v \<noteq> 0) c) P T V"
proof (cases "mtx_task m")
  case None
  with l c have "v = 1" "k' = k" "m' = m\<lparr>mtx_task := Some c\<rparr>"
    by (auto simp: mutex_trylock_def mutex_try_acquire_eq running_def)
  moreover have "mutex_sys_inv i (m\<lparr>mtx_task := Some c\<rparr>) (id k) (H \<union> {c}) P T W"
    by (rule mutex_acquire_inv [OF I None _ c]) auto
  ultimately show ?thesis by (auto simp: got_def)
next
  case (Some ow)
  with l I show ?thesis by (auto simp: mutex_trylock_def mutex_try_acquire_eq got_def)
qed

lemma mutex_unlock_inv:
  assumes I: "mutex_sys_inv i m k H P T W" and c: "running k c" and l: "mutex_unlock i m k = (m', k')"
  shows "\<exists>V. mutex_sys_inv i m' k' (H - {c})
    (P \<union> (if mtx_task m = Some c then set_option (wait_head k (MutexWaiters i)) else {})) T V"
proof (cases "mtx_task m = Some c")
  case False
  from c have "g_current_task k = Some c" by (simp add: running_def)
  with l False have "m' = m" "k' = k" by (auto simp: mutex_unlock_def)
  with I False show ?thesis by (intro exI [of _ W]) (auto simp: mutex_sys_inv_def)
next
  case True
  from c have cur: "g_current_task k = Some c" by (simp add: running_def)
  from I have inv: "kern_inv k W" by (simp add: mutex_sys_inv_def)
  from mutex_unlock_spec [OF inv cur True, of i] l have
    u: "m' = m\<lparr>is_elevated := 0, mtx_task := None\<rparr>" "kern_inv k' (deq (MutexWaiters i) W)"
    "\<forall>t. timed_out (tcb k' t) = timed_out (tcb k t)"
    "case W (MutexWaiters i) of [] \<Rightarrow> \<forall>t. runnable k' t = runnable k t
      | w # _ \<Rightarrow> highest_next k' \<and> (\<forall>t. runnable k' t \<longleftrightarrow> t = w \<or> runnable k t)
          \<and> delay_ticks (tcb k' w) = 0"
    by auto
  from kern_inv_wlist [OF inv, of "MutexWaiters i"]
  have hd: "wait_head k (MutexWaiters i) = (case W (MutexWaiters i) of [] \<Rightarrow> None | w # _ \<Rightarrow> Some w)"
    by (auto simp: wlist_def split: list.split)
  have "mutex_sys_inv i m' k' (H - {c}) (P \<union> set_option (wait_head k (MutexWaiters i))) T
      (deq (MutexWaiters i) W)"
    using u I True hd by (intro mutex_sys_invI) (auto simp: mutex_sys_inv_def split: list.splits)
  with True show ?thesis by auto
qed

lemma mutex_bg_inv:
  assumes I: "mutex_sys_inv i m k H P T W" and b: "bg_step P k k'"
  shows "\<exists>V. mutex_sys_inv i m k' H P T V"
proof -
  from I have inv: "kern_inv k W" by (simp add: mutex_sys_inv_def)
  from bg_step_inv [OF inv b] obtain V where V: "kern_inv k' V"
    "\<forall>c. set (V c) \<subseteq> set (W c)" "\<forall>t\<in>P. runnable k t \<longrightarrow> runnable k' t"
    "\<forall>t c. t \<in> set (V c) \<or> runnable k t \<longrightarrow> timed_out (tcb k' t) = timed_out (tcb k t)" by blast
  have sub: "set (V (MutexWaiters i)) \<subseteq> set (W (MutexWaiters i))" using V(2) by blast
  have "mutex_sys_inv i m k' H P T V"
  proof (rule mutex_sys_invI)
    show "kern_inv k' V" by (rule V(1))
    show "H = set_option (mtx_task m)" using I by (simp add: mutex_sys_inv_def)
    show "runnable k' t" if "t \<in> P" for t using that I V(3) by (simp add: mutex_sys_inv_def)
    show "timed_out (tcb k' t) = 0" if "t \<in> T" "t \<in> set (V (MutexWaiters i)) \<or> t \<in> P" for t
    proof -
      have "timed_out (tcb k' t) = timed_out (tcb k t)"
        using that I V(4) by (simp only: mutex_sys_inv_def) blast
      then show ?thesis using that I sub by (auto simp: mutex_sys_inv_def)
    qed
    show "P \<noteq> {}" if "mtx_task m = None" "V (MutexWaiters i) \<noteq> []"
      using that I sub by (auto simp: mutex_sys_inv_def)
  qed
  then show ?thesis by blast
qed

lemma mutex_step_inv:
  assumes "mutex_step i A B" and "mutex_sys_inv i (sys_m A) (sys_k A) (sys_H A) (sys_P A) (sys_T A) W"
  shows "\<exists>V. mutex_sys_inv i (sys_m B) (sys_k B) (sys_H B) (sys_P B) (sys_T B) V"
  using assms
proof (cases rule: mutex_step.cases)
  case ms_lock
  then show ?thesis using mutex_lock_inv assms(2) by fastforce
next
  case ms_lock_timeout
  then show ?thesis using mutex_lock_timeout_inv assms(2) by fastforce
next
  case ms_resume
  then show ?thesis using mutex_resume_inv assms(2) by fastforce
next
  case ms_try
  then show ?thesis using mutex_trylock_inv assms(2) by fastforce
next
  case ms_unlock
  then show ?thesis using mutex_unlock_inv assms(2) by fastforce
next
  case ms_bg
  then show ?thesis using mutex_bg_inv assms(2) by fastforce
qed

lemma mutex_reach_inv:
  "mutex_reach i A B \<Longrightarrow> \<exists>W. mutex_sys_inv i (sys_m A) (sys_k A) (sys_H A) (sys_P A) (sys_T A) W \<Longrightarrow>
   \<exists>W. mutex_sys_inv i (sys_m B) (sys_k B) (sys_H B) (sys_P B) (sys_T B) W"
  by (induction rule: mutex_reach.induct) (blast intro: mutex_step_inv)+

subsection \<open>Inheritance\<close>

text \<open>
  The owner \<open>ow\<close> of base priority \<open>b\<close> outranks or equals everyone queued, and \<open>b\<close> is
  either its priority or the one saved.
\<close>

definition pi_inv :: "nat \<Rightarrow> mutex_t \<Rightarrow> kern \<Rightarrow> (wait_cell \<Rightarrow> tid list) \<Rightarrow> tid \<Rightarrow> u8 \<Rightarrow> bool" where
  "pi_inv i m k W ow b \<longleftrightarrow> mtx_task m = Some ow
     \<and> (\<forall>w\<in>set (W (MutexWaiters i)). priority (tcb k ow) \<le> priority (tcb k w))
     \<and> priority (tcb k ow) \<le> b
     \<and> (if is_elevated m = 0 then priority (tcb k ow) = b else owner_original_priority m = b)"

lemma mutex_elevate_pi:
  assumes "mutex_elevate c ow m k = (m', k')"
  shows "if priority (tcb k c) < priority (tcb k ow) \<and> is_elevated m = 0
     then owner_original_priority m' = priority (tcb k ow) \<and> is_elevated m' \<noteq> 0
     else m' = m"
  using assms by (auto simp: mutex_elevate_def split: if_splits)

lemma mutex_lock_owned:
  "mtx_task m = Some ow \<Longrightarrow> mutex_lock i m k = mutex_lock_block i untimed_wait m k"
  by (simp add: mutex_lock_def mutex_try_acquire_eq)

subsection \<open>Properties\<close>


definition free_mutex :: mutex_t where
  "free_mutex = \<lparr>mtx_task = None, owner_original_priority = 0, is_elevated = 0\<rparr>"


text \<open>
  C6: Priority inheritance. When a task blocks on a mutex, the owner's priority becomes the
  higher of the two, so the owner keeps ranking at least as high as every queued task,
  and the base priority stays on record; unlocking gives the owner its base priority back.
\<close>

theorem mutex_priority_inheritance:
  assumes inv: "kern_inv k W" and r: "running k c" and pi: "pi_inv i m k W ow b"
  shows "\<exists>m' k' V. mutex_lock i m k = (Block, m', k') \<and> kern_inv k' V \<and> highest_next k'
     \<and> c \<in> set (V (MutexWaiters i)) \<and> pi_inv i m' k' V ow b
     \<and> priority (tcb k' ow) = min (priority (tcb k ow)) (priority (tcb k c))
     \<and> (\<forall>k2 V2. kern_inv k2 V2 \<and> g_current_task k2 = Some ow
           \<and> priority (tcb k2 ow) = priority (tcb k' ow) \<longrightarrow>
          priority (tcb (snd (mutex_unlock i m' k2)) ow) = b)"
proof -
  from pi have ow: "mtx_task m = Some ow" by (simp add: pi_inv_def)
  from mutex_lock_block_spec [OF inv r ow, of untimed_wait i] obtain m' k' V where
    b: "mutex_lock_block i untimed_wait m k = (Block, m', k')" and V: "kern_inv k' V"
      "set (V (MutexWaiters i)) = insert c (set (W (MutexWaiters i)))" "highest_next k'"
      "mtx_task m' = Some ow"
    and pr: "\<And>t. priority (tcb k' t) = (if t = ow then min (priority (tcb k ow)) (priority (tcb k c))
        else priority (tcb k t))"
    and e: "mutex_elevate c ow m (k\<lparr>primask := True\<rparr>) = (m', snd (mutex_elevate c ow m (k\<lparr>primask := True\<rparr>)))"
    by auto
  note me = mutex_elevate_pi [OF e]
  have pi': "pi_inv i m' k' V ow b"
    using pi V pr me
    by (auto simp: pi_inv_def min_def not_less split: if_splits)
  moreover have "priority (tcb (snd (mutex_unlock i m' k2)) ow) = b"
    if k2: "kern_inv k2 V2" "g_current_task k2 = Some ow" "priority (tcb k2 ow) = priority (tcb k' ow)"
    for k2 V2
    using mutex_unlock_spec [OF k2(1,2) V(4), of i] pi' k2(3)
    by (auto simp: pi_inv_def restored_def split: if_splits)
  ultimately show ?thesis using b V pr mutex_lock_owned [OF ow, of i k]
    by (intro exI [of _ m'] exI [of _ k'] exI [of _ V]) auto
qed

text \<open>Task 2 of priority 2 holds the mutex, task 0 of priority 1 blocks on it.\<close>

theorem mutex_priority_inheritance_witness:
  "\<exists>m' k'. mutex_lock 0 (free_mutex\<lparr>mtx_task := Some (Task 2)\<rparr>) demo_kern = (Block, m', k')
     \<and> priority (tcb k' (Task 2)) = 1"
proof -
  have "pi_inv 0 (free_mutex\<lparr>mtx_task := Some (Task 2)\<rparr>) demo_kern (\<lambda>_. []) (Task 2) 2"
    by (simp add: pi_inv_def free_mutex_def demo_kern_def demo_task_def)
  from mutex_priority_inheritance [OF demo_kern_inv demo_running this] show ?thesis
    by (auto simp: demo_kern_def demo_task_def)
qed

subsection \<open>Where inheritance goes wrong\<close>

text \<open>The part of \<open>mutex_lock\<close> and \<open>mutex_unlock\<close> that concerns the owner's priority.\<close>

lemma mutex_lock_prio:
  assumes "kern_inv k W" "running k c" "mtx_task m = Some ow" "mutex_lock i m k = (r, m', k')"
  shows "r = Block" "mtx_task m' = Some ow"
    "priority (tcb k' t) = (if t = ow then min (priority (tcb k ow)) (priority (tcb k c))
        else priority (tcb k t))"
    "priority (tcb k c) < priority (tcb k ow) \<Longrightarrow> is_elevated m = 0 \<Longrightarrow>
       owner_original_priority m' = priority (tcb k ow) \<and> is_elevated m' \<noteq> 0"
proof -
  obtain m2 k2 where b: "mutex_lock_block i untimed_wait m k = (Block, m2, k2)"
    "mtx_task m2 = Some ow"
    "\<And>t. priority (tcb k2 t) = (if t = ow then min (priority (tcb k ow)) (priority (tcb k c))
        else priority (tcb k t))"
    "mutex_elevate c ow m (k\<lparr>primask := True\<rparr>)
       = (m2, snd (mutex_elevate c ow m (k\<lparr>primask := True\<rparr>)))"
    using mutex_lock_block_spec [OF assms(1-3), of untimed_wait i] by auto
  from b(1) assms(3,4) have [simp]: "r = Block" "m' = m2" "k' = k2"
    by (simp_all add: mutex_lock_owned)
  show "r = Block" "mtx_task m' = Some ow" using b(2) by simp_all
  show "priority (tcb k' t) = (if t = ow then min (priority (tcb k ow)) (priority (tcb k c))
        else priority (tcb k t))" using b(3) by simp
  show "priority (tcb k c) < priority (tcb k ow) \<Longrightarrow> is_elevated m = 0 \<Longrightarrow>
       owner_original_priority m' = priority (tcb k ow) \<and> is_elevated m' \<noteq> 0"
    using mutex_elevate_pi [OF b(4)] by simp
qed

lemma mutex_unlock_prio:
  assumes "kern_inv k W" "g_current_task k = Some c" "mtx_task m = Some c"
    "mutex_unlock i m k = (m', k')"
  shows "mtx_task m' = None" "is_elevated m' = 0"
    "priority (tcb k' t) = (if t = c then restored m c k else priority (tcb k t))"
  using mutex_unlock_spec [OF assms(1-3), of i] assms(4) by auto

text \<open>
  C26: A task \<open>ow\<close> that holds two mutexes loses its base priority for good, although it
  releases them in the reverse order of acquisition. A task \<open>c1\<close> that outranks \<open>ow\<close> blocks
  on the second mutex, then \<open>c2\<close> of higher priority still blocks on the first. Releasing the
  second takes \<open>ow\<close> down to its base priority although \<open>c2\<close> still waits for it, and
  releasing the first leaves \<open>ow\<close> at the priority of \<open>c1\<close>, with neither mutex elevated.
  (Between the calls the kernel may run anything that changes no priority.)
\<close>

theorem mutex_nested_priority_lost:
  assumes k1: "kern_inv k1 W1" "running k1 c1" "mtx_task m2 = Some ow" "is_elevated m2 = 0"
      "priority (tcb k1 c1) < priority (tcb k1 ow)" "mutex_lock j m2 k1 = (r1, m2a, k2)"
    and k3: "kern_inv k3 W3" "running k3 c2" "mtx_task m1 = Some ow" "is_elevated m1 = 0"
      "kprio k3 = kprio k2" "priority (tcb k3 c2) < priority (tcb k1 c1)" "c1 \<noteq> ow" "c2 \<noteq> ow"
      "mutex_lock i m1 k3 = (r2, m1a, k4)"
    and k5: "kern_inv k5 W5" "g_current_task k5 = Some ow" "kprio k5 = kprio k4"
      "mutex_unlock j m2a k5 = (m2b, k6)"
    and k7: "kern_inv k7 W7" "g_current_task k7 = Some ow" "kprio k7 = kprio k6"
      "mutex_unlock i m1a k7 = (m1b, k8)"
  shows "priority (tcb k4 ow) = priority (tcb k4 c2)
     \<and> priority (tcb k6 ow) = priority (tcb k1 ow)
     \<and> priority (tcb k8 ow) = priority (tcb k1 c1) \<and> priority (tcb k8 ow) \<noteq> priority (tcb k1 ow)
     \<and> is_elevated m1b = 0 \<and> is_elevated m2b = 0"
proof -
  note l1 = mutex_lock_prio [OF k1(1,2,3,6)]
  have p2: "priority (tcb k2 ow) = priority (tcb k1 c1)" using l1(3) [of ow] k1(5) by (simp add: min_absorb2 less_imp_le)
  have o2: "owner_original_priority m2a = priority (tcb k1 ow)" "is_elevated m2a \<noteq> 0"
    using l1(4) k1(4,5) by auto
  have p3: "priority (tcb k3 t) = priority (tcb k2 t)" for t using k3(5) by (metis (full_types))
  note l2 = mutex_lock_prio [OF k3(1,2,3,9)]
  have o1: "owner_original_priority m1a = priority (tcb k1 c1)" "is_elevated m1a \<noteq> 0"
    using l2(4) k3(4,6) p2 p3 by auto
  have p4: "priority (tcb k4 ow) = priority (tcb k4 c2)"
    using l2(3) [of ow] l2(3) [of c2] k3(6,8) p2 p3
    by (simp add: min_absorb2 less_imp_le)
  note u1 = mutex_unlock_prio [OF k5(1,2) l1(2) k5(4)]
  have p6: "priority (tcb k6 ow) = priority (tcb k1 ow)" using u1(3) [of ow] o2 by (simp add: restored_def)
  note u2 = mutex_unlock_prio [OF k7(1,2) l2(2) k7(4)]
  have "priority (tcb k8 ow) = priority (tcb k1 c1)" using u2(3) [of ow] o1 by (simp add: restored_def)
  with p4 p6 u1(2) u2(2) k1(5) show ?thesis by auto
qed

text \<open>Task 2 has base priority 2, tasks 1 and 0 have priorities 1 and 0.\<close>

definition demo_prio :: "u8 \<Rightarrow> tid \<Rightarrow> u8" where
  "demo_prio p t = (if t = Task 0 then 0 else if t = Task 1 then 1 else if t = Task 2 then p else 3)"

theorem mutex_nested_priority_lost_witness:
  "\<exists>m2a k2 m1a k4 m2b k6 m1b k8.
     mutex_lock 2 (free_mutex\<lparr>mtx_task := Some (Task 2)\<rparr>) (demo_run 1 (demo_prio 2)) = (Block, m2a, k2)
   \<and> mutex_lock 1 (free_mutex\<lparr>mtx_task := Some (Task 2)\<rparr>) (demo_run 0 (kprio k2)) = (Block, m1a, k4)
   \<and> mutex_unlock 2 m2a (demo_run 2 (kprio k4)) = (m2b, k6)
   \<and> mutex_unlock 1 m1a (demo_run 2 (kprio k6)) = (m1b, k8)
   \<and> priority (tcb k6 (Task 2)) = 2 \<and> priority (tcb k8 (Task 2)) = 1"
proof -
  let ?m = "free_mutex\<lparr>mtx_task := Some (Task 2)\<rparr>"
  have m: "mtx_task ?m = Some (Task 2)" "is_elevated ?m = 0" by (simp_all add: free_mutex_def)
  let ?k1 = "demo_run 1 (demo_prio 2)"
  obtain r1 m2a k2 where l1: "mutex_lock 2 ?m ?k1 = (r1, m2a, k2)" by (metis prod_cases3)
  let ?k3 = "demo_run 0 (kprio k2)"
  obtain r2 m1a k4 where l2: "mutex_lock 1 ?m ?k3 = (r2, m1a, k4)" by (metis prod_cases3)
  obtain m2b k6 where u1: "mutex_unlock 2 m2a (demo_run 2 (kprio k4)) = (m2b, k6)" by fastforce
  obtain m1b k8 where u2: "mutex_unlock 1 m1a (demo_run 2 (kprio k6)) = (m1b, k8)" by fastforce
  note p = mutex_lock_prio [OF demo_run_inv _ m(1) l1] mutex_lock_prio [OF demo_run_inv _ m(1) l2]
  have p0: "priority (tcb k2 (Task 0)) = 0" "priority (tcb ?k1 (Task 1)) < priority (tcb ?k1 (Task 2))"
    using p(3) [of "Task 1" "Task 0"] by (simp_all add: demo_prio_def)
  then have c2: "priority (tcb ?k3 (Task 0)) < priority (tcb ?k1 (Task 1))"
    by (simp add: demo_prio_def)
  have kp: "kprio (demo_run c f) = f" for c f by (simp add: fun_eq_iff)
  from mutex_nested_priority_lost [OF demo_run_inv _ m p0(2) l1 demo_run_inv _ m kp c2 _ _ l2
      demo_run_inv _ kp u1 demo_run_inv _ kp u2] p(1,5) [OF demo_run_simps(1)] l1 l2 u1 u2
  show ?thesis by (simp add: demo_prio_def)
qed

text \<open>
  A timed lock that gives up leaves the owner boosted. If a task of higher priority blocks
  in \<open>mutex_lock_timeout\<close> and its timeout passes, the task is ready again and nobody waits for
  the mutex any more, but the owner keeps the inherited priority.
\<close>

theorem mutex_timeout_keeps_boost:
  assumes inv: "kern_inv k W" and r: "running k c" and c: "c = Task j" "j < s_task_count k"
    and W: "W (MutexWaiters i) = []" and ow: "mtx_task m = Some ow" "c \<noteq> ow" "is_elevated m = 0"
    and pr: "priority (tcb k c) < priority (tcb k ow)" and dl: "systick_get_ms k < dl"
  shows "\<exists>m' k1 k2. mutex_lock_timeout i dl m k = (Block, m', k1)
     \<and> sched_tick_n (dl - systick_get_ms k) k1 = Some k2 \<and> runnable k2 c
     \<and> wait_head k2 (MutexWaiters i) = None \<and> mtx_task m' = Some ow
     \<and> priority (tcb k2 ow) = priority (tcb k c) \<and> owner_original_priority m' = priority (tcb k ow)"
proof -
  let ?d = "dl - systick_get_ms k" and ?f = "timed_wait (MutexWaiters i) (dl - systick_get_ms k)"
  have "\<exists>d. ?f = timed_wait (MutexWaiters i) d" by blast
  then obtain m1 k1 V where b: "mutex_lock_block i ?f m k = (Block, m1, k1)" "kern_inv k1 V"
    "set (V (MutexWaiters i)) = {c}" "mtx_task m1 = Some ow"
    "\<And>t. priority (tcb k1 t) = (if t = ow then min (priority (tcb k ow)) (priority (tcb k c))
        else priority (tcb k t))"
    "delay_ticks (tcb k1 c) = ?d" "s_task_count k1 = s_task_count k"
    and e: "mutex_elevate c ow m (k\<lparr>primask := True\<rparr>)
       = (m1, snd (mutex_elevate c ow m (k\<lparr>primask := True\<rparr>)))"
    using mutex_lock_block_spec [OF inv r ow(1), of ?f i] W by auto
  have l: "mutex_lock_timeout i dl m k = (Block, m1, k1)"
    using ow(1) dl b(1) by (simp add: mutex_lock_timeout_def mutex_try_acquire_eq Let_def not_le)
  have cV: "c \<in> set (V (MutexWaiters i))" using b(3) by simp
  have "?d > 0" using dl by (simp add: word_pos_iff)
  with b(6) kern_inv_blocked [OF b(2) cV] c b(7) have ex: "expired ?d k1 c" by (simp add: expired_def)
  from sched_tick_n_ex [OF b(2)] obtain k2 where k2: "sched_tick_n ?d k1 = Some k2" by blast
  let ?V2 = "drop_expired ?d k1 (s_task_count k1) V"
  have "?V2 (MutexWaiters i) = []"
    using b(3,7) c ex by (auto simp: drop_expired_def filter_empty_conv)
  with kern_inv_wlist [OF tick_bg(1) [OF b(2) k2], of "MutexWaiters i"]
  have "wait_head k2 (MutexWaiters i) = None" by (simp add: wlist_def)
  moreover have "runnable k2 c"
    using tick_expired_runnable [OF b(2) k2] ex c b(7) by auto
  moreover have "priority (tcb k2 ow) = priority (tcb k c)"
    using tick_bg(5) [OF b(2) k2, of ow] b(5) [of ow] pr by (simp add: min_absorb2 less_imp_le)
  moreover have "owner_original_priority m1 = priority (tcb k ow)"
    using mutex_elevate_pi [OF e] pr ow(3) by simp
  ultimately show ?thesis using l k2 b(4) by blast
qed

theorem mutex_timeout_keeps_boost_witness:
  "\<exists>m' k1 k2. mutex_lock_timeout 0 10 (free_mutex\<lparr>mtx_task := Some (Task 2)\<rparr>)
       (demo_run 1 (demo_prio 2)) = (Block, m', k1)
     \<and> sched_tick_n 10 k1 = Some k2 \<and> wait_head k2 (MutexWaiters 0) = None
     \<and> priority (tcb k2 (Task 2)) = 1"
proof -
  let ?k = "demo_run 1 (demo_prio 2)"
  have "running ?k (Task 1)" "1 < s_task_count ?k" by simp_all
  from mutex_timeout_keeps_boost [OF demo_run_inv this(1) refl this(2), where i = 0
      and m = "free_mutex\<lparr>mtx_task := Some (Task 2)\<rparr>" and ow = "Task 2" and dl = 10]
  show ?thesis by (auto simp: free_mutex_def demo_prio_def systick_get_ms_def)
qed

end
