(* ===== verification/Fifo.thy ===== *)
theory Fifo
  imports Prelude
begin

text \<open>
  The contract of a bounded first-in first-out buffer, as the character rings of the K64F's
  UART and the byte ring of a message queue keep it: \<open>items\<close> reads the stored items off the
  buffer's state, oldest first, \<open>space\<close> is how many it can hold, \<open>fits\<close> which items it takes.
  \<open>put\<close> and \<open>get\<close> return \<open>None\<close> where the caller has to wait or to give up. What a user of the
  buffer may rely on is proved once from these laws, for any sequence of calls; the theories
  of the buffers interpret the locale on their operations.
\<close>

datatype 'a fifo_call = FPut 'a | FGet

text \<open>A call next to the history: the items put so far, and those got.\<close>

fun fifo_step ::
  "('a \<Rightarrow> 's \<Rightarrow> 's option) \<Rightarrow> ('s \<Rightarrow> ('a \<times> 's) option) \<Rightarrow> 'a fifo_call \<Rightarrow> 's \<times> 'a list \<times> 'a list \<Rightarrow> 's \<times> 'a list \<times> 'a list"
where
  "fifo_step put get (FPut x) (s, ins, outs) = (case put x s of None \<Rightarrow> (s, ins, outs) | Some s' \<Rightarrow> (s', ins @ [x], outs))"
| "fifo_step put get FGet (s, ins, outs) = (case get s of None \<Rightarrow> (s, ins, outs) | Some (x, s') \<Rightarrow> (s', ins, outs @ [x]))"

primrec fifo_drain :: "('s \<Rightarrow> ('a \<times> 's) option) \<Rightarrow> nat \<Rightarrow> 's \<Rightarrow> 'a list \<times> 's" where
  "fifo_drain get 0 s = ([], s)"
| "fifo_drain get (Suc n) s =
     (case get s of None \<Rightarrow> ([], s) | Some (x, s') \<Rightarrow> (case fifo_drain get n s' of (xs, s'') \<Rightarrow> (x # xs, s'')))"

locale fifo =
  fixes wf :: "'s \<Rightarrow> bool" and items :: "'s \<Rightarrow> 'a list" and space :: "'s \<Rightarrow> nat" and fits :: "'s \<Rightarrow> 'a \<Rightarrow> bool"
    and put :: "'a \<Rightarrow> 's \<Rightarrow> 's option" and get :: "'s \<Rightarrow> ('a \<times> 's) option"
  assumes bounded: "wf s \<Longrightarrow> length (items s) \<le> space s"
    and put_refused: "wf s \<Longrightarrow> fits s x \<Longrightarrow> put x s = None \<longleftrightarrow> length (items s) = space s"
    and put_done: "wf s \<Longrightarrow> fits s x \<Longrightarrow> put x s = Some s' \<Longrightarrow>
      wf s' \<and> items s' = items s @ [x] \<and> space s' = space s \<and> fits s' = fits s"
    and get_refused: "wf s \<Longrightarrow> get s = None \<longleftrightarrow> items s = []"
    and get_done: "wf s \<Longrightarrow> get s = Some (x, s') \<Longrightarrow>
      wf s' \<and> items s = x # items s' \<and> space s' = space s \<and> fits s' = fits s"
begin

text \<open>However puts and gets follow each other, what was there and was put is what was got and is there.\<close>

lemma step_keeps:
  assumes "wf s" and "\<forall>x. e = FPut x \<longrightarrow> fits s x" and "pre @ ins = outs @ items s"
    and "fifo_step put get e (s, ins, outs) = (s', ins', outs')"
  shows "wf s' \<and> pre @ ins' = outs' @ items s' \<and> space s' = space s \<and> fits s' = fits s"
proof (cases e)
  case (FPut x)
  with assms(2) have f: "fits s x" by simp
  show ?thesis
  proof (cases "put x s")
    case None
    then show ?thesis using FPut assms by simp
  next
    case (Some t)
    from put_done [OF assms(1) f Some] have "wf t" "items t = items s @ [x]" "space t = space s" "fits t = fits s" by blast+
    then show ?thesis using Some FPut assms(3,4) by (metis append.assoc fifo_step.simps(1) option.simps(5) prod.inject)
  qed
next
  case FGet
  show ?thesis
  proof (cases "get s")
    case None
    then show ?thesis using FGet assms by simp
  next
    case (Some p)
    obtain x t where p: "p = (x, t)" by (cases p)
    from get_done [OF assms(1) Some [unfolded p]]
    have t: "wf t" "items s = x # items t" "space t = space s" "fits t = fits s" by blast+
    have "s' = t" "ins' = ins" "outs' = outs @ [x]" using Some p FGet assms(4) by simp_all
    then show ?thesis using t assms(3) by (metis append.assoc append_Cons append_Nil)
  qed
qed

lemma run_keeps:
  assumes "wf s" and "\<forall>x. FPut x \<in> set es \<longrightarrow> fits s x" and "pre @ ins = outs @ items s"
    and "fold (fifo_step put get) es (s, ins, outs) = (s', ins', outs')"
  shows "wf s' \<and> pre @ ins' = outs' @ items s' \<and> space s' = space s"
  using assms
proof (induction es arbitrary: s ins outs)
  case (Cons e es)
  obtain s1 ins1 outs1 where st: "fifo_step put get e (s, ins, outs) = (s1, ins1, outs1)" by (metis prod_cases3)
  have "\<forall>x. e = FPut x \<longrightarrow> fits s x" using Cons.prems(2) by auto
  from step_keeps [OF Cons.prems(1) this Cons.prems(3) st]
  have "wf s1" "pre @ ins1 = outs1 @ items s1" "space s1 = space s" "fits s1 = fits s" by auto
  with Cons.IH [of s1 ins1 outs1] Cons.prems(2,4) st show ?case by auto
qed auto

lemma run_fifo:
  assumes "wf s" and "\<forall>x. FPut x \<in> set es \<longrightarrow> fits s x"
    and "fold (fifo_step put get) es (s, [], []) = (s', ins, outs)"
  shows "items s @ ins = outs @ items s' \<and> wf s' \<and> length (items s') \<le> space s"
  using run_keeps [OF assms(1,2) _ assms(3), of "items s"] bounded [of s'] by auto

text \<open>As many gets as items are stored return them in order and leave the buffer empty.\<close>

lemma drain_all: "wf s \<Longrightarrow> \<exists>s'. fifo_drain get (length (items s)) s = (items s, s') \<and> wf s' \<and> items s' = []"
proof (induction "items s" arbitrary: s)
  case (Cons x xs)
  then obtain s1 where s1: "get s = Some (x, s1)" using get_refused [of s] get_done [of s] by (cases "get s") fastforce+
  then have i: "items s = x # items s1" "wf s1" using get_done [OF Cons.prems] by auto
  with Cons.hyps have "\<exists>s'. fifo_drain get (length (items s1)) s1 = (items s1, s') \<and> wf s' \<and> items s' = []" by simp
  then show ?case using s1 i(1) by auto
qed auto

end

end
