(* ===== verification/MsgQueue.thy ===== *)
theory MsgQueue
  imports SchedWakeup Fifo
begin

text \<open>
  \<open>kernel/core/queue.c\<close> and the inline wrappers of \<open>include/queue.h\<close>: bounded queues of
  fixed-size items in a byte buffer. The \<open>uint16_t\<close> members are natural numbers, every
  assignment to one reduced modulo 2^16. The wait lists of queue \<open>i\<close> are the cells
  \<open>QueueSendWaiters i\<close> and \<open>QueueReceiveWaiters i\<close>. The blocking calls are one round of their
  loops; an item is a byte list of which the code copies \<open>item_size\<close> bytes.

  A successful round ends its critical section before it wakes the task it took off the
  other list: \<open>queue_push\<close> and \<open>queue_pull\<close> are that critical section, the wake-up follows
  as a step of its own.
\<close>

record queue_t =
  q_buffer :: "u8 list"
  item_size :: nat
  capacity :: nat
  q_count :: nat
  q_head :: nat
  q_tail :: nat

definition queue_init :: "nat \<Rightarrow> u8 list \<Rightarrow> nat \<Rightarrow> nat \<Rightarrow> kern \<Rightarrow> queue_t \<times> kern" where
  "queue_init i buffer isz cap k =
     (\<lparr>q_buffer = buffer, item_size = isz, capacity = cap, q_count = 0, q_head = 0, q_tail = 0\<rparr>,
      set_head (QueueReceiveWaiters i) None (set_head (QueueSendWaiters i) None k))"

definition queue_copy_in :: "u8 list \<Rightarrow> queue_t \<Rightarrow> queue_t" where
  "queue_copy_in item q =
     (let dst = q_tail q * item_size q in
      q\<lparr>q_buffer := take dst (q_buffer q) @ take (item_size q) item
                      @ drop (dst + item_size q) (q_buffer q),
        q_tail := ((q_tail q + 1) mod capacity q) mod 2 ^ 16,
        q_count := (q_count q + 1) mod 2 ^ 16\<rparr>)"

definition queue_copy_out :: "queue_t \<Rightarrow> u8 list \<times> queue_t" where
  "queue_copy_out q =
     (let src = q_head q * item_size q in
      (take (item_size q) (drop src (q_buffer q)),
       q\<lparr>q_head := ((q_head q + 1) mod capacity q) mod 2 ^ 16,
         q_count := (q_count q + (2 ^ 16 - 1)) mod 2 ^ 16\<rparr>))"

text \<open>The critical section of a send with room, and of a receive with an item.\<close>

definition queue_push :: "nat \<Rightarrow> u8 list \<Rightarrow> bool \<Rightarrow> queue_t \<Rightarrow> kern \<Rightarrow> tid option \<times> queue_t \<times> kern" where
  "queue_push i item p q k0 =
     (let q1 = queue_copy_in item q; (waiter, k1) = wq_pop (QueueReceiveWaiters i) k0
      in (waiter, q1, sched_critical_exit p k1))"

definition queue_pull :: "nat \<Rightarrow> bool \<Rightarrow> queue_t \<Rightarrow> kern \<Rightarrow> u8 list \<times> tid option \<times> queue_t \<times> kern" where
  "queue_pull i p q k0 =
     (let (item, q1) = queue_copy_out q; (waiter, k1) = wq_pop (QueueSendWaiters i) k0
      in (item, waiter, q1, sched_critical_exit p k1))"

text \<open>The block of a call that cannot go on: mark the caller, queue it, choose the next task.\<close>

definition queue_block :: "wait_cell \<Rightarrow> (task_t \<Rightarrow> task_t) \<Rightarrow> bool \<Rightarrow> kern \<Rightarrow> 'a outcome \<times> kern" where
  "queue_block cell f p k0 =
     (case g_current_task k0 of
        None \<Rightarrow> (Trap, k0)
      | Some c \<Rightarrow>
          (case block_on (wq_insert cell) f c k0 of
             None \<Rightarrow> (Hang, k0)
           | Some k1 \<Rightarrow> (Block, sched_critical_exit p k1)))"

definition queue_send :: "nat \<Rightarrow> u8 list \<Rightarrow> queue_t \<Rightarrow> kern \<Rightarrow> unit outcome \<times> queue_t \<times> kern" where
  "queue_send i item q k =
     (let (p, k0) = sched_critical_enter k in
      if q_count q < capacity q then
        (let (waiter, q1, k1) = queue_push i item p q k0
         in (Ret (), q1, sched_wake_task waiter k1))
      else
        (let (r, k1) = queue_block (QueueSendWaiters i) untimed_wait p k0 in (r, q, k1)))"

definition queue_receive :: "nat \<Rightarrow> queue_t \<Rightarrow> kern \<Rightarrow> u8 list outcome \<times> queue_t \<times> kern" where
  "queue_receive i q k =
     (let (p, k0) = sched_critical_enter k in
      if q_count q > 0 then
        (let (item, waiter, q1, k1) = queue_pull i p q k0
         in (Ret item, q1, sched_wake_task waiter k1))
      else
        (let (r, k1) = queue_block (QueueReceiveWaiters i) untimed_wait p k0 in (r, q, k1)))"

definition queue_timeout_enter :: "u32 \<Rightarrow> kern \<Rightarrow> u32" where
  "queue_timeout_enter timeout_ms k = systick_get_ms k + timeout_ms"

text \<open>\<open>g_current_task->wait_list_head = NULL; return\<close>\<close>

definition clear_list_head :: "kern \<Rightarrow> kern option" where
  "clear_list_head k =
     (case g_current_task k of
        None \<Rightarrow> None
      | Some c \<Rightarrow> Some (upd_tcb c (\<lambda>x. x\<lparr>wait_list_head := None\<rparr>) k))"

definition queue_send_timeout ::
    "nat \<Rightarrow> u8 list \<Rightarrow> u32 \<Rightarrow> queue_t \<Rightarrow> kern \<Rightarrow> int outcome \<times> queue_t \<times> kern" where
  "queue_send_timeout i item deadline q k =
     (let (p, k0) = sched_critical_enter k in
      if q_count q < capacity q then
        (let (waiter, q1, k1) = queue_push i item p q k0; k2 = sched_wake_task waiter k1
         in case clear_list_head k2 of None \<Rightarrow> (Trap, q1, k2) | Some k3 \<Rightarrow> (Ret 0, q1, k3))
      else
        (let now = systick_get_ms k0 in
         if now \<ge> deadline then (Ret (-1), q, sched_critical_exit p k0)
         else (let (r, k1) = queue_block (QueueSendWaiters i)
                       (timed_wait (QueueSendWaiters i) (deadline - now)) p k0 in (r, q, k1))))"

text \<open>The result is the return value and, with 0, the item.\<close>

definition queue_receive_timeout ::
    "nat \<Rightarrow> u32 \<Rightarrow> queue_t \<Rightarrow> kern \<Rightarrow> (int \<times> u8 list) outcome \<times> queue_t \<times> kern" where
  "queue_receive_timeout i deadline q k =
     (let (p, k0) = sched_critical_enter k in
      if q_count q > 0 then
        (let (item, waiter, q1, k1) = queue_pull i p q k0; k2 = sched_wake_task waiter k1
         in case clear_list_head k2 of None \<Rightarrow> (Trap, q1, k2) | Some k3 \<Rightarrow> (Ret (0, item), q1, k3))
      else
        (let now = systick_get_ms k0 in
         if now \<ge> deadline then (Ret (-1, []), q, sched_critical_exit p k0)
         else (let (r, k1) = queue_block (QueueReceiveWaiters i)
                       (timed_wait (QueueReceiveWaiters i) (deadline - now)) p k0 in (r, q, k1))))"

definition queue_try_send :: "nat \<Rightarrow> u8 list \<Rightarrow> queue_t \<Rightarrow> kern \<Rightarrow> int \<times> queue_t \<times> kern" where
  "queue_try_send i item q k =
     (let (p, k0) = sched_critical_enter k in
      if q_count q \<ge> capacity q then (0, q, sched_critical_exit p k0)
      else (let (waiter, q1, k1) = queue_push i item p q k0
            in (1, q1, sched_wake_task waiter k1)))"

definition queue_try_receive :: "nat \<Rightarrow> queue_t \<Rightarrow> kern \<Rightarrow> (int \<times> u8 list) \<times> queue_t \<times> kern" where
  "queue_try_receive i q k =
     (let (p, k0) = sched_critical_enter k in
      if q_count q = 0 then ((0, []), q, sched_critical_exit p k0)
      else (let (item, waiter, q1, k1) = queue_pull i p q k0
            in ((1, item), q1, sched_wake_task waiter k1)))"

definition queue_send_from_isr :: "nat \<Rightarrow> u8 list \<Rightarrow> queue_t \<Rightarrow> kern \<Rightarrow> int \<times> queue_t \<times> kern" where
  "queue_send_from_isr i item q k =
     (let (r, q1, k1) = queue_try_send i item q k in (if r \<noteq> 0 then 0 else -1, q1, k1))"

definition queue_receive_from_isr :: "nat \<Rightarrow> queue_t \<Rightarrow> kern \<Rightarrow> (int \<times> u8 list) \<times> queue_t \<times> kern" where
  "queue_receive_from_isr i q k =
     (let ((r, item), q1, k1) = queue_try_receive i q k in ((if r \<noteq> 0 then 0 else -1, item), q1, k1))"

subsection \<open>The byte ring as a list of items\<close>

definition slot :: "queue_t \<Rightarrow> nat \<Rightarrow> u8 list" where
  "slot q j = take (item_size q) (drop (j * item_size q) (q_buffer q))"

definition qitems :: "queue_t \<Rightarrow> u8 list list" where
  "qitems q = map (\<lambda>j. slot q ((q_head q + j) mod capacity q)) [0..<q_count q]"

definition queue_wf :: "queue_t \<Rightarrow> bool" where
  "queue_wf q \<longleftrightarrow> capacity q < 2 ^ 16 \<and> q_count q \<le> capacity q \<and> (0 < capacity q \<longrightarrow> q_head q < capacity q)
     \<and> (0 < capacity q \<longrightarrow> q_tail q = (q_head q + q_count q) mod capacity q)
     \<and> capacity q * item_size q \<le> length (q_buffer q)"

lemma length_qitems [simp]: "length (qitems q) = q_count q"
  by (simp add: qitems_def)

lemma take_drop_write:
  assumes "length x = n" and "a + n \<le> length b" and "c + n \<le> length b" and "c = a \<or> c + n \<le> a \<or> a + n \<le> c"
  shows "take n (drop c (take a b @ x @ drop (a + n) b)) = (if c = a then x else take n (drop c b))"
proof -
  consider "c = a" | "c + n \<le> a" "c \<noteq> a" | "a + n \<le> c" "c \<noteq> a" using assms(4) by blast
  then show ?thesis
  proof cases
    case 1
    with assms show ?thesis by simp
  next
    case 2
    with assms show ?thesis by (simp add: take_drop min_def)
  next
    case 3
    with assms show ?thesis by (simp add: add.commute)
  qed
qed

lemma slot_in_buffer:
  assumes "j < (cap :: nat)" "cap * n \<le> len"
  shows "j * n + n \<le> len"
proof -
  have "Suc j * n \<le> cap * n" using assms(1) by (intro mult_le_mono) simp_all
  with assms(2) show ?thesis by simp
qed

lemma slot_copy_in:
  assumes wf: "queue_wf q" and c: "q_count q < capacity q" and x: "length item = item_size q"
    and j: "j < capacity q"
  shows "slot (queue_copy_in item q) j = (if j = q_tail q then item else slot q j)"
proof -
  let ?n = "item_size q"
  from wf c have t: "q_tail q < capacity q" and b: "capacity q * ?n \<le> length (q_buffer q)"
    by (auto simp: queue_wf_def)
  have *: "j * ?n = q_tail q * ?n \<or> j * ?n + ?n \<le> q_tail q * ?n \<or> q_tail q * ?n + ?n \<le> j * ?n"
  proof (cases j "q_tail q" rule: linorder_cases)
    case less
    then have "Suc j * ?n \<le> q_tail q * ?n" by (intro mult_le_mono) simp_all
    then show ?thesis by simp
  next
    case greater
    then have "Suc (q_tail q) * ?n \<le> j * ?n" by (intro mult_le_mono) simp_all
    then show ?thesis by simp
  qed simp
  have "slot (queue_copy_in item q) j
      = (if j * ?n = q_tail q * ?n then item else slot q j)"
    using take_drop_write [OF x slot_in_buffer [OF t b] slot_in_buffer [OF j b] *] x
    by (simp add: slot_def queue_copy_in_def Let_def)
  moreover have "j \<noteq> q_tail q \<Longrightarrow> j * ?n = q_tail q * ?n \<Longrightarrow> item = slot q j"
    using x by (simp add: slot_def)
  ultimately show ?thesis by auto
qed

lemma queue_copy_in_wf:
  assumes wf: "queue_wf q" and c: "q_count q < capacity q" and x: "length item = item_size q"
  shows "queue_wf (queue_copy_in item q)"
proof -
  from wf c have t: "q_tail q < capacity q" and b: "capacity q * item_size q \<le> length (q_buffer q)"
    by (auto simp: queue_wf_def)
  have "(q_head q + Suc (q_count q)) mod capacity q = Suc (q_tail q) mod capacity q"
    using wf c by (simp add: queue_wf_def mod_Suc_eq)
  moreover have "Suc (q_tail q) mod capacity q < 65536"
    using c wf by (intro order.strict_trans [OF mod_less_divisor [of "capacity q"]])
      (auto simp: queue_wf_def)
  ultimately show ?thesis
    using wf c x slot_in_buffer [OF t b]
    by (auto simp: queue_wf_def queue_copy_in_def Let_def min_def)
qed

lemma qitems_copy_in:
  assumes wf: "queue_wf q" and c: "q_count q < capacity q" and x: "length item = item_size q"
  shows "qitems (queue_copy_in item q) = qitems q @ [item]"
proof -
  let ?q = "queue_copy_in item q"
  from wf c have fr: "q_head ?q = q_head q" "capacity ?q = capacity q" "q_count ?q = Suc (q_count q)"
    by (auto simp: queue_copy_in_def Let_def queue_wf_def)
  have tail: "q_tail q = (q_head q + q_count q) mod capacity q" using wf c by (simp add: queue_wf_def)
  have other: "(q_head q + j) mod capacity q \<noteq> q_tail q" if "j < q_count q" for j
  proof
    assume "(q_head q + j) mod capacity q = q_tail q"
    then have "(q_head q + j) mod capacity q = (q_head q + q_count q) mod capacity q"
      using tail by simp
    then have "j = q_count q" by (rule mod_add_inj) (use that c in auto)
    with that show False by simp
  qed
  have "slot ?q ((q_head q + j) mod capacity q)
      = (if j = q_count q then item else slot q ((q_head q + j) mod capacity q))"
    if "j < Suc (q_count q)" for j
  proof -
    have "(q_head q + j) mod capacity q < capacity q" using c by simp
    with slot_copy_in [OF wf c x this] other [of j] tail that show ?thesis by auto
  qed
  then show ?thesis unfolding qitems_def fr by (auto intro!: map_cong)
qed

lemma queue_copy_out_spec:
  assumes wf: "queue_wf q" and c: "0 < q_count q" and o: "queue_copy_out q = (item, q')"
  shows "queue_wf q'" and "qitems q = item # qitems q'"
    and "q_count q' = q_count q - 1" "capacity q' = capacity q" "item_size q' = item_size q"
proof -
  from wf c have cap: "0 < capacity q" "q_head q < capacity q" "capacity q < 65536"
    by (auto simp: queue_wf_def)
  have q': "item = slot q (q_head q)"
    "q' = q\<lparr>q_head := (q_head q + 1) mod capacity q, q_count := q_count q - 1\<rparr>"
  proof -
    have "(q_head q + 1) mod capacity q < 65536"
      using cap by (intro order.strict_trans [OF mod_less_divisor [of "capacity q"]]) auto
    moreover have "(q_count q + 65535) mod 65536 = q_count q - 1"
      using c wf cap(3) by (cases "q_count q") (auto simp: queue_wf_def)
    ultimately show "item = slot q (q_head q)"
      "q' = q\<lparr>q_head := (q_head q + 1) mod capacity q, q_count := q_count q - 1\<rparr>"
      using o by (auto simp: queue_copy_out_def Let_def slot_def)
  qed
  have m: "((q_head q + 1) mod capacity q + j) mod capacity q = (q_head q + Suc j) mod capacity q" for j
    by (simp add: mod_simps)
  show "queue_wf q'"
    using wf c cap q'(2) m [of "q_count q - 1"] by (auto simp: queue_wf_def)
  have "[0..<q_count q] = 0 # map Suc [0..<q_count q - 1]"
    using c by (simp add: map_Suc_upt upt_conv_Cons)
  then show "qitems q = item # qitems q'"
    using cap m unfolding q' by (simp add: qitems_def slot_def)
  show "q_count q' = q_count q - 1" "capacity q' = capacity q" "item_size q' = item_size q"
    unfolding q' by simp_all
qed

text \<open>
  The byte ring under its callers' guards, as every queue operation tests them: a bounded
  queue of items of \<open>item_size\<close> bytes.
\<close>

definition ring_put :: "u8 list \<Rightarrow> queue_t \<Rightarrow> queue_t option" where
  "ring_put item q = (if q_count q < capacity q then Some (queue_copy_in item q) else None)"

definition ring_get :: "queue_t \<Rightarrow> (u8 list \<times> queue_t) option" where
  "ring_get q = (if 0 < q_count q then Some (queue_copy_out q) else None)"

interpretation byteq: fifo queue_wf qitems capacity "\<lambda>q item. length item = item_size q" ring_put ring_get
proof (unfold_locales, goal_cases)
  case (1 q)
  then show ?case by (simp add: queue_wf_def)
next
  case (2 q x)
  then show ?case by (auto simp: ring_put_def queue_wf_def)
next
  case (3 q x q')
  then have "q_count q < capacity q" and q': "q' = queue_copy_in x q" by (simp_all add: ring_put_def split: if_splits)
  then show ?case using 3(1,2) queue_copy_in_wf [of q x] qitems_copy_in [of q x]
    by (simp add: queue_copy_in_def Let_def)
next
  case (4 q)
  then show ?case by (simp add: ring_get_def flip: length_0_conv)
next
  case (5 q x q')
  then have "0 < q_count q" "queue_copy_out q = (x, q')" by (simp_all add: ring_get_def split: if_splits)
  then show ?case using queue_copy_out_spec [OF 5(1)] by simp
qed

subsection \<open>Effect on the kernel\<close>

abbreviation sendq :: "nat \<Rightarrow> wait_cell" where "sendq i \<equiv> QueueSendWaiters i"
abbreviation recvq :: "nat \<Rightarrow> wait_cell" where "recvq i \<equiv> QueueReceiveWaiters i"

text \<open>Taking the first waiter off, in the critical section that \<open>sched_critical_exit p\<close> ends.\<close>

lemma wq_pop_exit:
  assumes inv: "kern_inv k W" and p: "wq_pop c (k\<lparr>primask := b\<rparr>) = (w, k1)"
  shows "kern_inv (sched_critical_exit p k1) (deq c W)"
    and "w = (case W c of [] \<Rightarrow> None | t # _ \<Rightarrow> Some t)"
    and "tcb k1 = tcb k" and "g_current_task k1 = g_current_task k"
    and "\<And>t. w = Some t \<Longrightarrow> unqueued (deq c W) t"
proof -
  from inv have inv0: "kern_inv (k\<lparr>primask := b\<rparr>) W" by simp
  have all: "kern_inv k1 (deq c W) \<and> w = (case W c of [] \<Rightarrow> None | t # _ \<Rightarrow> Some t)
      \<and> tcb k1 = tcb k \<and> g_current_task k1 = g_current_task k \<and> (\<forall>t. w = Some t \<longrightarrow> unqueued (deq c W) t)"
  proof (cases "W c")
    case Nil
    with wq.pop_inv_Nil [OF inv0 Nil] p inv0 show ?thesis by auto
  next
    case (Cons t xs)
    from wq.pop_inv_Cons [OF inv0 Cons] p obtain "w = Some t" "kern_inv k1 (deq c W)"
      "unqueued (deq c W) t" "tcb k1 = tcb k" "erase_links k1 = erase_links (k\<lparr>primask := b\<rparr>)"
      by auto
    with erase_links_eqD(8) [of k1 "k\<lparr>primask := b\<rparr>"] Cons show ?thesis by simp
  qed
  then show "kern_inv (sched_critical_exit p k1) (deq c W)"
    "w = (case W c of [] \<Rightarrow> None | t # _ \<Rightarrow> Some t)" "tcb k1 = tcb k" "g_current_task k1 = g_current_task k"
    "\<And>t. w = Some t \<Longrightarrow> unqueued (deq c W) t" by auto
qed

lemma queue_block_spec:
  assumes inv: "kern_inv k W" and r: "running k c"
  shows "\<exists>k'. queue_block cell untimed_wait (primask k) (k\<lparr>primask := True\<rparr>) = (Block, k')
     \<and> kern_inv k' (enq cell c k W) \<and> primask k' = primask k \<and> highest_next k'
     \<and> (\<forall>t. t \<noteq> c \<longrightarrow> runnable k' t = runnable k t \<and> sleeping k' t = sleeping k t)
     \<and> (\<forall>t. delay_ticks (tcb k' t) = delay_ticks (tcb k t))"
proof -
  let ?k0 = "k\<lparr>primask := True\<rparr>"
  from running_unqueued [OF inv r] inv have *: "kern_inv ?k0 W" "unqueued W c"
    "delay_ticks (tcb ?k0 c) = 0" by auto
  from wq.block_untimed_inv [OF *, of cell] obtain k' where
    k': "block_on (wq_insert cell) untimed_wait c ?k0 = Some k'"
      "kern_inv k' (enq cell c ?k0 W)" "highest_next k'" by blast
  have e: "enq cell c ?k0 W = enq cell c k W" by (simp add: enq_def)
  note fr = block_on_frame [OF _ k'(1), OF wq_insert_erase_links]
  have "\<forall>t. t \<noteq> c \<longrightarrow> runnable k' t = runnable k t \<and> sleeping k' t = sleeping k t"
    using fr(1) fr(7) by simp
  moreover have "\<forall>t. delay_ticks (tcb k' t) = delay_ticks (tcb k t)"
    using fr(2) by (simp add: untimed_wait_def)
  moreover have "queue_block cell untimed_wait (primask k) ?k0
      = (Block, sched_critical_exit (primask k) k')"
    using k'(1) r by (simp add: queue_block_def running_def)
  ultimately show ?thesis using k' e
    by (intro exI [of _ "sched_critical_exit (primask k) k'"]) simp
qed

subsection \<open>One queue among running tasks and interrupts\<close>

text \<open>
  \<open>sq_S\<close> and \<open>sq_R\<close>: the items sent and received so far. \<open>sq_Xr\<close>, \<open>sq_Xs\<close>: the tasks taken
  off the receive and the send list that have not made their next round of the same call yet; \<open>sq_D\<close>: those
  of them whose wake-up, after the critical section, is still to come. A push or pull is made
  by a running task (\<open>A = {c}\<close>) or an interrupt handler (\<open>A = {}\<close>).
\<close>

record queue_sys =
  sq_q :: queue_t
  sq_k :: kern
  sq_S :: "u8 list list"
  sq_R :: "u8 list list"
  sq_Xr :: "tid set"
  sq_Xs :: "tid set"
  sq_D :: "tid set"

definition caller :: "kern \<Rightarrow> tid set \<Rightarrow> bool" where
  "caller k A \<longleftrightarrow> A = {} \<or> (\<exists>c. running k c \<and> A = {c})"

inductive queue_step :: "nat \<Rightarrow> queue_sys \<Rightarrow> queue_sys \<Rightarrow> bool" for i where
  qs_push: "caller k A \<Longrightarrow> A \<inter> Xr = {} \<Longrightarrow> length item = item_size q \<Longrightarrow> q_count q < capacity q \<Longrightarrow>
    queue_push i item (primask k) q (snd (sched_critical_enter k)) = (w, q', k') \<Longrightarrow>
    queue_step i \<lparr>sq_q = q, sq_k = k, sq_S = S, sq_R = R, sq_Xr = Xr, sq_Xs = Xs, sq_D = D\<rparr>
      \<lparr>sq_q = q', sq_k = k', sq_S = S @ [item], sq_R = R, sq_Xr = Xr \<union> set_option w, sq_Xs = Xs - A,
       sq_D = D \<union> set_option w\<rparr>"
| qs_pull: "caller k A \<Longrightarrow> A \<inter> Xs = {} \<Longrightarrow> 0 < q_count q \<Longrightarrow>
    queue_pull i (primask k) q (snd (sched_critical_enter k)) = (item, w, q', k') \<Longrightarrow>
    queue_step i \<lparr>sq_q = q, sq_k = k, sq_S = S, sq_R = R, sq_Xr = Xr, sq_Xs = Xs, sq_D = D\<rparr>
      \<lparr>sq_q = q', sq_k = k', sq_S = S, sq_R = R @ [item], sq_Xr = Xr - A, sq_Xs = Xs \<union> set_option w,
       sq_D = D \<union> set_option w\<rparr>"
| qs_wake: "t \<in> D \<Longrightarrow>
    queue_step i \<lparr>sq_q = q, sq_k = k, sq_S = S, sq_R = R, sq_Xr = Xr, sq_Xs = Xs, sq_D = D\<rparr>
      \<lparr>sq_q = q, sq_k = sched_wake_task (Some t) k, sq_S = S, sq_R = R, sq_Xr = Xr, sq_Xs = Xs,
       sq_D = D - {t}\<rparr>"
| qs_send_full: "running k c \<Longrightarrow> c \<notin> Xr \<Longrightarrow> \<not> q_count q < capacity q \<Longrightarrow> queue_send i item q k = (r, q', k') \<Longrightarrow>
    queue_step i \<lparr>sq_q = q, sq_k = k, sq_S = S, sq_R = R, sq_Xr = Xr, sq_Xs = Xs, sq_D = D\<rparr>
      \<lparr>sq_q = q', sq_k = k', sq_S = S, sq_R = R, sq_Xr = Xr, sq_Xs = Xs - {c}, sq_D = D\<rparr>"
| qs_receive_empty: "running k c \<Longrightarrow> c \<notin> Xs \<Longrightarrow> q_count q = 0 \<Longrightarrow> queue_receive i q k = (r, q', k') \<Longrightarrow>
    queue_step i \<lparr>sq_q = q, sq_k = k, sq_S = S, sq_R = R, sq_Xr = Xr, sq_Xs = Xs, sq_D = D\<rparr>
      \<lparr>sq_q = q', sq_k = k', sq_S = S, sq_R = R, sq_Xr = Xr - {c}, sq_Xs = Xs, sq_D = D\<rparr>"
| qs_bg: "bg_step (Xr \<union> Xs) k k' \<Longrightarrow>
    queue_step i \<lparr>sq_q = q, sq_k = k, sq_S = S, sq_R = R, sq_Xr = Xr, sq_Xs = Xs, sq_D = D\<rparr>
      \<lparr>sq_q = q, sq_k = k', sq_S = S, sq_R = R, sq_Xr = Xr, sq_Xs = Xs, sq_D = D\<rparr>"

inductive queue_reach :: "nat \<Rightarrow> queue_sys \<Rightarrow> queue_sys \<Rightarrow> bool" for i where
  qr_refl: "queue_reach i a a"
| qr_step: "queue_reach i a b \<Longrightarrow> queue_step i b c \<Longrightarrow> queue_reach i a c"

definition queue_k_inv :: "nat \<Rightarrow> queue_t \<Rightarrow> kern \<Rightarrow> tid set \<Rightarrow> tid set \<Rightarrow> tid set \<Rightarrow> (wait_cell \<Rightarrow> tid list) \<Rightarrow> bool" where
  "queue_k_inv i q k Xr Xs D W \<longleftrightarrow> kern_inv k W \<and> finite Xr \<and> finite Xs \<and> D \<subseteq> Xr \<union> Xs
     \<and> (\<forall>t\<in>set (W (recvq i)) \<union> set (W (sendq i)). delay_ticks (tcb k t) = 0)
     \<and> (\<forall>t\<in>Xr \<union> Xs. if t \<in> D then sleeping k t \<and> unqueued W t else runnable k t)
     \<and> (W (recvq i) \<noteq> [] \<longrightarrow> q_count q \<le> card Xr)
     \<and> (W (sendq i) \<noteq> [] \<longrightarrow> capacity q - q_count q \<le> card Xs)"

definition queue_sys_inv :: "nat \<Rightarrow> queue_sys \<Rightarrow> bool" where
  "queue_sys_inv i z \<longleftrightarrow> queue_wf (sq_q z) \<and> sq_S z = sq_R z @ qitems (sq_q z)
     \<and> (\<exists>W. queue_k_inv i (sq_q z) (sq_k z) (sq_Xr z) (sq_Xs z) (sq_D z) W)"

lemma queue_k_invI:
  assumes "kern_inv k W" "finite Xr" "finite Xs" "D \<subseteq> Xr \<union> Xs"
    "\<And>t. t \<in> set (W (recvq i)) \<or> t \<in> set (W (sendq i)) \<Longrightarrow> delay_ticks (tcb k t) = 0"
    "\<And>t. t \<in> D \<Longrightarrow> sleeping k t \<and> unqueued W t"
    "\<And>t. t \<in> Xr \<or> t \<in> Xs \<Longrightarrow> t \<notin> D \<Longrightarrow> runnable k t"
    "W (recvq i) \<noteq> [] \<Longrightarrow> q_count q \<le> card Xr"
    "W (sendq i) \<noteq> [] \<Longrightarrow> capacity q - q_count q \<le> card Xs"
  shows "queue_k_inv i q k Xr Xs D W"
  using assms by (auto simp: queue_k_inv_def)

lemma queue_k_invD:
  assumes "queue_k_inv i q k Xr Xs D W"
  shows "kern_inv k W" "finite Xr" "finite Xs" "D \<subseteq> Xr \<union> Xs"
    "\<And>t. t \<in> set (W (recvq i)) \<or> t \<in> set (W (sendq i)) \<Longrightarrow> delay_ticks (tcb k t) = 0"
    "\<And>t. t \<in> D \<Longrightarrow> sleeping k t \<and> unqueued W t"
    "\<And>t. t \<in> Xr \<or> t \<in> Xs \<Longrightarrow> t \<notin> D \<Longrightarrow> runnable k t"
    "W (recvq i) \<noteq> [] \<Longrightarrow> q_count q \<le> card Xr"
    "W (sendq i) \<noteq> [] \<Longrightarrow> capacity q - q_count q \<le> card Xs"
  using assms unfolding queue_k_inv_def by (auto split: if_splits)

text \<open>A queued task is not one of those taken off.\<close>

lemma queue_k_fresh:
  assumes "queue_k_inv i q k Xr Xs D W" and "t \<in> set (W d)"
  shows "t \<notin> Xr \<union> Xs"
proof
  note I = queue_k_invD [OF assms(1)]
  assume "t \<in> Xr \<union> Xs"
  with I(6,7) [of t] kern_inv_blocked [OF I(1) assms(2)] assms(2) show False
    by (auto simp: unqueued_def dest: runnable_not_blocked)
qed

lemma caller_not_D:
  assumes "queue_k_inv i q k Xr Xs D W" and "caller k A"
  shows "A \<inter> D = {}"
  using assms queue_k_invD(6) [OF assms(1)] sleeping_not_running by (auto simp: caller_def)

lemma set_deq: "set (deq c W d) \<subseteq> set (W d)"
  by (cases "W d") (auto simp: deq_def)

lemma card_caller: "caller k A \<Longrightarrow> finite X \<Longrightarrow> card X - 1 \<le> card (X - A)"
  by (auto simp: caller_def card_Diff_singleton_if)

text \<open>
  The two directions share one step: something becomes available to the waiters of \<open>c\<close>, of
  which the first is taken off, and the caller is no longer one of the tasks \<open>Y\<close> of the
  other direction.
\<close>

lemma queue_k_transfer:
  assumes I: "queue_k_inv i q k Xr Xs D W" and A: "caller k A"
    and pop: "wq_pop c (k\<lparr>primask := True\<rparr>) = (w, k1)"
    and c: "(c = recvq i \<and> A \<inter> Xr = {} \<and> Xr' = Xr \<union> set_option w \<and> Xs' = Xs - A
             \<and> q_count q' = Suc (q_count q) \<and> capacity q' = capacity q)
          \<or> (c = sendq i \<and> A \<inter> Xs = {} \<and> Xs' = Xs \<union> set_option w \<and> Xr' = Xr - A
             \<and> Suc (q_count q') = q_count q \<and> capacity q' = capacity q)"
  shows "queue_k_inv i q' (sched_critical_exit p k1) Xr' Xs' (D \<union> set_option w) (deq c W)"
proof -
  note I' = queue_k_invD [OF I]
  note P = wq_pop_exit [OF I'(1) pop]
  have run: "runnable k1 t = runnable k t" "sleeping k1 t = sleeping k t" for t
    by (simp_all add: runnable_def sleeping_def P(3))
  have w: "set_option w = (if W c = [] then {} else {hd (W c)})"
    using P(2) by (auto split: list.splits)
  have AD: "A \<inter> D = {}" by (rule caller_not_D [OF I A])
  have wf: "hd (W c) \<notin> Xr \<union> Xs" if "W c \<noteq> []"
    using queue_k_fresh [OF I, of "hd (W c)" c] that by simp
  have ws: "sleeping k (hd (W c))" if "W c \<noteq> []"
    using c that I'(5) [of "hd (W c)"] kern_inv_blocked [OF I'(1), of "hd (W c)" c]
    by (auto simp: sleeping_def)
  have wu: "unqueued (deq c W) (hd (W c))" if "W c \<noteq> []"
    using P(2,5) that by (auto split: list.splits)
  have un: "unqueued (deq c W) t" if "unqueued W t" for t
    using that set_deq [of c W] by (auto simp: unqueued_def)
  show ?thesis
  proof (rule queue_k_invI)
    show "kern_inv (sched_critical_exit p k1) (deq c W)" by (rule P(1))
    show "finite Xr'" "finite Xs'" using c I'(2,3) by auto
    show "D \<union> set_option w \<subseteq> Xr' \<union> Xs'" using c I'(4) AD by auto
    show "delay_ticks (tcb (sched_critical_exit p k1) t) = 0"
      if "t \<in> set (deq c W (recvq i)) \<or> t \<in> set (deq c W (sendq i))" for t
      using that set_deq [of c W] I'(5) [of t] by (auto simp: P(3))
    show "sleeping (sched_critical_exit p k1) t \<and> unqueued (deq c W) t" if "t \<in> D \<union> set_option w" for t
      using that I'(6) [of t] ws wu un w by (auto simp: run split: if_splits)
    show "runnable (sched_critical_exit p k1) t" if "t \<in> Xr' \<or> t \<in> Xs'" "t \<notin> D \<union> set_option w" for t
      using that c I'(7) [of t] by (auto simp: run)
    show "q_count q' \<le> card Xr'" if "deq c W (recvq i) \<noteq> []"
    proof -
      have "W (recvq i) \<noteq> []" using that set_deq [of c W "recvq i"] by auto
      with c wf w I'(2) I'(8) card_caller [OF A I'(2)] show ?thesis by auto
    qed
    show "capacity q' - q_count q' \<le> card Xs'" if "deq c W (sendq i) \<noteq> []"
    proof -
      have "W (sendq i) \<noteq> []" using that set_deq [of c W "sendq i"] by auto
      with c wf w I'(3) I'(9) card_caller [OF A I'(3)] show ?thesis by auto
    qed
  qed
qed

text \<open>A round that finds no room, or no item.\<close>

lemma queue_k_block:
  assumes I: "queue_k_inv i q k Xr Xs D W" and r: "running k c"
    and b: "queue_block cell untimed_wait (primask k) (k\<lparr>primask := True\<rparr>) = (res :: 'b outcome, k')"
    and c: "(cell = recvq i \<and> c \<notin> Xs \<and> Xr' = Xr - {c} \<and> Xs' = Xs \<and> q_count q = 0)
          \<or> (cell = sendq i \<and> c \<notin> Xr \<and> Xs' = Xs - {c} \<and> Xr' = Xr \<and> q_count q = capacity q)"
  shows "queue_k_inv i q k' Xr' Xs' D (enq cell c k W)"
proof -
  note I' = queue_k_invD [OF I]
  from queue_block_spec [where ?'a = 'b, OF I'(1) r, of cell] b obtain
    k': "kern_inv k' (enq cell c k W)"
      "\<And>t. t \<noteq> c \<Longrightarrow> runnable k' t = runnable k t \<and> sleeping k' t = sleeping k t"
      "\<And>t. delay_ticks (tcb k' t) = delay_ticks (tcb k t)" by auto
  have cD: "c \<notin> D" using I'(6) sleeping_not_running r by blast
  have dc: "delay_ticks (tcb k c) = 0" using running_unqueued [OF I'(1) r] by simp
  show ?thesis
  proof (rule queue_k_invI)
    show "kern_inv k' (enq cell c k W)" by (rule k'(1))
    show "finite Xr'" "finite Xs'" "D \<subseteq> Xr' \<union> Xs'" using c I'(2-4) cD by auto
    show "delay_ticks (tcb k' t) = 0"
      if "t \<in> set (enq cell c k W (recvq i)) \<or> t \<in> set (enq cell c k W (sendq i))" for t
      using that I'(5) [of t] dc by (auto simp: k'(3) set_enq)
    show "sleeping k' t \<and> unqueued (enq cell c k W) t" if "t \<in> D" for t
      using that I'(6) [of t] k'(2) [of t] cD by (auto simp: unqueued_def set_enq)
    show "runnable k' t" if "t \<in> Xr' \<or> t \<in> Xs'" "t \<notin> D" for t
      using that c I'(7) [of t] k'(2) [of t] by auto
    show "q_count q \<le> card Xr'" if "enq cell c k W (recvq i) \<noteq> []"
      using that c I'(8) by (cases "cell = recvq i") auto
    show "capacity q - q_count q \<le> card Xs'" if "enq cell c k W (sendq i) \<noteq> []"
      using that c I'(9) by (cases "cell = sendq i") auto
  qed
qed

lemma queue_k_wake:
  assumes I: "queue_k_inv i q k Xr Xs D W" and t: "t \<in> D"
  shows "queue_k_inv i q (sched_wake_task (Some t) k) Xr Xs (D - {t}) W"
proof -
  note I' = queue_k_invD [OF I]
  show ?thesis
  proof (rule queue_k_invI)
    show "kern_inv (sched_wake_task (Some t) k) W"
      using sched_wake_task_inv [OF I'(1)] I'(6) [OF t] by blast
    show "delay_ticks (tcb (sched_wake_task (Some t) k) u) = 0"
      if "u \<in> set (W (recvq i)) \<or> u \<in> set (W (sendq i))" for u
      using that I'(5) [of u] by (simp add: delay_wake)
    show "sleeping (sched_wake_task (Some t) k) u \<and> unqueued W u" if "u \<in> D - {t}" for u
      using that I'(6) [of u] by (simp add: sleeping_wake)
    show "runnable (sched_wake_task (Some t) k) u" if "u \<in> Xr \<or> u \<in> Xs" "u \<notin> D - {t}" for u
      using that I'(7) [of u] by (auto simp: runnable_wake)
  qed (use I' in auto)
qed

lemma queue_k_bg:
  assumes I: "queue_k_inv i q k Xr Xs D W" and b: "bg_step (Xr \<union> Xs) k k'"
  shows "\<exists>V. queue_k_inv i q k' Xr Xs D V"
proof -
  note I' = queue_k_invD [OF I]
  from bg_step_inv [OF I'(1) b] obtain V where V: "kern_inv k' V"
    "\<And>c. (\<forall>t\<in>set (W c). delay_ticks (tcb k t) = 0) \<Longrightarrow>
        V c = W c \<and> (\<forall>t\<in>set (V c). delay_ticks (tcb k' t) = 0)"
    "\<And>c. set (V c) \<subseteq> set (W c)" "\<And>t. t \<in> Xr \<union> Xs \<Longrightarrow> runnable k t \<Longrightarrow> runnable k' t"
    "\<And>t. sleeping k t \<Longrightarrow> sleeping k' t" by blast
  have c: "V (recvq i) = W (recvq i)" "V (sendq i) = W (sendq i)"
    "\<forall>t\<in>set (V (recvq i)). delay_ticks (tcb k' t) = 0" "\<forall>t\<in>set (V (sendq i)). delay_ticks (tcb k' t) = 0"
    using V(2) [of "recvq i"] V(2) [of "sendq i"] I'(5) by blast+
  have "queue_k_inv i q k' Xr Xs D V"
  proof (rule queue_k_invI)
    show "delay_ticks (tcb k' t) = 0" if "t \<in> set (V (recvq i)) \<or> t \<in> set (V (sendq i))" for t
      using that c(3,4) by blast
    show "sleeping k' t \<and> unqueued V t" if "t \<in> D" for t
      using I'(6) [OF that] V(3,5) by (auto simp: unqueued_def)
    show "runnable k' t" if "t \<in> Xr \<or> t \<in> Xs" "t \<notin> D" for t
      using I'(7) [OF that] V(4) that(1) by blast
  qed (use I' c V(1) in auto)
  then show ?thesis by blast
qed

lemma queue_step_inv:
  assumes "queue_step i y z" and "queue_sys_inv i y"
  shows "queue_sys_inv i z"
  using assms(1)
proof cases
  case (qs_push k A Xr item q w q' k' S R Xs D)
  from assms(2) qs_push obtain W where wf: "queue_wf q" "S = R @ qitems q"
    and I: "queue_k_inv i q k Xr Xs D W" by (auto simp: queue_sys_inv_def)
  obtain k1 where p: "wq_pop (recvq i) (k\<lparr>primask := True\<rparr>) = (w, k1)"
    "q' = queue_copy_in item q" "k' = sched_critical_exit (primask k) k1"
    using qs_push(7) by (auto simp: queue_push_def sched_critical_enter_def Let_def split: prod.splits)
  have "q_count q' = Suc (q_count q)" "capacity q' = capacity q"
    using wf(1) qs_push(6) by (auto simp: p(2) queue_copy_in_def Let_def queue_wf_def)
  then have "queue_k_inv i q' k' (Xr \<union> set_option w) (Xs - A) (D \<union> set_option w) (deq (recvq i) W)"
    unfolding p(3) using qs_push(4) by (intro queue_k_transfer [OF I qs_push(3) p(1)]) simp
  with qs_push wf p(2) show ?thesis
    by (auto simp: queue_sys_inv_def queue_copy_in_wf qitems_copy_in)
next
  case (qs_pull k A Xs q item w q' k' S R Xr D)
  from assms(2) qs_pull obtain W where wf: "queue_wf q" "S = R @ qitems q"
    and I: "queue_k_inv i q k Xr Xs D W" by (auto simp: queue_sys_inv_def)
  obtain k1 where p: "wq_pop (sendq i) (k\<lparr>primask := True\<rparr>) = (w, k1)"
    "queue_copy_out q = (item, q')" "k' = sched_critical_exit (primask k) k1"
    using qs_pull(6) by (auto simp: queue_pull_def sched_critical_enter_def Let_def split: prod.splits)
  note o = queue_copy_out_spec [OF wf(1) qs_pull(5) p(2)]
  have "queue_k_inv i q' k' (Xr - A) (Xs \<union> set_option w) (D \<union> set_option w) (deq (sendq i) W)"
    unfolding p(3) using qs_pull(4,5) o(3,4) by (intro queue_k_transfer [OF I qs_pull(3) p(1)]) simp
  with qs_pull wf o(1,2) show ?thesis by (auto simp: queue_sys_inv_def)
next
  case (qs_wake t D q k S R Xr Xs)
  with assms(2) queue_k_wake show ?thesis by (fastforce simp: queue_sys_inv_def)
next
  case (qs_send_full k c Xr q item r q' k' S R Xs D)
  from assms(2) qs_send_full obtain W where wf: "queue_wf q" "S = R @ qitems q"
    and I: "queue_k_inv i q k Xr Xs D W" by (auto simp: queue_sys_inv_def)
  from qs_send_full obtain res where
    b: "queue_block (sendq i) untimed_wait (primask k) (k\<lparr>primask := True\<rparr>) = (res :: unit outcome, k')"
    "q' = q" by (auto simp: queue_send_def sched_critical_enter_def split: prod.splits)
  have "queue_k_inv i q k' Xr (Xs - {c}) D (enq (sendq i) c k W)"
    by (rule queue_k_block [OF I qs_send_full(3) b(1)])
      (use qs_send_full wf in \<open>auto simp: queue_wf_def\<close>)
  with qs_send_full wf b(2) show ?thesis by (auto simp: queue_sys_inv_def)
next
  case (qs_receive_empty k c Xs q r q' k' S R Xr D)
  from assms(2) qs_receive_empty obtain W where wf: "queue_wf q" "S = R @ qitems q"
    and I: "queue_k_inv i q k Xr Xs D W" by (auto simp: queue_sys_inv_def)
  from qs_receive_empty obtain res where
    b: "queue_block (recvq i) untimed_wait (primask k) (k\<lparr>primask := True\<rparr>) = (res :: u8 list outcome, k')"
    "q' = q" by (auto simp: queue_receive_def sched_critical_enter_def split: prod.splits)
  have "queue_k_inv i q k' (Xr - {c}) Xs D (enq (recvq i) c k W)"
    by (rule queue_k_block [OF I qs_receive_empty(3) b(1)]) (use qs_receive_empty in auto)
  with qs_receive_empty wf b(2) show ?thesis by (auto simp: queue_sys_inv_def)
next
  case (qs_bg Xr Xs k k' q S R D)
  with assms(2) queue_k_bg show ?thesis by (fastforce simp: queue_sys_inv_def)
qed

lemma queue_reach_inv: "queue_reach i y z \<Longrightarrow> queue_sys_inv i y \<Longrightarrow> queue_sys_inv i z"
  by (induction rule: queue_reach.induct) (blast intro: queue_step_inv)+

lemma queue_init_wf:
  assumes "cap < 2 ^ 16" and "cap * isz \<le> length buf"
  shows "queue_wf (fst (queue_init i buf isz cap k))" and "qitems (fst (queue_init i buf isz cap k)) = []"
  using assms by (auto simp: queue_init_def queue_wf_def qitems_def)

text \<open>A send with room, and a receive with an item, with their wake-up.\<close>

lemma queue_push_wake:
  assumes inv: "kern_inv k W" and wf: "queue_wf q" and n: "q_count q < capacity q"
    and item: "length item = item_size q"
    and p: "queue_push i item (primask k) q (snd (sched_critical_enter k)) = (w, q', k')"
  shows "queue_wf q'" "qitems q' = qitems q @ [item]"
    "kern_inv (sched_wake_task w k') (deq (recvq i) W)" "primask (sched_wake_task w k') = primask k"
    "w = (case W (recvq i) of [] \<Rightarrow> None | t # _ \<Rightarrow> Some t)"
proof -
  obtain k1 where k1: "wq_pop (recvq i) (k\<lparr>primask := True\<rparr>) = (w, k1)"
    "q' = queue_copy_in item q" "k' = sched_critical_exit (primask k) k1"
    using p by (auto simp: queue_push_def sched_critical_enter_def Let_def split: prod.splits)
  note P = wq_pop_exit [OF inv k1(1)]
  show "queue_wf q'" "qitems q' = qitems q @ [item]"
    using queue_copy_in_wf [OF wf n item] qitems_copy_in [OF wf n item] k1(2) by simp_all
  show "kern_inv (sched_wake_task w k') (deq (recvq i) W)"
    using P(1,5) k1(3) by (cases w) (auto intro: sched_wake_task_inv)
  show "primask (sched_wake_task w k') = primask k"
    using k1(3) by (cases w) (simp_all add: sched_wake_task_eq)
  show "w = (case W (recvq i) of [] \<Rightarrow> None | t # _ \<Rightarrow> Some t)" by (rule P(2))
qed

lemma kern_primask_same [simp]: "k\<lparr>primask := True, primask := primask k\<rparr> = k"
  by simp

subsection \<open>Properties\<close>

text \<open>
  C8: The byte ring is a FIFO of items. On a well-formed queue with room, copying an item in
  appends it to the list of stored items; on a nonempty one, copying out returns the first
  item and leaves the rest; both keep the queue well formed (indices in range, the 16-bit
  fields never wrap, no access outside the buffer). So under any sequence of guarded copies
  what was stored and went in is what came out and is stored, never more than the capacity.
\<close>

theorem queue_ring_is_fifo:
  assumes "queue_wf q"
  shows "(q_count q < capacity q \<and> length item = item_size q \<longrightarrow>
            queue_wf (queue_copy_in item q) \<and> qitems (queue_copy_in item q) = qitems q @ [item])
     \<and> (0 < q_count q \<longrightarrow>
            (case queue_copy_out q of (x, q') \<Rightarrow> queue_wf q' \<and> qitems q = x # qitems q'))
     \<and> ((\<forall>x. FPut x \<in> set es \<longrightarrow> length x = item_size q) \<longrightarrow>
            (case fold (fifo_step ring_put ring_get) es (q, [], []) of (q', ins, outs) \<Rightarrow>
               queue_wf q' \<and> qitems q @ ins = outs @ qitems q' \<and> length (qitems q') \<le> capacity q))"
proof -
  have "case fold (fifo_step ring_put ring_get) es (q, [], []) of (q', ins, outs) \<Rightarrow>
      queue_wf q' \<and> qitems q @ ins = outs @ qitems q' \<and> length (qitems q') \<le> capacity q"
    if "\<forall>x. FPut x \<in> set es \<longrightarrow> length x = item_size q"
    using byteq.run_fifo [OF assms that] by (auto split: prod.split)
  then show ?thesis
    using queue_copy_in_wf [OF assms] qitems_copy_in [OF assms] queue_copy_out_spec(1,2) [OF assms]
    by (auto split: prod.splits)
qed

text \<open>A queue of three two-byte items whose ring has wrapped: one item, at slot 2.\<close>

definition demo_queue :: queue_t where
  "demo_queue = \<lparr>q_buffer = [1, 2, 3, 4, 5, 6], item_size = 2, capacity = 3, q_count = 1, q_head = 2,
     q_tail = 0\<rparr>"

lemma demo_queue_wf: "queue_wf demo_queue"
  by (simp add: queue_wf_def demo_queue_def)

theorem queue_ring_is_fifo_witness:
  "qitems (queue_copy_in [8, 9] demo_queue) = [[5, 6], [8, 9]] \<and> queue_wf (queue_copy_in [8, 9] demo_queue)
   \<and> (\<exists>q'. fold (fifo_step ring_put ring_get) [FPut [1, 1], FGet, FPut [2, 2], FPut [3, 3], FPut [4, 4], FGet]
         (demo_queue, [], []) = (q', [[1, 1], [2, 2], [3, 3]], [[5, 6], [1, 1]]) \<and> qitems q' = [[2, 2], [3, 3]])"
proof -
  let ?es = "[FPut [1, 1], FGet, FPut [2, 2], FPut [3, 3], FPut [4, 4], FGet] :: u8 list fifo_call list"
  have i: "qitems demo_queue = [[5, 6]]" by (simp add: qitems_def slot_def demo_queue_def)
  obtain q' ins outs where r: "fold (fifo_step ring_put ring_get) ?es (demo_queue, [], []) = (q', ins, outs)"
    by (metis prod_cases3)
  then have h: "ins = [[1, 1], [2, 2], [3, 3]]" "outs = [[5, 6], [1, 1]]"
    by (simp_all add: ring_put_def ring_get_def queue_copy_in_def queue_copy_out_def demo_queue_def Let_def)
  have "qitems demo_queue @ ins = outs @ qitems q'"
    using queue_ring_is_fifo [OF demo_queue_wf, of "[8, 9]" ?es] r by (simp add: demo_queue_def)
  then have "qitems q' = [[2, 2], [3, 3]]" by (simp add: i h)
  then show ?thesis
    using queue_ring_is_fifo [OF demo_queue_wf, of "[8, 9]" ?es] i r h by (simp add: demo_queue_def)
qed



text \<open>
  \<open>queue_try_send\<close> (and \<open>queue_send_from_isr\<close>, which maps its result to 0 or -1) never
  blocks: on a full queue it changes nothing and returns 0; otherwise it appends the item,
  makes the first waiting receiver ready, keeps the kernel invariant and the interrupt mask,
  and returns 1.
\<close>

theorem queue_try_send_correct:
  assumes "kern_inv k W" and "queue_wf q" and "length item = item_size q"
  shows "\<exists>q' k'. queue_try_send i item q k = (if q_count q < capacity q then 1 else 0, q', k')
     \<and> queue_send_from_isr i item q k = (if q_count q < capacity q then 0 else -1, q', k')
     \<and> queue_wf q' \<and> primask k' = primask k
     \<and> (if q_count q < capacity q
        then qitems q' = qitems q @ [item] \<and> kern_inv k' (deq (recvq i) W)
          \<and> (\<forall>t xs. W (recvq i) = t # xs \<longrightarrow> runnable k' t \<and> highest_next k')
        else q' = q \<and> k' = k)"
proof (cases "q_count q < capacity q")
  case True
  obtain w q' k1 where p: "queue_push i item (primask k) q (snd (sched_critical_enter k)) = (w, q', k1)"
    by (metis prod_cases3)
  note P = queue_push_wake [OF assms(1,2) True assms(3) p]
  have "queue_try_send i item q k = (1, q', sched_wake_task w k1)"
    using True p by (simp add: queue_try_send_def sched_critical_enter_def)
  moreover have "\<forall>t xs. W (recvq i) = t # xs \<longrightarrow> runnable (sched_wake_task w k1) t
      \<and> highest_next (sched_wake_task w k1)"
    using P(5) by (auto simp: runnable_wake sched_wake_task_highest)
  ultimately show ?thesis using True P(1-4) by (simp add: queue_send_from_isr_def)
next
  case False
  then have "queue_try_send i item q k = (0, q, k)"
    by (simp add: queue_try_send_def kdefs)
  with False assms(2) show ?thesis by (simp add: queue_send_from_isr_def)
qed

theorem queue_try_send_correct_witness:
  "\<exists>q' k'. queue_try_send 0 [8, 9] demo_queue demo_kern = (1, q', k')
     \<and> qitems q' = qitems demo_queue @ [[8, 9]]"
  using queue_try_send_correct [OF demo_kern_inv demo_queue_wf, of "[8, 9]" 0]
  by (auto simp: demo_queue_def)

subsection \<open>Timeouts\<close>

lemma queue_block_timed_spec:
  assumes inv: "kern_inv k W" and r: "running k c"
  shows "\<exists>k'. queue_block cell (timed_wait cell d) (primask k) (k\<lparr>primask := True\<rparr>) = (Block, k')
     \<and> kern_inv k' (enq cell c k W) \<and> delay_ticks (tcb k' c) = d
     \<and> primask k' = primask k \<and> s_task_count k' = s_task_count k"
proof -
  let ?k0 = "k\<lparr>primask := True\<rparr>"
  from running_unqueued [OF inv r] inv have *: "kern_inv ?k0 W" "unqueued W c" by auto
  from wq.block_timed_inv [OF *, of cell d] obtain k' where
    k': "block_on (wq_insert cell) (timed_wait cell d) c ?k0 = Some k'"
      "kern_inv k' (enq cell c ?k0 W)" by blast
  have e: "enq cell c ?k0 W = enq cell c k W" by (simp add: enq_def)
  note fr = block_on_frame [OF _ k'(1), OF wq_insert_erase_links]
  have "queue_block cell (timed_wait cell d) (primask k) ?k0 = (Block, sched_critical_exit (primask k) k')"
    using k'(1) r by (simp add: queue_block_def running_def)
  moreover have "delay_ticks (tcb k' c) = d" using fr(2) [where u = c] by (simp add: timed_wait_def)
  moreover have "s_task_count k' = s_task_count k" using fr(6) by simp
  ultimately show ?thesis using k' e
    by (intro exI [of _ "sched_critical_exit (primask k) k'"]) simp
qed

text \<open>A queued task whose timed wait runs out in a tick: off the list, marked, ready.\<close>

lemma timed_wait_expires:
  assumes inv: "kern_inv k W" and t: "t = Task j" "j < s_task_count k" "t \<in> set (W c)"
    and d: "delay_ticks (tcb k t) = d" "d \<noteq> 0" and tick: "sched_tick_n d k = Some k'"
  shows "runnable k' t" "timed_out (tcb k' t) = 1" "kern_inv k' (drop_expired d k (s_task_count k) W)"
    "t \<notin> set (drop_expired d k (s_task_count k) W e)" "fst (timed_resume t k') = Ret (-1)"
proof -
  have ex: "expired d k t" using kern_inv_blocked [OF inv t(3)] d by (simp add: expired_def word_pos_iff)
  show "runnable k' t" using tick_expired_runnable [OF inv tick t(2)] ex t(1) by simp
  have "wait_list_head (tcb k t) = Some c" using inv t(3) d by (auto simp: kern_inv_def wait_inv_def)
  then show to: "timed_out (tcb k' t) = 1"
    using sched_tick_n_delays(2) [OF inv tick t(2)] ex t(1) by (simp add: tick_task_def expired_def)
  then show "fst (timed_resume t k') = Ret (-1)" by (simp add: timed_resume_def)
  show "kern_inv k' (drop_expired d k (s_task_count k) W)" by (rule tick_bg(1) [OF inv tick])
  show "t \<notin> set (drop_expired d k (s_task_count k) W e)"
    using ex t(1,2) by (auto simp: drop_expired_def)
qed



text \<open>
  C27: The gap between the end of a sender's critical section and its wake-up can lose the
  wake-up of a timed receiver. If the tick that completes the timeout of the first queued
  receiver \<open>t\<close> falls into this gap, \<open>t\<close> returns -1 from its call after all, while the next
  receiver \<open>u\<close> stays blocked on the list although the queue holds the item just sent.
\<close>

theorem queue_wake_gap_loses_item:
  assumes inv: "kern_inv k W" and wf: "queue_wf q" "q_count q < capacity q" "length item = item_size q"
    and W: "W (recvq i) = t # u # xs" and t: "t = Task j" "j < s_task_count k"
    and d: "delay_ticks (tcb k t) = d" "d \<noteq> 0" and u: "delay_ticks (tcb k u) = 0"
    and push: "queue_push i item (primask k) q (snd (sched_critical_enter k)) = (w, q', k1)"
    and tick: "sched_tick_n d k1 = Some k2"
  shows "w = Some t \<and> fst (timed_resume t (sched_wake_task w k2)) = Ret (-1)
     \<and> q_count q' > 0 \<and> sleeping (sched_wake_task w k2) u
     \<and> wait_head (sched_wake_task w k2) (recvq i) = Some u"
proof -
  from push obtain k0 where k0: "wq_pop (recvq i) (k\<lparr>primask := True\<rparr>) = (w, k0)"
    "q' = queue_copy_in item q" "k1 = sched_critical_exit (primask k) k0"
    by (auto simp: queue_push_def sched_critical_enter_def Let_def split: prod.splits)
  note P = wq_pop_exit [OF inv k0(1)]
  have w: "w = Some t" using P(2) W by simp
  have cnt: "q_count q' > 0"
    using wf by (simp add: k0(2) queue_copy_in_def Let_def queue_wf_def)
  have inv1: "kern_inv k1 (deq (recvq i) W)" using P(1) k0(3) by simp
  have tcb1: "tcb k1 = tcb k" using P(3) k0(3) by simp
  have n1: "s_task_count k1 = s_task_count k"
    using k0(1,3) by (auto simp: wq_pop_def split: option.splits)
  have "t \<in> set (W (recvq i))" using W by simp
  then have x: "wait_list_head (tcb k t) = Some (recvq i)" "state (tcb k t) = TASK_BLOCKED"
    using inv d by (auto simp: kern_inv_def wait_inv_def)
  have j1: "j < s_task_count k1" using t n1 by simp
  have "timed_out (tcb k2 t) = 1"
    using sched_tick_n_delays(2) [OF inv1 tick j1] x d t
    by (simp add: tcb1 tick_task_def word_pos_iff)
  then have r: "fst (timed_resume t (sched_wake_task w k2)) = Ret (-1)" by (simp add: timed_resume_def)
  have ut: "u \<noteq> t" using wlist_distinct [OF kern_inv_wlist [OF inv, of "recvq i"]] W by auto
  have "u \<in> set (W (recvq i))" using W by simp
  then have "sleeping k u" using kern_inv_blocked [OF inv] u by (simp add: sleeping_def)
  then have "sleeping k1 u" by (simp add: sleeping_def tcb1)
  then have s2: "sleeping k2 u" using tick_bg(6) [OF inv1 tick] by blast
  let ?V = "drop_expired d k1 (s_task_count k1) (deq (recvq i) W)"
  note inv2 = tick_bg(1) [OF inv1 tick]
  have "\<exists>ys. ?V (recvq i) = u # ys"
    using W u by (simp add: drop_expired_def expired_def tcb1)
  moreover have "kern_inv (sched_wake_task w k2) ?V"
  proof -
    have "unqueued ?V t"
      using P(5) [OF w] by (auto simp: unqueued_def drop_expired_def)
    then show ?thesis unfolding w by (rule sched_wake_task_inv [OF inv2])
  qed
  ultimately have "wait_head (sched_wake_task w k2) (recvq i) = Some u"
    using kern_inv_wlist [of "sched_wake_task w k2" ?V "recvq i"] by (auto simp: wlist_def)
  with w r cnt s2 ut show ?thesis by (simp add: sleeping_wake)
qed

text \<open>Tasks 0 (for 5 ms) and 1 (for ever) wait for an item of queue 0; task 2 runs.\<close>

definition demo_receivers :: kern where
  "demo_receivers = demo_kern\<lparr>
     tcb := (tcb demo_kern)
       (Task 0 := (demo_task TASK_BLOCKED 1)\<lparr>wait_next := Some (Task 1), delay_ticks := 5,
                      wait_list_head := Some (recvq 0)\<rparr>,
        Task 1 := demo_task TASK_BLOCKED 1, Task 2 := demo_task TASK_RUNNING 2),
     g_current_task := Some (Task 2), g_next_task := Some (Task 2),
     wait_head := (\<lambda>_. None)(recvq 0 := Some (Task 0))\<rparr>"

lemma demo_receivers_inv:
  "kern_inv demo_receivers ((\<lambda>_. [])(recvq 0 := [Task 0, Task 1]))"
  by (auto simp: kern_inv_def wait_inv_def queues_wf_def running_inv_def wlist_def demo_receivers_def
      demo_kern_def boot_kern_def demo_task_def zero_task_def)

theorem queue_wake_gap_loses_item_witness:
  "\<exists>w q' k1 k2. queue_push 0 [8, 9] False demo_queue (snd (sched_critical_enter demo_receivers)) = (w, q', k1)
     \<and> sched_tick_n 5 k1 = Some k2 \<and> fst (timed_resume (Task 0) (sched_wake_task w k2)) = Ret (-1)
     \<and> wait_head (sched_wake_task w k2) (recvq 0) = Some (Task 1)"
proof -
  have k: "primask demo_receivers = False" "0 < s_task_count demo_receivers"
    "delay_ticks (tcb demo_receivers (Task 0)) = 5" "delay_ticks (tcb demo_receivers (Task 1)) = 0"
    by (simp_all add: demo_receivers_def demo_kern_def boot_kern_def demo_task_def zero_task_def)
  obtain w q' k1 where p:
    "queue_push 0 [8, 9] False demo_queue (snd (sched_critical_enter demo_receivers)) = (w, q', k1)"
    by (metis prod_cases3)
  have q: "q_count demo_queue < capacity demo_queue" "length [8, 9 :: u8] = item_size demo_queue"
    by (simp_all add: demo_queue_def)
  have "\<exists>V. kern_inv k1 V"
    using p wq_pop_exit(1) [OF demo_receivers_inv] k(1)
    by (fastforce simp: queue_push_def sched_critical_enter_def Let_def split: prod.splits)
  then obtain k2 where k2: "sched_tick_n 5 k1 = Some k2" using sched_tick_n_ex by blast
  have "w = Some (Task 0) \<and> fst (timed_resume (Task 0) (sched_wake_task w k2)) = Ret (-1)
     \<and> q_count q' > 0 \<and> sleeping (sched_wake_task w k2) (Task 1)
     \<and> wait_head (sched_wake_task w k2) (recvq 0) = Some (Task 1)"
    by (rule queue_wake_gap_loses_item [OF demo_receivers_inv demo_queue_wf q _ refl k(2,3) _ k(4) _ k2])
      (use p k(1) in auto)
  with p k2 show ?thesis by blast
qed

end
