(* ===== verification/EventFlags.thy ===== *)
theory EventFlags
  imports SchedWakeup "HOL-Library.Sublist"
begin

text \<open>
  \<open>kernel/core/event.c\<close>: event groups. The \<open>waiters\<close> member of group \<open>i\<close> is the cell
  \<open>EventWaiters i\<close>; the state of the component is the group's bits and the table \<open>s_pending\<close>,
  which records what every waiting task waits for. \<open>event_wake_satisfied\<close> walks the list with
  a pointer to a link (\<open>task_t **cur\<close>): \<open>None\<close> stands for \<open>&e->waiters\<close>, \<open>Some u\<close> for
  \<open>&u->wait_next\<close>.
\<close>

datatype event_wait_mode_t = EVENT_WAIT_ANY | EVENT_WAIT_ALL

definition EVENT_PENDING_MAX :: nat where "EVENT_PENDING_MAX = 12"

record event_pending_t =
  pend_task :: "tid option"
  pend_group :: nat
  pend_mask :: u32
  pend_mode :: event_wait_mode_t
  pend_auto_clear :: int
  observed_bits :: u32

definition event_init :: "nat \<Rightarrow> kern \<Rightarrow> u32 \<times> kern" where
  "event_init i k = (0, set_head (EventWaiters i) None k)"

definition event_wq_insert :: "nat \<Rightarrow> tid \<Rightarrow> kern \<Rightarrow> kern option" where
  "event_wq_insert i t k = wq_insert (EventWaiters i) t k"

definition event_condition_met :: "u32 \<Rightarrow> u32 \<Rightarrow> event_wait_mode_t \<Rightarrow> bool" where
  "event_condition_met bits wmask mode =
     (if mode = EVENT_WAIT_ALL then bits AND wmask = wmask else bits AND wmask \<noteq> 0)"

definition event_pending_find :: "tid \<Rightarrow> event_pending_t list \<Rightarrow> nat option" where
  "event_pending_find t ps = find (\<lambda>j. pend_task (ps ! j) = Some t) [0..<EVENT_PENDING_MAX]"

definition event_pending_alloc :: "tid \<Rightarrow> event_pending_t list \<Rightarrow> (nat \<times> event_pending_t list) option" where
  "event_pending_alloc t ps =
     (case find (\<lambda>j. pend_task (ps ! j) = None) [0..<EVENT_PENDING_MAX] of
        None \<Rightarrow> None
      | Some j \<Rightarrow> Some (j, ps[j := (ps ! j)\<lparr>pend_task := Some t\<rparr>]))"

definition event_pending_free :: "nat \<Rightarrow> event_pending_t list \<Rightarrow> event_pending_t list" where
  "event_pending_free j ps = ps[j := (ps ! j)\<lparr>pend_task := None\<rparr>]"

subsection \<open>Setting bits\<close>

text \<open>Reading and writing \<open>*cur\<close>.\<close>

definition read_link :: "nat \<Rightarrow> tid option \<Rightarrow> kern \<Rightarrow> tid option" where
  "read_link i cur k = (case cur of None \<Rightarrow> wait_head k (EventWaiters i) | Some u \<Rightarrow> wait_next (tcb k u))"

definition write_link :: "nat \<Rightarrow> tid option \<Rightarrow> tid option \<Rightarrow> kern \<Rightarrow> kern" where
  "write_link i cur v k = (case cur of None \<Rightarrow> set_head (EventWaiters i) v k | Some u \<Rightarrow> set_next u v k)"

text \<open>The body of the loop for a satisfied task \<open>t\<close> with pending record \<open>j\<close>.\<close>

definition event_wake_one ::
    "nat \<Rightarrow> tid option \<Rightarrow> tid \<Rightarrow> nat \<Rightarrow> u32 \<times> event_pending_t list \<times> kern \<Rightarrow> u32 \<times> event_pending_t list \<times> kern"
  where
  "event_wake_one i cur t j s =
     (case s of (bits, ps, k) \<Rightarrow>
       (let ps1 = ps[j := (ps ! j)\<lparr>observed_bits := bits\<rparr>];
            bits1 = (if pend_auto_clear (ps ! j) \<noteq> 0 then bits AND NOT (pend_mask (ps ! j)) else bits);
            k1 = write_link i cur (wait_next (tcb k t)) k;
            k2 = upd_tcb t (\<lambda>x. x\<lparr>wait_next := None, wait_list_head := None\<rparr>) k1
        in (bits1, ps1, sched_wake_task (Some t) k2)))"

definition event_satisfied :: "u32 \<Rightarrow> event_pending_t list \<Rightarrow> tid \<Rightarrow> nat option" where
  "event_satisfied bits ps t =
     (case event_pending_find t ps of
        None \<Rightarrow> None
      | Some j \<Rightarrow> if event_condition_met bits (pend_mask (ps ! j)) (pend_mode (ps ! j)) then Some j else None)"

partial_function (option) event_wake_satisfied ::
    "nat \<Rightarrow> tid option \<Rightarrow> u32 \<times> event_pending_t list \<times> kern \<Rightarrow> (u32 \<times> event_pending_t list \<times> kern) option"
  where
  "event_wake_satisfied i cur s =
     (case read_link i cur (snd (snd s)) of
        None \<Rightarrow> Some s
      | Some t \<Rightarrow>
          (case event_satisfied (fst s) (fst (snd s)) t of
             Some j \<Rightarrow> event_wake_satisfied i cur (event_wake_one i cur t j s)
           | None \<Rightarrow> event_wake_satisfied i (Some t) s))"

declare event_wake_satisfied.simps [code]

definition event_set ::
    "nat \<Rightarrow> u32 \<Rightarrow> u32 \<Rightarrow> event_pending_t list \<Rightarrow> kern \<Rightarrow> (u32 \<times> event_pending_t list \<times> kern) option" where
  "event_set i bits_to_set bits ps k =
     (let (p, k0) = sched_critical_enter k in
      case event_wake_satisfied i None (bits OR bits_to_set, ps, k0) of
        None \<Rightarrow> None
      | Some (bits1, ps1, k1) \<Rightarrow> Some (bits1, ps1, sched_critical_exit p k1))"

definition event_clear :: "u32 \<Rightarrow> u32 \<Rightarrow> kern \<Rightarrow> u32 \<times> kern" where
  "event_clear bits_to_clear bits k =
     (let (p, k0) = sched_critical_enter k in (bits AND NOT bits_to_clear, sched_critical_exit p k0))"

definition event_get :: "u32 \<Rightarrow> u32" where "event_get bits = bits"

subsection \<open>Waiting\<close>

text \<open>
  One round. With \<open>Block\<close> comes the index of the pending record the call keeps a pointer to;
  \<open>event_wait_resume\<close> is the rest of the call once the task runs again. \<open>Again\<close> is the
  \<open>continue\<close> after a failed allocation.
\<close>

definition event_pend_fill ::
    "nat \<Rightarrow> nat \<Rightarrow> u32 \<Rightarrow> event_wait_mode_t \<Rightarrow> int \<Rightarrow> event_pending_t list \<Rightarrow> event_pending_t list" where
  "event_pend_fill i j wmask mode auto_clear ps =
     ps[j := (ps ! j)\<lparr>pend_group := i, pend_mask := wmask, pend_mode := mode, pend_auto_clear := auto_clear\<rparr>]"

definition event_wait ::
    "nat \<Rightarrow> u32 \<Rightarrow> event_wait_mode_t \<Rightarrow> int \<Rightarrow> u32 \<Rightarrow> event_pending_t list \<Rightarrow> kern \<Rightarrow>
     u32 outcome \<times> nat option \<times> u32 \<times> event_pending_t list \<times> kern" where
  "event_wait i wmask mode auto_clear bits ps k =
     (let (p, k0) = sched_critical_enter k in
      if event_condition_met bits wmask mode then
        (Ret bits, None, if auto_clear \<noteq> 0 then bits AND NOT wmask else bits, ps, sched_critical_exit p k0)
      else case g_current_task k0 of
             None \<Rightarrow> (Trap, None, bits, ps, k0)
           | Some c \<Rightarrow>
               (case event_pending_alloc c ps of
                  None \<Rightarrow> (Again, None, bits, ps, sched_critical_exit p k0)
                | Some (j, ps1) \<Rightarrow>
                    (let ps2 = event_pend_fill i j wmask mode auto_clear ps1 in
                     case block_on (event_wq_insert i)
                            (\<lambda>x. x\<lparr>state := TASK_BLOCKED, wait_list_head := None\<rparr>) c k0 of
                       None \<Rightarrow> (Hang, Some j, bits, ps2, k0)
                     | Some k1 \<Rightarrow> (Block, Some j, bits, ps2, sched_critical_exit p k1))))"

definition event_wait_resume :: "nat \<Rightarrow> event_pending_t list \<Rightarrow> u32 \<times> event_pending_t list" where
  "event_wait_resume j ps = (observed_bits (ps ! j), event_pending_free j ps)"

definition event_wait_timeout_enter :: "u32 \<Rightarrow> kern \<Rightarrow> u32" where
  "event_wait_timeout_enter timeout_ms k = systick_get_ms k + timeout_ms"

definition event_wait_timeout ::
    "nat \<Rightarrow> u32 \<Rightarrow> event_wait_mode_t \<Rightarrow> int \<Rightarrow> u32 \<Rightarrow> u32 \<Rightarrow> event_pending_t list \<Rightarrow> kern \<Rightarrow>
     u32 outcome \<times> nat option \<times> u32 \<times> event_pending_t list \<times> kern" where
  "event_wait_timeout i wmask mode auto_clear deadline bits ps k =
     (let (p, k0) = sched_critical_enter k in
      if event_condition_met bits wmask mode then
        (Ret bits, None, if auto_clear \<noteq> 0 then bits AND NOT wmask else bits, ps, sched_critical_exit p k0)
      else (let now = systick_get_ms k0 in
        if now \<ge> deadline then (Ret 0xFFFFFFFF, None, bits, ps, sched_critical_exit p k0)
        else case g_current_task k0 of
             None \<Rightarrow> (Trap, None, bits, ps, k0)
           | Some c \<Rightarrow>
               (case event_pending_alloc c ps of
                  None \<Rightarrow> (Ret 0xFFFFFFFF, None, bits, ps, sched_critical_exit p k0)
                | Some (j, ps1) \<Rightarrow>
                    (let ps2 = event_pend_fill i j wmask mode auto_clear ps1 in
                     case block_on (event_wq_insert i) (timed_wait (EventWaiters i) (deadline - now)) c k0 of
                       None \<Rightarrow> (Hang, Some j, bits, ps2, k0)
                     | Some k1 \<Rightarrow> (Block, Some j, bits, ps2, sched_critical_exit p k1)))))"

definition event_wait_timeout_resume ::
    "nat \<Rightarrow> tid \<Rightarrow> event_pending_t list \<Rightarrow> kern \<Rightarrow> u32 \<times> event_pending_t list \<times> kern" where
  "event_wait_timeout_resume j c ps k =
     (if timed_out (tcb k c) \<noteq> 0
      then (0xFFFFFFFF, event_pending_free j ps,
            upd_tcb c (\<lambda>x. x\<lparr>timed_out := 0, wait_list_head := None\<rparr>) k)
      else (observed_bits (ps ! j), event_pending_free j ps, k))"

subsection \<open>The wait list of a group\<close>

lemma event_wq_insert_eq: "event_wq_insert i = wq_insert (EventWaiters i)"
  by (simp add: fun_eq_iff event_wq_insert_def)

interpretation evq: wait_insert "EventWaiters i" "event_wq_insert i" for i
  unfolding event_wq_insert_eq using wait_queue_wq [of "EventWaiters i"] by (simp add: wait_queue_def)

subsection \<open>The scan on lists\<close>

text \<open>
  What \<open>event_wake_satisfied\<close> computes on the list of waiters: the bits and records after
  it, the tasks kept on the list and the tasks woken, in order.
\<close>

definition observe :: "u32 \<Rightarrow> nat \<Rightarrow> event_pending_t list \<Rightarrow> event_pending_t list" where
  "observe bits j ps = ps[j := (ps ! j)\<lparr>observed_bits := bits\<rparr>]"

definition auto_cleared :: "u32 \<Rightarrow> event_pending_t \<Rightarrow> u32" where
  "auto_cleared bits r = (if pend_auto_clear r \<noteq> 0 then bits AND NOT (pend_mask r) else bits)"

fun event_scan ::
    "u32 \<Rightarrow> event_pending_t list \<Rightarrow> tid list \<Rightarrow> u32 \<times> event_pending_t list \<times> tid list \<times> tid list" where
  "event_scan bits ps [] = (bits, ps, [], [])"
| "event_scan bits ps (t # ts) =
     (case event_satisfied bits ps t of
        Some j \<Rightarrow>
          (case event_scan (auto_cleared bits (ps ! j)) (observe bits j ps) ts of
             (b, p, kept, woken) \<Rightarrow> (b, p, kept, t # woken))
      | None \<Rightarrow>
          (case event_scan bits ps ts of (b, p, kept, woken) \<Rightarrow> (b, p, t # kept, woken)))"

lemma event_wake_one_eq:
  "event_wake_one i cur t j (bits, ps, k) =
     (auto_cleared bits (ps ! j), observe bits j ps,
      sched_wake_task (Some t) (upd_tcb t (\<lambda>x. x\<lparr>wait_next := None, wait_list_head := None\<rparr>)
        (write_link i cur (wait_next (tcb k t)) k)))"
  by (simp add: event_wake_one_def Let_def auto_cleared_def observe_def)

text \<open>The link the walk is at, when it has kept \<open>ys\<close> so far.\<close>

definition link_after :: "tid list \<Rightarrow> tid option" where
  "link_after ys = (if ys = [] then None else Some (last ys))"

lemma read_link_after:
  assumes "wlist k (EventWaiters i) (ys @ zs)"
  shows "read_link i (link_after ys) k = (case zs of [] \<Rightarrow> None | t # _ \<Rightarrow> Some t)"
proof (cases ys rule: rev_cases)
  case Nil
  with assms show ?thesis by (auto simp: read_link_def link_after_def wlist_def split: list.split)
next
  case (snoc us u)
  with assms show ?thesis
    by (auto simp: read_link_def link_after_def wlist_def wseg_append split: list.split)
qed

lemma write_link_removes:
  assumes "wlist k (EventWaiters i) (ys @ t # zs)"
  shows "sched_wait_list_remove (EventWaiters i) t k
     = Some (write_link i (link_after ys) (wait_next (tcb k t)) k)"
proof (cases ys rule: rev_cases)
  case Nil
  with assms show ?thesis
    by (simp add: sched_wait_list_remove_def write_link_def link_after_def wlist_def)
next
  case (snoc us u)
  have d: "distinct (us @ u # t # zs)" using wlist_distinct [OF assms] snoc by simp
  then have h: "wait_head k (EventWaiters i) \<noteq> Some t"
    using assms snoc by (cases us) (auto simp: wlist_def)
  have seg: "wseg (\<lambda>u. wait_next (tcb k u)) (wait_head k (EventWaiters i)) (us @ u # t # zs) None"
    using assms snoc by (simp add: wlist_def)
  from wl_find_prev_ends [OF seg h] obtain as cur bs where
    "us @ u # t # zs = as @ cur # t # bs" "wl_find_prev (tcb k) t (wait_head k (EventWaiters i)) = Some (Some cur)"
    by auto
  moreover from this(1) d have "u = cur" using distinct_pred_unique [OF d refl] by blast
  ultimately show ?thesis using h snoc
    by (simp add: sched_wait_list_remove_def write_link_def link_after_def)
qed

lemma observe_find [simp]: "event_pending_find t (observe bits j ps) = event_pending_find t ps"
proof -
  have "pend_task (observe bits j ps ! n) = pend_task (ps ! n)" for n
    by (cases "n = j"; cases "j < length ps") (auto simp: observe_def nth_list_update list_update_beyond)
  then show ?thesis by (simp add: event_pending_find_def)
qed

lemma event_scan_parts:
  "event_scan bits ps ts = (b, p, kept, woken) \<Longrightarrow>
   set kept \<union> set woken = set ts \<and> (distinct ts \<longrightarrow> set kept \<inter> set woken = {})
     \<and> subseq kept ts \<and> subseq woken ts"
proof (induction ts arbitrary: bits ps b p kept woken)
  case (Cons t ts)
  show ?case
  proof (cases "event_satisfied bits ps t")
    case None
    then obtain kept' where "event_scan bits ps ts = (b, p, kept', woken)" "kept = t # kept'"
      using Cons.prems by (auto split: prod.splits)
    with Cons.IH [of bits ps b p kept' woken] show ?thesis by auto
  next
    case (Some j)
    then obtain woken' where "woken = t # woken'"
      "event_scan (auto_cleared bits (ps ! j)) (observe bits j ps) ts = (b, p, kept, woken')"
      using Cons.prems by (auto split: prod.splits)
    with Cons.IH [of "auto_cleared bits (ps ! j)" "observe bits j ps" b p kept woken'] show ?thesis
      by auto
  qed
qed simp

text \<open>Taking the task after the kept ones off the list and waking it.\<close>

lemma drop_task_at:
  assumes inv: "kern_inv k W" and W: "W c = ys @ t # zs"
  shows "drop_task t W = W(c := ys @ zs)"
proof
  fix d
  show "drop_task t W d = (W(c := ys @ zs)) d"
  proof (cases "d = c")
    case True
    have "distinct (ys @ t # zs)" using wlist_distinct [OF kern_inv_wlist [OF inv, of c]] W by simp
    then have "filter (\<lambda>u. u \<noteq> t) (ys @ zs) = ys @ zs" by (subst filter_id_conv) auto
    with True W show ?thesis by (simp add: drop_task_def)
  next
    case False
    have "t \<notin> set (W d)" using kern_inv_disjoint [OF inv, of t d c] W False by auto
    with False show ?thesis by (auto simp: drop_task_def filter_id_conv)
  qed
qed

lemma event_unlink_wake:
  assumes inv: "kern_inv k W" and W: "W (EventWaiters i) = ys @ t # zs"
    and kw: "kw = sched_wake_task (Some t) (upd_tcb t (\<lambda>x. x\<lparr>wait_next := None, wait_list_head := None\<rparr>)
      (write_link i (link_after ys) (wait_next (tcb k t)) k))"
  shows "kern_inv kw (W(EventWaiters i := ys @ zs)) \<and> primask kw = primask k \<and> highest_next kw
    \<and> (\<forall>u. runnable kw u \<longleftrightarrow> u = t \<or> runnable k u)"
proof -
  let ?c = "EventWaiters i" and ?kl = "write_link i (link_after ys) (wait_next (tcb k t)) k"
  have w: "wlist k ?c (ys @ t # zs)" using kern_inv_wlist [OF inv, of ?c] W by simp
  have "\<exists>k'. sched_wait_list_remove ?c t k = Some k' \<and> kern_inv k' (drop_task t W)
      \<and> erase_links k' = erase_links k"
  proof (rule sched_wait_list_remove_inv [OF inv])
    show "d = ?c" if "t \<in> set (W d)" for d using kern_inv_disjoint [OF inv that, of ?c] W by simp
  qed
  then have kl: "kern_inv ?kl (drop_task t W)" "erase_links ?kl = erase_links k"
    unfolding write_link_removes [OF w] by simp_all
  let ?ku = "upd_tcb t (\<lambda>x. x\<lparr>wait_next := None, wait_list_head := None\<rparr>) ?kl"
  have blk: "state (tcb k t) = TASK_BLOCKED" using kern_inv_blocked [OF inv, of t ?c] W by simp
  have uq: "unqueued (drop_task t W) t" by (rule unqueued_drop_task)
  note el = erase_links_eqD [OF kl(2)]
  have ku: "kern_inv ?ku (drop_task t W)" by (rule kern_inv_upd [OF kl(1) uq]) (simp_all add: el blk)
  have "kern_inv kw (W(?c := ys @ zs))"
    using sched_wake_task_inv [OF ku uq] unfolding kw by (simp add: drop_task_at [OF inv W])
  moreover have "primask kw = primask k" unfolding kw by (simp add: sched_wake_task_eq el)
  moreover have "runnable ?ku u = runnable k u" for u by (auto simp: runnable_def el)
  then have "runnable kw u \<longleftrightarrow> u = t \<or> runnable k u" for u unfolding kw by (simp only: runnable_wake)
  moreover have "highest_next kw" unfolding kw by (rule sched_wake_task_highest)
  ultimately show ?thesis by blast
qed

text \<open>The walk, started after the kept tasks \<open>ys\<close>, ends and does what the scan says.\<close>

lemma event_wake_satisfied_refines:
  assumes "kern_inv k W" and "W (EventWaiters i) = ys @ zs"
    and "event_scan bits ps zs = (b, p, kept, woken)"
  shows "\<exists>k'. event_wake_satisfied i (link_after ys) (bits, ps, k) = Some (b, p, k')
     \<and> kern_inv k' (W(EventWaiters i := ys @ kept)) \<and> primask k' = primask k
     \<and> (\<forall>t. runnable k' t \<longleftrightarrow> t \<in> set woken \<or> runnable k t)
     \<and> (woken \<noteq> [] \<longrightarrow> highest_next k') \<and> (woken = [] \<longrightarrow> k' = k)"
  using assms
proof (induction zs arbitrary: ys bits ps k W b p kept woken)
  case Nil
  from read_link_after [of k i ys "[]"] kern_inv_wlist [OF Nil.prems(1), of "EventWaiters i"] Nil.prems
  have "event_wake_satisfied i (link_after ys) (bits, ps, k) = Some (bits, ps, k)"
    by (subst event_wake_satisfied.simps) simp
  moreover have "W(EventWaiters i := ys) = W" using Nil.prems(2) by auto
  ultimately show ?case using Nil.prems by simp
next
  case (Cons t zs)
  let ?c = "EventWaiters i"
  have "wlist k ?c (ys @ t # zs)" using kern_inv_wlist [OF Cons.prems(1), of ?c] Cons.prems(2) by simp
  then have rd: "read_link i (link_after ys) k = Some t" using read_link_after by simp
  show ?case
  proof (cases "event_satisfied bits ps t")
    case None
    then obtain kept' where kept': "event_scan bits ps zs = (b, p, kept', woken)" "kept = t # kept'"
      using Cons.prems(3) by (auto split: prod.splits)
    have "event_wake_satisfied i (link_after ys) (bits, ps, k)
        = event_wake_satisfied i (link_after (ys @ [t])) (bits, ps, k)"
      using rd None by (subst event_wake_satisfied.simps) (simp add: link_after_def)
    with Cons.IH [OF Cons.prems(1) _ kept'(1), of "ys @ [t]"] Cons.prems(2) kept'(2) show ?thesis by simp
  next
    case (Some j)
    then obtain woken' where woken': "woken = t # woken'"
      "event_scan (auto_cleared bits (ps ! j)) (observe bits j ps) zs = (b, p, kept, woken')"
      using Cons.prems(3) by (auto split: prod.splits)
    define kw where kw: "kw = sched_wake_task (Some t) (upd_tcb t (\<lambda>x. x\<lparr>wait_next := None, wait_list_head := None\<rparr>)
      (write_link i (link_after ys) (wait_next (tcb k t)) k))"
    from event_unlink_wake [OF Cons.prems(1,2) kw] have
      u: "kern_inv kw (W(?c := ys @ zs))" "primask kw = primask k" "highest_next kw"
        "\<forall>u. runnable kw u \<longleftrightarrow> u = t \<or> runnable k u" by simp_all
    have step: "event_wake_satisfied i (link_after ys) (bits, ps, k)
        = event_wake_satisfied i (link_after ys) (auto_cleared bits (ps ! j), observe bits j ps, kw)"
      using rd Some by (subst event_wake_satisfied.simps) (simp add: event_wake_one_eq kw)
    have "(W(?c := ys @ zs)) ?c = ys @ zs" by simp
    from Cons.IH [OF u(1) this woken'(2), unfolded fun_upd_upd] obtain k' where
      k': "event_wake_satisfied i (link_after ys) (auto_cleared bits (ps ! j), observe bits j ps, kw) = Some (b, p, k')"
        "kern_inv k' (W(?c := ys @ kept))" "primask k' = primask kw"
        "\<forall>u. runnable k' u \<longleftrightarrow> u \<in> set woken' \<or> runnable kw u"
        "woken' \<noteq> [] \<longrightarrow> highest_next k'" "woken' = [] \<longrightarrow> k' = kw" by blast
    have "highest_next k'" using k'(5,6) u(3) by (cases "woken' = []") simp_all
    moreover have "\<forall>u. runnable k' u \<longleftrightarrow> u \<in> set woken \<or> runnable k u"
      using k'(4) u(4) woken'(1) by auto
    moreover have "primask k' = primask k" "woken \<noteq> []" using k'(3) u(2) woken'(1) by simp_all
    ultimately show ?thesis unfolding step using k'(1,2) by blast
  qed
qed

lemma event_set_refines:
  assumes "kern_inv k W" and "event_scan (bits OR v) ps (W (EventWaiters i)) = (b, p, kept, woken)"
  shows "\<exists>k'. event_set i v bits ps k = Some (b, p, k') \<and> kern_inv k' (W(EventWaiters i := kept))
     \<and> primask k' = primask k \<and> (\<forall>t. runnable k' t \<longleftrightarrow> t \<in> set woken \<or> runnable k t)
     \<and> (woken \<noteq> [] \<longrightarrow> highest_next k')"
proof -
  have "kern_inv (k\<lparr>primask := True\<rparr>) W" using assms(1) by simp
  from event_wake_satisfied_refines [OF this, of i "[]" "W (EventWaiters i)" "bits OR v" ps b p kept woken]
    assms(2) obtain k' where
    "event_wake_satisfied i None (bits OR v, ps, k\<lparr>primask := True\<rparr>) = Some (b, p, k')"
    "kern_inv k' (W(EventWaiters i := kept))" "\<forall>t. runnable k' t \<longleftrightarrow> t \<in> set woken \<or> runnable k t"
    "woken \<noteq> [] \<longrightarrow> highest_next k'" by (auto simp: link_after_def)
  then show ?thesis
    by (intro exI [of _ "sched_critical_exit (primask k) k'"])
      (simp add: event_set_def sched_critical_enter_def)
qed

subsection \<open>What the scan leaves\<close>

lemma event_condition_met_iff:
  "event_condition_met bits m md \<longleftrightarrow>
     (if md = EVENT_WAIT_ALL then \<forall>n. bit m n \<longrightarrow> bit bits n else \<exists>n. bit m n \<and> bit bits n)"
  using bit_imp_le_length [of m]
  by (auto simp: event_condition_met_def bit_eq_iff bit_and_iff)

definition sub_bits :: "u32 \<Rightarrow> u32 \<Rightarrow> bool" where
  "sub_bits a b \<longleftrightarrow> (\<forall>n. bit a n \<longrightarrow> bit b n)"

lemma sub_bits_refl [simp]: "sub_bits a a" by (simp add: sub_bits_def)

lemma sub_bits_trans: "sub_bits a b \<Longrightarrow> sub_bits b c \<Longrightarrow> sub_bits a c" by (simp add: sub_bits_def)

lemma sub_bits_auto_cleared [simp]: "sub_bits (auto_cleared bits r) bits"
  by (auto simp: sub_bits_def auto_cleared_def bit_and_iff)

lemma event_condition_met_mono:
  "event_condition_met a m md \<Longrightarrow> sub_bits a b \<Longrightarrow> event_condition_met b m md"
  by (auto simp: event_condition_met_iff sub_bits_def split: if_splits)

text \<open>Records agree but for the bits observed.\<close>

definition same_wants :: "event_pending_t list \<Rightarrow> event_pending_t list \<Rightarrow> bool" where
  "same_wants ps qs \<longleftrightarrow> length ps = length qs
     \<and> (\<forall>j. (ps ! j)\<lparr>observed_bits := 0\<rparr> = (qs ! j)\<lparr>observed_bits := 0\<rparr>)"

lemma same_wantsD:
  assumes "same_wants ps qs"
  shows "pend_task (ps ! j) = pend_task (qs ! j)" "pend_mask (ps ! j) = pend_mask (qs ! j)"
    "pend_mode (ps ! j) = pend_mode (qs ! j)" "pend_auto_clear (ps ! j) = pend_auto_clear (qs ! j)"
    "event_pending_find t ps = event_pending_find t qs" "event_satisfied b ps t = event_satisfied b qs t"
proof -
  have e: "(ps ! j)\<lparr>observed_bits := 0\<rparr> = (qs ! j)\<lparr>observed_bits := 0\<rparr>" for j
    using assms by (simp add: same_wants_def)
  have all: "pend_task (ps ! j) = pend_task (qs ! j)" "pend_mask (ps ! j) = pend_mask (qs ! j)"
    "pend_mode (ps ! j) = pend_mode (qs ! j)" "pend_auto_clear (ps ! j) = pend_auto_clear (qs ! j)" for j
    using e [of j] by (cases "ps ! j"; cases "qs ! j"; simp)+
  show "pend_task (ps ! j) = pend_task (qs ! j)" "pend_mask (ps ! j) = pend_mask (qs ! j)"
    "pend_mode (ps ! j) = pend_mode (qs ! j)" "pend_auto_clear (ps ! j) = pend_auto_clear (qs ! j)"
    by (rule all)+
  show f: "event_pending_find t ps = event_pending_find t qs" by (simp add: event_pending_find_def all)
  show "event_satisfied b ps t = event_satisfied b qs t"
    by (simp add: event_satisfied_def f all split: option.split)
qed

lemma same_wants_observe [simp]: "same_wants (observe b j ps) ps"
proof -
  have "(observe b j ps ! n)\<lparr>observed_bits := 0\<rparr> = (ps ! n)\<lparr>observed_bits := 0\<rparr>" for n
  proof (cases "n = j \<and> j < length ps")
    case True
    then show ?thesis by (simp add: observe_def)
  next
    case False
    then have "observe b j ps ! n = ps ! n"
      by (cases "n = j") (simp_all add: observe_def list_update_beyond)
    then show ?thesis by simp
  qed
  then show ?thesis by (simp add: same_wants_def observe_def)
qed

lemma event_scan_same:
  "event_scan bits ps ts = (b, p, kept, woken) \<Longrightarrow> same_wants p ps \<and> sub_bits b bits"
proof (induction ts arbitrary: bits ps b p kept woken)
  case (Cons t ts)
  show ?case
  proof (cases "event_satisfied bits ps t")
    case None
    with Cons show ?thesis by (auto split: prod.splits)
  next
    case (Some j)
    then obtain woken' where
      "event_scan (auto_cleared bits (ps ! j)) (observe bits j ps) ts = (b, p, kept, woken')"
      using Cons.prems by (auto split: prod.splits)
    from Cons.IH [OF this] have "same_wants p (observe bits j ps)" "sub_bits b (auto_cleared bits (ps ! j))"
      by auto
    then show ?thesis
      using same_wants_observe [of bits j ps] sub_bits_auto_cleared sub_bits_trans
      by (auto simp: same_wants_def)
  qed
qed (simp add: same_wants_def)

lemma event_satisfied_mono: "event_satisfied a ps t \<noteq> None \<Longrightarrow> sub_bits a b \<Longrightarrow> event_satisfied b ps t \<noteq> None"
  by (auto simp: event_satisfied_def split: option.splits if_splits dest: event_condition_met_mono)

lemma event_scan_kept:
  "event_scan bits ps ts = (b, p, kept, woken) \<Longrightarrow> t \<in> set kept \<Longrightarrow> event_satisfied b p t = None"
proof (induction ts arbitrary: bits ps b p kept woken)
  case (Cons u ts)
  show ?case
  proof (cases "event_satisfied bits ps u")
    case None
    then obtain kept' where k: "event_scan bits ps ts = (b, p, kept', woken)" "kept = u # kept'"
      using Cons.prems by (auto split: prod.splits)
    show ?thesis
    proof (cases "t = u")
      case True
      have "sub_bits b bits" "same_wants p ps" using event_scan_same [OF k(1)] by auto
      with True None event_satisfied_mono [of b ps u bits] show ?thesis
        by (cases "event_satisfied b ps u") (simp_all add: same_wantsD(6) [of p ps])
    next
      case False
      with k Cons show ?thesis by auto
    qed
  next
    case (Some j)
    with Cons show ?thesis by (auto split: prod.splits)
  qed
qed simp

lemma event_pending_findD:
  "event_pending_find t ps = Some j \<Longrightarrow> j < EVENT_PENDING_MAX \<and> pend_task (ps ! j) = Some t"
  by (auto simp: event_pending_find_def find_upt_Some)

lemma event_scan_observed_other:
  "event_scan bits ps ts = (b, p, kept, woken) \<Longrightarrow> event_pending_find t ps = Some j \<Longrightarrow> t \<notin> set ts \<Longrightarrow>
   p ! j = ps ! j"
proof (induction ts arbitrary: bits ps b p kept woken)
  case (Cons u ts)
  show ?case
  proof (cases "event_satisfied bits ps u")
    case None
    with Cons show ?thesis by (auto split: prod.splits)
  next
    case (Some i)
    then obtain woken' where
      w: "event_scan (auto_cleared bits (ps ! i)) (observe bits i ps) ts = (b, p, kept, woken')"
      using Cons.prems by (auto split: prod.splits)
    from Some have "event_pending_find u ps = Some i"
      by (auto simp: event_satisfied_def split: option.splits if_splits)
    from event_pending_findD [OF this] event_pending_findD [OF Cons.prems(2)] Cons.prems(3)
    have "i \<noteq> j" by auto
    have "event_pending_find t (observe bits i ps) = Some j" using Cons.prems(2) by simp
    from Cons.IH [OF w this] Cons.prems(3) \<open>i \<noteq> j\<close> show ?thesis by (simp add: observe_def)
  qed
qed simp

lemma event_scan_woken:
  "event_scan bits ps ts = (b, p, kept, woken) \<Longrightarrow> distinct ts \<Longrightarrow> length ps = EVENT_PENDING_MAX \<Longrightarrow>
   t \<in> set woken \<Longrightarrow>
   \<exists>j. event_pending_find t p = Some j \<and> sub_bits (observed_bits (p ! j)) bits
     \<and> event_condition_met (observed_bits (p ! j)) (pend_mask (p ! j)) (pend_mode (p ! j))"
proof (induction ts arbitrary: bits ps b p kept woken)
  case (Cons u ts)
  show ?case
  proof (cases "event_satisfied bits ps u")
    case None
    with Cons show ?thesis by (auto split: prod.splits)
  next
    case (Some i)
    then obtain woken' where w: "woken = u # woken'"
      "event_scan (auto_cleared bits (ps ! i)) (observe bits i ps) ts = (b, p, kept, woken')"
      using Cons.prems by (auto split: prod.splits)
    show ?thesis
    proof (cases "t = u")
      case True
      from Some have f: "event_pending_find u ps = Some i"
        "event_condition_met bits (pend_mask (ps ! i)) (pend_mode (ps ! i))"
        by (auto simp: event_satisfied_def split: option.splits if_splits)
      have "event_pending_find u (observe bits i ps) = Some i" using f by simp
      from event_scan_observed_other [OF w(2) this] Cons.prems(2)
      have pi: "p ! i = observe bits i ps ! i" by simp
      have "event_pending_find u p = Some i"
        using event_scan_same [OF w(2)] f(1) by (simp add: same_wantsD(5) [of p "observe bits i ps"])
      moreover have "i < length ps" using event_pending_findD [OF f(1)] Cons.prems(3) by simp
      ultimately show ?thesis using pi f True
        by (intro exI [of _ i]) (simp add: observe_def)
    next
      case False
      have l: "length (observe bits i ps) = EVENT_PENDING_MAX" using Cons.prems(3) by (simp add: observe_def)
      from Cons.IH [OF w(2) _ l] Cons.prems(2,4) False w(1) sub_bits_auto_cleared sub_bits_trans
      show ?thesis by (metis distinct.simps(2) set_ConsD)
    qed
  qed
qed simp

subsection \<open>Records for waiting tasks\<close>

text \<open>The table: every used record belongs to a different one of the kernel's tasks.\<close>

definition pending_wf :: "event_pending_t list \<Rightarrow> bool" where
  "pending_wf ps \<longleftrightarrow> length ps = EVENT_PENDING_MAX
     \<and> (\<forall>j < EVENT_PENDING_MAX. \<forall>t. pend_task (ps ! j) = Some t \<longrightarrow> (\<exists>n < TASK_MAX. t = Task n))
     \<and> (\<forall>j l. j < EVENT_PENDING_MAX \<longrightarrow> l < EVENT_PENDING_MAX \<longrightarrow> pend_task (ps ! j) = pend_task (ps ! l)
            \<longrightarrow> pend_task (ps ! j) \<noteq> None \<longrightarrow> j = l)"

lemma event_pending_find_None:
  "event_pending_find t ps = None \<longleftrightarrow> (\<forall>j < EVENT_PENDING_MAX. pend_task (ps ! j) \<noteq> Some t)"
  by (auto simp: event_pending_find_def find_upt_None)

lemma event_alloc_free_slot:
  assumes wf: "pending_wf ps" and t: "event_pending_find t ps = None" "t = Task n" "n < TASK_MAX"
  shows "\<exists>j < EVENT_PENDING_MAX. pend_task (ps ! j) = None"
proof (rule ccontr)
  assume "\<not> ?thesis"
  then have used: "pend_task (ps ! j) \<noteq> None" if "j < EVENT_PENDING_MAX" for j
    using that by auto
  let ?f = "\<lambda>j. pend_task (ps ! j)"
  have inj: "inj_on ?f {..<EVENT_PENDING_MAX}"
    using wf used by (auto simp: pending_wf_def inj_on_def)
  have "?f ` {..<EVENT_PENDING_MAX} \<subseteq> (\<lambda>m. Some (Task m)) ` ({..<TASK_MAX} - {n})"
  proof
    fix x assume "x \<in> ?f ` {..<EVENT_PENDING_MAX}"
    then obtain j where j: "j < EVENT_PENDING_MAX" "x = pend_task (ps ! j)" by auto
    with used obtain u where "x = Some u" by fastforce
    with j have "pend_task (ps ! j) = Some u" by simp
    with wf j(1) have "\<exists>m < TASK_MAX. u = Task m" unfolding pending_wf_def by blast
    with \<open>x = Some u\<close> obtain m where "x = Some (Task m)" "m < TASK_MAX" by auto
    moreover from this j t have "m \<noteq> n" by (auto simp: event_pending_find_None)
    ultimately show "x \<in> (\<lambda>m. Some (Task m)) ` ({..<TASK_MAX} - {n})" by auto
  qed
  from card_mono [OF _ this] have "EVENT_PENDING_MAX \<le> card ((\<lambda>m. Some (Task m)) ` ({..<TASK_MAX} - {n}))"
    by (simp add: card_image [OF inj])
  also have "\<dots> \<le> card ({..<TASK_MAX} - {n})" by (rule card_image_le) simp
  also have "\<dots> = TASK_MAX - 1" using t(3) by simp
  finally show False by (simp add: EVENT_PENDING_MAX_def TASK_MAX_def)
qed

lemma event_pending_alloc_spec:
  assumes wf: "pending_wf ps" and t: "event_pending_find t ps = None" "t = Task n" "n < TASK_MAX"
  shows "\<exists>j qs. event_pending_alloc t ps = Some (j, qs) \<and> pending_wf qs \<and> event_pending_find t qs = Some j
     \<and> j < EVENT_PENDING_MAX \<and> (\<forall>u. u \<noteq> t \<longrightarrow> event_pending_find u qs = event_pending_find u ps)"
proof -
  obtain j where j: "find (\<lambda>j. pend_task (ps ! j) = None) [0..<EVENT_PENDING_MAX] = Some j"
    using event_alloc_free_slot [OF assms] by (fastforce simp: find_upt_None dest: find_None_iff [THEN iffD1])
  then have j': "j < EVENT_PENDING_MAX" "pend_task (ps ! j) = None" by (simp_all add: find_upt_Some)
  let ?q = "ps[j := (ps ! j)\<lparr>pend_task := Some t\<rparr>]"
  have l: "length ps = EVENT_PENDING_MAX" using wf by (simp add: pending_wf_def)
  have pt: "pend_task (?q ! l) = (if l = j then Some t else pend_task (ps ! l))" for l
    using j' l by (simp add: nth_list_update)
  have fresh: "pend_task (ps ! m) \<noteq> Some t" if "m < EVENT_PENDING_MAX" for m
    using t(1) that by (simp add: event_pending_find_None)
  have "pending_wf ?q" unfolding pending_wf_def
  proof (intro conjI allI impI)
    show "length ?q = EVENT_PENDING_MAX" using l by simp
    show "\<exists>n < TASK_MAX. u = Task n" if "m < EVENT_PENDING_MAX" "pend_task (?q ! m) = Some u" for m u
    proof (cases "m = j")
      case True
      with that(2) pt [of m] have "u = t" by simp
      with t(2,3) show ?thesis by blast
    next
      case False
      with that pt have "pend_task (ps ! m) = Some u" by simp
      with wf that(1) show ?thesis unfolding pending_wf_def by blast
    qed
    show "a = b" if "a < EVENT_PENDING_MAX" "b < EVENT_PENDING_MAX"
      "pend_task (?q ! a) = pend_task (?q ! b)" "pend_task (?q ! a) \<noteq> None" for a b
    proof (cases "a = j \<or> b = j")
      case True
      with that fresh [of a] fresh [of b] show ?thesis by (auto simp: pt split: if_splits)
    next
      case False
      with that wf show ?thesis by (simp add: pt pending_wf_def)
    qed
  qed
  moreover have "event_pending_find t ?q = Some j"
    using j' t(1) by (auto simp: event_pending_find_def find_upt_Some find_upt_None pt)
  moreover have "event_pending_find u ?q = event_pending_find u ps" if "u \<noteq> t" for u
  proof -
    have "(pend_task (?q ! l) = Some u) = (pend_task (ps ! l) = Some u)" for l
      using that j' by (simp add: pt)
    then show ?thesis by (simp add: event_pending_find_def)
  qed
  ultimately show ?thesis using j j' by (auto simp: event_pending_alloc_def)
qed

lemma event_pend_fill_find [simp]:
  "event_pending_find t (event_pend_fill i j m md ac ps) = event_pending_find t ps"
proof -
  have "pend_task (event_pend_fill i j m md ac ps ! n) = pend_task (ps ! n)" for n
    by (cases "n = j"; cases "j < length ps") (auto simp: event_pend_fill_def nth_list_update list_update_beyond)
  then show ?thesis by (simp add: event_pending_find_def)
qed

subsection \<open>Properties\<close>


text \<open>An empty table, and one in which task 0 waits for bit 1 of group 0.\<close>

definition free_pending :: event_pending_t where
  "free_pending = \<lparr>pend_task = None, pend_group = 0, pend_mask = 0, pend_mode = EVENT_WAIT_ANY,
     pend_auto_clear = 0, observed_bits = 0\<rparr>"

definition demo_pending :: "event_pending_t list" where
  "demo_pending = replicate EVENT_PENDING_MAX free_pending"

lemma demo_pending_wf: "pending_wf demo_pending" "length demo_pending = EVENT_PENDING_MAX"
  "event_pending_find t demo_pending = None"
  by (simp_all add: pending_wf_def demo_pending_def free_pending_def event_pending_find_def find_upt_None)


text \<open>
  C24: A task that has no pending record yet always gets one: \<open>event_wait\<close> never spins on a full
  table. It returns at once with the bits if they satisfy the condition (clearing the mask
  under \<open>auto_clear\<close>); otherwise it blocks, queued in priority order, with a record that
  holds its mask and mode.
\<close>

theorem event_wait_correct:
  assumes "kern_inv k W" and "running k (Task n)" and "n < TASK_MAX" and "pending_wf ps"
    and "event_pending_find (Task n) ps = None"
  shows "if event_condition_met bits m md
     then event_wait i m md ac bits ps k = (Ret bits, None, if ac \<noteq> 0 then bits AND NOT m else bits, ps, k)
     else \<exists>j qs k'. event_wait i m md ac bits ps k = (Block, Some j, bits, qs, k')
       \<and> kern_inv k' (enq (EventWaiters i) (Task n) k W) \<and> highest_next k' \<and> primask k' = primask k
       \<and> event_pending_find (Task n) qs = Some j \<and> pend_mask (qs ! j) = m \<and> pend_mode (qs ! j) = md
       \<and> (\<forall>u. u \<noteq> Task n \<longrightarrow> event_pending_find u qs = event_pending_find u ps)"
proof (cases "event_condition_met bits m md")
  case True
  then show ?thesis by (simp add: event_wait_def kdefs)
next
  case False
  obtain j qs where a: "event_pending_alloc (Task n) ps = Some (j, qs)" "pending_wf qs"
    "event_pending_find (Task n) qs = Some j" "j < EVENT_PENDING_MAX"
    "\<forall>u. u \<noteq> Task n \<longrightarrow> event_pending_find u qs = event_pending_find u ps"
    using event_pending_alloc_spec [OF assms(4,5) refl assms(3)] by blast
  let ?f = "\<lambda>x. x\<lparr>state := TASK_BLOCKED, wait_list_head := None\<rparr>"
  let ?k0 = "k\<lparr>primask := True\<rparr>"
  from running_unqueued [OF assms(1,2)] assms(1) have *: "kern_inv ?k0 W" "unqueued W (Task n)"
    "delay_ticks (tcb k (Task n)) = 0" by auto
  have "\<exists>k'. block_on (event_wq_insert i) ?f (Task n) ?k0 = Some k'
      \<and> kern_inv k' (enq (EventWaiters i) (Task n) ?k0 W) \<and> highest_next k'"
    by (rule evq.block_on_inv [OF *(1,2)]) (simp_all add: *(3))
  then obtain k' where k': "block_on (event_wq_insert i) ?f (Task n) ?k0 = Some k'"
    "kern_inv k' (enq (EventWaiters i) (Task n) k W)" "highest_next k'" by (auto simp: enq_def)
  let ?qs = "event_pend_fill i j m md ac qs"
  have l: "j < length qs" using a(2,4) by (simp add: pending_wf_def)
  have "event_wait i m md ac bits ps k = (Block, Some j, bits, ?qs, sched_critical_exit (primask k) k')"
    using False assms(2) a(1) k'(1) by (simp add: event_wait_def sched_critical_enter_def running_def)
  moreover have "pend_mask (?qs ! j) = m" "pend_mode (?qs ! j) = md"
    using l by (simp_all add: event_pend_fill_def)
  ultimately show ?thesis using False k' a(3,5)
    by (simp add: k'(2,3))
qed

theorem event_wait_correct_witness:
  "\<exists>j qs k'. event_wait 0 2 EVENT_WAIT_ALL 1 1 demo_pending demo_kern = (Block, Some j, 1, qs, k')
     \<and> pend_mask (qs ! j) = 2"
  using event_wait_correct [OF demo_kern_inv demo_running _ demo_pending_wf(1,3), of 1 2 EVENT_WAIT_ALL 0 1]
  by (auto simp: TASK_MAX_def event_condition_met_def split: if_splits)

end
