(* ===== verification/Notify.thy ===== *)
theory Notify
  imports Semaphore
begin

text \<open>
  \<open>kernel/core/notify.c\<close>: direct-to-task notifications. \<open>task_notify_wait\<close> is cut at its
  blocking point: the first part, and \<open>task_notify_wait_resume\<close> for when the task runs
  again. The result pairs the return value with the value written to \<open>*out_value\<close>, if any.
\<close>

definition TASK_NOTIFY_WAIT_FOREVER :: u32 where "TASK_NOTIFY_WAIT_FOREVER = 0xFFFFFFFF"

definition task_notify_give :: "tid option \<Rightarrow> u32 \<Rightarrow> kern \<Rightarrow> kern" where
  "task_notify_give t value k =
     (case t of
        None \<Rightarrow> k
      | Some t \<Rightarrow>
          (let (p, k0) = sched_critical_enter k;
               k1 = upd_tcb t (\<lambda>x. x\<lparr>notify_value := value, notify_pending := 1\<rparr>) k0;
               was_blocked = (state (tcb k1 t) = TASK_BLOCKED);
               k2 = sched_critical_exit p k1
           in if was_blocked then sched_wake_task (Some t) k2 else k2))"

definition task_notify_wait :: "bool \<Rightarrow> u32 \<Rightarrow> kern \<Rightarrow> (u8 \<times> u32 option) outcome \<times> kern" where
  "task_notify_wait has_out timeout_ms k =
     (let (p, k0) = sched_critical_enter k in
      case g_current_task k0 of
        None \<Rightarrow> (Trap, k0)
      | Some c \<Rightarrow>
          if notify_pending (tcb k0 c) \<noteq> 0 then
            (let k1 = upd_tcb c (\<lambda>x. x\<lparr>notify_pending := 0\<rparr>) k0
             in (Ret (1, if has_out then Some (notify_value (tcb k1 c)) else None),
                 sched_critical_exit p k1))
          else if timeout_ms = 0 then (Ret (0, None), sched_critical_exit p k0)
          else
            (let k1 = upd_tcb c (\<lambda>x. x\<lparr>state := TASK_BLOCKED, delay_ticks := timeout_ms,
                                     wait_list_head := None\<rparr>) k0
             in (Block, sched_critical_exit p (sched_block_locked k1))))"

definition task_notify_wait_resume :: "bool \<Rightarrow> kern \<Rightarrow> (u8 \<times> u32 option) outcome \<times> kern" where
  "task_notify_wait_resume has_out k =
     (let (p2, k0) = sched_critical_enter k in
      case g_current_task k0 of
        None \<Rightarrow> (Trap, k0)
      | Some c \<Rightarrow>
          if notify_pending (tcb k0 c) \<noteq> 0 then
            (let k1 = upd_tcb c (\<lambda>x. x\<lparr>notify_pending := 0\<rparr>) k0
             in (Ret (1, if has_out then Some (notify_value (tcb k1 c)) else None),
                 sched_critical_exit p2 k1))
          else (Ret (0, None), sched_critical_exit p2 k0))"

subsection \<open>Giving\<close>

lemma kern_inv_notify:
  "kern_inv k W \<Longrightarrow> kern_inv (upd_tcb t (\<lambda>x. x\<lparr>notify_value := v, notify_pending := b\<rparr>) k) W"
  by (rule kern_inv_upd_frame) simp_all

lemma task_notify_give_eq:
  "task_notify_give (Some t) v k =
     (let k2 = upd_tcb t (\<lambda>x. x\<lparr>notify_value := v, notify_pending := 1\<rparr>) k
      in if state (tcb k t) = TASK_BLOCKED then sched_wake_task (Some t) k2 else k2)"
proof -
  have "sched_critical_exit (primask k) (upd_tcb t f (k\<lparr>primask := True\<rparr>)) = upd_tcb t f k" for f
    by (simp add: sched_critical_exit_def upd_tcb_def)
  then show ?thesis by (simp add: task_notify_give_def sched_critical_enter_def Let_def)
qed

lemma notify_fields_wake:
  "notify_pending (tcb (sched_wake_task t k) u) = notify_pending (tcb k u)"
  "notify_value (tcb (sched_wake_task t k) u) = notify_value (tcb k u)"
  by (rule task_constD; simp)+

lemma notify_fields_block:
  "notify_pending (tcb (sched_block_locked k) u) = notify_pending (tcb k u)"
  "notify_value (tcb (sched_block_locked k) u) = notify_value (tcb k u)"
  by (rule task_constD; simp)+

lemma task_notify_give_fields:
  "notify_pending (tcb (task_notify_give (Some t) v k) u) = (if u = t then 1 else notify_pending (tcb k u))"
  "notify_value (tcb (task_notify_give (Some t) v k) u) = (if u = t then v else notify_value (tcb k u))"
  by (simp_all add: task_notify_give_eq Let_def notify_fields_wake)

subsection \<open>A list entry that waits on nothing any more\<close>

text \<open>A walk that reaches a task linked to itself never ends.\<close>

lemma wq_walk_self_loop:
  assumes "wait_next (st t) = Some t" and "priority (st t) \<le> p"
  shows "wq_walk st p t = None"
proof -
  have "wq_walk st p cur = Some y \<Longrightarrow> \<not> (wait_next (st cur) = Some cur \<and> priority (st cur) \<le> p)" for cur y
  proof (rule wq_walk.raw_induct [where P = "\<lambda>st p cur y. \<not> (wait_next (st cur) = Some cur \<and> priority (st cur) \<le> p)"])
    fix wq and st' :: "tid \<Rightarrow> task_t" and p' cur' y'
    assume "\<And>st p cur y. wq st p cur = Some y \<Longrightarrow> \<not> (wait_next (st cur) = Some cur \<and> priority (st cur) \<le> p)"
      and "(case wait_next (st' cur') of None \<Rightarrow> Some cur'
        | Some n \<Rightarrow> if priority (st' n) \<le> p' then wq st' p' n else Some cur') = Some y'"
    then show "\<not> (wait_next (st' cur') = Some cur' \<and> priority (st' cur') \<le> p')"
      by (auto split: option.splits if_splits)
  qed
  with assms show ?thesis by (cases "wq_walk st p t") auto
qed

lemma wq_insert_head_again:
  assumes "wait_head k c = Some t"
  shows "wq_insert c t k = Some (set_next t (Some t) (set_next t None (set_next t None k)))"
proof -
  have "wq_walk (tcb (set_next t None k)) (priority (tcb k t)) t = Some t"
    by (subst wq_walk.simps) simp
  with assms show ?thesis by (simp add: wq_insert_def Let_def)
qed

lemma wq_insert_hangs:
  assumes "wait_head k c = Some t" and "wait_next (tcb k t) = Some t" and "u \<noteq> t"
    and "priority (tcb k t) \<le> priority (tcb k u)"
  shows "wq_insert c u k = None"
proof -
  have "wq_walk (tcb (set_next u None k)) (priority (tcb k u)) t = None"
    by (rule wq_walk_self_loop) (use assms in simp_all)
  with assms show ?thesis by (simp add: wq_insert_def Let_def not_less)
qed

lemma task_notify_give_inv:
  assumes "kern_inv k W" and "unqueued W t"
  shows "kern_inv (task_notify_give (Some t) v k) W"
  using assms by (simp add: task_notify_give_eq Let_def sched_wake_task_inv kern_inv_notify)

lemma notify_wait_block:
  assumes inv: "kern_inv k W" and r: "running k c" and np: "notify_pending (tcb k c) = 0" and ms: "ms \<noteq> 0"
  shows "\<exists>k'. task_notify_wait out ms k = (Block, k') \<and> kern_inv k' W \<and> highest_next k'
     \<and> primask k' = primask k \<and> s_task_count k' = s_task_count k
     \<and> state (tcb k' c) = TASK_BLOCKED \<and> delay_ticks (tcb k' c) = ms \<and> notify_pending (tcb k' c) = 0"
proof -
  let ?k1 = "upd_tcb c (\<lambda>x. x\<lparr>state := TASK_BLOCKED, delay_ticks := ms, wait_list_head := None\<rparr>)
      (k\<lparr>primask := True\<rparr>)"
  note u = running_unqueued [OF inv r]
  have inv1: "kern_inv ?k1 W" by (rule kern_inv_upd) (use inv u in auto)
  let ?k' = "sched_critical_exit (primask k) (sched_block_locked ?k1)"
  have "task_notify_wait out ms k = (Block, ?k')"
    using r np ms by (simp add: task_notify_wait_def sched_critical_enter_def running_def)
  moreover have "kern_inv ?k' W" using sched_block_locked_inv [OF inv1] by simp
  moreover have "highest_next ?k'" by (simp add: sched_block_locked_eq commit_highest)
  moreover have "state (tcb ?k' c) = TASK_BLOCKED"
    using reschedule_task(3) [of ?k1 c] by (simp add: sched_block_locked_eq)
  moreover have "s_task_count ?k' = s_task_count k"
    by (simp add: sched_block_locked_eq trigger_pendsv_def)
  ultimately show ?thesis using np by (intro exI [of _ ?k']) (simp add: notify_fields_block)
qed

lemma notify_wait_pending:
  assumes "g_current_task k = Some t" and "notify_pending (tcb k t) \<noteq> 0"
  shows "\<exists>k'. task_notify_wait True ms k = (Ret (1, Some (notify_value (tcb k t))), k')
     \<and> notify_pending (tcb k' t) = 0 \<and> primask k' = primask k"
    and "\<exists>k'. task_notify_wait_resume True k = (Ret (1, Some (notify_value (tcb k t))), k')
     \<and> notify_pending (tcb k' t) = 0 \<and> primask k' = primask k"
  using assms by (simp_all add: task_notify_wait_def task_notify_wait_resume_def sched_critical_enter_def Let_def)

subsection \<open>Properties\<close>

text \<open>
  C25: A notification given to a task that is on no wait list is delivered. The kernel
  invariant is kept; a task blocked in \<open>task_notify_wait\<close> (or in a delay) becomes runnable with its delay
  cleared and the best ready task is chosen; and when the task next looks, in a new call or
  in the rest of the blocked one, it gets the value and the notification is consumed.
\<close>

theorem notify_delivers:
  assumes "kern_inv k W" and "unqueued W t" and "k1 = task_notify_give (Some t) v k"
  shows "kern_inv k1 W
     \<and> (state (tcb k t) = TASK_BLOCKED \<longrightarrow> runnable k1 t \<and> delay_ticks (tcb k1 t) = 0 \<and> highest_next k1)
     \<and> (\<forall>k2. g_current_task k2 = Some t \<and> task_const (tcb k2 t) = task_const (tcb k1 t) \<longrightarrow>
          (\<exists>k3. task_notify_wait True ms k2 = (Ret (1, Some v), k3) \<and> notify_pending (tcb k3 t) = 0)
        \<and> (\<exists>k3. task_notify_wait_resume True k2 = (Ret (1, Some v), k3) \<and> notify_pending (tcb k3 t) = 0))"
proof -
  have "notify_pending (tcb k1 t) = 1" "notify_value (tcb k1 t) = v"
    by (simp_all add: assms(3) task_notify_give_fields)
  then have p: "notify_pending (tcb k2 t) \<noteq> 0" "notify_value (tcb k2 t) = v"
    if "task_const (tcb k2 t) = task_const (tcb k1 t)" for k2
    using task_constD(2,3) [OF that] by simp_all
  have "runnable k1 t \<and> delay_ticks (tcb k1 t) = 0 \<and> highest_next k1" if "state (tcb k t) = TASK_BLOCKED"
    using that by (simp add: assms(3) task_notify_give_eq Let_def runnable_wake delay_wake
        sched_wake_task_highest)
  with task_notify_give_inv [OF assms(1,2)] p notify_wait_pending(1) [of _ t ms]
    notify_wait_pending(2) [of _ t] show ?thesis
    unfolding assms(3) by metis
qed

theorem notify_delivers_witness:
  "\<exists>k3. task_notify_wait True 5 (task_notify_give (Some (Task 0)) 42 demo_kern) = (Ret (1, Some 42), k3)"
proof -
  have "g_current_task (task_notify_give (Some (Task 0)) 42 demo_kern) = Some (Task 0)"
    by (simp add: task_notify_give_eq Let_def demo_kern_def demo_task_def)
  with notify_delivers [OF demo_kern_inv _ refl, of "Task 0" 42 5] show ?thesis
    by (auto simp: unqueued_def)
qed

text \<open>
  A wait without a notification ends after its timeout, also the one called \<open>forever\<close>:
  the call blocks, a tick shorter than the timeout leaves the task blocked, and a tick that
  reaches it makes the task runnable, upon which the call returns 0. With
  \<open>TASK_NOTIFY_WAIT_FOREVER\<close> this happens after 2^32 - 1 milliseconds (49.7 days).
\<close>

theorem notify_wait_times_out:
  assumes "kern_inv k W" and "running k (Task i)" and "i < s_task_count k"
    and "notify_pending (tcb k (Task i)) = 0" and "ms \<noteq> 0"
  shows "\<exists>k1 k2. task_notify_wait out ms k = (Block, k1) \<and> sched_tick_n e k1 = Some k2
     \<and> (e < ms \<longrightarrow> state (tcb k2 (Task i)) = TASK_BLOCKED)
     \<and> (ms \<le> e \<longrightarrow> runnable k2 (Task i) \<and>
          (\<forall>k3. g_current_task k3 = Some (Task i)
                \<and> task_const (tcb k3 (Task i)) = task_const (tcb k2 (Task i)) \<longrightarrow>
             fst (task_notify_wait_resume out k3) = Ret (0, None)))"
proof -
  from notify_wait_block [OF assms(1,2,4,5), of out] obtain k1 where
    k1: "task_notify_wait out ms k = (Block, k1)" "kern_inv k1 W" "s_task_count k1 = s_task_count k"
      "state (tcb k1 (Task i)) = TASK_BLOCKED" "delay_ticks (tcb k1 (Task i)) = ms"
      "notify_pending (tcb k1 (Task i)) = 0" by blast
  obtain k2 where k2: "sched_tick_n e k1 = Some k2" using sched_tick_n_ex [OF k1(2)] by blast
  have i: "i < s_task_count k1" using assms(3) k1(3) by simp
  have tv: "tick_view (tcb k2 (Task i)) = tick_view (tick_task e (tcb k1 (Task i)))"
    by (rule tick_view_tick [OF k1(2) k2 i])
  have np: "notify_pending (tcb k2 (Task i)) = 0" using tick_bg(7) [OF k1(2) k2] k1(6) by simp
  have "state (tcb k2 (Task i)) = TASK_BLOCKED" if "e < ms"
    using tv that k1(4,5) by (simp add: tick_view_def tick_task_def run_state_def split: if_splits)
  moreover have "runnable k2 (Task i)" if "ms \<le> e"
    by (rule tick_expired_runnable [OF k1(2) k2 i])
      (use that k1(4,5) assms(5) in \<open>simp add: expired_def word_pos_iff\<close>)
  moreover have "fst (task_notify_wait_resume out k3) = Ret (0, None)"
    if "g_current_task k3 = Some (Task i)" "task_const (tcb k3 (Task i)) = task_const (tcb k2 (Task i))" for k3
    using that np task_constD(2) [OF that(2)]
    by (simp add: task_notify_wait_resume_def sched_critical_enter_def)
  ultimately show ?thesis using k1(1) k2 by blast
qed

theorem notify_wait_times_out_witness:
  "\<exists>k1 k2. task_notify_wait True TASK_NOTIFY_WAIT_FOREVER demo_kern = (Block, k1)
     \<and> sched_tick_n 0xFFFFFFFF k1 = Some k2 \<and> runnable k2 (Task 0)"
  using notify_wait_times_out [OF demo_kern_inv demo_running, of "TASK_NOTIFY_WAIT_FOREVER" True "0xFFFFFFFF"]
  by (auto simp: demo_kern_def demo_task_def zero_task_def TASK_NOTIFY_WAIT_FOREVER_def)

text \<open>
  C28: A notification given to a task that waits on a semaphore breaks the semaphore's wait
  list. The task becomes runnable but stays the head of the list; its next round of
  \<open>sem_take\<close>, still without a token, links it to itself; and the next task of the same or a
  lower priority that takes the semaphore never returns from the walk over the list, inside
  a critical section.
\<close>

theorem notify_breaks_semaphore_queue:
  assumes inv: "kern_inv k W" and q: "W (SemWaiters i) = [t]"
    and k1: "k1 = task_notify_give (Some t) v k"
    and k2: "wait_head k2 = wait_head k1" "g_current_task k2 = Some t"
    and n: "sem_count s \<le> 0" and take: "sem_take i s k2 = (r, s', k3)"
    and k4: "wait_head k4 = wait_head k3" "wait_next (tcb k4 t) = wait_next (tcb k3 t)"
      "g_current_task k4 = Some u" "u \<noteq> t" "priority (tcb k4 t) \<le> priority (tcb k4 u)"
  shows "runnable k1 t \<and> wait_head k1 (SemWaiters i) = Some t
     \<and> r = Block \<and> wait_next (tcb k3 t) = Some t \<and> fst (sem_take i s k4) = Hang"
proof -
  let ?c = "SemWaiters i"
  have hd: "wait_head k ?c = Some t" using kern_inv_wlist [OF inv, of ?c] q by (simp add: wlist_def)
  have blk: "state (tcb k t) = TASK_BLOCKED" using kern_inv_blocked [OF inv, of t ?c] q by simp
  then have r1: "runnable k1 t" by (simp add: k1 task_notify_give_eq Let_def runnable_wake)
  have wh: "wait_head (sched_wake_task (Some t) j) = wait_head j" for j
    unfolding sched_wake_task_eq
    using wait_view_eqD(1) [OF wait_view_commit] wait_view_eqD(1) [OF wait_view_demote]
    by (simp add: pend_if_switch_def trigger_pendsv_def)
  have h1: "wait_head k1 ?c = Some t" using blk hd by (simp add: k1 task_notify_give_eq Let_def wh)
  let ?k0 = "upd_tcb t untimed_wait (k2\<lparr>primask := True\<rparr>)"
  have "wait_head ?k0 ?c = Some t" using h1 k2(1) by simp
  from wq_insert_head_again [OF this] have
    b: "block_on (sem_wq_insert i) untimed_wait t (k2\<lparr>primask := True\<rparr>)
      = Some (sched_block_locked (set_next t (Some t) (set_next t None (set_next t None ?k0))))"
    by (simp add: block_on_def sem_wq_insert_eq)
  let ?ks = "set_next t (Some t) (set_next t None (set_next t None ?k0))"
  have v: "wait_view (sched_block_locked ?ks) = wait_view ?ks" by (simp add: sched_block_locked_eq)
  from b take n k2(2) have r: "r = Block" "k3 = sched_critical_exit (primask k2) (sched_block_locked ?ks)"
    by (auto simp: sem_take_def sched_critical_enter_def)
  have n3: "wait_next (tcb k3 t) = Some t"
    using wait_view_eqD(2) [OF v, of t] r(2) by simp
  have h3: "wait_head k3 ?c = Some t"
    using wait_view_eqD(1) [OF v] r(2) h1 k2(1) by simp
  have "block_on (sem_wq_insert i) untimed_wait u (k4\<lparr>primask := True\<rparr>) = None"
  proof -
    have "wq_insert ?c u (upd_tcb u untimed_wait (k4\<lparr>primask := True\<rparr>)) = None"
      by (rule wq_insert_hangs) (use k4 n3 h3 in \<open>auto simp: untimed_wait_def\<close>)
    then show ?thesis by (simp add: block_on_def sem_wq_insert_eq)
  qed
  then have "fst (sem_take i s k4) = Hang"
    using n k4(3) by (simp add: sem_take_def sched_critical_enter_def)
  with r1 h1 r(1) n3 show ?thesis by blast
qed

theorem notify_breaks_semaphore_queue_witness:
  "\<exists>k k1 k2 k3 k4. sem_take 0 demo_sem demo_kern = (Block, demo_sem, k)
     \<and> k1 = task_notify_give (Some (Task 0)) 1 k \<and> runnable k1 (Task 0)
     \<and> sem_take 0 demo_sem k2 = (Block, demo_sem, k3) \<and> wait_next (tcb k3 (Task 0)) = Some (Task 0)
     \<and> fst (sem_take 0 demo_sem k4) = Hang"
proof -
  have n: "sem_count demo_sem \<le> 0" by (simp add: demo_sem_def)
  from sem_take_blocks [OF demo_kern_inv demo_running n, of 0] obtain k where
    k: "sem_take 0 demo_sem demo_kern = (Block, demo_sem, k)"
      "kern_inv k (enq (SemWaiters 0) (Task 0) demo_kern (\<lambda>_. []))" by blast
  have q: "enq (SemWaiters 0) (Task 0) demo_kern (\<lambda>_. []) (SemWaiters 0) = [Task 0]" by simp
  let ?k1 = "task_notify_give (Some (Task 0)) 1 k"
  let ?k2 = "?k1\<lparr>g_current_task := Some (Task 0)\<rparr>"
  obtain r s' k3 where t: "sem_take 0 demo_sem ?k2 = (r, s', k3)" by (metis prod_cases3)
  let ?k4 = "demo_kern\<lparr>wait_head := wait_head k3, g_current_task := Some (Task 1),
      tcb := (tcb demo_kern)(Task 0 := (demo_task TASK_READY 1)\<lparr>wait_next := wait_next (tcb k3 (Task 0))\<rparr>)\<rparr>"
  have "runnable ?k1 (Task 0) \<and> wait_head ?k1 (SemWaiters 0) = Some (Task 0)
     \<and> r = Block \<and> wait_next (tcb k3 (Task 0)) = Some (Task 0) \<and> fst (sem_take 0 demo_sem ?k4) = Hang"
    by (rule notify_breaks_semaphore_queue [where u = "Task 1", OF k(2) q refl _ _ n t])
      (simp_all add: demo_kern_def demo_task_def)
  moreover have "s' = demo_sem"
    using t sem_take_count [of 0 demo_sem ?k2] n by simp
  ultimately show ?thesis using k(1) t by blast
qed

end
