(* ===== verification/SoftTimer.thy ===== *)
theory SoftTimer
  imports SchedWakeup
begin

text \<open>
  \<open>kernel/core/timer.c\<close>: software timers. The table \<open>s_timers\<close> is a list of 16 records, a
  callback an address (0 for NULL) and its argument a word. What a callback does is not part
  of the kernel: it is the parameter \<open>call\<close> of \<open>timer_service_tick\<close>, a function on the timer
  table (callbacks may use the timer API) and a state of the application. \<open>now\<close> is the
  value of \<open>systick_get_ms\<close>. \<open>timer_t\<close> clashes with the POSIX name only, here it is \<open>sw_timer\<close>.
\<close>

definition TIMER_MAX_COUNT :: nat where "TIMER_MAX_COUNT = 16"

record sw_timer =
  tm_in_use :: bool
  tm_active :: bool
  tm_auto_reload :: bool
  tm_period_ms :: u32
  tm_deadline_ms :: u32
  tm_callback :: u32
  tm_arg :: u32

definition upd_timer :: "nat \<Rightarrow> (sw_timer \<Rightarrow> sw_timer) \<Rightarrow> sw_timer list \<Rightarrow> sw_timer list" where
  "upd_timer i f ts = ts[i := f (ts ! i)]"

definition timer_create :: "u32 \<Rightarrow> bool \<Rightarrow> u32 \<Rightarrow> u32 \<Rightarrow> sw_timer list \<Rightarrow> kern \<Rightarrow> int \<times> sw_timer list \<times> kern" where
  "timer_create period_ms auto_reload callback arg ts k =
     (if callback = 0 then (-1, ts, k)
      else
        (let (saved, k0) = sched_critical_enter k;
             (handle, ts1) =
               (case find (\<lambda>i. \<not> tm_in_use (ts ! i)) [0..<TIMER_MAX_COUNT] of
                  None \<Rightarrow> (-1, ts)
                | Some i \<Rightarrow>
                    (int i,
                     upd_timer i (\<lambda>t. t\<lparr>tm_in_use := True, tm_active := False,
                        tm_auto_reload := auto_reload, tm_period_ms := period_ms,
                        tm_deadline_ms := 0, tm_callback := callback, tm_arg := arg\<rparr>) ts))
         in (handle, ts1, sched_critical_exit saved k0)))"

definition timer_start :: "int \<Rightarrow> sw_timer list \<Rightarrow> kern \<Rightarrow> sw_timer list \<times> kern" where
  "timer_start handle ts k =
     (if handle < 0 \<or> handle \<ge> int TIMER_MAX_COUNT then (ts, k)
      else
        (let (saved, k0) = sched_critical_enter k; i = nat handle;
             ts1 = (if tm_in_use (ts ! i)
                    then upd_timer i (\<lambda>t. t\<lparr>tm_deadline_ms := systick_get_ms k0 + tm_period_ms t,
                                           tm_active := True\<rparr>) ts
                    else ts)
         in (ts1, sched_critical_exit saved k0)))"

definition timer_stop :: "int \<Rightarrow> sw_timer list \<Rightarrow> kern \<Rightarrow> sw_timer list \<times> kern" where
  "timer_stop handle ts k =
     (if handle < 0 \<or> handle \<ge> int TIMER_MAX_COUNT then (ts, k)
      else
        (let (saved, k0) = sched_critical_enter k; i = nat handle;
             ts1 = (if tm_in_use (ts ! i) then upd_timer i (\<lambda>t. t\<lparr>tm_active := False\<rparr>) ts else ts)
         in (ts1, sched_critical_exit saved k0)))"

definition timer_set_period :: "int \<Rightarrow> u32 \<Rightarrow> sw_timer list \<Rightarrow> kern \<Rightarrow> sw_timer list \<times> kern" where
  "timer_set_period handle period_ms ts k =
     (if handle < 0 \<or> handle \<ge> int TIMER_MAX_COUNT then (ts, k)
      else
        (let (saved, k0) = sched_critical_enter k; i = nat handle;
             ts1 = (if tm_in_use (ts ! i) then upd_timer i (\<lambda>t. t\<lparr>tm_period_ms := period_ms\<rparr>) ts else ts)
         in (ts1, sched_critical_exit saved k0)))"

definition timer_delete :: "int \<Rightarrow> sw_timer list \<Rightarrow> kern \<Rightarrow> sw_timer list \<times> kern" where
  "timer_delete handle ts k =
     (if handle < 0 \<or> handle \<ge> int TIMER_MAX_COUNT then (ts, k)
      else
        (let (saved, k0) = sched_critical_enter k; i = nat handle;
             ts1 = upd_timer i (\<lambda>t. t\<lparr>tm_in_use := False, tm_active := False\<rparr>) ts
         in (ts1, sched_critical_exit saved k0)))"

definition timer_due :: "u32 \<Rightarrow> sw_timer \<Rightarrow> bool" where
  "timer_due now t \<longleftrightarrow> sint (now - tm_deadline_ms t) \<ge> 0"

definition timer_service_one ::
    "(u32 \<Rightarrow> u32 \<Rightarrow> sw_timer list \<times> 'w \<Rightarrow> sw_timer list \<times> 'w) \<Rightarrow> u32 \<Rightarrow> nat \<Rightarrow>
     sw_timer list \<times> 'w \<Rightarrow> sw_timer list \<times> 'w" where
  "timer_service_one call now i s =
     (let t = fst s ! i in
      if \<not> tm_in_use t \<or> \<not> tm_active t then s
      else if timer_due now t then
        (let ts1 = (if tm_auto_reload t
                    then upd_timer i (\<lambda>x. x\<lparr>tm_deadline_ms := tm_deadline_ms x + tm_period_ms x\<rparr>) (fst s)
                    else upd_timer i (\<lambda>x. x\<lparr>tm_active := False\<rparr>) (fst s))
         in if tm_callback t \<noteq> 0 then call (tm_callback t) (tm_arg t) (ts1, snd s) else (ts1, snd s))
      else s)"

definition timer_service_tick ::
    "(u32 \<Rightarrow> u32 \<Rightarrow> sw_timer list \<times> 'w \<Rightarrow> sw_timer list \<times> 'w) \<Rightarrow> u32 \<Rightarrow>
     sw_timer list \<times> 'w \<Rightarrow> sw_timer list \<times> 'w" where
  "timer_service_tick call now s = fold (timer_service_one call now) [0..<TIMER_MAX_COUNT] s"

definition timer_next_one :: "u32 \<Rightarrow> sw_timer list \<Rightarrow> nat \<Rightarrow> u32 \<Rightarrow> u32" where
  "timer_next_one now ts i soonest =
     (if tm_in_use (ts ! i) \<and> tm_active (ts ! i) then
        (let remaining = sint (tm_deadline_ms (ts ! i) - now);
             remaining_ms = (if remaining > 0 then word_of_int remaining else 0)
         in if remaining_ms < soonest then remaining_ms else soonest)
      else soonest)"

definition timer_get_next_ready_in_ms :: "sw_timer list \<Rightarrow> kern \<Rightarrow> u32 \<times> kern" where
  "timer_get_next_ready_in_ms ts k =
     (let now = systick_get_ms k; (saved, k0) = sched_critical_enter k
      in (fold (timer_next_one now ts) [0..<TIMER_MAX_COUNT] 0xFFFFFFFF, sched_critical_exit saved k0))"

subsection \<open>The service routine as a map over the table\<close>

text \<open>Callbacks that only leave a trace.\<close>

definition log_call :: "u32 \<Rightarrow> u32 \<Rightarrow> sw_timer list \<times> (u32 \<times> u32) list \<Rightarrow> sw_timer list \<times> (u32 \<times> u32) list" where
  "log_call cb arg s = (fst s, snd s @ [(cb, arg)])"

definition timer_expires :: "u32 \<Rightarrow> sw_timer \<Rightarrow> bool" where
  "timer_expires now t \<longleftrightarrow> tm_in_use t \<and> tm_active t \<and> timer_due now t"

definition tick_timer :: "u32 \<Rightarrow> sw_timer \<Rightarrow> sw_timer" where
  "tick_timer now t =
     (if timer_expires now t then
        if tm_auto_reload t then t\<lparr>tm_deadline_ms := tm_deadline_ms t + tm_period_ms t\<rparr>
        else t\<lparr>tm_active := False\<rparr>
      else t)"

definition timer_fires :: "u32 \<Rightarrow> sw_timer \<Rightarrow> bool" where
  "timer_fires now t \<longleftrightarrow> timer_expires now t \<and> tm_callback t \<noteq> 0"

lemma timer_service_one_log:
  assumes "i < length ts"
  shows "timer_service_one log_call now i (ts, w)
     = (ts[i := tick_timer now (ts ! i)],
        w @ (if timer_fires now (ts ! i) then [(tm_callback (ts ! i), tm_arg (ts ! i))] else []))"
  using assms
  by (auto simp: timer_service_one_def Let_def log_call_def tick_timer_def timer_fires_def
      timer_expires_def upd_timer_def)

lemma timer_service_fold:
  "n \<le> length ts \<Longrightarrow>
   fold (timer_service_one log_call now) [0..<n] (ts, w)
     = (map (tick_timer now) (take n ts) @ drop n ts,
        w @ map (\<lambda>t. (tm_callback t, tm_arg t)) (filter (timer_fires now) (take n ts)))"
proof (induction n)
  case (Suc n)
  let ?ts = "map (tick_timer now) (take n ts) @ drop n ts"
  from Suc have n: "n < length ts" "n < length ?ts" by simp_all
  have d: "drop n ts = ts ! n # drop (Suc n) ts" using n by (simp add: Cons_nth_drop_Suc)
  have nth: "?ts ! n = ts ! n" using n by (simp add: nth_append min_def)
  have upd: "?ts[n := tick_timer now (ts ! n)]
      = map (tick_timer now) (take (Suc n) ts) @ drop (Suc n) ts"
    using n d by (simp add: list_update_append take_Suc_conv_app_nth min_def)
  have "fold (timer_service_one log_call now) [0..<Suc n] (ts, w)
      = timer_service_one log_call now n (fold (timer_service_one log_call now) [0..<n] (ts, w))"
    by simp
  also have "\<dots> = timer_service_one log_call now n (?ts,
        w @ map (\<lambda>t. (tm_callback t, tm_arg t)) (filter (timer_fires now) (take n ts)))"
    using Suc by simp
  also have "\<dots> = (map (tick_timer now) (take (Suc n) ts) @ drop (Suc n) ts,
        w @ map (\<lambda>t. (tm_callback t, tm_arg t)) (filter (timer_fires now) (take (Suc n) ts)))"
    unfolding timer_service_one_log [OF n(2)] nth upd using n by (simp add: take_Suc_conv_app_nth)
  finally show ?case .
qed simp

subsection \<open>Many ticks\<close>

text \<open>The service routine at \<open>now + 1\<close>, \dots, \<open>now + n\<close>.\<close>

primrec timer_ticks ::
    "u32 \<Rightarrow> nat \<Rightarrow> sw_timer list \<times> (u32 \<times> u32) list \<Rightarrow> sw_timer list \<times> (u32 \<times> u32) list" where
  "timer_ticks now 0 s = s"
| "timer_ticks now (Suc n) s = timer_service_tick log_call (now + of_nat (Suc n)) (timer_ticks now n s)"

lemma timer_service_tick_log:
  "length ts = TIMER_MAX_COUNT \<Longrightarrow> timer_service_tick log_call now (ts, w)
     = (map (tick_timer now) ts, w @ map (\<lambda>t. (tm_callback t, tm_arg t)) (filter (timer_fires now) ts))"
  using timer_service_fold [of TIMER_MAX_COUNT ts now w] by (simp add: timer_service_tick_def)

lemma timer_ticks_length:
  "length (fst s) = TIMER_MAX_COUNT \<Longrightarrow> length (fst (timer_ticks now n s)) = TIMER_MAX_COUNT"
proof (induction n)
  case (Suc n)
  then show ?case
    by (cases "timer_ticks now n s") (simp add: timer_service_tick_log)
qed simp

lemma timer_ticks_nth:
  assumes "length ts = TIMER_MAX_COUNT" and "j < TIMER_MAX_COUNT"
  shows "fst (timer_ticks now (Suc n) (ts, w)) ! j
     = tick_timer (now + of_nat (Suc n)) (fst (timer_ticks now n (ts, w)) ! j)"
proof -
  obtain us v where uv: "timer_ticks now n (ts, w) = (us, v)" by fastforce
  with timer_ticks_length [of "(ts, w)" now n] assms(1) have "length us = TIMER_MAX_COUNT" by simp
  with uv assms(2) show ?thesis by (simp add: timer_service_tick_log)
qed

text \<open>The next multiple of the period is in the window of the signed comparison.\<close>

lemma timer_due_multiple:
  fixes p m :: nat
  assumes "1 \<le> p" "p < 2 ^ 31" and "tm_deadline_ms t = now + of_nat (p * (m div p + 1))"
  shows "timer_due (now + of_nat (Suc m)) t \<longleftrightarrow> p dvd Suc m"
proof -
  define d where "d = int (Suc m) - int (p * (m div p + 1))"
  have m: "m = p * (m div p) + m mod p" "m mod p < p" using assms(1) by simp_all
  then have mi: "int m = int (p * (m div p)) + int (m mod p)" by linarith
  have dd: "d = 1 + int (m mod p) - int p" using mi by (simp add: d_def algebra_simps)
  have "now + of_nat (Suc m) - tm_deadline_ms t = word_of_int d"
    by (simp add: assms(3) d_def)
  moreover have "sint (word_of_int d :: u32) = d"
    by (rule sint32_of_int) (use dd m(2) assms(2) in simp_all)
  ultimately have "timer_due (now + of_nat (Suc m)) t \<longleftrightarrow> 0 \<le> d" by (simp add: timer_due_def)
  also have "\<dots> \<longleftrightarrow> Suc (m mod p) = p" using dd m(2) by linarith
  also have "\<dots> \<longleftrightarrow> p dvd Suc m" using assms(1) m(2) by (auto simp: dvd_eq_mod_eq_0 mod_Suc)
  finally show ?thesis .
qed

lemma timer_start_eq:
  "j < TIMER_MAX_COUNT \<Longrightarrow> timer_start (int j) ts k =
     (if tm_in_use (ts ! j)
      then ts[j := (ts ! j)\<lparr>tm_deadline_ms := s_ticks k + tm_period_ms (ts ! j), tm_active := True\<rparr>]
      else ts, k)"
  by (simp add: timer_start_def kdefs upd_timer_def systick_get_ms_def Let_def)

lemma Suc_div_period:
  fixes p m :: nat
  assumes "1 \<le> p"
  shows "Suc m div p = (if p dvd Suc m then Suc (m div p) else m div p)"
  using assms by (auto simp: div_Suc dvd_eq_mod_eq_0)

lemma timer_armed_invariant:
  assumes len: "length ts = TIMER_MAX_COUNT" and j: "j < TIMER_MAX_COUNT"
    and t: "tm_in_use (ts ! j)" "tm_active (ts ! j)" "tm_auto_reload (ts ! j)"
    and p: "tm_period_ms (ts ! j) = of_nat p" "1 \<le> p" "p < 2 ^ 31"
    and dl: "tm_deadline_ms (ts ! j) = now + of_nat p"
  shows "fst (timer_ticks now n (ts, w)) ! j = (ts ! j)\<lparr>tm_deadline_ms := now + of_nat (p * (n div p + 1))\<rparr>"
proof (induction n)
  case 0
  have "0 div p = 0" by simp
  with dl show ?case by (cases "ts ! j") simp
next
  case (Suc n)
  let ?t = "(ts ! j)\<lparr>tm_deadline_ms := now + of_nat (p * (n div p + 1))\<rparr>"
  have due: "timer_due (now + of_nat (Suc n)) ?t \<longleftrightarrow> p dvd Suc n"
    using p(2,3) by (intro timer_due_multiple) simp_all
  have "of_nat (p * (n div p + 1)) + tm_period_ms (ts ! j) = (of_nat (p * (Suc (n div p) + 1)) :: u32)"
    by (simp add: p(1) algebra_simps)
  then have "tick_timer (now + of_nat (Suc n)) ?t
      = (ts ! j)\<lparr>tm_deadline_ms := now + of_nat (p * (Suc n div p + 1))\<rparr>"
    using due t by (simp add: tick_timer_def timer_expires_def Suc_div_period [OF p(2)] add.assoc
        del: of_nat_Suc of_nat_add of_nat_mult)
  then show ?case unfolding timer_ticks_nth [OF len j] Suc.IH .
qed

subsection \<open>Properties\<close>

text \<open>
  C7: Auto-reload timers are exact and drift-free. A timer of period \<open>p\<close> (0 < p < 2^31) started
  when the clock shows \<open>now\<close> expires, among the ticks at \<open>now + 1\<close>, \<open>now + 2\<close>, \dots, at those of number
  \<open>p\<close>, \<open>2p\<close>, \<open>3p\<close>, \dots{} and at no other, for ever, whatever the other timers do and also across the
  wrap of the 32-bit clock.
\<close>

theorem timer_periodic_exact:
  assumes "length ts = TIMER_MAX_COUNT" and "j < TIMER_MAX_COUNT"
    and "tm_in_use (ts ! j)" and "tm_auto_reload (ts ! j)"
    and "tm_period_ms (ts ! j) = of_nat p" and "1 \<le> p" and "p < 2 ^ 31"
    and "timer_start (int j) ts k = (ts', k')"
  shows "timer_expires (s_ticks k + of_nat (Suc n)) (fst (timer_ticks (s_ticks k) n (ts', w)) ! j)
     \<longleftrightarrow> p dvd Suc n"
proof -
  let ?now = "s_ticks k"
  have ts': "ts' = ts[j := (ts ! j)\<lparr>tm_deadline_ms := ?now + of_nat p, tm_active := True\<rparr>]"
    using timer_start_eq [OF assms(2), of ts k] assms(3,5,8) by simp
  have nth: "ts' ! j = (ts ! j)\<lparr>tm_deadline_ms := ?now + of_nat p, tm_active := True\<rparr>"
    using ts' assms(1,2) by simp
  have "fst (timer_ticks ?now n (ts', w)) ! j
      = (ts' ! j)\<lparr>tm_deadline_ms := ?now + of_nat (p * (n div p + 1))\<rparr>"
    by (rule timer_armed_invariant) (use assms nth ts' in simp_all)
  moreover have "timer_due (?now + of_nat (Suc n)) ((ts' ! j)\<lparr>tm_deadline_ms := ?now + of_nat (p * (n div p + 1))\<rparr>)
      \<longleftrightarrow> p dvd Suc n"
    using assms(6,7) by (intro timer_due_multiple) simp_all
  ultimately show ?thesis using assms(3) nth by (simp add: timer_expires_def)
qed

definition demo_timer :: sw_timer where
  "demo_timer = \<lparr>tm_in_use = True, tm_active = False, tm_auto_reload = True, tm_period_ms = 5,
     tm_deadline_ms = 0, tm_callback = 1, tm_arg = 7\<rparr>"

definition demo_timers :: "sw_timer list" where
  "demo_timers = replicate TIMER_MAX_COUNT demo_timer"

theorem timer_periodic_exact_witness:
  "timer_expires (s_ticks demo_kern + 10) (fst (timer_ticks (s_ticks demo_kern) 9
       (fst (timer_start 3 demo_timers demo_kern), [])) ! 3)
   \<and> \<not> timer_expires (s_ticks demo_kern + 9) (fst (timer_ticks (s_ticks demo_kern) 8
       (fst (timer_start 3 demo_timers demo_kern), [])) ! 3)"
proof -
  have s: "timer_start (int 3) demo_timers demo_kern
      = (fst (timer_start 3 demo_timers demo_kern), snd (timer_start 3 demo_timers demo_kern))" by simp
  have *: "length demo_timers = TIMER_MAX_COUNT" "3 < TIMER_MAX_COUNT" "tm_in_use (demo_timers ! 3)"
    "tm_auto_reload (demo_timers ! 3)" "tm_period_ms (demo_timers ! 3) = of_nat 5" "(1 :: nat) \<le> 5" "(5 :: nat) < 2 ^ 31"
    by (simp_all add: demo_timers_def demo_timer_def TIMER_MAX_COUNT_def)
  from timer_periodic_exact [OF * s, of 9 "[]"] timer_periodic_exact [OF * s, of 8 "[]"]
  show ?thesis by simp
qed

text \<open>
  One service tick, with callbacks that only leave a trace, treats each timer once and
  on its own: the callbacks of the timers that expire run in the order of the table, each
  with its own argument; an expired auto-reload timer is re-armed one period after its old
  deadline, an expired one-shot timer is stopped, every other timer is untouched.
\<close>

theorem timer_service_is_map:
  assumes "length ts = TIMER_MAX_COUNT"
  shows "timer_service_tick log_call now (ts, w)
     = (map (tick_timer now) ts,
        w @ map (\<lambda>t. (tm_callback t, tm_arg t)) (filter (timer_fires now) ts))"
  by (rule timer_service_tick_log [OF assms])

theorem timer_service_is_map_witness:
  "snd (timer_service_tick log_call 9 (demo_timers [2 := demo_timer\<lparr>tm_active := True, tm_deadline_ms := 9\<rparr>], []))
     = [(1, 7)]"
proof -
  have "length (demo_timers [2 := demo_timer\<lparr>tm_active := True, tm_deadline_ms := 9\<rparr>]) = TIMER_MAX_COUNT"
    by (simp add: demo_timers_def)
  from timer_service_is_map [OF this, of 9 "[]"] show ?thesis
    by (simp add: demo_timers_def TIMER_MAX_COUNT_def numeral_eq_Suc timer_fires_def timer_expires_def
        timer_due_def demo_timer_def)
qed

lemma timer_next_safe:
  "\<exists>m. timer_get_next_ready_in_ms ts k = (m, k)
     \<and> (\<forall>e i. e < m \<and> i < TIMER_MAX_COUNT \<longrightarrow> \<not> timer_expires (s_ticks k + e) (ts ! i))"
proof -
  let ?now = "s_ticks k"
  let ?f = "timer_next_one ?now ts"
  have fold: "\<forall>i<n. tm_in_use (ts ! i) \<and> tm_active (ts ! i) \<longrightarrow>
      fold ?f [0..<n] m \<le> (if sint (tm_deadline_ms (ts ! i) - ?now) > 0
        then tm_deadline_ms (ts ! i) - ?now else 0)" for n m
  proof (induction n)
    case (Suc n)
    have "?f n r \<le> r" for r by (auto simp: timer_next_one_def Let_def not_less)
    moreover have "?f n r \<le> (if sint (tm_deadline_ms (ts ! n) - ?now) > 0
        then tm_deadline_ms (ts ! n) - ?now else 0)" if "tm_in_use (ts ! n) \<and> tm_active (ts ! n)" for r
      using that by (auto simp: timer_next_one_def Let_def not_less)
    ultimately show ?case using Suc by (auto simp: less_Suc_eq split del: if_split intro: order.trans)
  qed simp
  let ?m = "fold ?f [0..<TIMER_MAX_COUNT] 0xFFFFFFFF"
  have "\<not> timer_expires (?now + e) (ts ! i)" if e: "e < ?m" and i: "i < TIMER_MAX_COUNT" for e i
  proof
    assume ex: "timer_expires (?now + e) (ts ! i)"
    let ?r = "tm_deadline_ms (ts ! i) - ?now"
    from fold [of TIMER_MAX_COUNT "0xFFFFFFFF"] i ex have
      "?m \<le> (if sint ?r > 0 then ?r else 0)" by (simp add: timer_expires_def)
    with e have r: "sint ?r > 0" "e < ?r" by (auto split: if_splits)
    have "unat ?r < 2 ^ 31" using r(1) sint32_nonneg_iff [of ?r] by simp
    then have r31: "sint ?r = int (unat ?r)" by (rule sint32_small)
    have er: "unat e < unat ?r" using r(2) by (simp add: word_less_nat_alt)
    have "?now + e - tm_deadline_ms (ts ! i) = e - ?r" by simp
    also have "e - ?r = word_of_int (int (unat e) - int (unat ?r))" by simp
    finally have w: "?now + e - tm_deadline_ms (ts ! i) = word_of_int (int (unat e) - int (unat ?r))" .
    have sd: "sint (word_of_int (int (unat e) - int (unat ?r)) :: u32) = int (unat e) - int (unat ?r)"
      by (rule sint32_diff_neg [OF er \<open>unat ?r < 2 ^ 31\<close>])
    have "sint (?now + e - tm_deadline_ms (ts ! i)) < 0" unfolding w sd using er by linarith
    with ex show False by (simp add: timer_expires_def timer_due_def)
  qed
  then show ?thesis
    by (simp add: timer_get_next_ready_in_ms_def kdefs systick_get_ms_def Let_def)
qed

text \<open>
  \<open>timer_get_next_ready_in_ms\<close> changes nothing, and sleeping for less than the time it
  returns misses no timer: none is due before. A timer whose deadline has come makes it 0.
\<close>

theorem timer_next_ready_safe:
  "\<exists>m. timer_get_next_ready_in_ms ts k = (m, k)
     \<and> (\<forall>e i. e < m \<and> i < TIMER_MAX_COUNT \<longrightarrow> \<not> timer_expires (s_ticks k + e) (ts ! i))"
  by (rule timer_next_safe)

definition demo_armed :: "sw_timer list" where
  "demo_armed = demo_timers[3 := demo_timer\<lparr>tm_active := True, tm_deadline_ms := 5\<rparr>]"

theorem timer_next_ready_safe_witness:
  "fst (timer_get_next_ready_in_ms demo_armed demo_kern) = 5
     \<and> \<not> timer_expires (s_ticks demo_kern + 4) (demo_armed ! 3)"
proof -
  have "fst (timer_get_next_ready_in_ms demo_armed demo_kern) = 5"
    by code_simp
  then show ?thesis using timer_next_ready_safe [of demo_armed demo_kern]
    by (auto simp: TIMER_MAX_COUNT_def)
qed

end
