(* ===== verification/Systick.thy ===== *)
theory Systick
  imports SoftTimer
begin

text \<open>
  \<open>drivers/*/systick.c\<close> and the idle loop of \<open>kernel/core/scheduler.c\<close>: the tick source and
  tickless idle. The two boards' files are the same code; they differ in the counter clocks
  per millisecond, which is the parameter \<open>tpm\<close>, and in the clock source bit.

  The SysTick timer follows the architecture: an enabled counter at 0 reloads on the next
  clock, reaching 0 sets COUNTFLAG, reading the control register clears it, writing the
  counter clears counter and flag. How many counter clocks pass before the core wakes from
  \<open>wfi\<close> is the hardware's choice and an argument of the sleep. \<open>hook\<close> is the weak function
  \<open>systick_isr_hook\<close> of the application and \<open>call\<close> what the timer callbacks do.
\<close>

record systick_regs =
  CTRL :: u32
  COUNTFLAG :: bool
  RVR :: u32
  CVR :: u32

record 'w sys =
  kernel :: kern
  soft_timers :: "sw_timer list \<times> 'w"
  systick :: systick_regs
  s_tickless_active :: bool

definition SYST_CSR_ENABLE :: u32 where "SYST_CSR_ENABLE = 1"
definition SYST_CSR_TICKINT :: u32 where "SYST_CSR_TICKINT = 2"
definition SYST_CSR_CLKSOURCE :: u32 where "SYST_CSR_CLKSOURCE = 4"
definition TICKLESS_MAX_RELOAD :: u32 where "TICKLESS_MAX_RELOAD = 0x00FFFFFF"
definition TICKLESS_MAX_SLEEP_MS :: u32 where "TICKLESS_MAX_SLEEP_MS = 1000"

definition STM32_TICKS_PER_MS :: u32 where "STM32_TICKS_PER_MS = (480000000 div 8) div 1000"
definition K64F_TICKS_PER_MS :: u32 where "K64F_TICKS_PER_MS = 120000000 div 1000"

subsection \<open>The timer\<close>

definition write_csr :: "u32 \<Rightarrow> systick_regs \<Rightarrow> systick_regs" where
  "write_csr v r = r\<lparr>CTRL := v AND 7\<rparr>"

definition read_csr :: "systick_regs \<Rightarrow> u32 \<times> systick_regs" where
  "read_csr r = (CTRL r OR (if COUNTFLAG r then 0x10000 else 0), r\<lparr>COUNTFLAG := False\<rparr>)"

definition write_rvr :: "u32 \<Rightarrow> systick_regs \<Rightarrow> systick_regs" where
  "write_rvr v r = r\<lparr>RVR := v AND 0x00FFFFFF\<rparr>"

definition write_cvr :: "systick_regs \<Rightarrow> systick_regs" where
  "write_cvr r = r\<lparr>CVR := 0, COUNTFLAG := False\<rparr>"

definition systick_clock :: "systick_regs \<Rightarrow> systick_regs" where
  "systick_clock r =
     (if CTRL r AND SYST_CSR_ENABLE = 0 then r
      else if CVR r = 0 then r\<lparr>CVR := RVR r\<rparr>
      else r\<lparr>CVR := CVR r - 1, COUNTFLAG := COUNTFLAG r \<or> CVR r = 1\<rparr>)"

subsection \<open>The driver\<close>

definition stm32_systick_init :: "u32 \<Rightarrow> systick_regs \<Rightarrow> systick_regs" where
  "stm32_systick_init core_clock_hz r =
     write_csr (SYST_CSR_TICKINT OR SYST_CSR_ENABLE)
       (write_cvr (write_rvr (core_clock_hz div 8 div 1000 - 1) (write_csr 0 r)))"

definition k64f_systick_init :: "u32 \<Rightarrow> systick_regs \<Rightarrow> systick_regs" where
  "k64f_systick_init core_clock_hz r =
     write_csr (SYST_CSR_CLKSOURCE OR SYST_CSR_TICKINT OR SYST_CSR_ENABLE)
       (write_cvr (write_rvr (core_clock_hz div 1000 - 1) (write_csr 0 r)))"

definition systick_advance_ms :: "u32 \<Rightarrow> 'w sys \<Rightarrow> 'w sys" where
  "systick_advance_ms ms s = s\<lparr>kernel := (kernel s)\<lparr>s_ticks := s_ticks (kernel s) + ms\<rparr>\<rparr>"

definition reload_for :: "u32 \<Rightarrow> u32 \<Rightarrow> u32" where
  "reload_for tpm max_ms =
     (let reload_ticks = max_ms * tpm
      in if reload_ticks = 0 \<or> TICKLESS_MAX_RELOAD < reload_ticks then TICKLESS_MAX_RELOAD
         else reload_ticks)"

definition program_systick :: "u32 \<Rightarrow> systick_regs \<Rightarrow> systick_regs" where
  "program_systick reload r0 =
     (let (v, r) = read_csr r0;
          r = write_csr (v AND NOT SYST_CSR_ENABLE) r;
          r = write_rvr (reload - 1) r;
          r = write_cvr r;
          (v, r) = read_csr r
      in write_csr (v OR (SYST_CSR_ENABLE OR SYST_CSR_TICKINT)) r)"

text \<open>The two halves of \<open>systick_tickless_sleep\<close>: up to the \<open>wfi\<close>, and from it on.\<close>

definition tickless_arm :: "u32 \<Rightarrow> u32 \<Rightarrow> 'w sys \<Rightarrow> 'w sys" where
  "tickless_arm tpm max_ms s =
     s\<lparr>systick := program_systick (reload_for tpm max_ms) (systick s), s_tickless_active := True\<rparr>"

definition tickless_wake :: "('w sys \<Rightarrow> 'w sys) \<Rightarrow> u32 \<Rightarrow> u32 \<Rightarrow> 'w sys \<Rightarrow> u32 \<times> 'w sys" where
  "tickless_wake hook tpm max_ms s =
     (let s = s\<lparr>s_tickless_active := False\<rparr>;
          reload_ticks = reload_for tpm max_ms;
          (v, r) = read_csr (systick s);
          elapsed_ticks = (if v AND 0x10000 \<noteq> 0 then reload_ticks else (reload_ticks - 1) - CVR r);
          elapsed_ms = elapsed_ticks div tpm;
          elapsed_ms = (if elapsed_ms = 0 then 1 else elapsed_ms);
          s = s\<lparr>systick := program_systick tpm r\<rparr>;
          s = systick_advance_ms elapsed_ms s
      in (elapsed_ms, hook s))"

definition systick_tickless_sleep ::
  "('w sys \<Rightarrow> 'w sys) \<Rightarrow> u32 \<Rightarrow> nat \<Rightarrow> u32 \<Rightarrow> 'w sys \<Rightarrow> u32 \<times> 'w sys" where
  "systick_tickless_sleep hook tpm clocks max_ms s =
     (if max_ms = 0 then (0, s)
      else let s = tickless_arm tpm max_ms s;
               s = s\<lparr>systick := (systick_clock ^^ clocks) (systick s)\<rparr>
           in tickless_wake hook tpm max_ms s)"

definition k64f_systick_tickless_sleep :: "('w sys \<Rightarrow> 'w sys) \<Rightarrow> nat \<Rightarrow> u32 \<Rightarrow> 'w sys \<Rightarrow> u32 \<times> 'w sys" where
  "k64f_systick_tickless_sleep hook = systick_tickless_sleep hook K64F_TICKS_PER_MS"

definition sched_is_started :: "kern \<Rightarrow> bool" where
  "sched_is_started k \<longleftrightarrow> s_started k \<noteq> 0"

definition service_timers ::
  "(u32 \<Rightarrow> u32 \<Rightarrow> sw_timer list \<times> 'w \<Rightarrow> sw_timer list \<times> 'w) \<Rightarrow> 'w sys \<Rightarrow> 'w sys" where
  "service_timers call s =
     s\<lparr>soft_timers := timer_service_tick call (systick_get_ms (kernel s)) (soft_timers s)\<rparr>"

definition SysTick_Handler ::
  "(u32 \<Rightarrow> u32 \<Rightarrow> sw_timer list \<times> 'w \<Rightarrow> sw_timer list \<times> 'w) \<Rightarrow> ('w sys \<Rightarrow> 'w sys) \<Rightarrow> 'w sys
   \<Rightarrow> 'w sys option" where
  "SysTick_Handler call hook s =
     (if s_tickless_active s then Some s
      else let s = systick_advance_ms 1 s in
        case (if sched_is_started (kernel s) then sched_tick (kernel s) else Some (kernel s)) of
          None \<Rightarrow> None
        | Some k \<Rightarrow> Some (hook (service_timers call (s\<lparr>kernel := k\<rparr>))))"

text \<open>The polling loop of \<open>systick_delay_ms\<close> over the clock values it reads; \<open>None\<close>: it
  still spins after the last of them.\<close>

fun delay_poll :: "u32 \<Rightarrow> u32 \<Rightarrow> u32 list \<Rightarrow> nat option" where
  "delay_poll start ms [] = None"
| "delay_poll start ms (t # ts) =
     (if t - start < ms then map_option Suc (delay_poll start ms ts) else Some 0)"

definition systick_delay_ms :: "u32 \<Rightarrow> u32 list \<Rightarrow> nat option" where
  "systick_delay_ms ms ts = (case ts of [] \<Rightarrow> None | start # ts \<Rightarrow> delay_poll start ms ts)"

subsection \<open>The idle loop\<close>

datatype idle_step = Wfi | Slept u32

text \<open>One round of the \<open>for\<close> loop of \<open>idle_task_func\<close>.\<close>

definition idle_budget :: "'w sys \<Rightarrow> u32" where
  "idle_budget s =
     (let (next_task_ms, k) = sched_get_next_wakeup_ms (kernel s);
          (next_timer_ms, k) = timer_get_next_ready_in_ms (fst (soft_timers s)) k;
          b = (if next_task_ms < next_timer_ms then next_task_ms else next_timer_ms)
      in if TICKLESS_MAX_SLEEP_MS < b then TICKLESS_MAX_SLEEP_MS else b)"

definition idle_round ::
  "(u32 \<Rightarrow> u32 \<Rightarrow> sw_timer list \<times> 'w \<Rightarrow> sw_timer list \<times> 'w) \<Rightarrow> ('w sys \<Rightarrow> 'w sys) \<Rightarrow> u32 \<Rightarrow> nat
   \<Rightarrow> 'w sys \<Rightarrow> (idle_step \<times> 'w sys) option" where
  "idle_round call hook tpm clocks s0 =
     (let s = s0\<lparr>kernel := (kernel s0)\<lparr>s_idle_loop_count := s_idle_loop_count (kernel s0) + 1\<rparr>\<rparr> in
      if s_tickless_idle_enabled (kernel s) = 0 then Some (Wfi, s)
      else let b = idle_budget s in
        if b = 0 then Some (Wfi, s)
        else let (elapsed_ms, s) = systick_tickless_sleep hook tpm clocks b s in
          case sched_tick_n elapsed_ms (kernel s) of
            None \<Rightarrow> None
          | Some k \<Rightarrow> Some (Slept elapsed_ms, service_timers call (s\<lparr>kernel := k\<rparr>)))"

definition k64f_SysTick_Handler ::
  "(u32 \<Rightarrow> u32 \<Rightarrow> sw_timer list \<times> 'w \<Rightarrow> sw_timer list \<times> 'w) \<Rightarrow> ('w sys \<Rightarrow> 'w sys) \<Rightarrow> 'w sys
   \<Rightarrow> 'w sys option" where
  "k64f_SysTick_Handler = SysTick_Handler"

subsection \<open>Counting clocks\<close>

lemma read_write_csr_simps [simp]:
  "COUNTFLAG (snd (read_csr r)) = False" "CVR (snd (read_csr r)) = CVR r" "RVR (snd (read_csr r)) = RVR r"
  "CTRL (snd (read_csr r)) = CTRL r"
  "COUNTFLAG (write_csr v r) = COUNTFLAG r" "CVR (write_csr v r) = CVR r" "RVR (write_csr v r) = RVR r"
  "CTRL (write_csr v r) = v AND 7"
  by (simp_all add: read_csr_def write_csr_def)

lemma countflag_read: "fst (read_csr r) AND 0x10000 \<noteq> 0 \<longleftrightarrow> COUNTFLAG r \<or> bit (CTRL r) 16"
proof -
  have "(x AND 0x10000 \<noteq> 0) = bit x 16" for x :: u32
    using and_exp_eq_0_iff_not_bit [of x 16] by simp
  then show ?thesis by (auto simp: read_csr_def bit_simps)
qed

lemma program_systick_simps:
  "CVR (program_systick reload r) = 0" "COUNTFLAG (program_systick reload r) = False"
  "RVR (program_systick reload r) = (reload - 1) AND 0x00FFFFFF"
  by (simp_all add: program_systick_def Let_def case_prod_unfold write_cvr_def write_rvr_def)

lemma program_systick_CTRL:
  "CTRL (program_systick reload r) AND SYST_CSR_ENABLE \<noteq> 0"
  "\<not> bit (CTRL (program_systick reload r)) 16"
proof -
  obtain v where v: "CTRL (program_systick reload r) = (v OR 3) AND 7"
    by (simp add: program_systick_def Let_def case_prod_unfold SYST_CSR_ENABLE_def SYST_CSR_TICKINT_def)
  have "bit ((v OR 3) AND 7) 0" by (simp add: bit_simps bit_0 even_and_iff even_or_iff)
  then show "CTRL (program_systick reload r) AND SYST_CSR_ENABLE \<noteq> 0"
    using and_exp_eq_0_iff_not_bit [of "(v OR 3) AND 7" 0] by (simp add: v SYST_CSR_ENABLE_def)
  show "\<not> bit (CTRL (program_systick reload r)) 16"
    by (simp add: v bit_simps)
qed

text \<open>After \<open>n\<close> clocks a counter that was started at 0 with reload value \<open>R\<close>.\<close>

lemma systick_count:
  assumes "CTRL r AND SYST_CSR_ENABLE \<noteq> 0" and "CVR r = 0" and "\<not> COUNTFLAG r" and "0 < unat (RVR r)"
    and "n \<le> Suc (unat (RVR r))" and "0 < n"
  shows "(systick_clock ^^ n) r = r\<lparr>CVR := of_nat (Suc (unat (RVR r)) - n), COUNTFLAG := n = Suc (unat (RVR r))\<rparr>"
  using assms(5,6)
proof (induction n)
  case (Suc n)
  show ?case
  proof (cases "n = 0")
    case True
    then show ?thesis using assms by (simp add: systick_clock_def)
  next
    case False
    define c where "c = Suc (unat (RVR r)) - n"
    have c: "0 < c" "c < 2 ^ 32" "Suc (unat (RVR r)) - Suc n = c - 1"
      using Suc.prems unat32_less [of "RVR r"] False by (auto simp: c_def)
    then have nz: "(of_nat c :: u32) \<noteq> 0" by (simp add: word_unat_eq_iff unat_of_nat)
    have one: "(of_nat c :: u32) = 1 \<longleftrightarrow> c = 1" using c by (simp add: word_unat_eq_iff unat_of_nat)
    have "c = Suc (c - 1)" using c by simp
    then have p: "(of_nat c - 1 :: u32) = of_nat (c - 1)" by (metis add_diff_cancel_left' of_nat_Suc)
    have e: "c = 1 \<longleftrightarrow> Suc n = Suc (unat (RVR r))" using Suc.prems by (auto simp: c_def)
    have "(systick_clock ^^ Suc n) r = systick_clock (r\<lparr>CVR := of_nat c, COUNTFLAG := n = Suc (unat (RVR r))\<rparr>)"
      using Suc False by (simp add: c_def)
    also have "\<dots> = r\<lparr>CVR := of_nat (c - 1), COUNTFLAG := Suc n = Suc (unat (RVR r))\<rparr>"
      using assms(1) nz one p e Suc.prems by (auto simp: systick_clock_def)
    finally show ?thesis unfolding c(3) .
  qed
qed simp

lemma countflag_sticky:
  "COUNTFLAG r \<Longrightarrow> COUNTFLAG ((systick_clock ^^ n) r)"
  by (induction n) (simp_all add: systick_clock_def)

lemma systick_clock_CTRL: "CTRL ((systick_clock ^^ n) r) = CTRL r"
  by (induction n) (simp_all add: systick_clock_def)

text \<open>Counter clocks and milliseconds a sleep accounts for, when the core wakes after \<open>n\<close> clocks.\<close>

definition slept_clocks :: "nat \<Rightarrow> nat \<Rightarrow> nat" where
  "slept_clocks reload n = (if n < reload then n - 1 else reload)"

definition slept_ms :: "nat \<Rightarrow> nat \<Rightarrow> nat \<Rightarrow> nat" where
  "slept_ms tpm reload n = max 1 (slept_clocks reload n div tpm)"

lemma and_24_eq: "unat (x :: u32) < 2 ^ 24 \<Longrightarrow> x AND 0x00FFFFFF = x"
proof -
  assume "unat x < 2 ^ 24"
  then have "take_bit 24 x = x"
    by (simp add: word_unat_eq_iff unsigned_take_bit_eq take_bit_nat_eq_self)
  moreover have "x AND mask 24 = take_bit 24 x" by (simp add: take_bit_eq_mask)
  moreover have "(mask 24 :: u32) = 0x00FFFFFF" by (simp add: mask_eq_exp_minus_1)
  ultimately show ?thesis by simp
qed

lemma reload_for_bounds: "0 < unat (reload_for tpm m)" "unat (reload_for tpm m) < 2 ^ 24"
proof -
  have "reload_for tpm m \<le> TICKLESS_MAX_RELOAD"
    by (auto simp: reload_for_def Let_def TICKLESS_MAX_RELOAD_def not_less)
  then show "unat (reload_for tpm m) < 2 ^ 24" by (simp add: TICKLESS_MAX_RELOAD_def word_le_nat_alt)
  have "reload_for tpm m \<noteq> 0" by (auto simp: reload_for_def Let_def TICKLESS_MAX_RELOAD_def)
  then show "0 < unat (reload_for tpm m)" by (simp add: unat_gt_0)
qed

lemma reload_for_small:
  assumes "m \<noteq> 0" and "unat m * unat tpm < 2 ^ 32" and "tpm \<noteq> 0"
  shows "unat (reload_for tpm m) = min (unat m * unat tpm) 0xFFFFFF"
proof -
  have u: "unat (m * tpm) = unat m * unat tpm" using assms(2) by (simp add: unat_word_ariths)
  moreover have "unat m * unat tpm \<noteq> 0" using assms(1,3) by (simp add: unat_eq_0)
  ultimately have "m * tpm \<noteq> 0" by (metis unat_0)
  with u show ?thesis
    by (simp add: reload_for_def Let_def TICKLESS_MAX_RELOAD_def word_less_nat_alt min_def)
qed

text \<open>
  The clocks the wake-up computes from the counter, after \<open>n\<close> clocks of an armed counter: the
  whole reload when the counter has run out, else what it has counted down.
\<close>

lemma tickless_elapsed:
  assumes n: "0 < n" and L: "1 < unat (reload_for tpm m)"
    and r: "r = (systick_clock ^^ n) (program_systick (reload_for tpm m) (systick s))"
  shows "unat (if fst (read_csr r) AND 0x10000 \<noteq> 0 then reload_for tpm m else (reload_for tpm m - 1) - CVR r)
    = slept_clocks (unat (reload_for tpm m)) n"
proof -
  let ?L = "unat (reload_for tpm m)"
  let ?pr = "program_systick (reload_for tpm m) (systick s)"
  have u1: "unat (reload_for tpm m - 1) = ?L - 1"
    using L by (subst unat_sub) (simp_all add: word_le_nat_alt)
  then have R: "unat (RVR ?pr) = ?L - 1"
    using reload_for_bounds(2) [of tpm m] by (subst program_systick_simps(3), subst and_24_eq) simp_all
  have en: "CTRL ?pr AND SYST_CSR_ENABLE \<noteq> 0" by (rule program_systick_CTRL)
  have b16: "\<not> bit (CTRL r) 16" by (simp add: r systick_clock_CTRL program_systick_CTRL)
  have cnt: "(systick_clock ^^ k) ?pr = ?pr\<lparr>CVR := of_nat (?L - k), COUNTFLAG := k = ?L\<rparr>"
    if "0 < k" "k \<le> ?L" for k
    using systick_count [OF en program_systick_simps(1), of k] R L that
    by (simp add: program_systick_simps(2))
  show ?thesis
  proof (cases "n < ?L")
    case True
    have c: "CVR r = of_nat (?L - n)" "\<not> COUNTFLAG r" using cnt [of n] n True r by simp_all
    have uc: "unat (CVR r) = ?L - n"
      using c(1) unat32_less [of "reload_for tpm m"] by (simp add: unat_of_nat)
    have "unat ((reload_for tpm m - 1) - CVR r) = (?L - 1) - (?L - n)"
      using u1 uc n True by (subst unat_sub) (simp_all add: word_le_nat_alt)
    then show ?thesis using True c(2) b16 n by (simp add: countflag_read slept_clocks_def)
  next
    case False
    have "COUNTFLAG ((systick_clock ^^ ?L) ?pr)" using cnt [of ?L] L by simp
    then have "COUNTFLAG ((systick_clock ^^ (n - ?L)) ((systick_clock ^^ ?L) ?pr))" by (rule countflag_sticky)
    also have "(systick_clock ^^ (n - ?L)) ((systick_clock ^^ ?L) ?pr) = r"
      using False r by (metis comp_apply funpow_add le_add_diff_inverse2 not_le)
    finally show ?thesis using False by (simp add: countflag_read slept_clocks_def)
  qed
qed

lemma at_least_one_word: "(if q = 0 then 1 else q) = of_nat (max 1 (unat q))" for q :: u32
proof (cases "q = 0")
  case False
  then have "0 < unat q" by (simp add: unat_gt_0)
  then have "max 1 (unat q) = unat q" by simp
  then show ?thesis using False by simp
qed simp

lemma tickless_sleep_eq:
  assumes "m \<noteq> 0" and "0 < n" and "1 < unat tpm" and "1 < unat (reload_for tpm m)"
  obtains r where
    "systick_tickless_sleep hook tpm n m s =
      (of_nat (slept_ms (unat tpm) (unat (reload_for tpm m)) n),
       hook (systick_advance_ms (of_nat (slept_ms (unat tpm) (unat (reload_for tpm m)) n))
         (s\<lparr>s_tickless_active := False, systick := program_systick tpm r\<rparr>)))"
proof -
  let ?L = "unat (reload_for tpm m)"
  let ?r = "(systick_clock ^^ n) (program_systick (reload_for tpm m) (systick s))"
  define el where "el = (if fst (read_csr ?r) AND 0x10000 \<noteq> 0 then reload_for tpm m
      else (reload_for tpm m - 1) - CVR ?r)"
  have "unat el = slept_clocks ?L n" unfolding el_def by (rule tickless_elapsed [OF assms(2,4) refl])
  then have "unat (el div tpm) = slept_clocks ?L n div unat tpm" by (simp add: unat_div)
  then have ms: "(if el div tpm = 0 then 1 else el div tpm) = of_nat (slept_ms (unat tpm) ?L n)"
    unfolding at_least_one_word by (simp only: slept_ms_def)
  have rc: "CVR ?r = CVR (snd (read_csr ?r))" by simp
  have "systick_tickless_sleep hook tpm n m s =
    (of_nat (slept_ms (unat tpm) ?L n),
     hook (systick_advance_ms (of_nat (slept_ms (unat tpm) ?L n))
       (s\<lparr>s_tickless_active := False, systick := program_systick tpm (snd (read_csr ?r))\<rparr>)))"
    using assms(1) ms unfolding el_def rc
    by (simp add: systick_tickless_sleep_def tickless_arm_def tickless_wake_def Let_def case_prod_unfold
        split del: if_split cong del: if_weak_cong)
  then show ?thesis by (rule that)
qed

lemma kern_inv_clock [simp]:
  "kern_inv (k\<lparr>s_ticks := v\<rparr>) W = kern_inv k W"
  "kern_inv (k\<lparr>s_idle_loop_count := n\<rparr>) W = kern_inv k W"
  by (rule kern_inv_cong; simp add: wait_view_def)+

lemma slept_ms_bounds:
  assumes "0 < tpm" and "0 < n" and "reload \<le> m * tpm" and "0 < m"
  shows "0 < slept_ms tpm reload n" "slept_ms tpm reload n \<le> m"
proof -
  have "slept_clocks reload n \<le> reload" using assms(2) by (auto simp: slept_clocks_def)
  then have "slept_clocks reload n div tpm \<le> m * tpm div tpm" using assms(3) by (intro div_le_mono) simp
  then show "slept_ms tpm reload n \<le> m" using assms(1,4) by (simp add: slept_ms_def)
qed (simp add: slept_ms_def)

lemma idle_budget_bounds:
  "idle_budget s \<le> TICKLESS_MAX_SLEEP_MS"
  "idle_budget s \<le> fst (sched_get_next_wakeup_ms (kernel s))"
  "idle_budget s \<le> fst (timer_get_next_ready_in_ms (fst (soft_timers s)) (kernel s))"
proof -
  have e: "snd (sched_get_next_wakeup_ms (kernel s)) = kernel s" by (simp add: next_wakeup_eq)
  show "idle_budget s \<le> TICKLESS_MAX_SLEEP_MS"
    "idle_budget s \<le> fst (sched_get_next_wakeup_ms (kernel s))"
    "idle_budget s \<le> fst (timer_get_next_ready_in_ms (fst (soft_timers s)) (kernel s))"
    by (auto simp: idle_budget_def Let_def case_prod_unfold not_less e)
qed

lemma tickless_reload_le:
  assumes "m \<noteq> 0" and "m \<le> TICKLESS_MAX_SLEEP_MS" and "1 < unat tpm" and "unat tpm \<le> 4294967"
  shows "1 < unat (reload_for tpm m)" "unat (reload_for tpm m) \<le> unat m * unat tpm"
proof -
  have m: "0 < unat m" "unat m \<le> 1000"
    using assms(1,2) by (simp_all add: unat_gt_0 TICKLESS_MAX_SLEEP_MS_def word_le_nat_alt)
  have "unat m * unat tpm \<le> 1000 * 4294967" using m(2) assms(4) by (rule mult_le_mono)
  then have r: "unat (reload_for tpm m) = min (unat m * unat tpm) 0xFFFFFF"
    using assms(1,3) by (intro reload_for_small) auto
  then show "unat (reload_for tpm m) \<le> unat m * unat tpm" by simp
  have "1 * unat tpm \<le> unat m * unat tpm" using m(1) by (intro mult_le_mono) simp_all
  then have "1 < unat m * unat tpm" using assms(3) by linarith
  then show "1 < unat (reload_for tpm m)" using r by simp
qed

text \<open>What a tick of the slept time does to a sleeping task, and why no timer was missed.\<close>

lemma slept_task:
  assumes inv: "kern_inv k W" and tick: "sched_tick_n e k = Some k'" and i: "i < s_task_count k"
    and "counting k i" and "e \<le> delay_ticks (tcb k (Task i))"
  shows "let d = delay_ticks (tcb k (Task i)); t = tcb k' (Task i) in
      if d = e then runnable k' (Task i) else e < d \<and> state t = TASK_BLOCKED \<and> delay_ticks t = d - e"
proof (cases "delay_ticks (tcb k (Task i)) = e")
  case True
  then have "expired e k (Task i)" using assms(4) by (simp add: expired_def counting_def)
  from tick_expired_runnable [OF inv tick i this] True show ?thesis by simp
next
  case False
  then have lt: "e < delay_ticks (tcb k (Task i))" using assms(5) by simp
  then have "tick_task e (tcb k (Task i)) = (tcb k (Task i))\<lparr>delay_ticks := delay_ticks (tcb k (Task i)) - e\<rparr>"
    using assms(4) by (simp add: tick_task_def counting_def)
  then show ?thesis using sched_tick_n_delays(1,4) [OF inv tick i] False lt assms(4)
    by (simp add: counting_def)
qed

lemma budget_timers_safe:
  assumes "x < idle_budget s" and "i < TIMER_MAX_COUNT"
  shows "\<not> timer_expires (s_ticks (kernel s) + x) (fst (soft_timers s) ! i)"
proof -
  have "x < fst (timer_get_next_ready_in_ms (fst (soft_timers s)) (kernel s))"
    using assms(1) idle_budget_bounds(3) by (rule order.strict_trans2)
  then show ?thesis using timer_next_safe [of "fst (soft_timers s)" "kernel s"] assms(2) by auto
qed

text \<open>The round that sleeps: the clock goes forward by \<open>e\<close>, then the tick of \<open>e\<close> and the timers run.\<close>

lemma idle_round_slept:
  assumes "kern_inv (kernel s) W" and "s_tickless_idle_enabled (kernel s) \<noteq> 0" and "idle_budget s \<noteq> 0"
    and "0 < n" and "1 < unat tpm" and "unat tpm \<le> 4294967"
  obtains e k' s' where "0 < e" and "e \<le> idle_budget s"
    and "sched_tick_n e ((kernel s)\<lparr>s_idle_loop_count := s_idle_loop_count (kernel s) + 1, s_ticks := s_ticks (kernel s) + e\<rparr>) = Some k'"
    and "idle_round call (\<lambda>s. s) tpm n s = Some (Slept e, s')" and "kernel s' = k'" and "\<not> s_tickless_active s'"
proof -
  let ?k0 = "(kernel s)\<lparr>s_idle_loop_count := s_idle_loop_count (kernel s) + 1\<rparr>"
  let ?s0 = "s\<lparr>kernel := ?k0\<rparr>"
  let ?m = "idle_budget s"
  have fold0: "wakeup_one ?k0 = wakeup_one (kernel s)" by (simp add: wakeup_one_def fun_eq_iff)
  have b0: "idle_budget ?s0 = ?m"
    by (simp add: idle_budget_def next_wakeup_eq fold0 timer_get_next_ready_in_ms_def
        systick_get_ms_def Let_def case_prod_unfold)
  note rl = tickless_reload_le [OF assms(3) idle_budget_bounds(1) assms(5,6)]
  define e where "e = slept_ms (unat tpm) (unat (reload_for tpm ?m)) n"
  have "0 < unat tpm" "0 < unat ?m" using assms(3,5) by (linarith, simp add: unat_gt_0)
  from slept_ms_bounds [OF this(1) assms(4) rl(2) this(2)]
  have e: "0 < e" "e \<le> unat ?m" by (simp_all add: e_def)
  have "unat (of_nat e :: u32) = e" using e(2) unat32_less [of ?m] by (simp add: unat_of_nat)
  with e have ew: "0 < (of_nat e :: u32)" "of_nat e \<le> ?m"
    by (simp_all add: word_less_nat_alt word_le_nat_alt)
  obtain r where sl: "systick_tickless_sleep (\<lambda>s. s) tpm n ?m ?s0 =
      (of_nat e, systick_advance_ms (of_nat e)
         (?s0\<lparr>s_tickless_active := False, systick := program_systick tpm r\<rparr>))"
    unfolding e_def by (rule tickless_sleep_eq [OF assms(3,4,5) rl(1), of "\<lambda>s. s" ?s0])
  let ?a = "systick_advance_ms (of_nat e) (?s0\<lparr>s_tickless_active := False, systick := program_systick tpm r\<rparr>)"
  let ?k1 = "?k0\<lparr>s_ticks := s_ticks (kernel s) + of_nat e\<rparr>"
  have "kern_inv ?k1 W" using assms(1) by simp
  from sched_tick_n_ex [OF this] obtain k' where k': "sched_tick_n (of_nat e) ?k1 = Some k'" by blast
  have "kernel ?a = ?k1" by (simp add: systick_advance_ms_def)
  then have "idle_round call (\<lambda>s. s) tpm n s = Some (Slept (of_nat e), service_timers call (?a\<lparr>kernel := k'\<rparr>))"
    using assms(2,3) b0 sl k' by (simp add: idle_round_def Let_def)
  moreover have "kernel (service_timers call (?a\<lparr>kernel := k'\<rparr>)) = k'"
    "\<not> s_tickless_active (service_timers call (?a\<lparr>kernel := k'\<rparr>))"
    by (simp_all add: service_timers_def systick_advance_ms_def)
  ultimately show thesis using that ew k' by blast
qed

subsection \<open>Properties\<close>


definition demo_sys :: "unit sys" where
  "demo_sys = \<lparr>kernel = demo_sleepers\<lparr>s_tickless_idle_enabled := 1\<rparr>, soft_timers = (demo_armed, ()),
     systick = \<lparr>CTRL = 3, COUNTFLAG = False, RVR = 59999, CVR = 0\<rparr>, s_tickless_active = False\<rparr>"

lemma demo_sys_simps:
  "s_tickless_idle_enabled (kernel demo_sys) \<noteq> 0" "kern_inv (kernel demo_sys) (\<lambda>_. [])"
  "s_task_count (kernel demo_sys) = 3" "idle_budget demo_sys = 4"
proof -
  show "kern_inv (kernel demo_sys) (\<lambda>_. [])"
  proof -
    have "kern_inv demo_sleepers (\<lambda>_. [])"
      by (auto simp: kern_inv_def wait_inv_def queues_wf_def wlist_def running_inv_def
          demo_sleepers_def demo_kern_def boot_kern_def demo_task_def zero_task_def split: if_splits)
    then have "kern_inv (demo_sleepers\<lparr>s_tickless_idle_enabled := 1\<rparr>) (\<lambda>_. [])"
      by (subst kern_inv_cong [of _ demo_sleepers]) (simp_all add: wait_view_def)
    then show ?thesis by (simp add: demo_sys_def)
  qed
  have w: "wakeup_one (demo_sleepers\<lparr>s_tickless_idle_enabled := 1\<rparr>) = wakeup_one demo_sleepers"
    by (simp add: wakeup_one_def fun_eq_iff)
  have f: "fold (wakeup_one demo_sleepers) [0..<3] 0xFFFFFFFF = 4"
    by (simp add: demo_sleepers_def demo_kern_def wakeup_one_def demo_task_def upt_rec)
  have c: "s_task_count demo_sleepers = 3" by (simp add: demo_sleepers_def demo_kern_def)
  have t: "fold (timer_next_one 0 demo_armed) [0..<16] 0xFFFFFFFF = 5" by code_simp
  have z: "s_ticks demo_sleepers = 0" by (simp add: demo_sleepers_def demo_kern_def boot_kern_def)
  show "idle_budget demo_sys = 4"
    using f t by (simp add: idle_budget_def demo_sys_def next_wakeup_eq w c z timer_get_next_ready_in_ms_def
        kdefs systick_get_ms_def TIMER_MAX_COUNT_def TICKLESS_MAX_SLEEP_MS_def Let_def)
  show "s_tickless_idle_enabled (kernel demo_sys) \<noteq> 0" "s_task_count (kernel demo_sys) = 3"
    by (simp_all add: demo_sys_def c)
qed


text \<open>Repeated sleeps that all wake after \<open>n\<close> clocks.\<close>

definition sleeps :: "u32 \<Rightarrow> nat \<Rightarrow> u32 \<Rightarrow> nat \<Rightarrow> 'w sys \<Rightarrow> 'w sys" where
  "sleeps tpm n m r = (\<lambda>s. snd (systick_tickless_sleep (\<lambda>s. s) tpm n m s)) ^^ r"

lemma sleeps_ticks:
  assumes "m \<noteq> 0" and "0 < n" and "1 < unat tpm" and "1 < unat (reload_for tpm m)"
  shows "s_ticks (kernel (sleeps tpm n m r s))
    = s_ticks (kernel s) + of_nat (r * slept_ms (unat tpm) (unat (reload_for tpm m)) n)"
proof (induction r)
  case 0
  then show ?case by (simp add: sleeps_def)
next
  case (Suc r)
  obtain q where "systick_tickless_sleep (\<lambda>s. s) tpm n m (sleeps tpm n m r s) =
      (of_nat (slept_ms (unat tpm) (unat (reload_for tpm m)) n),
       systick_advance_ms (of_nat (slept_ms (unat tpm) (unat (reload_for tpm m)) n))
         ((sleeps tpm n m r s)\<lparr>s_tickless_active := False, systick := program_systick tpm q\<rparr>))"
    by (rule tickless_sleep_eq [OF assms, of "\<lambda>s. s" "sleeps tpm n m r s"])
  then show ?case using Suc by (simp add: sleeps_def systick_advance_ms_def algebra_simps)
qed

text \<open>
  Tickless idle loses time on long sleeps and gains it on short ones. A sleep that asks for
  more than the 24-bit counter can hold runs for 16777215 clocks and is accounted as whole
  milliseconds: on the STM32 (60000 clocks per ms) r such sleeps advance the clock by 279 r ms
  and lose 37215 r clocks, on the K64F (120000) by 139 r ms, losing 97215 r clocks; and every
  wake-up within the first millisecond counts as a full one, so r early wake-ups advance the
  clock by r ms however short they were.
\<close>

theorem tickless_clock_drifts:
  assumes "16777215 \<le> n" and "0 < w" and "w \<le> 60000"
  shows "s_ticks (kernel (sleeps STM32_TICKS_PER_MS n 1000 r s)) = s_ticks (kernel s) + of_nat (r * 279)
    \<and> 16777215 * r = 60000 * (r * 279) + 37215 * r
    \<and> s_ticks (kernel (sleeps K64F_TICKS_PER_MS n 1000 r s)) = s_ticks (kernel s) + of_nat (r * 139)
    \<and> 16777215 * r = 120000 * (r * 139) + 97215 * r
    \<and> s_ticks (kernel (sleeps STM32_TICKS_PER_MS w 1000 r s)) = s_ticks (kernel s) + of_nat r"
proof -
  have t: "unat STM32_TICKS_PER_MS = 60000" "unat K64F_TICKS_PER_MS = 120000"
    by (simp_all add: STM32_TICKS_PER_MS_def K64F_TICKS_PER_MS_def)
  have l: "unat (reload_for STM32_TICKS_PER_MS 1000) = 16777215"
    "unat (reload_for K64F_TICKS_PER_MS 1000) = 16777215"
    by (simp_all add: reload_for_def STM32_TICKS_PER_MS_def K64F_TICKS_PER_MS_def TICKLESS_MAX_RELOAD_def)
  have n: "slept_clocks 16777215 n = 16777215" using assms(1) by (simp add: slept_clocks_def)
  have w: "slept_clocks 16777215 w div 60000 = 0" using assms(2,3) by (simp add: slept_clocks_def)
  have "s_ticks (kernel (sleeps STM32_TICKS_PER_MS n 1000 r s)) = s_ticks (kernel s) + of_nat (r * 279)"
    using assms(1) by (subst sleeps_ticks) (simp_all add: t l slept_ms_def n)
  moreover have "s_ticks (kernel (sleeps K64F_TICKS_PER_MS n 1000 r s)) = s_ticks (kernel s) + of_nat (r * 139)"
    using assms(1) by (subst sleeps_ticks) (simp_all add: t l slept_ms_def n)
  moreover have "s_ticks (kernel (sleeps STM32_TICKS_PER_MS w 1000 r s)) = s_ticks (kernel s) + of_nat r"
    using assms(2) by (subst sleeps_ticks) (simp_all add: t l slept_ms_def w)
  ultimately show ?thesis by simp
qed

theorem tickless_clock_drifts_witness:
  "s_ticks (kernel (sleeps STM32_TICKS_PER_MS 16777215 1000 100 demo_sys)) = s_ticks (kernel demo_sys) + 27900
    \<and> s_ticks (kernel (sleeps STM32_TICKS_PER_MS 6000 1000 100 demo_sys)) = s_ticks (kernel demo_sys) + 100"
  using tickless_clock_drifts [of 16777215 6000 100 demo_sys] by simp

text \<open>
  Time stands still when a task preempts the idle task inside its sleep (an interrupt handler
  woke it, and PendSV switched away before the flag was cleared): any number of SysTick
  interrupts then changes nothing, so neither the clock nor any delay nor any timer moves
  until the idle task runs again.
\<close>

theorem tick_lost_while_tickless:
  "((\<lambda>s. the (SysTick_Handler call hook s)) ^^ n) (tickless_arm tpm m s) = tickless_arm tpm m s"
  by (induction n) (simp_all add: SysTick_Handler_def tickless_arm_def)

text \<open>
  The busy wait of systick_delay_ms returns with the first clock reading that is at least ms
  after its start, also when the 32-bit clock wraps on the way: over a clock that is read
  every millisecond it waits for exactly ms ticks.
\<close>

theorem systick_delay_exact:
  assumes "unat ms < len"
  shows "systick_delay_ms ms (t # map (\<lambda>i. t + of_nat i) [0..<len]) = Some (unat ms)"
proof -
  have "delay_poll t ms (map (\<lambda>i. t + of_nat i) [a..<len]) = Some (unat ms - a)" if "a \<le> unat ms" for a
    using that
  proof (induction "unat ms - a" arbitrary: a)
    case 0
    then have a: "a = unat ms" by simp
    then have "[a..<len] = a # [Suc a..<len]" using assms by (simp add: upt_conv_Cons)
    then show ?case by (simp add: a)
  next
    case (Suc d)
    then have lt: "a < unat ms" by simp
    then have "unat (of_nat a :: u32) = a" using unat32_less [of ms] by (simp add: unat_of_nat)
    then have "t + of_nat a - t < ms" using lt by (simp add: word_less_nat_alt)
    moreover have "[a..<len] = a # [Suc a..<len]" using assms lt by (simp add: upt_conv_Cons)
    moreover have "delay_poll t ms (map (\<lambda>i. t + of_nat i) [Suc a..<len]) = Some (unat ms - Suc a)"
      using Suc lt by simp
    ultimately show ?case using lt by simp
  qed
  from this [of 0] show ?thesis by (simp add: systick_delay_ms_def)
qed

theorem systick_delay_exact_witness:
  "systick_delay_ms 3 (0xFFFFFFFE # map (\<lambda>i. 0xFFFFFFFE + of_nat i) [0..<10]) = Some 3"
  using systick_delay_exact [of 3 10 "0xFFFFFFFE"] by simp

end
