(* ===== verification/FaultLog.thy ===== *)
theory FaultLog
  imports Prelude
begin

text \<open>
  \<open>kernel/core/fault_log.c\<close>: the crash record kept in Backup SRAM across a reset.

  The machine is what the comments of the file rely on: words of Backup SRAM that
  survive a reset, a write-back data cache in front of them whose lines may be written
  back (evicted) at any time, the cache-clean register DCCMVAC, the write protection of
  the backup domain and the clock of the memory. A reset discards the cache without
  writing it back (\<open>Reset_Handler\<close> invalidates by set/way).
\<close>

subsection \<open>The machine\<close>

record bkp_machine =
  PWR_CR1 :: u32
  RCC_AHB4ENR :: u32
  dcache :: "u32 \<Rightarrow> u32 option"
  bkpsram :: "u32 \<Rightarrow> u32"

definition DCACHE_LINE_SIZE :: u32 where "DCACHE_LINE_SIZE = 32"
definition PWR_CR1_DBP :: u32 where "PWR_CR1_DBP = push_bit 8 1"
definition RCC_AHB4ENR_BKPRAMEN :: u32 where "RCC_AHB4ENR_BKPRAMEN = push_bit 28 1"
definition BKPSRAM_BASE :: u32 where "BKPSRAM_BASE = 0x38800000"
definition FAULT_LOG_MAGIC :: u32 where "FAULT_LOG_MAGIC = 0x4641554C"

definition bkp_writable :: "bkp_machine \<Rightarrow> bool" where
  "bkp_writable s \<longleftrightarrow> PWR_CR1 s AND PWR_CR1_DBP \<noteq> 0 \<and> RCC_AHB4ENR s AND RCC_AHB4ENR_BKPRAMEN \<noteq> 0"

definition bkp_read :: "bkp_machine \<Rightarrow> u32 \<Rightarrow> u32" where
  "bkp_read s a = (case dcache s a of Some v \<Rightarrow> v | None \<Rightarrow> bkpsram s a)"

definition bkp_store :: "u32 \<Rightarrow> u32 \<Rightarrow> bkp_machine \<Rightarrow> bkp_machine" where
  "bkp_store a v s = s\<lparr>dcache := (dcache s)(a := Some v)\<rparr>"

definition same_line :: "u32 \<Rightarrow> u32 \<Rightarrow> bool" where
  "same_line a b \<longleftrightarrow> drop_bit 5 a = drop_bit 5 b"

definition dccmvac :: "u32 \<Rightarrow> bkp_machine \<Rightarrow> bkp_machine" where
  "dccmvac l s = (if bkp_writable s
     then s\<lparr>bkpsram := (\<lambda>a. if same_line a l then bkp_read s a else bkpsram s a)\<rparr> else s)"

definition evict_line :: "u32 \<Rightarrow> bkp_machine \<Rightarrow> bkp_machine" where
  "evict_line l s = (dccmvac l s)\<lparr>dcache := (\<lambda>a. if same_line a l then None else dcache s a)\<rparr>"

definition system_reset :: "bkp_machine \<Rightarrow> bkp_machine" where
  "system_reset s = s\<lparr>PWR_CR1 := 0, RCC_AHB4ENR := 0, dcache := (\<lambda>_. None)\<rparr>"

subsection \<open>The record and the operations\<close>

record fault_log_t =
  magic :: u32
  exc_return :: u32
  pc :: u32
  lr :: u32
  xpsr :: u32
  r0 :: u32
  r1 :: u32
  r2 :: u32
  r3 :: u32
  r12 :: u32
  cfsr :: u32
  hfsr :: u32
  mmfar :: u32
  bfar :: u32
  mmfar_valid :: u32
  bfar_valid :: u32

partial_function (option) clean_lines :: "u32 \<Rightarrow> u32 \<Rightarrow> bkp_machine \<Rightarrow> bkp_machine option" where
  "clean_lines start stop s =
     (if start < stop then clean_lines (start + DCACHE_LINE_SIZE) stop (dccmvac start s)
      else Some s)"

definition clean_dcache_range :: "u32 \<Rightarrow> u32 \<Rightarrow> bkp_machine \<Rightarrow> bkp_machine option" where
  "clean_dcache_range addr sz s =
     clean_lines (addr AND NOT (DCACHE_LINE_SIZE - 1)) (addr + sz) s"

definition fault_log_init :: "bkp_machine \<Rightarrow> bkp_machine" where
  "fault_log_init s =
     s\<lparr>PWR_CR1 := PWR_CR1 s OR PWR_CR1_DBP,
       RCC_AHB4ENR := RCC_AHB4ENR s OR RCC_AHB4ENR_BKPRAMEN\<rparr>"

text \<open>The stores of \<open>fault_log_write\<close> in program order: the magic comes last.\<close>

definition fault_log_stores :: "fault_log_t \<Rightarrow> (u32 \<times> u32) list" where
  "fault_log_stores e =
    [(BKPSRAM_BASE + 4, exc_return e), (BKPSRAM_BASE + 8, pc e), (BKPSRAM_BASE + 12, lr e),
     (BKPSRAM_BASE + 16, xpsr e), (BKPSRAM_BASE + 20, r0 e), (BKPSRAM_BASE + 24, r1 e),
     (BKPSRAM_BASE + 28, r2 e), (BKPSRAM_BASE + 32, r3 e), (BKPSRAM_BASE + 36, r12 e),
     (BKPSRAM_BASE + 40, cfsr e), (BKPSRAM_BASE + 44, hfsr e), (BKPSRAM_BASE + 48, mmfar e),
     (BKPSRAM_BASE + 52, bfar e), (BKPSRAM_BASE + 56, mmfar_valid e),
     (BKPSRAM_BASE + 60, bfar_valid e), (BKPSRAM_BASE, FAULT_LOG_MAGIC)]"

definition fault_log_write :: "fault_log_t \<Rightarrow> bkp_machine \<Rightarrow> bkp_machine option" where
  "fault_log_write e s =
     clean_dcache_range BKPSRAM_BASE 64 (fold (\<lambda>(a, v). bkp_store a v) (fault_log_stores e) s)"

definition fault_log_load :: "bkp_machine \<Rightarrow> fault_log_t \<Rightarrow> fault_log_t" where
  "fault_log_load s out = out\<lparr>
     exc_return := bkp_read s (BKPSRAM_BASE + 4), pc := bkp_read s (BKPSRAM_BASE + 8),
     lr := bkp_read s (BKPSRAM_BASE + 12), xpsr := bkp_read s (BKPSRAM_BASE + 16),
     r0 := bkp_read s (BKPSRAM_BASE + 20), r1 := bkp_read s (BKPSRAM_BASE + 24),
     r2 := bkp_read s (BKPSRAM_BASE + 28), r3 := bkp_read s (BKPSRAM_BASE + 32),
     r12 := bkp_read s (BKPSRAM_BASE + 36), cfsr := bkp_read s (BKPSRAM_BASE + 40),
     hfsr := bkp_read s (BKPSRAM_BASE + 44), mmfar := bkp_read s (BKPSRAM_BASE + 48),
     bfar := bkp_read s (BKPSRAM_BASE + 52), mmfar_valid := bkp_read s (BKPSRAM_BASE + 56),
     bfar_valid := bkp_read s (BKPSRAM_BASE + 60)\<rparr>"

definition fault_log_check_and_clear ::
  "fault_log_t \<Rightarrow> bkp_machine \<Rightarrow> (bool \<times> fault_log_t \<times> bkp_machine) option" where
  "fault_log_check_and_clear out s =
     (if bkp_read s BKPSRAM_BASE \<noteq> FAULT_LOG_MAGIC then Some (False, out, s)
      else case clean_dcache_range BKPSRAM_BASE 4 (bkp_store BKPSRAM_BASE 0 s) of
        None \<Rightarrow> None
      | Some s' \<Rightarrow> Some (True, fault_log_load s out, s'))"

definition fault_log_peek_magic :: "bkp_machine \<Rightarrow> u32" where
  "fault_log_peek_magic s = bkp_read s BKPSRAM_BASE"

subsection \<open>Cleaning the cache\<close>

lemma same_line_refl [simp]: "same_line a a"
  by (simp add: same_line_def)

lemma bkp_writable_dccmvac [simp]: "bkp_writable (dccmvac l s) = bkp_writable s"
  by (simp add: dccmvac_def bkp_writable_def)

lemma bkp_writable_store [simp]: "bkp_writable (bkp_store a v s) = bkp_writable s"
  by (simp add: bkp_store_def bkp_writable_def)

lemma bkp_writable_evict [simp]: "bkp_writable (evict_line l s) = bkp_writable s"
  by (simp add: evict_line_def bkp_writable_def dccmvac_def)

lemma bkp_read_dccmvac [simp]: "bkp_read (dccmvac l s) a = bkp_read s a"
  by (simp add: dccmvac_def bkp_read_def split: option.split)

lemma bkp_read_store [simp]: "bkp_read (bkp_store a v s) b = (if b = a then v else bkp_read s b)"
  by (simp add: bkp_store_def bkp_read_def split: option.split)

lemma bkp_read_evict [simp]: "bkp_writable s \<Longrightarrow> bkp_read (evict_line l s) a = bkp_read s a"
  by (simp add: evict_line_def dccmvac_def bkp_read_def split: option.split)

lemma bkp_read_reset [simp]: "bkp_read (system_reset s) a = bkpsram s a"
  by (simp add: system_reset_def bkp_read_def)

lemma bkpsram_store [simp]: "bkpsram (bkp_store a v s) = bkpsram s"
  by (simp add: bkp_store_def)

lemma bkpsram_dccmvac:
  "bkp_writable s \<Longrightarrow> bkpsram (dccmvac l s) a = (if same_line a l then bkp_read s a else bkpsram s a)"
  by (simp add: dccmvac_def)

lemma dccmvac_locked: "\<not> bkp_writable s \<Longrightarrow> dccmvac l s = s"
  by (simp add: dccmvac_def)

lemma fault_log_init_writable [simp]: "bkp_writable (fault_log_init s)"
proof -
  have *: "(x OR y) AND y = (y :: u32)" for x y by (rule bit_word_eqI) (auto simp: bit_simps)
  show ?thesis by (simp add: fault_log_init_def bkp_writable_def * PWR_CR1_DBP_def RCC_AHB4ENR_BKPRAMEN_def)
qed

lemma bkp_read_init [simp]: "bkp_read (fault_log_init s) = bkp_read s"
  by (simp add: fault_log_init_def bkp_read_def fun_eq_iff split: option.split)

lemma bkpsram_init [simp]: "bkpsram (fault_log_init s) = bkpsram s"
  by (simp add: fault_log_init_def)

lemma unat_line_start: "unat (a AND NOT (DCACHE_LINE_SIZE - 1)) = 32 * (unat a div 32)"
proof -
  have m: "DCACHE_LINE_SIZE - 1 = (mask 5 :: u32)"
    by (simp add: DCACHE_LINE_SIZE_def mask_eq_exp_minus_1)
  have "a AND NOT (mask 5) = push_bit 5 (drop_bit 5 a)"
    by (rule bit_word_eqI) (auto simp: bit_simps)
  also have "unat \<dots> = 32 * (unat a div 32)"
  proof -
    have "unat (drop_bit 5 a) = unat a div 32" by (simp add: drop_bit_eq_div unat_div)
    moreover have "unat a div 32 * 32 < 2 ^ 32" using unat32_less [of a] by simp
    ultimately show ?thesis
      by (simp add: push_bit_eq_mult unat_word_ariths mult.commute)
  qed
  finally show ?thesis by (simp add: m)
qed

lemma same_line_iff: "same_line a b \<longleftrightarrow> unat a div 32 = unat b div 32"
  by (simp add: same_line_def word_unat_eq_iff drop_bit_eq_div unat_div)

lemma div_block: "(m :: nat) mod 32 = 0 \<Longrightarrow> m \<le> a \<Longrightarrow> a < m + 32 \<Longrightarrow> a div 32 = m div 32"
  by (rule div_nat_eqI) (simp_all add: minus_mod_eq_mult_div [symmetric])


text \<open>The loop of \<open>clean_dcache_range\<close> ends and reaches every line of the range, when the
  range does not touch the last line of the address space (there the loop variable wraps
  and the loop never ends).\<close>

lemma clean_lines_ok:
  assumes "unat stop \<le> 2 ^ 32 - 32" and "unat start mod 32 = 0" and "bkp_writable s"
  shows "\<exists>s'. clean_lines start stop s = Some s' \<and> bkp_writable s' \<and> bkp_read s' = bkp_read s
     \<and> (\<forall>a. bkpsram s a = bkp_read s a \<longrightarrow> bkpsram s' a = bkp_read s a)
     \<and> (\<forall>a. unat start \<le> unat a \<and> unat a < unat stop \<longrightarrow> bkpsram s' a = bkp_read s a)"
  using assms(2,3)
proof (induction "unat stop - unat start" arbitrary: start s rule: less_induct)
  case less
  show ?case
  proof (cases "start < stop")
    case False
    then have "clean_lines start stop s = Some s" by (simp add: clean_lines.simps)
    moreover have "unat stop \<le> unat start" using False by (simp add: word_less_nat_alt)
    ultimately show ?thesis using less.prems by auto
  next
    case True
    let ?s = "dccmvac start s" let ?n = "start + DCACHE_LINE_SIZE"
    have lt: "unat start < unat stop" using True by (simp add: word_less_nat_alt)
    have n: "unat ?n = unat start + 32"
      using lt assms(1) by (subst unat_add_if_no_wrap) (simp_all add: DCACHE_LINE_SIZE_def)
    have "unat stop - unat ?n < unat stop - unat start" using lt n by simp
    moreover have "unat ?n mod 32 = 0" using less.prems(1) n by simp
    ultimately obtain s' where s': "clean_lines ?n stop ?s = Some s'" "bkp_writable s'"
      "bkp_read s' = bkp_read ?s"
      "\<forall>a. bkpsram ?s a = bkp_read ?s a \<longrightarrow> bkpsram s' a = bkp_read ?s a"
      "\<forall>a. unat ?n \<le> unat a \<and> unat a < unat stop \<longrightarrow> bkpsram s' a = bkp_read ?s a"
      using less.hyps [of ?n ?s] less.prems(2) by auto
    have "bkpsram s' a = bkp_read s a" if "unat start \<le> unat a" "unat a < unat stop" for a
    proof (cases "unat a < unat ?n")
      case True
      then have "unat a div 32 = unat start div 32" using that(1) n less.prems(1) by (intro div_block) simp_all
      then have "same_line a start" by (simp add: same_line_iff)
      then show ?thesis using s'(4) less.prems(2) by (simp add: bkpsram_dccmvac)
    next
      case False
      then show ?thesis using s'(5) that(2) by simp
    qed
    moreover have "clean_lines start stop s = Some s'"
      using True s'(1) by (subst clean_lines.simps) simp
    moreover have "bkpsram s' a = bkp_read s a" if "bkpsram s a = bkp_read s a" for a
      using s'(4) that less.prems(2) by (simp add: bkpsram_dccmvac)
    ultimately show ?thesis using s'(2,3) by (intro exI [of _ s']) auto
  qed
qed

lemma clean_lines_locked:
  assumes "unat stop \<le> 2 ^ 32 - 32" and "\<not> bkp_writable s"
  shows "clean_lines start stop s = Some s"
  using assms
proof (induction "unat stop - unat start" arbitrary: start rule: less_induct)
  case less
  show ?case
  proof (cases "start < stop")
    case True
    then have lt: "unat start < unat stop" by (simp add: word_less_nat_alt)
    then have "unat (start + DCACHE_LINE_SIZE) = unat start + 32"
      using assms(1) by (subst unat_add_if_no_wrap) (simp_all add: DCACHE_LINE_SIZE_def)
    with less lt True show ?thesis
      by (subst clean_lines.simps) (simp add: dccmvac_locked)
  qed (simp add: clean_lines.simps)
qed

lemma clean_dcache_range_ok:
  assumes "unat addr + unat sz \<le> 2 ^ 32 - 32" and "bkp_writable s"
  shows "\<exists>s'. clean_dcache_range addr sz s = Some s' \<and> bkp_writable s' \<and> bkp_read s' = bkp_read s
     \<and> (\<forall>a. bkpsram s a = bkp_read s a \<longrightarrow> bkpsram s' a = bkp_read s a)
     \<and> (\<forall>a. unat addr \<le> unat a \<and> unat a < unat addr + unat sz \<longrightarrow> bkpsram s' a = bkp_read s a)"
proof -
  have e: "unat (addr + sz) = unat addr + unat sz"
    using assms(1) by (intro unat_add_if_no_wrap) simp
  let ?st = "addr AND NOT (DCACHE_LINE_SIZE - 1)"
  have st: "unat ?st \<le> unat addr" "unat ?st mod 32 = 0" by (simp_all add: unat_line_start)
  from clean_lines_ok [of "addr + sz" ?st s] assms e st(2)
  show ?thesis unfolding clean_dcache_range_def using st(1) by (auto intro: order_trans)
qed

subsection \<open>Stores of a program over a cache that may evict lines at any time\<close>

inductive bkp_run :: "(u32 \<times> u32) list \<Rightarrow> bkp_machine \<Rightarrow> bkp_machine \<Rightarrow> bool" where
  finish: "bkp_run [] s s"
| store: "bkp_run xs (bkp_store a v s) s' \<Longrightarrow> bkp_run ((a, v) # xs) s s'"
| evict: "bkp_run xs (evict_line l s) s' \<Longrightarrow> bkp_run xs s s'"

lemma bkp_run_untouched:
  assumes "bkp_run xs s s'" and "bkp_writable s" and "a \<notin> fst ` set xs"
  shows "bkp_read s' a = bkp_read s a \<and> (bkpsram s' a = bkp_read s a \<or> bkpsram s' a = bkpsram s a)"
  using assms
proof induction
  case (evict xs l s s')
  then have "bkpsram (evict_line l s) a = bkp_read s a \<or> bkpsram (evict_line l s) a = bkpsram s a"
    by (simp add: evict_line_def dccmvac_def)
  with evict show ?case by auto
qed auto

lemma stored_fields:
  fixes e s
  defines "s' \<equiv> fold (\<lambda>(a, v). bkp_store a v) (fault_log_stores e) s"
  shows "fault_log_load s' out = e\<lparr>magic := magic out\<rparr>" "bkp_read s' BKPSRAM_BASE = FAULT_LOG_MAGIC"
    "bkp_writable s' = bkp_writable s" "bkpsram s' = bkpsram s"
  unfolding s'_def fault_log_stores_def fault_log_load_def BKPSRAM_BASE_def by simp_all

lemma fault_log_load_cong:
  assumes "\<And>a. unat BKPSRAM_BASE \<le> unat a \<Longrightarrow> unat a < unat BKPSRAM_BASE + 64 \<Longrightarrow> bkp_read s a = bkp_read s' a"
  shows "fault_log_load s out = fault_log_load s' out"
  unfolding fault_log_load_def by (simp add: assms BKPSRAM_BASE_def)

lemma fault_log_write_ok:
  assumes "bkp_writable s"
  shows "\<exists>s'. fault_log_write e s = Some s' \<and> bkp_writable s'
     \<and> (\<forall>out. fault_log_load s' out = e\<lparr>magic := magic out\<rparr>)
     \<and> bkp_read s' BKPSRAM_BASE = FAULT_LOG_MAGIC
     \<and> (\<forall>a. unat BKPSRAM_BASE \<le> unat a \<and> unat a < unat BKPSRAM_BASE + 64 \<longrightarrow> bkpsram s' a = bkp_read s' a)"
proof -
  let ?s = "fold (\<lambda>(a, v). bkp_store a v) (fault_log_stores e) s"
  have "unat BKPSRAM_BASE + unat (64 :: u32) \<le> 2 ^ 32 - 32" by (simp add: BKPSRAM_BASE_def)
  from clean_dcache_range_ok [OF this, of ?s] assms stored_fields(3) [of e s]
  obtain s' where s': "fault_log_write e s = Some s'" "bkp_writable s'" "bkp_read s' = bkp_read ?s"
    "\<forall>a. unat BKPSRAM_BASE \<le> unat a \<and> unat a < unat BKPSRAM_BASE + unat (64 :: u32) \<longrightarrow> bkpsram s' a = bkp_read ?s a"
    unfolding fault_log_write_def by auto
  have "fault_log_load s' out = fault_log_load ?s out" for out
    by (rule fault_log_load_cong) (simp add: s'(3))
  then show ?thesis using s' stored_fields(1,2) [of e s] by (intro exI [of _ s']) simp
qed

lemma fault_log_check_stale:
  "bkp_read s BKPSRAM_BASE \<noteq> FAULT_LOG_MAGIC \<Longrightarrow> fault_log_check_and_clear out s = Some (False, out, s)"
  by (simp add: fault_log_check_and_clear_def)

lemma fault_log_check_valid:
  assumes "bkp_read s BKPSRAM_BASE = FAULT_LOG_MAGIC" and "bkp_writable s"
  shows "\<exists>s'. fault_log_check_and_clear out s = Some (True, fault_log_load s out, s')
     \<and> bkp_writable s' \<and> bkpsram s' BKPSRAM_BASE = 0 \<and> bkp_read s' BKPSRAM_BASE = 0"
proof -
  let ?s = "bkp_store BKPSRAM_BASE 0 s"
  have "unat BKPSRAM_BASE + unat (4 :: u32) \<le> 2 ^ 32 - 32" by (simp add: BKPSRAM_BASE_def)
  from clean_dcache_range_ok [OF this, of ?s] assms(2)
  obtain s' where s': "clean_dcache_range BKPSRAM_BASE 4 ?s = Some s'" "bkp_writable s'"
    "bkp_read s' = bkp_read ?s"
    "\<forall>a. unat BKPSRAM_BASE \<le> unat a \<and> unat a < unat BKPSRAM_BASE + unat (4 :: u32) \<longrightarrow> bkpsram s' a = bkp_read ?s a"
    by auto
  then show ?thesis using assms(1) by (simp add: fault_log_check_and_clear_def)
qed

lemma evictions_read:
  "bkp_writable s \<Longrightarrow> bkp_read (fold evict_line ls s) = bkp_read s \<and> bkp_writable (fold evict_line ls s)"
  by (induction ls arbitrary: s) (auto simp: fun_eq_iff)

lemma evictions_synced:
  "bkp_writable s \<Longrightarrow> bkpsram s a = bkp_read s a \<Longrightarrow> bkpsram (fold evict_line ls s) a = bkp_read s a"
proof (induction ls arbitrary: s)
  case (Cons l ls)
  have "bkpsram (evict_line l s) a = bkp_read s a"
    using Cons.prems by (simp add: evict_line_def dccmvac_def)
  with Cons.IH [of "evict_line l s"] Cons.prems(1) show ?case by simp
qed simp

lemma fault_log_recovered:
  assumes "bkp_writable s"
  shows "\<exists>s1 s2. fault_log_write e s = Some s1 \<and>
    fault_log_check_and_clear out (fault_log_init (system_reset (fold evict_line ls s1)))
      = Some (True, e\<lparr>magic := magic out\<rparr>, s2) \<and>
    (\<forall>ls' out'. fault_log_check_and_clear out'
        (fault_log_init (system_reset (fold evict_line ls' s2)))
      = Some (False, out', fault_log_init (system_reset (fold evict_line ls' s2))))"
proof -
  obtain s1 where s1: "fault_log_write e s = Some s1" "bkp_writable s1"
    "\<forall>out. fault_log_load s1 out = e\<lparr>magic := magic out\<rparr>"
    "bkp_read s1 BKPSRAM_BASE = FAULT_LOG_MAGIC"
    "\<forall>a. unat BKPSRAM_BASE \<le> unat a \<and> unat a < unat BKPSRAM_BASE + 64 \<longrightarrow> bkpsram s1 a = bkp_read s1 a"
    using fault_log_write_ok [OF assms] by blast
  let ?b = "fault_log_init (system_reset (fold evict_line ls s1))"
  have r: "bkp_read ?b a = bkp_read s1 a"
    if "unat BKPSRAM_BASE \<le> unat a" "unat a < unat BKPSRAM_BASE + 64" for a
    using s1(5) that evictions_synced [OF s1(2), of a ls] by simp
  have m: "bkp_read ?b BKPSRAM_BASE = FAULT_LOG_MAGIC" using r [of BKPSRAM_BASE] s1(4) by simp
  have l: "fault_log_load ?b out = e\<lparr>magic := magic out\<rparr>"
    using fault_log_load_cong [of ?b s1 out] r s1(3) by metis
  obtain s2 where s2: "fault_log_check_and_clear out ?b = Some (True, e\<lparr>magic := magic out\<rparr>, s2)"
    "bkp_writable s2" "bkpsram s2 BKPSRAM_BASE = 0" "bkp_read s2 BKPSRAM_BASE = 0"
    using fault_log_check_valid [OF m, of out] l by auto
  have "bkpsram (fold evict_line ls' s2) BKPSRAM_BASE = 0" for ls'
    using evictions_synced [OF s2(2), of BKPSRAM_BASE ls'] s2(3,4) by simp
  then have "bkp_read (fault_log_init (system_reset (fold evict_line ls' s2))) BKPSRAM_BASE \<noteq> FAULT_LOG_MAGIC" for ls'
    by (simp add: FAULT_LOG_MAGIC_def)
  with s1(1) s2(1) fault_log_check_stale show ?thesis by blast
qed

subsection \<open>Properties\<close>

text \<open>
  C11: A fault record survives the reset whatever the cache does. After fault_log_write, any
  cache-line evictions and a reset that discards the cache, the next boot (fault_log_init,
  then fault_log_check_and_clear) reports the record, every field as written; and after
  another reset the boot after it reports nothing.
\<close>

theorem fault_log_survives_reset:
  assumes "bkp_writable s"
  shows "\<exists>s1 s2. fault_log_write e s = Some s1 \<and>
    fault_log_check_and_clear out (fault_log_init (system_reset (fold evict_line ls s1)))
      = Some (True, e\<lparr>magic := magic out\<rparr>, s2) \<and>
    (\<forall>ls' out'. fault_log_check_and_clear out'
        (fault_log_init (system_reset (fold evict_line ls' s2)))
      = Some (False, out', fault_log_init (system_reset (fold evict_line ls' s2))))"
  using assms by (rule fault_log_recovered)

definition demo_bkp :: bkp_machine where
  "demo_bkp = fault_log_init \<lparr>PWR_CR1 = 0, RCC_AHB4ENR = 0, dcache = (\<lambda>_. None), bkpsram = (\<lambda>_. 0xFFFFFFFF)\<rparr>"

definition demo_fault :: fault_log_t where
  "demo_fault = \<lparr>magic = 0, exc_return = 0xFFFFFFFD, pc = 0x08001234, lr = 0x08004321, xpsr = 0x21000000,
     r0 = 1, r1 = 2, r2 = 3, r3 = 4, r12 = 5, cfsr = 0x8200, hfsr = 0x40000000, mmfar = 0,
     bfar = 0xDEADBEEC, mmfar_valid = 0, bfar_valid = 1\<rparr>"

theorem fault_log_survives_reset_witness:
  "\<exists>s1 s2. fault_log_write demo_fault demo_bkp = Some s1 \<and>
    fault_log_check_and_clear demo_fault (fault_log_init (system_reset (fold evict_line [0, 0x38800000] s1)))
      = Some (True, demo_fault, s2) \<and>
    (\<forall>ls' out'. fault_log_check_and_clear out'
        (fault_log_init (system_reset (fold evict_line ls' s2)))
      = Some (False, out', fault_log_init (system_reset (fold evict_line ls' s2))))"
proof -
  have "bkp_writable demo_bkp" by (simp add: demo_bkp_def)
  from fault_log_survives_reset [OF this, of demo_fault demo_fault "[0, 0x38800000]"]
  show ?thesis by simp
qed

text \<open>
  A reset in the middle of fault_log_write, after any number of its stores short of the
  last and with any evictions between them, leaves no record, provided no earlier record was
  still pending (neither in memory nor in the cache): the magic is stored last.
\<close>

theorem fault_log_torn_write_ignored:
  assumes "bkp_writable s" and "n < 16"
    and "bkp_read s BKPSRAM_BASE \<noteq> FAULT_LOG_MAGIC" and "bkpsram s BKPSRAM_BASE \<noteq> FAULT_LOG_MAGIC"
    and "bkp_run (take n (fault_log_stores e)) s s'"
  shows "fault_log_check_and_clear out (fault_log_init (system_reset s'))
    = Some (False, out, fault_log_init (system_reset s'))"
proof -
  have "take n (fault_log_stores e) = take n (butlast (fault_log_stores e))"
  proof -
    have "length (fault_log_stores e) = 16" by (simp add: fault_log_stores_def)
    with assms(2) show ?thesis by (simp add: take_butlast)
  qed
  moreover have "BKPSRAM_BASE \<notin> fst ` set (butlast (fault_log_stores e))"
    by (simp add: fault_log_stores_def BKPSRAM_BASE_def)
  ultimately have "BKPSRAM_BASE \<notin> fst ` set (take n (fault_log_stores e))"
    by (metis (no_types, lifting) image_mono in_mono set_take_subset)
  from bkp_run_untouched [OF assms(5,1) this] assms(3,4)
  have "bkpsram s' BKPSRAM_BASE \<noteq> FAULT_LOG_MAGIC" by auto
  then show ?thesis by (intro fault_log_check_stale) simp
qed

theorem fault_log_torn_write_ignored_witness:
  "fault_log_check_and_clear demo_fault (fault_log_init (system_reset
       (fold (\<lambda>(a, v). bkp_store a v) (take 2 (fault_log_stores demo_fault)) demo_bkp)))
    = Some (False, demo_fault, fault_log_init (system_reset
       (fold (\<lambda>(a, v). bkp_store a v) (take 2 (fault_log_stores demo_fault)) demo_bkp)))"
proof -
  have "bkp_run (take 2 (fault_log_stores demo_fault)) demo_bkp
      (fold (\<lambda>(a, v). bkp_store a v) (take 2 (fault_log_stores demo_fault)) demo_bkp)"
    by (simp add: fault_log_stores_def numeral_2_eq_2 bkp_run.intros)
  moreover have "bkp_writable demo_bkp" "bkp_read demo_bkp BKPSRAM_BASE \<noteq> FAULT_LOG_MAGIC"
    "bkpsram demo_bkp BKPSRAM_BASE \<noteq> FAULT_LOG_MAGIC"
    by (simp_all add: demo_bkp_def bkp_read_def FAULT_LOG_MAGIC_def)
  ultimately show ?thesis
    using fault_log_torn_write_ignored [of demo_bkp 2 demo_fault _ demo_fault] by simp
qed

text \<open>
  C29: The comment in fault_log_write that a partially written record is ignored on the next
  boot fails when an earlier record was not read yet, as its magic is still set: a reset
  after the first two stores of a second fault (their line written back) makes the next boot
  report a record that mixes the exc_return and pc of the second fault with all the other
  fields of the first.
\<close>

theorem fault_log_torn_over_pending:
  assumes "bkp_writable s"
  shows "\<exists>s1 s2 s3. fault_log_write e0 s = Some s1 \<and>
    bkp_run (take 2 (fault_log_stores e)) s1 s2 \<and>
    fault_log_check_and_clear out (fault_log_init (system_reset s2))
      = Some (True, e0\<lparr>magic := magic out, exc_return := exc_return e, pc := pc e\<rparr>, s3)"
proof -
  obtain s1 where s1: "fault_log_write e0 s = Some s1" "bkp_writable s1"
    "\<forall>out. fault_log_load s1 out = e0\<lparr>magic := magic out\<rparr>"
    "bkp_read s1 BKPSRAM_BASE = FAULT_LOG_MAGIC"
    "\<forall>a. unat BKPSRAM_BASE \<le> unat a \<and> unat a < unat BKPSRAM_BASE + 64 \<longrightarrow> bkpsram s1 a = bkp_read s1 a"
    using fault_log_write_ok [OF assms] by blast
  let ?t = "bkp_store (BKPSRAM_BASE + 8) (pc e) (bkp_store (BKPSRAM_BASE + 4) (exc_return e) s1)"
  let ?s2 = "evict_line BKPSRAM_BASE ?t"
  have run: "bkp_run (take 2 (fault_log_stores e)) s1 ?s2"
    by (simp add: fault_log_stores_def numeral_2_eq_2)
      (rule bkp_run.store, rule bkp_run.store, rule bkp_run.evict, rule bkp_run.finish)
  have v: "bkpsram ?s2 a = bkp_read ?t a"
    if "unat BKPSRAM_BASE \<le> unat a" "unat a < unat BKPSRAM_BASE + 64" for a
  proof (cases "same_line a BKPSRAM_BASE")
    case True
    then show ?thesis using s1(2) by (simp add: evict_line_def dccmvac_def)
  next
    case False
    then have "a \<noteq> BKPSRAM_BASE + 4 \<and> a \<noteq> BKPSRAM_BASE + 8"
      by (auto simp: same_line_def BKPSRAM_BASE_def)
    with False show ?thesis using s1(2,5) that by (simp add: evict_line_def dccmvac_def)
  qed
  let ?b = "fault_log_init (system_reset ?s2)"
  have "fault_log_load ?b out = fault_log_load ?t out"
    by (rule fault_log_load_cong) (simp add: v)
  also have "\<dots> = (fault_log_load s1 out)\<lparr>exc_return := exc_return e, pc := pc e\<rparr>"
    by (simp add: fault_log_load_def BKPSRAM_BASE_def)
  finally have l: "fault_log_load ?b out = e0\<lparr>magic := magic out, exc_return := exc_return e, pc := pc e\<rparr>"
    using s1(3) by simp
  have "bkp_read ?b BKPSRAM_BASE = bkp_read ?t BKPSRAM_BASE" using v by simp
  also have "\<dots> = FAULT_LOG_MAGIC" using s1(4) by (simp add: BKPSRAM_BASE_def)
  finally have "bkp_read ?b BKPSRAM_BASE = FAULT_LOG_MAGIC" .
  from fault_log_check_valid [OF this, of out] l s1(1) run show ?thesis by auto
qed

theorem fault_log_torn_over_pending_witness:
  "\<exists>s1 s2 s3. fault_log_write demo_fault demo_bkp = Some s1 \<and>
    bkp_run (take 2 (fault_log_stores (demo_fault\<lparr>pc := 0x0800AAAA\<rparr>))) s1 s2 \<and>
    fault_log_check_and_clear demo_fault (fault_log_init (system_reset s2))
      = Some (True, demo_fault\<lparr>pc := 0x0800AAAA\<rparr>, s3)"
proof -
  have "bkp_writable demo_bkp" by (simp add: demo_bkp_def)
  from fault_log_torn_over_pending [OF this, of demo_fault "demo_fault\<lparr>pc := 0x0800AAAA\<rparr>" demo_fault]
  show ?thesis by (simp add: demo_fault_def)
qed

text \<open>
  fault_log_peek_magic cannot tell a failed write from a good one: with the backup domain
  locked or the memory's clock off, fault_log_write ends, the magic reads back as set (from
  the cache), and yet after a reset no record is found.
\<close>

theorem fault_log_peek_is_fooled:
  assumes "\<not> bkp_writable s" and "bkpsram s BKPSRAM_BASE \<noteq> FAULT_LOG_MAGIC"
  shows "\<exists>s1. fault_log_write e s = Some s1 \<and> fault_log_peek_magic s1 = FAULT_LOG_MAGIC \<and>
    fault_log_check_and_clear out (fault_log_init (system_reset s1))
      = Some (False, out, fault_log_init (system_reset s1))"
proof -
  let ?s = "fold (\<lambda>(a, v). bkp_store a v) (fault_log_stores e) s"
  have "clean_dcache_range BKPSRAM_BASE 64 ?s = Some ?s"
    unfolding clean_dcache_range_def
    using assms(1) stored_fields(3) [of e s]
    by (intro clean_lines_locked) (simp_all add: BKPSRAM_BASE_def)
  then have "fault_log_write e s = Some ?s" by (simp add: fault_log_write_def)
  moreover have "fault_log_peek_magic ?s = FAULT_LOG_MAGIC"
    by (simp add: fault_log_peek_magic_def stored_fields(2))
  moreover have "bkp_read (fault_log_init (system_reset ?s)) BKPSRAM_BASE \<noteq> FAULT_LOG_MAGIC"
    using assms(2) by (simp add: stored_fields(4))
  ultimately show ?thesis by (auto intro: fault_log_check_stale)
qed

theorem fault_log_peek_is_fooled_witness:
  "\<exists>s1. fault_log_write demo_fault (system_reset demo_bkp) = Some s1 \<and>
    fault_log_peek_magic s1 = FAULT_LOG_MAGIC \<and>
    fault_log_check_and_clear demo_fault (fault_log_init (system_reset s1))
      = Some (False, demo_fault, fault_log_init (system_reset s1))"
proof -
  have "\<not> bkp_writable (system_reset demo_bkp)" by (simp add: system_reset_def bkp_writable_def)
  moreover have "bkpsram (system_reset demo_bkp) BKPSRAM_BASE \<noteq> FAULT_LOG_MAGIC"
    by (simp add: system_reset_def demo_bkp_def fault_log_init_def FAULT_LOG_MAGIC_def)
  ultimately show ?thesis by (rule fault_log_peek_is_fooled)
qed

end
