(* ===== verification/TextFmt.thy ===== *)
theory TextFmt
  imports Prelude
begin

text \<open>
  Numbers as text, shared by the UART drivers and the fault handler: the digit sequence of a
  number, its characters, and the reader that turns them back into the number. The
  drivers' printing loops are proved to produce these sequences.
\<close>

text \<open>The character expressions \<open>'0' + d\<close> and \<open>'A' + d - 10\<close> of the sources.\<close>

definition digit_char :: "bool \<Rightarrow> nat \<Rightarrow> char" where
  "digit_char upper d = char_of (if d < 10 then 48 + d else (if upper then 65 else 97) + (d - 10))"

definition digit_value :: "char \<Rightarrow> nat" where
  "digit_value c = (let n = of_char c in if n < 58 then n - 48 else if n < 97 then n - 55 else n - 87)"

definition read_number :: "nat \<Rightarrow> string \<Rightarrow> nat" where
  "read_number b s = foldl (\<lambda>n c. n * b + digit_value c) 0 s"

fun digits :: "nat \<Rightarrow> nat \<Rightarrow> nat list" where
  "digits b n = (if b < 2 \<or> n < b then [n] else digits b (n div b) @ [n mod b])"

declare digits.simps [simp del]

definition number_text :: "bool \<Rightarrow> nat \<Rightarrow> nat \<Rightarrow> string" where
  "number_text upper b n = map (digit_char upper) (digits b n)"

lemma digits_nonempty [simp]: "digits b n \<noteq> []"
  by (subst digits.simps) simp

lemma digits_less: "n < b \<Longrightarrow> digits b n = [n]"
  by (subst digits.simps) simp

lemma digits_step: "2 \<le> b \<Longrightarrow> b \<le> n \<Longrightarrow> digits b n = digits b (n div b) @ [n mod b]"
  by (subst digits.simps) simp

lemma digits_bound: "2 \<le> b \<Longrightarrow> d \<in> set (digits b n) \<Longrightarrow> d < b"
proof (induction b n rule: digits.induct)
  case (1 b n)
  show ?case
  proof (cases "n < b")
    case True
    then show ?thesis using 1 by (simp add: digits_less)
  next
    case False
    have "b > 0" using 1(2) by simp
    then show ?thesis using 1 False by (auto simp: digits_step)
  qed
qed

lemma length_digits: "2 \<le> b \<Longrightarrow> n < b ^ Suc k \<Longrightarrow> length (digits b n) \<le> Suc k"
proof (induction k arbitrary: n)
  case 0
  then show ?case by (simp add: digits_less)
next
  case (Suc k)
  show ?case
  proof (cases "n < b")
    case False
    have "n div b < b ^ Suc k" using Suc.prems by (simp add: div_less_iff_less_mult mult.commute)
    then show ?thesis using Suc False by (simp add: digits_step)
  qed (simp add: digits_less)
qed

lemma digit_value_char: "d < 16 \<Longrightarrow> digit_value (digit_char upper d) = d"
proof -
  assume "d < 16"
  then have "d \<in> set [0..<16]" by simp
  then show ?thesis
    by (simp add: upt_rec digit_value_def digit_char_def Let_def) (elim disjE; cases upper; simp)
qed

lemma read_number_snoc: "read_number b (s @ [c]) = read_number b s * b + digit_value c"
  by (simp add: read_number_def)

lemma read_number_text: "2 \<le> b \<Longrightarrow> b \<le> 16 \<Longrightarrow> read_number b (number_text upper b n) = n"
proof (induction b n rule: digits.induct)
  case (1 b n)
  show ?case
  proof (cases "n < b")
    case True
    then show ?thesis using 1(3) by (simp add: number_text_def digits_less read_number_def digit_value_char)
  next
    case False
    have "n mod b < 16" using 1(2,3) mod_less_divisor [of b n] by linarith
    then have "read_number b (number_text upper b n) = read_number b (number_text upper b (n div b)) * b + n mod b"
      using False 1(2) by (simp add: number_text_def digits_step read_number_snoc digit_value_char)
    also have "\<dots> = n" using 1 False by simp
    finally show ?thesis .
  qed
qed

lemma number_text_inj:
  "2 \<le> b \<Longrightarrow> b \<le> 16 \<Longrightarrow> number_text upper b m = number_text upper b n \<Longrightarrow> m = n"
  by (metis read_number_text)

lemma code_digit_char:
  "d < 16 \<Longrightarrow> (of_char (digit_char upper d) :: nat) = (if d < 10 then 48 + d else (if upper then 55 else 87) + d)"
  by (auto simp: digit_char_def)

lemma digit_char_not_nul: "d < 16 \<Longrightarrow> digit_char upper d \<noteq> CHR 0x00"
proof
  assume "d < 16" "digit_char upper d = CHR 0x00"
  then have "(of_char (digit_char upper d) :: nat) = 0" by simp
  with code_digit_char [OF \<open>d < 16\<close>, of upper] show False by (simp split: if_splits)
qed

end
