(* ===== verification/UartStm.thy ===== *)
theory UartStm
  imports TextFmt
begin

text \<open>
  The text output of \<open>drivers/stm32h753zi/uart.c\<close>. A function that prints is modelled by the
  characters it hands to \<open>uart_putc\<close>, in order; the digit buffers on the stack are lists
  written by index, as in the source. \<open>None\<close> is undefined behaviour: a conversion without
  its argument, or a format that is read past its end. Signed arithmetic wraps.

  The floating-point digits of \<open>%f\<close> are a parameter of \<open>uart_printf\<close> (theory \<open>PrintFloat\<close>); the
  set-up of USART3 is in \<open>Clocks\<close>, the polling of \<open>uart_putc\<close> and the mutex in \<open>UartLock\<close>.
\<close>

abbreviation NUL :: char where "NUL \<equiv> CHR 0x00"

definition uart_puts_raw :: "char list \<Rightarrow> string" where
  "uart_puts_raw s = takeWhile (\<lambda>c. c \<noteq> NUL) s"

subsection \<open>Unsigned numbers with padding\<close>

function print_digits :: "u32 \<Rightarrow> bool \<Rightarrow> u32 \<Rightarrow> nat \<Rightarrow> char list \<Rightarrow> nat \<times> char list" where
  "print_digits base upper n i buf =
     (if 0 < n \<and> 0 < i
      then print_digits base upper (n div base) (i - 1)
             (buf[i - 1 := digit_char upper (unat (n mod base))])
      else (i, buf))"
  by pat_completeness auto
termination by (relation "measure (\<lambda>(_, _, _, i, _). i)") auto

declare print_digits.simps [simp del]

definition print_uint_padded :: "u32 \<Rightarrow> u8 \<Rightarrow> int \<Rightarrow> bool \<Rightarrow> bool \<Rightarrow> string" where
  "print_uint_padded n base width pad_zero upper =
     (let buf = (replicate 32 (CHR ''?''))[31 := NUL];
          (i, buf) = (if n = 0 then (30, buf[30 := CHR ''0''])
                      else print_digits (ucast base) upper n 31 buf);
          len = 31 - i
      in replicate (nat (width - int len)) (if pad_zero then CHR ''0'' else CHR '' '')
         @ uart_puts_raw (drop i buf))"

definition print_uint :: "u32 \<Rightarrow> u8 \<Rightarrow> string" where
  "print_uint n base = print_uint_padded n base 0 False False"

definition print_int :: "u32 \<Rightarrow> string" where
  "print_int n = (if sint n < 0 then CHR ''-'' # print_uint (- n) 10 else print_uint n 10)"

lemma print_digits_eq:
  assumes "n \<noteq> 0" and "2 \<le> unat base" and "length (digits (unat base) (unat n)) \<le> i"
    and "i \<le> length buf"
  shows "print_digits base upper n i buf =
    (let ds = map (digit_char upper) (digits (unat base) (unat n)); j = i - length ds
     in (j, take j buf @ ds @ drop i buf))"
  using assms
proof (induction base upper n i buf rule: print_digits.induct)
  case (1 base upper n i buf)
  have i: "0 < i" using 1(4) by (cases i) auto
  have n: "0 < n" using 1(2) by (simp add: word_neq_0_conv)
  let ?d = "digit_char upper (unat (n mod base))"
  let ?b = "buf[i - 1 := ?d]"
  have step: "print_digits base upper n i buf = print_digits base upper (n div base) (i - 1) ?b"
    using i n by (subst print_digits.simps) simp
  have tb: "drop (i - 1) ?b = ?d # drop i buf" using i 1(5) by (simp add: Cons_nth_drop_Suc [symmetric])
  show ?case
  proof (cases "unat n < unat base")
    case True
    then have "n div base = 0" by (simp add: word_unat_eq_iff unat_div)
    then have "print_digits base upper n i buf = (i - 1, ?b)" using step by (simp add: print_digits.simps)
    moreover have "?b = take (i - 1) buf @ ?d # drop i buf" using i 1(5) by (simp add: upd_conv_take_nth_drop)
    moreover have "unat (n mod base) = unat n" using True by (simp add: unat_mod)
    ultimately show ?thesis using True by (simp add: digits_less Let_def)
  next
    case False
    have ds: "digits (unat base) (unat n) = digits (unat base) (unat (n div base)) @ [unat (n mod base)]"
      using False 1(3) by (simp add: digits_step unat_div unat_mod)
    have "n div base \<noteq> 0" using False 1(3) by (simp add: word_unat_eq_iff unat_div div_eq_0_iff)
    from 1(1) [OF _ this 1(3)] n i 1(4,5) ds
    have "print_digits base upper (n div base) (i - 1) ?b =
      (let ds = map (digit_char upper) (digits (unat base) (unat (n div base))); j = i - 1 - length ds
       in (j, take j ?b @ ds @ drop (i - 1) ?b))" by simp
    then show ?thesis unfolding step tb ds by (simp add: Let_def)
  qed
qed

lemma takeWhile_text: "NUL \<notin> set s \<Longrightarrow> uart_puts_raw (s @ NUL # r) = s"
  unfolding uart_puts_raw_def by (subst takeWhile_append2) auto

lemma nul_notin_text: "2 \<le> b \<Longrightarrow> b \<le> 16 \<Longrightarrow> NUL \<notin> set (number_text upper b n)"
proof
  assume b: "2 \<le> b" "b \<le> 16" and "NUL \<in> set (number_text upper b n)"
  then obtain d where "d \<in> set (digits b n)" "digit_char upper d = NUL"
    by (auto simp: number_text_def)
  with digits_bound [OF b(1)] b(2) digit_char_not_nul [of d upper] show False
    by (meson less_le_trans)
qed

lemma digit_char_0 [simp]: "digit_char upper 0 = CHR ''0''"
proof -
  have "char_of (of_char (CHR ''0'') :: nat) = CHR ''0''" by (rule char_of_char)
  then show ?thesis by (simp add: digit_char_def)
qed

lemma print_uint_padded_text:
  assumes "base = 10 \<or> base = 16"
  shows "print_uint_padded n base width pad_zero upper =
    (let ds = number_text upper (unat base) (unat n)
     in replicate (nat (width - int (length ds))) (if pad_zero then CHR ''0'' else CHR '' '') @ ds)"
proof -
  have b: "2 \<le> unat base" "unat base \<le> 16" and ub: "unat (ucast base :: u32) = unat base"
    using assms by auto
  let ?buf = "(replicate 32 (CHR ''?''))[31 := NUL]"
  let ?ds = "number_text upper (unat base) (unat n)"
  show ?thesis
  proof (cases "n = 0")
    case True
    have "?ds = ''0''" using True b by (simp add: number_text_def digits_less)
    moreover have "drop 30 (?buf[30 := CHR ''0'']) = ''0'' @ NUL # []"
      by (simp add: eval_nat_numeral)
    moreover have "uart_puts_raw (''0'' @ NUL # []) = ''0''" by (rule takeWhile_text) simp
    ultimately show ?thesis using True by (simp add: print_uint_padded_def Let_def)
  next
    case False
    have "unat n < 4294967296" by (rule unat32_less)
    then have "unat n < unat base ^ Suc 30"
      using assms by auto
    then have "length (digits (unat base) (unat n)) \<le> Suc 30"
      by (rule length_digits [OF b(1)])
    then have le: "length ?ds \<le> 31" and le': "length (digits (unat (ucast base :: u32)) (unat n)) \<le> 31"
      by (simp_all add: number_text_def ub)
    have p: "print_digits (ucast base) upper n 31 ?buf =
      (31 - length ?ds, take (31 - length ?ds) ?buf @ ?ds @ drop 31 ?buf)"
      using print_digits_eq [OF False _ le', of ?buf upper] b(1)
      by (simp add: ub Let_def number_text_def)
    have d31: "drop 31 ?buf = [NUL]" by (simp add: eval_nat_numeral)
    have "uart_puts_raw (drop (31 - length ?ds) (take (31 - length ?ds) ?buf @ ?ds @ drop 31 ?buf)) = ?ds"
      using takeWhile_text [OF nul_notin_text [OF b], of upper "unat n" "[]"] by (simp add: d31)
    then show ?thesis using False p le by (simp add: print_uint_padded_def Let_def)
  qed
qed

lemma print_int_text:
  "print_int n = (if sint n < 0 then ''-'' else '''') @ number_text False 10 (nat \<bar>sint n\<bar>)"
proof -
  have "nat \<bar>sint n\<bar> = (if sint n < 0 then unat (- n) else unat n)"
  proof (cases "unat n < 2 ^ 31")
    case True
    then show ?thesis by (simp add: sint32_small)
  next
    case False
    then have "n \<noteq> 0" by auto
    then have "unat (- n) = 2 ^ 32 - unat n" by (rule unat32_uminus)
    moreover define k where "k = unat n"
    ultimately have u: "unat (- n) = 2 ^ 32 - k" by simp
    have "sint n = int k - 2 ^ 32" unfolding k_def using False by (intro sint32_large) simp
    moreover have "k < 2 ^ 32" using unat32_less [of n] by (simp add: k_def)
    ultimately show ?thesis by (simp add: u nat_diff_distrib)
  qed
  then show ?thesis by (simp add: print_int_def print_uint_def print_uint_padded_text Let_def)
qed

subsection \<open>Signed numbers without the formatter\<close>

function num_digits :: "int \<Rightarrow> nat \<Rightarrow> char list \<Rightarrow> nat \<times> char list" where
  "num_digits n i buf =
     (if 0 < n \<and> 0 < i then num_digits (n div 10) (i - 1) (buf[i - 1 := digit_char False (nat (n mod 10))])
      else (i, buf))"
  by pat_completeness auto
termination by (relation "measure (\<lambda>(_, i, _). i)") auto

declare num_digits.simps [simp del]

definition uart_print_num :: "u32 \<Rightarrow> string" where
  "uart_print_num v =
     (let buf = (replicate 12 (CHR ''?''))[11 := NUL];
          sign = (if sint v < 0 then ''-'' else '''');
          n = (if sint v < 0 then sint (- v) else sint v)
      in if n = 0 then sign @ ''0''
         else let (i, buf) = num_digits n 11 buf in sign @ uart_puts_raw (drop i buf))"

definition uart_print_int :: "string \<Rightarrow> u32 \<Rightarrow> string" where
  "uart_print_int prefix val = uart_puts_raw (prefix @ [NUL]) @ uart_print_num val @ [CHR 0x0D, CHR 0x0A]"

definition uart_print_2int :: "string \<Rightarrow> u32 \<Rightarrow> string \<Rightarrow> u32 \<Rightarrow> string" where
  "uart_print_2int prefix a sep b =
     (let b = (if sint b < 0 then - b else b)
      in uart_puts_raw (prefix @ [NUL]) @ uart_print_num a @ ''.''
         @ (if sint b < 100 then ''0'' else '''') @ (if sint b < 10 then ''0'' else '''')
         @ uart_print_num b @ uart_puts_raw (sep @ [NUL]))"

definition uart_print_imu :: "u32 \<Rightarrow> u32 \<Rightarrow> u32 \<Rightarrow> u32 \<Rightarrow> u32 \<Rightarrow> u32 \<Rightarrow> string" where
  "uart_print_imu ax ay az gx gy gz =
     ''AX:'' @ uart_print_num ax @ '' AY:'' @ uart_print_num ay @ '' AZ:'' @ uart_print_num az
     @ '' GX:'' @ uart_print_num gx @ '' GY:'' @ uart_print_num gy @ '' GZ:'' @ uart_print_num gz
     @ [CHR 0x0D, CHR 0x0A]"

text \<open>Both digit loops write the same digits.\<close>

lemma num_digits_print_digits:
  "unat w < 2 ^ 31 \<Longrightarrow> num_digits (int (unat w)) i buf = print_digits 10 False w i buf"
proof (induction i arbitrary: w buf)
  case 0
  then show ?case by (simp add: num_digits.simps print_digits.simps)
next
  case (Suc i)
  define m where "m = unat w"
  have mw: "unat (w div 10) = m div 10" "unat (w mod 10) = m mod 10"
    by (simp_all add: unat_div unat_mod m_def)
  have "m div 10 < 2 ^ 31" using Suc.prems by (simp add: m_def)
  with Suc.IH [of "w div 10"] mw
  have IH: "num_digits (int (m div 10)) i b = print_digits 10 False (w div 10) i b" for b by simp
  have "0 < w \<longleftrightarrow> 0 < m" by (simp add: m_def word_less_nat_alt)
  moreover have "nat (int m mod 10) = m mod 10" by (metis nat_int of_nat_mod of_nat_numeral)
  moreover have "int m div 10 = int (m div 10)" by simp
  ultimately show ?case using IH mw
    by (subst num_digits.simps, subst print_digits.simps) (simp add: m_def [symmetric])
qed

lemma magnitude_small:
  assumes "sint v \<noteq> - (2 ^ 31)"
  shows "unat (if sint v < 0 then - v else v :: u32) < 2 ^ 31"
proof (cases "unat v < 2 ^ 31")
  case True
  then show ?thesis by (simp add: sint32_small)
next
  case False
  then have "v \<noteq> 0" by auto
  have s: "sint v = int (unat v) - 2 ^ 32" using False by (intro sint32_large) simp
  have "unat v \<noteq> 2 ^ 31"
  proof
    assume "unat v = 2 ^ 31"
    with s have "sint v = - (2 ^ 31)" by (simp only: of_nat_power of_nat_numeral) simp
    with assms show False by simp
  qed
  then have "unat (- v) < 2 ^ 31" using False unat32_uminus [OF \<open>v \<noteq> 0\<close>] by simp
  moreover have "sint v < 0" using False sint32_nonneg_iff [of v] by linarith
  ultimately show ?thesis by simp
qed

text \<open>The digits the loop leaves in the buffer of twelve characters, up to its terminator.\<close>

lemma num_digits_text:
  assumes small: "unat (m :: u32) < 2 ^ 31" and m: "m \<noteq> 0"
  shows "(case num_digits (sint m) 11 ((replicate 12 (CHR ''?''))[11 := NUL]) of
      (i, buf) \<Rightarrow> uart_puts_raw (drop i buf)) = number_text False 10 (unat m)"
proof -
  let ?buf = "(replicate 12 (CHR ''?''))[11 := NUL]" and ?ds = "number_text False 10 (unat m)"
  have "unat m < 10 ^ Suc 9" using small by simp
  then have "length (digits 10 (unat m)) \<le> 10" using length_digits [of 10 "unat m" 9] by simp
  then have le: "length ?ds \<le> 10" and le': "length (digits (unat (10 :: u32)) (unat m)) \<le> 11"
    by (simp_all add: number_text_def)
  have "num_digits (sint m) 11 ?buf = print_digits 10 False m 11 ?buf"
    unfolding sint32_small [OF small] using small by (rule num_digits_print_digits)
  also have "\<dots> = (11 - length ?ds, take (11 - length ?ds) ?buf @ ?ds @ drop 11 ?buf)"
    using print_digits_eq [OF m _ le', of ?buf False] by (simp add: Let_def number_text_def)
  finally have p: "num_digits (sint m) 11 ?buf = \<dots>" .
  have d11: "drop 11 ?buf = [NUL]" by (simp add: eval_nat_numeral)
  have "uart_puts_raw (drop (11 - length ?ds) (take (11 - length ?ds) ?buf @ ?ds @ drop 11 ?buf)) = ?ds"
    using takeWhile_text [OF nul_notin_text [of 10], of False "unat m" "[]"] le by (simp add: d11)
  then show ?thesis unfolding p by simp
qed

lemma uart_print_num_text:
  assumes "sint v \<noteq> - (2 ^ 31)"
  shows "uart_print_num v = print_int v"
proof -
  let ?m = "if sint v < 0 then - v else v"
  show ?thesis
  proof (cases "?m = 0")
    case True
    then have "v = 0" by (simp split: if_splits)
    then show ?thesis
      by (simp add: uart_print_num_def print_int_text number_text_def digits_less Let_def)
  next
    case False
    have "sint ?m \<noteq> 0" using False by (cases "sint v < 0") (simp_all add: signed_eq_0_iff)
    moreover have "uart_print_num v =
       (if sint ?m = 0 then (if sint v < 0 then ''-'' else '''') @ ''0''
        else (if sint v < 0 then ''-'' else '''') @ (case num_digits (sint ?m) 11 ((replicate 12 (CHR ''?''))[11 := NUL]) of
          (i, buf) \<Rightarrow> uart_puts_raw (drop i buf)))"
      by (simp add: uart_print_num_def Let_def split: prod.split)
    ultimately have "uart_print_num v = (if sint v < 0 then ''-'' else '''')
        @ (case num_digits (sint ?m) 11 ((replicate 12 (CHR ''?''))[11 := NUL]) of (i, buf) \<Rightarrow> uart_puts_raw (drop i buf))"
      by (simp only: if_False)
    also have "\<dots> = (if sint v < 0 then ''-'' else '''') @ number_text False 10 (unat ?m)"
      by (simp only: num_digits_text [OF magnitude_small [OF assms] False])
    also have "\<dots> = print_int v"
      by (simp add: print_int_def print_uint_def print_uint_padded_text Let_def)
    finally show ?thesis .
  qed
qed

subsection \<open>The formatter\<close>

datatype 'd uart_arg = ArgInt u32 | ArgStr string | ArgDbl 'd

definition is_digit :: "char \<Rightarrow> bool" where
  "is_digit c \<longleftrightarrow> (48 :: nat) \<le> of_char c \<and> of_char c \<le> (57 :: nat)"

fun scan_number :: "int \<Rightarrow> char list \<Rightarrow> int \<times> char list" where
  "scan_number n [] = (n, [])"
| "scan_number n (c # cs) =
     (if is_digit c then scan_number (n * 10 + (int (of_char c) - 48)) cs else (n, c # cs))"

text \<open>The flags, the width and the precision of a conversion, and what follows them.\<close>

definition parse_spec :: "char list \<Rightarrow> bool \<times> int \<times> int \<times> char list" where
  "parse_spec fmt =
     (let (pad_zero, fmt) = (if fmt \<noteq> [] \<and> hd fmt = CHR ''0'' then (True, tl fmt) else (False, fmt));
          (width, fmt) = scan_number 0 fmt;
          (decimals, fmt) = (if fmt \<noteq> [] \<and> hd fmt = CHR ''.'' then scan_number 0 (tl fmt) else (3, fmt))
      in (pad_zero, width, decimals, fmt))"

definition print_signed_padded :: "u32 \<Rightarrow> int \<Rightarrow> bool \<Rightarrow> string" where
  "print_signed_padded v width pad_zero =
     (if sint v < 0 then CHR ''-'' # print_uint_padded (- v) 10 width pad_zero False
      else print_uint_padded v 10 width pad_zero False)"

definition convert ::
  "('d \<Rightarrow> int \<Rightarrow> string) \<Rightarrow> bool \<Rightarrow> int \<Rightarrow> int \<Rightarrow> char \<Rightarrow> 'd uart_arg list
   \<Rightarrow> (string \<times> 'd uart_arg list) option" where
  "convert pf pad_zero width decimals c args =
     (if c = CHR ''d'' then case args of ArgInt v # r \<Rightarrow> Some (print_signed_padded v width pad_zero, r) | _ \<Rightarrow> None
      else if c = CHR ''u'' then case args of ArgInt v # r \<Rightarrow> Some (print_uint_padded v 10 width pad_zero False, r) | _ \<Rightarrow> None
      else if c = CHR ''x'' then case args of ArgInt v # r \<Rightarrow> Some (print_uint_padded v 16 width pad_zero False, r) | _ \<Rightarrow> None
      else if c = CHR ''X'' then case args of ArgInt v # r \<Rightarrow> Some (print_uint_padded v 16 width pad_zero True, r) | _ \<Rightarrow> None
      else if c = CHR ''s'' then case args of ArgStr s # r \<Rightarrow> Some (uart_puts_raw s, r) | _ \<Rightarrow> None
      else if c = CHR ''c'' then case args of ArgInt v # r \<Rightarrow> Some ([char_of (unat v)], r) | _ \<Rightarrow> None
      else if c = CHR ''f'' then case args of ArgDbl f # r \<Rightarrow> Some (pf f decimals, r) | _ \<Rightarrow> None
      else if c = CHR ''%'' then Some (''%'', args)
      else Some ([CHR ''%'', c], args))"

lemma scan_number_length: "length (snd (scan_number n cs)) \<le> length cs"
  by (induction n cs rule: scan_number.induct) (auto split: prod.split)

lemma parse_spec_length: "length (snd (snd (snd (parse_spec cs)))) \<le> length cs"
proof -
  let ?a = "if cs \<noteq> [] \<and> hd cs = CHR ''0'' then tl cs else cs"
  let ?b = "snd (scan_number 0 ?a)"
  have "length ?a \<le> length cs" by simp
  moreover have "length ?b \<le> length ?a" by (rule scan_number_length)
  moreover have "length (snd (scan_number 0 (tl ?b))) \<le> length ?b"
    using scan_number_length [of 0 "tl ?b"] by simp
  moreover have "snd (snd (snd (parse_spec cs))) =
      (if ?b \<noteq> [] \<and> hd ?b = CHR ''.'' then snd (scan_number 0 (tl ?b)) else ?b)"
    unfolding parse_spec_def by (simp add: Let_def split: prod.split)
  ultimately show ?thesis by (simp split: if_splits)
qed

function uart_printf :: "('d \<Rightarrow> int \<Rightarrow> string) \<Rightarrow> char list \<Rightarrow> 'd uart_arg list \<Rightarrow> string option" where
  "uart_printf pf [] args = None"
| "uart_printf pf (c # fmt) args =
     (if c = NUL then Some []
      else if c \<noteq> CHR ''%'' then map_option (Cons c) (uart_printf pf fmt args)
      else case parse_spec fmt of (pad_zero, width, decimals, rest) \<Rightarrow>
        (case rest of [] \<Rightarrow> None
         | x # fmt' \<Rightarrow> (case convert pf pad_zero width decimals x args of
             None \<Rightarrow> None
           | Some (out, args') \<Rightarrow> map_option ((@) out) (uart_printf pf fmt' args'))))"
  by pat_completeness auto
termination
proof (relation "measure (\<lambda>(_, fmt, _). length fmt)", goal_cases)
  case 3
  then show ?case using parse_spec_length by (metis (no_types, lifting) case_prod_conv in_measure le_imp_less_Suc length_Cons less_SucI prod.sel(2) Suc_le_lessD)
qed auto

declare uart_printf.simps(2) [simp del]

subsection \<open>Formats as a list of fields, and what they render to\<close>

datatype 'd seg =
    Lit string | SegD bool nat u32 | SegU bool nat u32 | SegX bool nat bool u32
  | SegS string | SegC char | SegF nat 'd | SegPercent

definition pad_fmt :: "bool \<Rightarrow> nat \<Rightarrow> string" where
  "pad_fmt z w = (if z then ''0'' else '''') @ (if w = 0 then '''' else number_text False 10 w)"

fun seg_fmt :: "'d seg \<Rightarrow> string" where
  "seg_fmt (Lit s) = s"
| "seg_fmt (SegD z w v) = ''%'' @ pad_fmt z w @ ''d''"
| "seg_fmt (SegU z w v) = ''%'' @ pad_fmt z w @ ''u''"
| "seg_fmt (SegX z w up v) = ''%'' @ pad_fmt z w @ (if up then ''X'' else ''x'')"
| "seg_fmt (SegS s) = ''%s''"
| "seg_fmt (SegC c) = ''%c''"
| "seg_fmt (SegF p d) = ''%.'' @ number_text False 10 p @ ''f''"
| "seg_fmt SegPercent = ''%%''"

fun seg_args :: "'d seg \<Rightarrow> 'd uart_arg list" where
  "seg_args (SegD z w v) = [ArgInt v]"
| "seg_args (SegU z w v) = [ArgInt v]"
| "seg_args (SegX z w up v) = [ArgInt v]"
| "seg_args (SegS s) = [ArgStr (s @ [NUL])]"
| "seg_args (SegC c) = [ArgInt (of_nat (of_char c))]"
| "seg_args (SegF p d) = [ArgDbl d]"
| "seg_args _ = []"

definition padded :: "bool \<Rightarrow> nat \<Rightarrow> string \<Rightarrow> string" where
  "padded z w ds = replicate (w - length ds) (if z then CHR ''0'' else CHR '' '') @ ds"

fun seg_text :: "('d \<Rightarrow> int \<Rightarrow> string) \<Rightarrow> 'd seg \<Rightarrow> string" where
  "seg_text pf (Lit s) = s"
| "seg_text pf (SegD z w v) =
     (if sint v < 0 then ''-'' else '''') @ padded z w (number_text False 10 (nat \<bar>sint v\<bar>))"
| "seg_text pf (SegU z w v) = padded z w (number_text False 10 (unat v))"
| "seg_text pf (SegX z w up v) = padded z w (number_text up 16 (unat v))"
| "seg_text pf (SegS s) = s"
| "seg_text pf (SegC c) = [c]"
| "seg_text pf (SegF p d) = pf d (int p)"
| "seg_text pf SegPercent = ''%''"

fun seg_ok :: "'d seg \<Rightarrow> bool" where
  "seg_ok (Lit s) \<longleftrightarrow> NUL \<notin> set s \<and> CHR ''%'' \<notin> set s"
| "seg_ok (SegS s) \<longleftrightarrow> NUL \<notin> set s"
| "seg_ok _ \<longleftrightarrow> True"

lemma scan_number_text:
  assumes "\<And>c. c \<in> set s \<Longrightarrow> is_digit c" and "r = [] \<or> \<not> is_digit (hd r)"
  shows "scan_number n (s @ r) = (foldl (\<lambda>n c. n * 10 + (int (of_char c) - 48)) n s, r)"
  using assms(1)
proof (induction s arbitrary: n)
  case Nil
  then show ?case using assms(2) by (cases r) simp_all
qed simp

lemma foldl_read_number:
  "\<forall>c \<in> set s. is_digit c \<Longrightarrow>
   foldl (\<lambda>n c. n * 10 + (int (of_char c) - 48)) (int n) s = int (foldl (\<lambda>n c. n * 10 + digit_value c) n s)"
proof (induction s arbitrary: n)
  case (Cons c s)
  then have d: "(48 :: nat) \<le> of_char c" "of_char c \<le> (57 :: nat)" by (auto simp: is_digit_def)
  have "int n * 10 + (int (of_char c) - 48) = int (n * 10 + digit_value c)"
    using d by (simp add: digit_value_def Let_def of_nat_diff)
  with Cons.IH [of "n * 10 + digit_value c"] Cons.prems show ?case by (simp only: foldl_Cons) simp
qed simp

lemma is_digit_text: "c \<in> set (number_text False 10 n) \<Longrightarrow> is_digit c"
proof -
  assume "c \<in> set (number_text False 10 n)"
  then obtain d where d: "d \<in> set (digits 10 n)" "c = digit_char False d" by (auto simp: number_text_def)
  then have "d < 10" using digits_bound [of 10 d n] by simp
  with d show ?thesis by (simp add: code_digit_char is_digit_def)
qed

lemma scan_number_round_trip:
  assumes "r = [] \<or> \<not> is_digit (hd r)"
  shows "scan_number 0 (number_text False 10 w @ r) = (int w, r)"
proof -
  have d: "\<forall>c \<in> set (number_text False 10 w). is_digit c" using is_digit_text by blast
  have "foldl (\<lambda>n c. n * 10 + (int (of_char c) - 48)) (int 0) (number_text False 10 w) = int w"
    using foldl_read_number [OF d, of 0] read_number_text [of 10 False w]
    by (simp add: read_number_def)
  then show ?thesis using scan_number_text [of "number_text False 10 w" r 0] d assms by simp
qed

lemma scan_number_none: "r = [] \<or> \<not> is_digit (hd r) \<Longrightarrow> scan_number 0 r = (0, r)"
  using scan_number_text [of "[]" r 0] by simp

lemma hd_digits_nonzero: "2 \<le> b \<Longrightarrow> 0 < n \<Longrightarrow> hd (digits b n) \<noteq> 0"
proof (induction b n rule: digits.induct)
  case (1 b n)
  show ?case
  proof (cases "n < b")
    case True
    then show ?thesis using 1 by (simp add: digits_less)
  next
    case False
    have "0 < n div b" using False 1(2) by (simp add: div_greater_zero_iff)
    then show ?thesis using 1 False by (simp add: digits_step)
  qed
qed

lemma hd_number_text: "0 < w \<Longrightarrow> hd (number_text False 10 w) \<noteq> CHR ''0''"
proof
  assume w: "0 < w" and "hd (number_text False 10 w) = CHR ''0''"
  then have e: "digit_char False (hd (digits 10 w)) = digit_char False 0"
    by (simp add: number_text_def hd_map)
  have "hd (digits 10 w) < 10" using digits_bound [of 10 "hd (digits 10 w)" w] by simp
  then have "hd (digits 10 w) = 0"
    using arg_cong [OF e, of digit_value] by (simp add: digit_value_char del: digit_char_0)
  with hd_digits_nonzero [of 10 w] w show False by simp
qed

lemma parse_pad_fmt:
  assumes "\<not> is_digit x" and "x \<noteq> CHR ''.''"
  shows "parse_spec (pad_fmt z w @ x # r) = (z, int w, 3, x # r)"
proof -
  have x0: "x \<noteq> CHR ''0''" using assms(1) by (auto simp: is_digit_def)
  have s: "scan_number 0 ((if w = 0 then '''' else number_text False 10 w) @ x # r) = (int w, x # r)"
    using scan_number_round_trip [of "x # r" w] scan_number_none [of "x # r"] assms(1) by simp
  have n: "number_text False 10 w \<noteq> []" by (simp add: number_text_def)
  have h: "hd ((if w = 0 then '''' else number_text False 10 w) @ x # r) \<noteq> CHR ''0''"
    using x0 hd_number_text [of w] n by simp
  show ?thesis
  proof (cases z)
    case True
    then show ?thesis using s assms(2) by (simp add: parse_spec_def pad_fmt_def)
  next
    case False
    then have "parse_spec (pad_fmt z w @ x # r) =
      (let (width, fmt) = scan_number 0 ((if w = 0 then '''' else number_text False 10 w) @ x # r);
           (decimals, fmt) = (if fmt \<noteq> [] \<and> hd fmt = CHR ''.'' then scan_number 0 (tl fmt) else (3, fmt))
       in (False, width, decimals, fmt))"
      using h unfolding parse_spec_def pad_fmt_def by (simp only: append_Nil if_False Let_def simp_thms prod.case)
    then show ?thesis using s assms(2) False by simp
  qed
qed

lemma parse_precision:
  "parse_spec (''.'' @ number_text False 10 p @ ''f'' @ r) = (False, 0, int p, CHR ''f'' # r)"
proof -
  have "scan_number 0 (number_text False 10 p @ CHR ''f'' # r) = (int p, CHR ''f'' # r)"
    by (rule scan_number_round_trip) (simp add: is_digit_def)
  moreover have "scan_number 0 (CHR ''.'' # s) = (0, CHR ''.'' # s)" for s
    by (rule scan_number_none) (simp add: is_digit_def)
  ultimately show ?thesis by (simp add: parse_spec_def)
qed

lemma printf_field:
  assumes "parse_spec (f @ x # fmt) = (z, w, p, x # fmt)"
    and "convert pf z w p x args = Some (out, args')"
  shows "uart_printf pf (''%'' @ f @ x # fmt) args = map_option ((@) out) (uart_printf pf fmt args')"
  using assms by (simp add: uart_printf.simps(2))

lemma printf_literal:
  "NUL \<notin> set s \<Longrightarrow> CHR ''%'' \<notin> set s \<Longrightarrow>
   uart_printf pf (s @ fmt) args = map_option ((@) s) (uart_printf pf fmt args)"
proof (induction s)
  case (Cons c s)
  then have "c \<noteq> NUL" "c \<noteq> CHR ''%''" by auto
  with Cons show ?case by (cases "uart_printf pf fmt args") (simp_all add: uart_printf.simps(2))
qed (cases "uart_printf pf fmt args"; simp)

lemma print_uint_padded_padded:
  "base = 10 \<or> base = 16 \<Longrightarrow>
   print_uint_padded n base (int w) z upper = padded z w (number_text upper (unat base) (unat n))"
  by (auto simp: print_uint_padded_text padded_def Let_def)

lemma print_signed_padded_text:
  "print_signed_padded v (int w) z
   = (if sint v < 0 then ''-'' else '''') @ padded z w (number_text False 10 (nat \<bar>sint v\<bar>))"
proof -
  have "number_text False 10 (nat \<bar>sint v\<bar>) = number_text False 10 (unat (if sint v < 0 then - v else v))"
    using print_int_text [of v] by (simp add: print_int_def print_uint_def print_uint_padded_text Let_def split: if_splits)
  then show ?thesis by (simp add: print_signed_padded_def print_uint_padded_padded)
qed

lemma printf_seg:
  assumes "seg_ok g"
  shows "uart_printf pf (seg_fmt g @ fmt) (seg_args g @ args)
    = map_option ((@) (seg_text pf g)) (uart_printf pf fmt args)"
proof (cases g)
  case (Lit s)
  then show ?thesis using assms by (simp add: printf_literal)
next
  case (SegD z w v)
  show ?thesis unfolding SegD seg_fmt.simps append_assoc
    by (simp only: append_Cons append_Nil append_assoc) (rule printf_field [unfolded append_Cons append_Nil],
      rule parse_pad_fmt, simp_all add: is_digit_def convert_def print_signed_padded_text)
next
  case (SegU z w v)
  show ?thesis unfolding SegU seg_fmt.simps append_assoc
    by (simp only: append_Cons append_Nil append_assoc) (rule printf_field [unfolded append_Cons append_Nil],
      rule parse_pad_fmt, simp_all add: is_digit_def convert_def print_uint_padded_padded)
next
  case (SegX z w up v)
  show ?thesis unfolding SegX seg_fmt.simps append_assoc
    by (cases up; simp only: append_Cons append_Nil append_assoc if_True if_False)
      (rule printf_field [unfolded append_Cons append_Nil],
      rule parse_pad_fmt, simp_all add: is_digit_def convert_def print_uint_padded_padded)+
next
  case (SegS s)
  then show ?thesis using assms takeWhile_text [of s "[]"]
    parse_pad_fmt [of "CHR ''s''" False 0 fmt] by (simp add: uart_printf.simps(2) pad_fmt_def is_digit_def convert_def)
next
  case (SegC c)
  have "(of_char c :: nat) mod 4294967296 = of_char c"
    by (rule mod_less) (rule less_trans [OF nat_of_char_less_256], simp)
  with SegC show ?thesis using parse_pad_fmt [of "CHR ''c''" False 0 fmt]
    by (simp add: uart_printf.simps(2) pad_fmt_def is_digit_def convert_def unat_of_nat)
next
  case (SegF p d)
  then show ?thesis using parse_precision [of p fmt]
    by (simp add: uart_printf.simps(2) convert_def)
next
  case SegPercent
  then show ?thesis using parse_pad_fmt [of "CHR ''%''" False 0 fmt]
    by (simp add: uart_printf.simps(2) pad_fmt_def is_digit_def convert_def)
qed

text \<open>
  What the two boards' formatters promise, each for the fields it understands: a format ends at
  its terminator, and a field at the front is shown and consumes its argument. A whole format
  is then rendered field by field.
\<close>

locale formatter =
  fixes printf :: "char list \<Rightarrow> 'd uart_arg list \<Rightarrow> string option"
    and understands :: "'d seg \<Rightarrow> bool" and shows_as :: "'d seg \<Rightarrow> string"
  assumes ends: "printf [NUL] [] = Some []"
    and field: "understands g \<Longrightarrow>
      printf (seg_fmt g @ fmt) (seg_args g @ args) = map_option ((@) (shows_as g)) (printf fmt args)"
begin

lemma renders_front:
  "\<forall>g \<in> set segs. understands g \<Longrightarrow>
   printf (concat (map seg_fmt segs) @ fmt) (concat (map seg_args segs) @ args)
     = map_option ((@) (concat (map shows_as segs))) (printf fmt args)"
proof (induction segs)
  case Nil
  then show ?case by (cases "printf fmt args") simp_all
next
  case (Cons g segs)
  then show ?case by (simp add: field option.map_comp comp_def)
qed

lemma renders:
  "\<forall>g \<in> set segs. understands g \<Longrightarrow>
   printf (concat (map seg_fmt segs) @ [NUL]) (concat (map seg_args segs)) = Some (concat (map shows_as segs))"
  using renders_front [of segs "[NUL]" "[]"] by (simp add: ends)

lemma renders_as:
  assumes "\<forall>g \<in> set segs. understands g" and "\<forall>g \<in> set segs. shows_as g = other g"
  shows "printf (concat (map seg_fmt segs) @ [NUL]) (concat (map seg_args segs)) = Some (concat (map other segs))"
proof -
  have "map shows_as segs = map other segs" using assms(2) by simp
  with renders [OF assms(1)] show ?thesis by metis
qed

end

interpretation stm_printf: formatter "uart_printf pf" seg_ok "seg_text pf" for pf
  by unfold_locales (simp_all add: printf_seg uart_printf.simps(2))

lemmas printf_segs = stm_printf.renders

subsection \<open>Properties\<close>



text \<open>
  A printed 32-bit number reads back as the number, in decimal and in hexadecimal, and the
  31 characters of the stack buffer are enough: print_uint_padded never drops a digit.
\<close>

theorem print_uint_round_trip:
  assumes "base = 10 \<or> base = 16"
  shows "read_number (unat base) (print_uint n base) = unat n \<and> length (print_uint n base) \<le> 31"
proof -
  have t: "print_uint n base = number_text False (unat base) (unat n)"
    using assms by (simp add: print_uint_def print_uint_padded_text Let_def)
  have "read_number (unat base) (print_uint n base) = unat n"
    unfolding t using assms by (intro read_number_text) auto
  moreover have "unat n < unat base ^ Suc 30" using unat32_less [of n] assms by auto
  then have "length (print_uint n base) \<le> 31"
    using length_digits [of "unat base" "unat n" 30] assms by (auto simp: t number_text_def)
  ultimately show ?thesis ..
qed

theorem print_uint_round_trip_witness:
  "read_number 16 (print_uint 0xCAFE 16) = 0xCAFE \<and> length (print_uint 0xCAFE 16) \<le> 31"
  using print_uint_round_trip [of 16 "0xCAFE"] by simp

text \<open>
  uart_print_num agrees with the formatter's signed printing on every int but the least,
  for which it prints a lone minus sign: the negation leaves the value negative, so the digit
  loop is never entered.
\<close>

theorem uart_print_num_int_min:
  "uart_print_num v = (if sint v = - (2 ^ 31) then ''-'' else print_int v)"
proof (cases "sint v = - (2 ^ 31)")
  case True
  then have "sint v = sint (0x80000000 :: u32)" by simp
  then have "v = 0x80000000" by (rule signed_word_eqI)
  then show ?thesis
    by (simp add: uart_print_num_def num_digits.simps uart_puts_raw_def Let_def eval_nat_numeral)
next
  case False
  then show ?thesis by (simp add: uart_print_num_text)
qed

text \<open>
  A format that ends in a lone % is read past its terminating NUL: the default branch prints
  the NUL and steps over it, and the loop goes on in whatever memory follows the string.
\<close>

theorem uart_printf_trailing_percent:
  "NUL \<notin> set s \<Longrightarrow> CHR ''%'' \<notin> set s \<Longrightarrow>
   uart_printf pf (s @ [CHR ''%'', NUL]) args = None \<and>
   uart_printf pf (s @ [CHR ''%'', NUL] @ more) args
     = map_option (\<lambda>out. s @ [CHR ''%'', NUL] @ out) (uart_printf pf more args)"
proof -
  assume s: "NUL \<notin> set s" "CHR ''%'' \<notin> set s"
  have p: "uart_printf pf (CHR ''%'' # NUL # more) args
    = map_option ((@) [CHR ''%'', NUL]) (uart_printf pf more args)" for more
    using parse_pad_fmt [of NUL False 0 more]
    by (simp add: uart_printf.simps(2) pad_fmt_def is_digit_def convert_def)
  show ?thesis
    using printf_literal [OF s, of pf "[CHR ''%'', NUL]" args] p [of "[]"]
      printf_literal [OF s, of pf "CHR ''%'' # NUL # more" args] p [of more]
    by (simp add: option.map_comp comp_def)
qed

theorem uart_printf_trailing_percent_witness:
  "uart_printf (\<lambda>(d :: unit) n. '''') [CHR ''5'', CHR ''0'', CHR ''%'', NUL] [] = None"
  using uart_printf_trailing_percent [of "''50''" "\<lambda>(d :: unit) n. ''''" "[]" "[]"] by simp

end
