(* ===== verification/HardFault.thy ===== *)
theory HardFault
  imports FaultLog UartStm "HOL-Library.Sublist"
begin

text \<open>
  \<open>kernel/core/hardfault.c\<close>: the four fault vectors, their common body, which prints the
  stacked frame and the fault status registers, names the set bits of CFSR and writes the
  record into the backup memory, and the text it prints. The registers of the system control
  block are a record; stores to CFSR clear the bits written as one.
\<close>

record scb_regs =
  SCB_CFSR :: u32
  SCB_HFSR :: u32
  SCB_DFSR :: u32
  SCB_MMFAR :: u32
  SCB_BFAR :: u32
  SCB_AFSR :: u32

record hf_globals =
  hf_r0 :: u32
  hf_r1 :: u32
  hf_r2 :: u32
  hf_r3 :: u32
  hf_r12 :: u32
  hf_lr :: u32
  hf_pc :: u32
  hf_psr :: u32
  hf_cfsr :: u32
  hf_hfsr :: u32
  hf_dfsr :: u32
  hf_mmfar :: u32
  hf_bfar :: u32
  hf_afsr :: u32

subsection \<open>Printing\<close>

abbreviation CRLF :: string where "CRLF \<equiv> [CHR 0x0D, CHR 0x0A]"

definition hf_puts :: "char list \<Rightarrow> string" where
  "hf_puts s = takeWhile (\<lambda>c. c \<noteq> NUL) s"

definition hf_nibble :: "u32 \<Rightarrow> nat \<Rightarrow> u8" where
  "hf_nibble val i = ucast (drop_bit i val AND 0xF)"

definition hf_print_hex :: "u32 \<Rightarrow> string" where
  "hf_print_hex val =
     hf_puts ''0x'' @ map (\<lambda>i. digit_char True (unat (hf_nibble val i))) [28, 24, 20, 16, 12, 8, 4, 0]"

definition hf_print_reg :: "string \<Rightarrow> u32 \<Rightarrow> string" where
  "hf_print_reg name val = hf_puts name @ hf_print_hex val @ hf_puts CRLF"

subsection \<open>The handlers\<close>

text \<open>
  \<open>tst lr, #4; ite eq; mrseq r0, msp; mrsne r0, psp; mov r1, lr\<close>: the arguments of
  \<open>hardfault_c\<close>.
\<close>

definition fault_entry :: "u32 \<Rightarrow> u32 \<Rightarrow> u32 \<Rightarrow> u32 \<times> u32" where
  "fault_entry msp psp link = (if link AND 4 = 0 then msp else psp, link)"

definition HardFault_Handler :: "u32 \<Rightarrow> u32 \<Rightarrow> u32 \<Rightarrow> u32 \<times> u32" where
  "HardFault_Handler msp psp link = fault_entry msp psp link"

definition MemManage_Handler :: "u32 \<Rightarrow> u32 \<Rightarrow> u32 \<Rightarrow> u32 \<times> u32" where
  "MemManage_Handler msp psp link = fault_entry msp psp link"

definition BusFault_Handler :: "u32 \<Rightarrow> u32 \<Rightarrow> u32 \<Rightarrow> u32 \<times> u32" where
  "BusFault_Handler msp psp link = fault_entry msp psp link"

definition UsageFault_Handler :: "u32 \<Rightarrow> u32 \<Rightarrow> u32 \<Rightarrow> u32 \<times> u32" where
  "UsageFault_Handler msp psp link = fault_entry msp psp link"

text \<open>\<open>stack i\<close> is the word \<open>sp[i]\<close>.\<close>

definition hf_capture :: "(nat \<Rightarrow> u32) \<Rightarrow> scb_regs \<Rightarrow> hf_globals" where
  "hf_capture stack scb =
     \<lparr>hf_r0 = stack 0, hf_r1 = stack 1, hf_r2 = stack 2, hf_r3 = stack 3, hf_r12 = stack 4,
      hf_lr = stack 5, hf_pc = stack 6, hf_psr = stack 7,
      hf_cfsr = SCB_CFSR scb, hf_hfsr = SCB_HFSR scb, hf_dfsr = SCB_DFSR scb,
      hf_mmfar = SCB_MMFAR scb, hf_bfar = SCB_BFAR scb, hf_afsr = SCB_AFSR scb\<rparr>"

definition hf_registers :: "u32 \<Rightarrow> u32 \<Rightarrow> hf_globals \<Rightarrow> string" where
  "hf_registers sp exc g =
     hf_puts (CRLF @ CRLF @ ''*** FAULT ***'' @ CRLF)
     @ hf_puts ((if exc AND 4 \<noteq> 0 then ''Stack = PSP'' else ''Stack = MSP'') @ CRLF)
     @ hf_print_reg ''PC   = '' (hf_pc g) @ hf_print_reg ''LR   = '' (hf_lr g)
     @ hf_print_reg ''xPSR = '' (hf_psr g) @ hf_print_reg ''R0   = '' (hf_r0 g)
     @ hf_print_reg ''R1   = '' (hf_r1 g) @ hf_print_reg ''R2   = '' (hf_r2 g)
     @ hf_print_reg ''R3   = '' (hf_r3 g) @ hf_print_reg ''R12  = '' (hf_r12 g)
     @ hf_print_reg ''SP   = '' sp @ hf_print_reg ''CFSR = '' (hf_cfsr g)
     @ hf_print_reg ''HFSR = '' (hf_hfsr g) @ hf_print_reg ''DFSR = '' (hf_dfsr g)
     @ hf_print_reg ''BFAR = '' (hf_bfar g) @ hf_print_reg ''MMFAR= '' (hf_mmfar g)
     @ hf_print_reg ''AFSR = '' (hf_afsr g)"

definition CFSR_NAMES :: "(nat \<times> string) list" where
  "CFSR_NAMES = [(25, ''DIVBYZERO''), (24, ''UNALIGNED''), (19, ''NOCP (no coprocessor)''),
     (18, ''INVPC''), (17, ''INVSTATE''), (16, ''UNDEFINSTR''), (15, ''BFARVALID''), (12, ''STKERR''),
     (11, ''UNSTKERR''), (10, ''IMPRECISERR''), (9, ''PRECISERR''), (8, ''IBUSERR''), (7, ''MMARVALID''),
     (4, ''MSTKERR''), (3, ''MUNSTKERR''), (1, ''DACCVIOL''), (0, ''IACCVIOL'')]"

definition cfsr_line :: "u32 \<Rightarrow> nat \<times> string \<Rightarrow> string" where
  "cfsr_line c = (\<lambda>(b, name). if c AND push_bit b 1 \<noteq> 0 then hf_puts (''  '' @ name @ CRLF) else '''')"

definition hf_decode :: "u32 \<Rightarrow> string" where
  "hf_decode c = hf_puts (''--- CFSR decode ---'' @ CRLF) @ concat (map (cfsr_line c) CFSR_NAMES)"

definition hf_entry :: "u32 \<Rightarrow> u32 \<Rightarrow> hf_globals \<Rightarrow> fault_log_t" where
  "hf_entry stale_magic exc g =
     \<lparr>magic = stale_magic, exc_return = exc, pc = hf_pc g, lr = hf_lr g, xpsr = hf_psr g,
      r0 = hf_r0 g, r1 = hf_r1 g, r2 = hf_r2 g, r3 = hf_r3 g, r12 = hf_r12 g,
      cfsr = hf_cfsr g, hfsr = hf_hfsr g, mmfar = hf_mmfar g, bfar = hf_bfar g,
      mmfar_valid = (if hf_cfsr g AND push_bit 7 1 \<noteq> 0 then 1 else 0),
      bfar_valid = (if hf_cfsr g AND push_bit 15 1 \<noteq> 0 then 1 else 0)\<rparr>"

text \<open>
  The body up to its final endless loop; \<open>stale_magic\<close> is the uninitialised magic of the
  local record.
\<close>

definition hardfault_c ::
  "u32 \<Rightarrow> (nat \<Rightarrow> u32) \<Rightarrow> u32 \<Rightarrow> u32 \<Rightarrow> scb_regs \<Rightarrow> bkp_machine
     \<Rightarrow> (string \<times> hf_globals \<times> scb_regs \<times> bkp_machine) option" where
  "hardfault_c stale_magic stack sp exc scb s =
     (let g = hf_capture stack scb in
      case fault_log_write (hf_entry stale_magic exc g) s of
        None \<Rightarrow> None
      | Some s' \<Rightarrow> Some
         (hf_registers sp exc g @ hf_decode (hf_cfsr g)
          @ hf_puts ((if fault_log_peek_magic s' = FAULT_LOG_MAGIC then ''Backup SRAM write: OK''
               else ''Backup SRAM write: FAILED (check PWR_CR1.DBP / RCC_AHB4ENR.BKPRAMEN)'') @ CRLF)
          @ hf_puts (''*** HALTED ***'' @ CRLF),
          g, scb\<lparr>SCB_CFSR := SCB_CFSR scb AND NOT (hf_cfsr g)\<rparr>, s'))"

subsection \<open>The decode can be read back\<close>

lemma hf_puts_id: "NUL \<notin> set s \<Longrightarrow> hf_puts s = s"
  unfolding hf_puts_def by (induction s) auto

lemma unat_nibble: "unat (hf_nibble val i) = unat val div 2 ^ i mod 16"
proof -
  have "drop_bit i val AND 0xF = take_bit 4 (drop_bit i val)"
    by (simp add: take_bit_eq_mask mask_eq_exp_minus_1)
  then have "unat (drop_bit i val AND 0xF) = take_bit 4 (drop_bit i (unat val))"
    by (simp only: unsigned_take_bit_eq unat_drop_bit_eq)
  then have u: "unat (drop_bit i val AND 0xF) = unat val div 2 ^ i mod 16"
    by (simp only: take_bit_eq_mod drop_bit_eq_div) simp
  have "unat (hf_nibble val i) = unat (drop_bit i val AND 0xF) mod 256"
    by (simp add: hf_nibble_def unsigned_ucast_eq take_bit_eq_mod)
  also have "\<dots> = unat (drop_bit i val AND 0xF)" unfolding u by simp
  finally show ?thesis by (simp add: u)
qed

lemma hex_horner:
  "(v :: nat) < 2 ^ 32 \<Longrightarrow>
   foldl (\<lambda>n i. n * 16 + v div 2 ^ i mod 16) 0 [28, 24, 20, 16, 12, 8, 4, 0] = v"
proof -
  assume v: "v < 2 ^ 32"
  have s: "(v div 2 ^ (i + 4)) * 16 + v div 2 ^ i mod 16 = v div 2 ^ i" for i
    by (simp add: power_add div_mult2_eq)
  have "v div 2 ^ 28 mod 16 = v div 2 ^ 28" using v by simp
  then show ?thesis using s [of 24] s [of 20] s [of 16] s [of 12] s [of 8] s [of 4] s [of 0] by simp
qed

lemma hf_print_hex_reads_back: "read_number 16 (drop 2 (hf_print_hex val)) = unat val"
proof -
  have d: "digit_value (digit_char True (unat (hf_nibble val i))) = unat val div 2 ^ i mod 16" for i
    by (simp add: unat_nibble digit_value_char)
  have "drop 2 (hf_print_hex val)
      = map (\<lambda>i. digit_char True (unat (hf_nibble val i))) [28, 24, 20, 16, 12, 8, 4, 0]"
    by (simp add: hf_print_hex_def hf_puts_def)
  then have "read_number 16 (drop 2 (hf_print_hex val))
      = foldl (\<lambda>n i. n * 16 + unat val div 2 ^ i mod 16) 0 [28, 24, 20, 16, 12, 8, 4, 0]"
    by (simp only: read_number_def foldl_map d)
  also have "\<dots> = unat val" by (rule hex_horner) (use unsigned_less [of val] in simp)
  finally show ?thesis .
qed

lemma lines_inj:
  "\<forall>x \<in> set xs. d \<notin> set x \<Longrightarrow> \<forall>y \<in> set ys. d \<notin> set y
    \<Longrightarrow> concat (map (\<lambda>x. x @ [d]) xs) = concat (map (\<lambda>y. y @ [d]) ys) \<Longrightarrow> xs = ys"
proof (induction xs arbitrary: ys)
  case Nil
  then show ?case by (cases ys) auto
next
  case (Cons x xs)
  then obtain y zs where ys: "ys = y # zs" by (cases ys) auto
  let ?r = "concat (map (\<lambda>x. x @ [d]) xs)" and ?q = "concat (map (\<lambda>y. y @ [d]) zs)"
  have e: "x @ d # ?r = y @ d # ?q" using Cons.prems(3) ys by simp
  have t: "takeWhile (\<lambda>c. c \<noteq> d) (a @ d # q) = a" if "d \<notin> set a" for a q
    using that by (induction a) auto
  have "x = y" using arg_cong [OF e, of "takeWhile (\<lambda>c. c \<noteq> d)"] t Cons.prems(1,2) ys by simp
  then show ?case using Cons.IH [of zs] Cons.prems ys e by simp
qed

text \<open>The bits of CFSR the handler has a name for; the processor also has bits 5 and 13.\<close>

definition named_bits :: u32 where
  "named_bits = foldr (\<lambda>(b, _) m. push_bit b 1 OR m) CFSR_NAMES 0"

lemma and_bit: "c AND 2 ^ b = 0 \<longleftrightarrow> \<not> bit (c :: u32) b"
  by (rule and_exp_eq_0_iff_not_bit)

definition set_names :: "u32 \<Rightarrow> string list" where
  "set_names c = map snd (filter (\<lambda>(b, _). bit c b) CFSR_NAMES)"

lemma hf_decode_lines:
  "hf_decode c = ''--- CFSR decode ---'' @ CRLF @ concat (map (\<lambda>x. x @ [CHR 0x0A])
     (map (\<lambda>n. ''  '' @ n @ [CHR 0x0D]) (set_names c)))"
proof -
  have n: "\<forall>(b, n) \<in> set CFSR_NAMES. NUL \<notin> set n" by (simp add: CFSR_NAMES_def)
  have "concat (map (cfsr_line c) bs) = concat (map (\<lambda>x. x @ [CHR 0x0A])
     (map (\<lambda>n. ''  '' @ n @ [CHR 0x0D]) (map snd (filter (\<lambda>(b, _). bit c b) bs))))"
    if "\<forall>(b, n) \<in> set bs. NUL \<notin> set n" for bs
    using that by (induction bs) (auto simp: cfsr_line_def and_bit hf_puts_id)
  from this [OF n] show ?thesis
    unfolding hf_decode_def set_names_def by (simp add: hf_puts_id)
qed

lemma bit_named_bits: "bit named_bits n \<longleftrightarrow> n \<in> fst ` set CFSR_NAMES"
proof -
  have "bit (foldr (\<lambda>(b, _) m. push_bit b 1 OR m) bs 0 :: u32) n \<longleftrightarrow> n \<in> fst ` set bs"
    if "\<forall>(b, _) \<in> set bs. b < 32" for bs :: "(nat \<times> string) list"
    using that by (induction bs) (auto simp: bit_simps)
  moreover have "\<forall>(b, _) \<in> set CFSR_NAMES. b < 32" by (simp add: CFSR_NAMES_def)
  ultimately show ?thesis by (simp add: named_bits_def)
qed

lemma named_bits_range: "b \<in> fst ` set CFSR_NAMES \<Longrightarrow> b < 32"
  by (auto simp: CFSR_NAMES_def)

lemma bit_word_eq_iff32: "(c :: u32) = d \<longleftrightarrow> (\<forall>n < 32. bit c n \<longleftrightarrow> bit d n)"
  by (auto intro: bit_word_eqI)

lemma name_shown: "(b, n) \<in> set CFSR_NAMES \<Longrightarrow> n \<in> set (set_names c) \<longleftrightarrow> bit c b"
proof -
  assume bn: "(b, n) \<in> set CFSR_NAMES"
  have "distinct (map snd CFSR_NAMES)" by (simp add: CFSR_NAMES_def)
  then have "inj_on snd (set CFSR_NAMES)" by (simp add: distinct_map)
  then have u: "b' = b" if "(b', n) \<in> set CFSR_NAMES" for b'
    using inj_onD [of snd "set CFSR_NAMES" "(b', n)" "(b, n)"] bn that by simp
  have m: "n \<in> set (set_names c) \<longleftrightarrow> (\<exists>b'. (b', n) \<in> set CFSR_NAMES \<and> bit c b')"
    unfolding set_names_def by (auto simp: image_iff Bex_def)
  show ?thesis unfolding m using bn u by blast
qed

lemma set_names_eq: "set_names c = set_names d \<longleftrightarrow> (\<forall>b \<in> fst ` set CFSR_NAMES. bit c b \<longleftrightarrow> bit d b)"
proof
  assume eq: "set_names c = set_names d"
  show "\<forall>b \<in> fst ` set CFSR_NAMES. bit c b \<longleftrightarrow> bit d b"
  proof
    fix b assume "b \<in> fst ` set CFSR_NAMES"
    then obtain n where "(b, n) \<in> set CFSR_NAMES" by force
    then show "bit c b \<longleftrightarrow> bit d b" using name_shown [of b n c] name_shown [of b n d] eq by simp
  qed
next
  assume "\<forall>b \<in> fst ` set CFSR_NAMES. bit c b \<longleftrightarrow> bit d b"
  then have "filter (\<lambda>(b, _). bit c b) CFSR_NAMES = filter (\<lambda>(b, _). bit d b) CFSR_NAMES"
    by (intro filter_cong) auto
  then show "set_names c = set_names d" by (simp add: set_names_def)
qed

lemma names_no_newline: "\<forall>x \<in> set (map (\<lambda>n. ''  '' @ n @ [CHR 0x0D]) (set_names c)). CHR 0x0A \<notin> set x"
proof -
  have "\<forall>(b, n) \<in> set CFSR_NAMES. CHR 0x0A \<notin> set n" by (simp add: CFSR_NAMES_def)
  then show ?thesis by (auto simp: set_names_def)
qed

text \<open>
  The decoded part of a fault report tells the value of CFSR exactly up to the mask
  0x030F9F9B of the bits the handler has a name for: two values give the same text just when
  they agree on those bits. The lazy floating-point faults MLSPERR (bit 5) and LSPERR (bit 13)
  are not among them: a fault whose only status bit is one of these prints an empty decode.
\<close>

theorem cfsr_decode_tells_named_bits:
  "(hf_decode c = hf_decode d \<longleftrightarrow> c AND named_bits = d AND named_bits)
   \<and> named_bits = 0x030F9F9B \<and> hf_decode (2 ^ 5) = hf_decode 0 \<and> hf_decode (2 ^ 13) = hf_decode 0"
proof (intro conjI)
  have lines: "map (\<lambda>n. ''  '' @ n @ [CHR 0x0D]) (set_names c) = map (\<lambda>n. ''  '' @ n @ [CHR 0x0D]) (set_names d)
      \<longleftrightarrow> set_names c = set_names d" for c d
    by (rule inj_map_eq_map) (auto intro: injI)
  have e: "hf_decode c = hf_decode d \<longleftrightarrow> set_names c = set_names d" for c d
    unfolding hf_decode_lines lines [symmetric]
    using lines_inj [OF names_no_newline [of c] names_no_newline [of d]] by (metis append_same_eq same_append_eq)
  show main: "hf_decode c = hf_decode d \<longleftrightarrow> c AND named_bits = d AND named_bits"
    unfolding e set_names_eq bit_word_eq_iff32 bit_and_iff bit_named_bits using named_bits_range by blast
  show n: "named_bits = 0x030F9F9B" by (simp add: named_bits_def CFSR_NAMES_def)
  show "hf_decode (2 ^ 5) = hf_decode 0" "hf_decode (2 ^ 13) = hf_decode 0"
    unfolding e set_names_eq by (simp_all add: CFSR_NAMES_def bit_simps)
qed

text \<open>
  C12: What the fault handler saves is what the next boot finds. Whichever of the four vectors
  is taken, with the backup memory unlocked, the report says that the write succeeded and,
  after any cache-line evictions and the reset, fault_log_check_and_clear returns the eight
  words stacked on the stack the exception return code names, the fault status and address
  registers, and flags saying which of the two addresses are meaningful.
\<close>

theorem hardfault_record_recovered:
  assumes "bkp_writable s"
    and "h \<in> {HardFault_Handler, MemManage_Handler, BusFault_Handler, UsageFault_Handler}"
    and "h msp psp link = (sp, exc)"
  shows "\<exists>out g scb' s1 s2 e. hardfault_c stale (\<lambda>i. mem (sp + 4 * of_nat i)) sp exc scb s = Some (out, g, scb', s1)
    \<and> sp = (if bit link 2 then psp else msp)
    \<and> suffix (''Backup SRAM write: OK'' @ CRLF @ ''*** HALTED ***'' @ CRLF) out
    \<and> SCB_CFSR scb' = 0
    \<and> fault_log_check_and_clear blank (fault_log_init (system_reset (fold evict_line ls s1))) = Some (True, e, s2)
    \<and> [r0 e, r1 e, r2 e, r3 e, r12 e, lr e, pc e, xpsr e] = map (\<lambda>i. mem (sp + 4 * of_nat i)) [0..<8]
    \<and> exc_return e = link \<and> cfsr e = SCB_CFSR scb \<and> hfsr e = SCB_HFSR scb
    \<and> mmfar e = SCB_MMFAR scb \<and> bfar e = SCB_BFAR scb
    \<and> mmfar_valid e = (if bit (SCB_CFSR scb) 7 then 1 else 0)
    \<and> bfar_valid e = (if bit (SCB_CFSR scb) 15 then 1 else 0)"
proof -
  have sp: "sp = (if bit link 2 then psp else msp)" "exc = link"
    using assms(2,3) and_bit [of link 2]
    by (auto simp: fault_entry_def HardFault_Handler_def MemManage_Handler_def BusFault_Handler_def
        UsageFault_Handler_def split: if_splits)
  let ?stack = "\<lambda>i. mem (sp + 4 * of_nat i)"
  let ?g = "hf_capture ?stack scb"
  let ?e = "hf_entry stale exc ?g"
  obtain s1 s2 where s: "fault_log_write ?e s = Some s1"
    "fault_log_check_and_clear blank (fault_log_init (system_reset (fold evict_line ls s1)))
      = Some (True, ?e\<lparr>magic := magic blank\<rparr>, s2)"
    using fault_log_recovered [OF assms(1), of ?e blank ls] by auto
  have m: "fault_log_peek_magic s1 = FAULT_LOG_MAGIC"
    using fault_log_write_ok [OF assms(1), of ?e] s(1) by (auto simp: fault_log_peek_magic_def)
  have b: "bit (SCB_CFSR scb) 7 \<longleftrightarrow> SCB_CFSR scb AND push_bit 7 1 \<noteq> 0"
    "bit (SCB_CFSR scb) 15 \<longleftrightarrow> SCB_CFSR scb AND push_bit 15 1 \<noteq> 0"
    using and_bit [of "SCB_CFSR scb" 7] and_bit [of "SCB_CFSR scb" 15] by simp_all
  define out where "out = hf_registers sp exc ?g @ hf_decode (hf_cfsr ?g)
    @ (''Backup SRAM write: OK'' @ CRLF) @ ''*** HALTED ***'' @ CRLF"
  have h: "hardfault_c stale ?stack sp exc scb s = Some (out, ?g, scb\<lparr>SCB_CFSR := 0\<rparr>, s1)"
    using s(1) m by (simp add: out_def hardfault_c_def hf_capture_def hf_puts_id Let_def)
  have suf: "suffix (''Backup SRAM write: OK'' @ CRLF @ ''*** HALTED ***'' @ CRLF) out"
    unfolding out_def by (rule suffixI [of _ "hf_registers sp exc ?g @ hf_decode (hf_cfsr ?g)"]) simp
  have flags: "mmfar_valid ?e = (if bit (SCB_CFSR scb) 7 then 1 else 0)"
    "bfar_valid ?e = (if bit (SCB_CFSR scb) 15 then 1 else 0)"
    unfolding b by (simp_all add: hf_entry_def hf_capture_def)
  have regs: "exc_return ?e = link" "cfsr ?e = SCB_CFSR scb" "hfsr ?e = SCB_HFSR scb"
    "mmfar ?e = SCB_MMFAR scb" "bfar ?e = SCB_BFAR scb"
    by (simp_all add: hf_entry_def hf_capture_def sp(2))
  have f: "[r0 ?e, r1 ?e, r2 ?e, r3 ?e, r12 ?e, lr ?e, pc ?e, xpsr ?e] = map ?stack [0..<8]"
    by (simp add: hf_entry_def hf_capture_def upt_rec)
  show ?thesis
  proof (rule exI [of _ out], rule exI [of _ ?g], rule exI [of _ "scb\<lparr>SCB_CFSR := 0\<rparr>"], rule exI [of _ s1],
      rule exI [of _ s2], rule exI [of _ "?e\<lparr>magic := magic blank\<rparr>"], intro conjI)
  qed (rule h sp(1) suf s(2) | simp add: f regs flags del: list.inject upt_conv_Cons)+
qed

definition demo_scb :: scb_regs where
  "demo_scb = \<lparr>SCB_CFSR = 0x8200, SCB_HFSR = 0x40000000, SCB_DFSR = 0, SCB_MMFAR = 0, SCB_BFAR = 0xDEADBEEC, SCB_AFSR = 0\<rparr>"

lemma hardfault_record_recovered_witness:
  "\<exists>out g scb' s1 s2 e. hardfault_c 0 (\<lambda>i. id (0x20001000 + 4 * of_nat i)) 0x20001000 0xFFFFFFFD demo_scb demo_bkp
      = Some (out, g, scb', s1)
    \<and> fault_log_check_and_clear demo_fault (fault_log_init (system_reset (fold evict_line [] s1))) = Some (True, e, s2)
    \<and> pc e = 0x20001018 \<and> bfar e = 0xDEADBEEC \<and> bfar_valid e = 1 \<and> mmfar_valid e = 0"
proof -
  have w: "bkp_writable demo_bkp" by (simp add: demo_bkp_def)
  have h: "BusFault_Handler 0x20020000 0x20001000 0xFFFFFFFD = (0x20001000, 0xFFFFFFFD)"
    by (simp add: BusFault_Handler_def fault_entry_def)
  have b: "bit (SCB_CFSR demo_scb) 15" "\<not> bit (SCB_CFSR demo_scb) 7"
    using and_bit [of "SCB_CFSR demo_scb" 15] and_bit [of "SCB_CFSR demo_scb" 7] by (simp_all add: demo_scb_def)
  from hardfault_record_recovered [where h = BusFault_Handler, OF w _ h, of 0 id demo_scb demo_fault "[]"]
  obtain out g scb' s1 s2 e where
    c: "hardfault_c 0 (\<lambda>i. id (0x20001000 + 4 * of_nat i)) 0x20001000 0xFFFFFFFD demo_scb demo_bkp = Some (out, g, scb', s1)"
      "fault_log_check_and_clear demo_fault (fault_log_init (system_reset (fold evict_line [] s1))) = Some (True, e, s2)"
    and f: "[r0 e, r1 e, r2 e, r3 e, r12 e, lr e, pc e, xpsr e] = map (\<lambda>i. id (0x20001000 + 4 * of_nat i)) [0..<8]"
    and g: "bfar e = SCB_BFAR demo_scb" "mmfar_valid e = 0" "bfar_valid e = 1"
    using b by auto
  have "pc e = 0x20001018" using arg_cong [OF f, of "\<lambda>l. l ! 6"] by simp
  moreover have "bfar e = 0xDEADBEEC" using g(1) by (simp add: demo_scb_def)
  ultimately show ?thesis using c g(2,3) by blast
qed

end
