(* ===== verification/MonitorStats.thy ===== *)
theory MonitorStats
  imports UartStm
begin

text \<open>
  The running statistics both timing monitors keep (minimum, maximum, sum and number of 32-bit
  samples) against the list of samples they summarise.
\<close>

definition summarises :: "u32 list \<Rightarrow> u32 \<Rightarrow> u32 \<Rightarrow> u32 \<Rightarrow> u32 \<Rightarrow> bool" where
  "summarises ds mn mx sm ct \<longleftrightarrow>
     (ds \<noteq> [] \<longrightarrow> unat mn = Min (unat ` set ds) \<and> unat mx = Max (unat ` set ds))
     \<and> (ds = [] \<longrightarrow> mn = 0xFFFFFFFF \<and> mx = 0)
     \<and> sm = of_nat (sum_list (map unat ds)) \<and> ct = of_nat (length ds)"

lemma summarises_Nil: "summarises [] 0xFFFFFFFF 0 0 0"
  by (simp add: summarises_def)

lemma summarises_snoc:
  assumes "summarises ds mn mx sm ct"
  shows "summarises (ds @ [d]) (if d < mn then d else mn) (if mx < d then d else mx) (sm + d) (ct + 1)"
proof (cases "ds = []")
  case True
  have "unat d < 4294967296" by (rule unat32_less)
  then have "\<not> d < 0xFFFFFFFF \<Longrightarrow> d = 0xFFFFFFFF"
    by (simp add: word_less_nat_alt word_unat_eq_iff)
  moreover have "\<not> 0 < d \<Longrightarrow> d = 0" by (simp add: word_pos_iff)
  ultimately show ?thesis using assms True by (auto simp: summarises_def)
next
  case False
  define lo where "lo = Min (unat ` set ds)"
  define hi where "hi = Max (unat ` set ds)"
  have "Min (unat ` set (ds @ [d])) = min (unat d) lo" "Max (unat ` set (ds @ [d])) = max (unat d) hi"
    using False by (simp_all add: lo_def hi_def insert_commute)
  moreover have "unat mn = lo" "unat mx = hi" "sm = of_nat (sum_list (map unat ds))" "ct = of_nat (length ds)"
    using assms False by (simp_all add: summarises_def lo_def hi_def)
  ultimately show ?thesis
    by (simp add: summarises_def word_less_nat_alt min_def max_def)
qed

text \<open>The average the reports print: exact as long as the 32-bit sum has not wrapped.\<close>

lemma summarises_average:
  assumes "summarises ds mn mx sm ct" and "sum_list (map unat ds) < 2 ^ 32" and "length ds < 2 ^ 32"
  shows "unat (sm div ct) = sum_list (map unat ds) div length ds"
  using assms by (simp add: summarises_def unat_div unat_of_nat)

lemma summarises_count_zero:
  "summarises ds mn mx sm ct \<Longrightarrow> length ds < 2 ^ 32 \<Longrightarrow> ct = 0 \<longleftrightarrow> ds = []"
  by (simp add: summarises_def word_unat_eq_iff unat_of_nat)

end
