(* ===== verification/DeadlineMonitor.thy ===== *)
theory DeadlineMonitor
  imports MonitorStats
begin

text \<open>
  \<open>kernel/core/deadline_monitor.c\<close>: response times of up to eight monitored activities. The
  table \<open>s_monitors\<close> is a list, a handle an integer (\<open>int8_t\<close>), and the clock an argument
  of the calls that read \<open>systick_get_ms\<close>. A call returns the characters it prints next to
  the new table; the messages go through the model of \<open>uart_printf\<close>.
\<close>

definition DEADLINE_MONITOR_MAX_COUNT :: nat where "DEADLINE_MONITOR_MAX_COUNT = 8"

record monitor_t =
  in_use :: bool
  active :: bool
  name :: string
  budget_ms :: u32
  start_ms :: u32
  min_ms :: u32
  max_ms :: u32
  sum_ms :: u32
  cycle_count :: u32
  overrun_count :: u32

definition deadline_monitor_create :: "string \<Rightarrow> u32 \<Rightarrow> monitor_t list \<Rightarrow> int \<times> monitor_t list" where
  "deadline_monitor_create nm budget ms =
     (case find (\<lambda>i. \<not> in_use (ms ! i)) [0..<DEADLINE_MONITOR_MAX_COUNT] of
        None \<Rightarrow> (-1, ms)
      | Some i \<Rightarrow> (int i, ms[i := \<lparr>in_use = True, active = False, name = nm, budget_ms = budget,
            start_ms = 0, min_ms = 0xFFFFFFFF, max_ms = 0, sum_ms = 0, cycle_count = 0,
            overrun_count = 0\<rparr>]))"

definition bad_handle :: "int \<Rightarrow> bool" where
  "bad_handle h \<longleftrightarrow> h < 0 \<or> int DEADLINE_MONITOR_MAX_COUNT \<le> h"

definition crlf :: string where "crlf = [CHR 0x0D, CHR 0x0A]"

text \<open>What a call of \<open>uart_printf\<close> sends; the formats below use no \<open>%f\<close>.\<close>

definition printf_out :: "string \<Rightarrow> unit uart_arg list \<Rightarrow> string" where
  "printf_out fmt args = the (uart_printf (\<lambda>_ _. '''') (fmt @ [NUL]) args)"

definition deadline_monitor_begin :: "int \<Rightarrow> u32 \<Rightarrow> monitor_t list \<Rightarrow> string \<times> monitor_t list" where
  "deadline_monitor_begin handle now ms =
     (if bad_handle handle then ('''', ms)
      else let i = nat handle; m = ms ! i in
        if \<not> in_use m then ('''', ms)
        else if active m
        then (printf_out (''[MONITOR] %s: begin() called while already active (missing end()?)'' @ crlf)
                [ArgStr (name m @ [NUL])], ms)
        else ('''', ms[i := m\<lparr>active := True, start_ms := now\<rparr>]))"

definition deadline_monitor_end :: "int \<Rightarrow> u32 \<Rightarrow> monitor_t list \<Rightarrow> bool \<times> string \<times> monitor_t list" where
  "deadline_monitor_end handle now ms =
     (if bad_handle handle then (False, '''', ms)
      else let i = nat handle; m = ms ! i in
        if \<not> in_use m then (False, '''', ms)
        else if \<not> active m
        then (False, printf_out (''[MONITOR] %s: end() called without begin()'' @ crlf)
                [ArgStr (name m @ [NUL])], ms)
        else let elapsed = now - start_ms m;
                 m = m\<lparr>active := False\<rparr>;
                 m = (if elapsed < min_ms m then m\<lparr>min_ms := elapsed\<rparr> else m);
                 m = (if max_ms m < elapsed then m\<lparr>max_ms := elapsed\<rparr> else m);
                 m = m\<lparr>sum_ms := sum_ms m + elapsed\<rparr>;
                 m = m\<lparr>cycle_count := cycle_count m + 1\<rparr>;
                 overran = budget_ms m < elapsed;
                 m = (if overran then m\<lparr>overrun_count := overrun_count m + 1\<rparr> else m)
             in (overran, '''', ms[i := m]))"

definition deadline_monitor_report :: "int \<Rightarrow> monitor_t list \<Rightarrow> string" where
  "deadline_monitor_report handle ms =
     (if bad_handle handle then ''''
      else let m = ms ! nat handle in
        if \<not> in_use m \<or> cycle_count m = 0 then ''''
        else let avg_ms = sum_ms m div cycle_count m in
          printf_out (''[RESPONSE_TIME] %s: min=%ums avg=%ums max=%ums budget=%ums overruns=%u/%u'' @ crlf)
            [ArgStr (name m @ [NUL]), ArgInt (min_ms m), ArgInt avg_ms, ArgInt (max_ms m),
             ArgInt (budget_ms m), ArgInt (overrun_count m), ArgInt (cycle_count m)])"

definition deadline_monitor_report_all :: "monitor_t list \<Rightarrow> string" where
  "deadline_monitor_report_all ms =
     concat (map (\<lambda>i. if in_use (ms ! i) then deadline_monitor_report (int i) ms else '''')
       [0..<DEADLINE_MONITOR_MAX_COUNT])"

subsection \<open>Abstract specification\<close>

text \<open>
  What is asked of the monitor, as a history: the calls of one handle pair up, a
  \<open>begin\<close> while active and an \<open>end\<close> while inactive are ignored, and every pair
  contributes one response time (the 32-bit difference of the clock readings).
\<close>

datatype dm_call = DBegin int u32 | DEnd int u32

fun dm_step :: "dm_call \<Rightarrow> monitor_t list \<Rightarrow> monitor_t list" where
  "dm_step (DBegin h t) ms = snd (deadline_monitor_begin h t ms)"
| "dm_step (DEnd h t) ms = snd (snd (deadline_monitor_end h t ms))"

fun responses :: "int \<Rightarrow> dm_call list \<Rightarrow> u32 option \<times> u32 list \<Rightarrow> u32 option \<times> u32 list" where
  "responses h [] (st, ds) = (st, ds)"
| "responses h (DBegin h' t # cs) (st, ds) =
     responses h cs (if h' = h \<and> st = None then (Some t, ds) else (st, ds))"
| "responses h (DEnd h' t # cs) (st, ds) =
     responses h cs (case st of Some s \<Rightarrow> if h' = h then (None, ds @ [t - s]) else (st, ds) | None \<Rightarrow> (st, ds))"

definition monitor_shows :: "string \<Rightarrow> u32 \<Rightarrow> u32 option \<times> u32 list \<Rightarrow> monitor_t \<Rightarrow> bool" where
  "monitor_shows nm budget a m \<longleftrightarrow> in_use m \<and> name m = nm \<and> budget_ms m = budget \<and>
     (case fst a of None \<Rightarrow> \<not> active m | Some s \<Rightarrow> active m \<and> start_ms m = s) \<and>
     summarises (snd a) (min_ms m) (max_ms m) (sum_ms m) (cycle_count m) \<and>
     overrun_count m = of_nat (length (filter (\<lambda>d. budget < d) (snd a)))"

lemma dm_lengths:
  "length (snd (deadline_monitor_begin h t ms)) = length ms"
  "length (snd (snd (deadline_monitor_end h t ms))) = length ms"
  by (simp_all add: deadline_monitor_begin_def deadline_monitor_end_def Let_def)

lemma dm_length [simp]: "length (dm_step c ms) = length ms"
  by (cases c) (simp_all add: dm_lengths)

lemma dm_other: "length ms = 8 \<Longrightarrow> j < 8 \<Longrightarrow> (case c of DBegin h t \<Rightarrow> h \<noteq> int j | DEnd h t \<Rightarrow> h \<noteq> int j) \<Longrightarrow>
  dm_step c ms ! j = ms ! j"
  by (cases c)
    (auto simp: deadline_monitor_begin_def deadline_monitor_end_def Let_def bad_handle_def
      DEADLINE_MONITOR_MAX_COUNT_def nth_list_update)

lemma end_shows:
  assumes "monitor_shows nm b (Some s, ds) (ms ! i)" and "length ms = 8" and "i < 8"
  shows "monitor_shows nm b (None, ds @ [t - s]) (snd (snd (deadline_monitor_end (int i) t ms)) ! i)"
  using assms summarises_snoc [of ds "min_ms (ms ! i)" "max_ms (ms ! i)" "sum_ms (ms ! i)" "cycle_count (ms ! i)" "t - s"]
  by (auto simp: monitor_shows_def deadline_monitor_end_def bad_handle_def
      DEADLINE_MONITOR_MAX_COUNT_def Let_def add.commute)

lemma begin_shows:
  assumes "monitor_shows nm b (None, ds) (ms ! i)" and "length ms = 8" and "i < 8"
  shows "monitor_shows nm b (Some t, ds) (snd (deadline_monitor_begin (int i) t ms) ! i)"
  using assms by (auto simp: monitor_shows_def deadline_monitor_begin_def bad_handle_def
      DEADLINE_MONITOR_MAX_COUNT_def Let_def)

lemma ignored_calls:
  assumes "i < 8" and "length ms = 8"
  shows "monitor_shows nm b (Some s, ds) (ms ! i) \<Longrightarrow> snd (deadline_monitor_begin (int i) t ms) = ms"
    and "monitor_shows nm b (None, ds) (ms ! i) \<Longrightarrow> snd (snd (deadline_monitor_end (int i) t ms)) = ms"
  using assms by (auto simp: monitor_shows_def deadline_monitor_begin_def deadline_monitor_end_def
      bad_handle_def DEADLINE_MONITOR_MAX_COUNT_def Let_def)

lemma dm_run_shows:
  assumes "length ms = 8" and "i < 8" and "monitor_shows nm b (st, ds) (ms ! i)"
  shows "monitor_shows nm b (responses (int i) cs (st, ds)) (fold dm_step cs ms ! i)"
  using assms
proof (induction "int i" cs "(st, ds)" arbitrary: st ds ms rule: responses.induct)
  case 1
  then show ?case by simp
next
  case (2 h' t cs st ds)
  show ?case
  proof (cases "h' = int i")
    case True
    with 2 show ?thesis by (cases st) (simp_all add: begin_shows ignored_calls dm_lengths)
  next
    case False
    with 2 show ?thesis using dm_other [of ms i "DBegin h' t"] by (simp add: dm_lengths)
  qed
next
  case (3 h' t cs st ds)
  show ?case
  proof (cases "h' = int i")
    case True
    with 3 show ?thesis by (cases st) (simp_all add: end_shows ignored_calls dm_lengths)
  next
    case False
    with 3 show ?thesis using dm_other [of ms i "DEnd h' t"] by (cases st) (simp_all add: dm_lengths)
  qed
qed

lemma create_shows:
  assumes "length ms = 8" and "deadline_monitor_create nm b ms = (h, ms')" and "0 \<le> h"
  obtains i where "i < 8" "h = int i" "length ms' = 8" "monitor_shows nm b (None, []) (ms' ! i)"
    "\<not> in_use (ms ! i)" "\<forall>j. j \<noteq> i \<longrightarrow> ms' ! j = ms ! j"
proof -
  from assms(2,3) obtain i where f: "find (\<lambda>i. \<not> in_use (ms ! i)) [0..<DEADLINE_MONITOR_MAX_COUNT] = Some i"
    and h: "h = int i"
    by (auto simp: deadline_monitor_create_def split: option.splits)
  then have i: "i < 8" "\<not> in_use (ms ! i)"
    using f unfolding find_upt_Some by (simp_all add: DEADLINE_MONITOR_MAX_COUNT_def)
  have "ms' = ms[i := \<lparr>in_use = True, active = False, name = nm, budget_ms = b,
            start_ms = 0, min_ms = 0xFFFFFFFF, max_ms = 0, sum_ms = 0, cycle_count = 0,
            overrun_count = 0\<rparr>]"
    using assms(2) f by (simp add: deadline_monitor_create_def)
  then show ?thesis using i h assms(1) that [of i]
    by (simp add: monitor_shows_def summarises_Nil)
qed

lemma report_text:
  assumes "\<not> bad_handle h" and "in_use (ms ! nat h)" and "cycle_count (ms ! nat h) \<noteq> 0"
    and "NUL \<notin> set (name (ms ! nat h))"
  shows "deadline_monitor_report h ms =
    (let m = ms ! nat h; dec = (\<lambda>v. number_text False 10 (unat v)) in
     ''[RESPONSE_TIME] '' @ name m @ '': min='' @ dec (min_ms m) @ ''ms avg='' @ dec (sum_ms m div cycle_count m)
     @ ''ms max='' @ dec (max_ms m) @ ''ms budget='' @ dec (budget_ms m) @ ''ms overruns=''
     @ dec (overrun_count m) @ ''/'' @ dec (cycle_count m) @ crlf)"
proof -
  let ?m = "ms ! nat h"
  let ?segs = "[Lit ''[RESPONSE_TIME] '', SegS (name ?m), Lit '': min='', SegU False 0 (min_ms ?m),
    Lit ''ms avg='', SegU False 0 (sum_ms ?m div cycle_count ?m), Lit ''ms max='', SegU False 0 (max_ms ?m),
    Lit ''ms budget='', SegU False 0 (budget_ms ?m), Lit ''ms overruns='', SegU False 0 (overrun_count ?m),
    Lit ''/'', SegU False 0 (cycle_count ?m), Lit crlf] :: unit seg list"
  have "uart_printf (\<lambda>(_ :: unit) _. '''') (concat (map seg_fmt ?segs) @ [NUL]) (concat (map seg_args ?segs))
    = Some (concat (map (seg_text (\<lambda>_ _. '''')) ?segs))"
    by (rule printf_segs) (use assms(4) in \<open>simp add: crlf_def\<close>)
  then show ?thesis using assms(1-3)
    by (simp add: deadline_monitor_report_def printf_out_def pad_fmt_def padded_def Let_def)
qed

subsection \<open>Properties\<close>

text \<open>
  C18: A response-time monitor is exact. Whatever calls are made on the eight monitors after one
  is created, in any order (calls that do not pair up included), its record holds the least,
  the greatest and the number of the response times of its own begin/end pairs, the number
  of those over budget, and, while their sum fits 32 bits, their average rounded down: this
  is what its report prints.
\<close>

theorem deadline_monitor_exact:
  assumes "length ms = 8" and "deadline_monitor_create nm b ms = (h, ms')" and "0 \<le> h"
    and "ds = snd (responses h cs (None, []))" and "ds \<noteq> []"
    and "sum_list (map unat ds) < 2 ^ 32" and "length ds < 2 ^ 32" and "NUL \<notin> set nm"
  shows "deadline_monitor_report h (fold dm_step cs ms') =
    (let dec = number_text False 10 in
     ''[RESPONSE_TIME] '' @ nm @ '': min='' @ dec (Min (unat ` set ds))
     @ ''ms avg='' @ dec (sum_list (map unat ds) div length ds)
     @ ''ms max='' @ dec (Max (unat ` set ds)) @ ''ms budget='' @ dec (unat b)
     @ ''ms overruns='' @ dec (length (filter (\<lambda>d. b < d) ds)) @ ''/'' @ dec (length ds) @ crlf)"
proof -
  obtain i where i: "i < 8" "h = int i" "length ms' = 8" "monitor_shows nm b (None, []) (ms' ! i)"
    using create_shows [OF assms(1-3)] by blast
  let ?m = "fold dm_step cs ms' ! i"
  obtain st where st: "responses h cs (None, []) = (st, ds)" using assms(4) by (metis prod.collapse)
  have "monitor_shows nm b (st, ds) ?m" using dm_run_shows [OF i(3,1,4), of cs] i(2) st by simp
  then have m: "in_use ?m" "name ?m = nm" "budget_ms ?m = b"
    and s: "summarises ds (min_ms ?m) (max_ms ?m) (sum_ms ?m) (cycle_count ?m)"
    and o: "overrun_count ?m = of_nat (length (filter (\<lambda>d. b < d) ds))"
    by (simp_all add: monitor_shows_def)
  have "cycle_count ?m \<noteq> 0" using summarises_count_zero [OF s assms(7)] assms(5) by simp
  then have t: "deadline_monitor_report h (fold dm_step cs ms') =
    (let m = ?m; dec = (\<lambda>v. number_text False 10 (unat v)) in
     ''[RESPONSE_TIME] '' @ name m @ '': min='' @ dec (min_ms m) @ ''ms avg='' @ dec (sum_ms m div cycle_count m)
     @ ''ms max='' @ dec (max_ms m) @ ''ms budget='' @ dec (budget_ms m) @ ''ms overruns=''
     @ dec (overrun_count m) @ ''/'' @ dec (cycle_count m) @ crlf)"
    using report_text [of h "fold dm_step cs ms'"] i(1,2) m assms(8)
    by (simp add: bad_handle_def DEADLINE_MONITOR_MAX_COUNT_def)
  have "unat (min_ms ?m) = Min (unat ` set ds)" "unat (max_ms ?m) = Max (unat ` set ds)"
    "unat (cycle_count ?m) = length ds"
    using s assms(5,7) by (simp_all add: summarises_def unat_of_nat)
  moreover have "unat (overrun_count ?m) = length (filter (\<lambda>d. b < d) ds)"
  proof -
    have "length (filter (\<lambda>d. b < d) ds) < 2 ^ 32"
      by (rule le_less_trans [OF length_filter_le assms(7)])
    then show ?thesis by (simp add: o unat_of_nat)
  qed
  moreover have "unat (sum_ms ?m div cycle_count ?m) = sum_list (map unat ds) div length ds"
    by (rule summarises_average [OF s assms(6,7)])
  ultimately show ?thesis unfolding t by (simp add: m Let_def)
qed

definition no_monitors :: "monitor_t list" where
  "no_monitors = replicate 8 \<lparr>in_use = False, active = False, name = '''', budget_ms = 0, start_ms = 0,
     min_ms = 0, max_ms = 0, sum_ms = 0, cycle_count = 0, overrun_count = 0\<rparr>"

theorem deadline_monitor_exact_witness:
  "deadline_monitor_report 0 (fold dm_step [DBegin 0 5, DBegin 0 6, DEnd 0 13, DEnd 0 14, DBegin 0 0xFFFFFFFE, DEnd 0 2]
       (snd (deadline_monitor_create ''ctl'' 5 no_monitors)))
   = ''[RESPONSE_TIME] ctl: min='' @ number_text False 10 4 @ ''ms avg='' @ number_text False 10 6
     @ ''ms max='' @ number_text False 10 8 @ ''ms budget='' @ number_text False 10 5
     @ ''ms overruns='' @ number_text False 10 1 @ ''/'' @ number_text False 10 2 @ crlf"
proof -
  have c: "deadline_monitor_create ''ctl'' 5 no_monitors = (0, snd (deadline_monitor_create ''ctl'' 5 no_monitors))"
    by (simp add: deadline_monitor_create_def no_monitors_def DEADLINE_MONITOR_MAX_COUNT_def upt_rec)
  have "length no_monitors = 8" by (simp add: no_monitors_def)
  from deadline_monitor_exact [OF this c, of "[8, 4]"
      "[DBegin 0 5, DBegin 0 6, DEnd 0 13, DEnd 0 14, DBegin 0 0xFFFFFFFE, DEnd 0 2]"]
  show ?thesis by (simp add: Let_def numeral_2_eq_2 [symmetric])
qed

text \<open>
  deadline_monitor_create hands out the lowest free slot, leaves every other monitor as it
  was, and fails, changing nothing, exactly when all eight slots are in use.
\<close>

theorem deadline_monitor_create_correct:
  assumes "length ms = 8"
  shows "case deadline_monitor_create nm b ms of (h, ms') \<Rightarrow>
    if \<forall>m \<in> set ms. in_use m then h = -1 \<and> ms' = ms
    else \<exists>i < 8. h = int i \<and> \<not> in_use (ms ! i) \<and> (\<forall>j < i. in_use (ms ! j))
      \<and> monitor_shows nm b (None, []) (ms' ! i) \<and> (\<forall>j. j \<noteq> i \<longrightarrow> ms' ! j = ms ! j)"
proof (cases "find (\<lambda>i. \<not> in_use (ms ! i)) [0..<DEADLINE_MONITOR_MAX_COUNT]")
  case None
  then have "\<forall>m \<in> set ms. in_use m"
    using assms unfolding find_upt_None by (auto simp: DEADLINE_MONITOR_MAX_COUNT_def in_set_conv_nth)
  with None show ?thesis by (simp add: deadline_monitor_create_def)
next
  case (Some i)
  then have i: "i < 8" "\<not> in_use (ms ! i)" "\<forall>j < i. in_use (ms ! j)"
    unfolding find_upt_Some by (simp_all add: DEADLINE_MONITOR_MAX_COUNT_def)
  then have "\<not> (\<forall>m \<in> set ms. in_use m)" using assms by (metis nth_mem)
  with Some i assms show ?thesis
    by (auto simp: deadline_monitor_create_def monitor_shows_def summarises_Nil intro!: exI [of _ i])
qed

theorem deadline_monitor_create_correct_witness:
  "case deadline_monitor_create ''a'' 3 no_monitors of (h, ms') \<Rightarrow>
    if \<forall>m \<in> set no_monitors. in_use m then h = -1 \<and> ms' = no_monitors
    else \<exists>i < 8. h = int i \<and> \<not> in_use (no_monitors ! i) \<and> (\<forall>j < i. in_use (no_monitors ! j))
      \<and> monitor_shows ''a'' 3 (None, []) (ms' ! i) \<and> (\<forall>j. j \<noteq> i \<longrightarrow> ms' ! j = no_monitors ! j)"
  by (rule deadline_monitor_create_correct) (simp add: no_monitors_def)

end
