(* ===== verification/JitterMonitor.thy ===== *)
theory JitterMonitor
  imports MonitorStats
begin

text \<open>
  \<open>kernel/core/jitter_monitor.c\<close>: how far a periodic task's wake-ups are from the grid that
  starts at its first mark. Table, handles and clock are modelled as in the response-time
  monitor.
\<close>

definition JITTER_MONITOR_MAX_COUNT :: nat where "JITTER_MONITOR_MAX_COUNT = 8"

record jitter_t =
  in_use :: bool
  name :: string
  period_ms :: u32
  expected_ms :: u32
  baseline_set :: bool
  min_jitter_ms :: u32
  max_jitter_ms :: u32
  sum_jitter_ms :: u32
  sample_count :: u32

definition jitter_monitor_create :: "string \<Rightarrow> u32 \<Rightarrow> jitter_t list \<Rightarrow> int \<times> jitter_t list" where
  "jitter_monitor_create nm period ms =
     (case find (\<lambda>i. \<not> in_use (ms ! i)) [0..<JITTER_MONITOR_MAX_COUNT] of
        None \<Rightarrow> (-1, ms)
      | Some i \<Rightarrow> (int i, ms[i := \<lparr>in_use = True, name = nm, period_ms = period, expected_ms = 0,
            baseline_set = False, min_jitter_ms = 0xFFFFFFFF, max_jitter_ms = 0,
            sum_jitter_ms = 0, sample_count = 0\<rparr>]))"

definition bad_jitter_handle :: "int \<Rightarrow> bool" where
  "bad_jitter_handle h \<longleftrightarrow> h < 0 \<or> int JITTER_MONITOR_MAX_COUNT \<le> h"

definition jitter_of :: "u32 \<Rightarrow> u32 \<Rightarrow> u32" where
  "jitter_of now expected =
     (let diff = now - expected in if sint diff < 0 then - diff else diff)"

definition jitter_monitor_mark :: "int \<Rightarrow> u32 \<Rightarrow> jitter_t list \<Rightarrow> jitter_t list" where
  "jitter_monitor_mark handle now ms =
     (if bad_jitter_handle handle then ms
      else let i = nat handle; m = ms ! i in
        if \<not> in_use m then ms
        else if \<not> baseline_set m
        then ms[i := m\<lparr>expected_ms := now + period_ms m, baseline_set := True\<rparr>]
        else let jitter = jitter_of now (expected_ms m);
                 m = (if jitter < min_jitter_ms m then m\<lparr>min_jitter_ms := jitter\<rparr> else m);
                 m = (if max_jitter_ms m < jitter then m\<lparr>max_jitter_ms := jitter\<rparr> else m);
                 m = m\<lparr>sum_jitter_ms := sum_jitter_ms m + jitter\<rparr>;
                 m = m\<lparr>sample_count := sample_count m + 1\<rparr>;
                 m = m\<lparr>expected_ms := expected_ms m + period_ms m\<rparr>
             in ms[i := m])"

definition jitter_printf :: "string \<Rightarrow> unit uart_arg list \<Rightarrow> string" where
  "jitter_printf fmt args = the (uart_printf (\<lambda>_ _. '''') (fmt @ [NUL]) args)"

definition jitter_crlf :: string where "jitter_crlf = [CHR 0x0D, CHR 0x0A]"

definition jitter_monitor_report :: "int \<Rightarrow> jitter_t list \<Rightarrow> string" where
  "jitter_monitor_report handle ms =
     (if bad_jitter_handle handle then ''''
      else let m = ms ! nat handle in
        if \<not> in_use m \<or> sample_count m = 0 then ''''
        else let avg_jitter = sum_jitter_ms m div sample_count m in
          jitter_printf (''[JITTER] %s: period=%ums min=%ums avg=%ums max=%ums samples=%u'' @ jitter_crlf)
            [ArgStr (name m @ [NUL]), ArgInt (period_ms m), ArgInt (min_jitter_ms m),
             ArgInt avg_jitter, ArgInt (max_jitter_ms m), ArgInt (sample_count m)])"

definition jitter_monitor_report_all :: "jitter_t list \<Rightarrow> string" where
  "jitter_monitor_report_all ms =
     concat (map (\<lambda>i. if in_use (ms ! i) then jitter_monitor_report (int i) ms else '''')
       [0..<JITTER_MONITOR_MAX_COUNT])"

subsection \<open>The grid\<close>

text \<open>
  In real time (milliseconds since boot, not reduced to 32 bits) the monitor compares its
  \<open>k\<close>-th mark with the \<open>k\<close>-th point of the grid of the period that starts at the first
  mark.
\<close>

definition grid_jitter :: "nat \<Rightarrow> nat \<Rightarrow> nat \<Rightarrow> nat \<Rightarrow> nat" where
  "grid_jitter t0 period k t = nat \<bar>int t - int (t0 + k * period)\<bar>"

lemma jitter_of_exact:
  assumes "nat \<bar>int t - int e\<bar> < 2 ^ 31"
  shows "unat (jitter_of (of_nat t) (of_nat e)) = nat \<bar>int t - int e\<bar>"
proof -
  let ?d = "of_nat t - of_nat e :: u32"
  have w: "?d = word_of_int (int t - int e)" by simp
  have s: "sint ?d = int t - int e"
    unfolding w by (rule sint32_of_int) (use assms in \<open>simp_all add: nat_less_iff abs_less_iff\<close>)
  show ?thesis
  proof (cases "sint ?d < 0")
    case True
    then have "- ?d = of_nat (e - t)" using s by (simp add: of_nat_diff)
    moreover have "e - t < 2 ^ 31" using assms s True by linarith
    ultimately have "unat (- ?d) = e - t" by (simp add: unat_of_nat)
    then show ?thesis using True s by (simp add: jitter_of_def Let_def nat_diff_distrib')
  next
    case False
    then have "?d = of_nat (t - e)" using s by (simp add: of_nat_diff)
    moreover have "t - e < 2 ^ 31" using assms s False by linarith
    ultimately have "unat ?d = t - e" by (simp add: unat_of_nat)
    then show ?thesis using False s by (simp add: jitter_of_def Let_def nat_diff_distrib')
  qed
qed

definition jitter_shows :: "string \<Rightarrow> nat \<Rightarrow> nat list \<Rightarrow> jitter_t \<Rightarrow> bool" where
  "jitter_shows nm period ts m \<longleftrightarrow> in_use m \<and> name m = nm \<and> period_ms m = of_nat period \<and>
     (case ts of [] \<Rightarrow> \<not> baseline_set m \<and> summarises [] (min_jitter_ms m) (max_jitter_ms m) (sum_jitter_ms m) (sample_count m)
      | t0 # us \<Rightarrow> baseline_set m \<and> expected_ms m = of_nat (t0 + Suc (length us) * period) \<and>
         (\<exists>ds. summarises ds (min_jitter_ms m) (max_jitter_ms m) (sum_jitter_ms m) (sample_count m)
           \<and> map unat ds = map (\<lambda>k. grid_jitter t0 period (Suc k) (us ! k)) [0..<length us]))"

definition near_grid :: "nat \<Rightarrow> nat list \<Rightarrow> bool" where
  "near_grid period ts \<longleftrightarrow> (\<forall>k < length ts. grid_jitter (hd ts) period k (ts ! k) < 2 ^ 31)"

lemma jitter_monitor_length [simp]: "length (jitter_monitor_mark h now ms) = length ms"
  by (simp add: jitter_monitor_mark_def Let_def)

lemma mark_shows:
  assumes "jitter_shows nm period ts (ms ! i)" and "i < 8" and "length ms = 8"
    and "near_grid period (ts @ [t])"
  shows "jitter_shows nm period (ts @ [t]) (jitter_monitor_mark (int i) (of_nat t) ms ! i)"
proof (cases ts)
  case Nil
  then show ?thesis using assms summarises_Nil
    by (auto simp: jitter_shows_def jitter_monitor_mark_def bad_jitter_handle_def
        JITTER_MONITOR_MAX_COUNT_def Let_def)
next
  case (Cons t0 us)
  let ?m = "ms ! i" let ?n = "Suc (length us)"
  obtain ds where ds: "summarises ds (min_jitter_ms ?m) (max_jitter_ms ?m) (sum_jitter_ms ?m) (sample_count ?m)"
    "map unat ds = map (\<lambda>k. grid_jitter t0 period (Suc k) (us ! k)) [0..<length us]"
    using assms(1) Cons by (auto simp: jitter_shows_def)
  let ?j = "jitter_of (of_nat t) (expected_ms ?m)"
  have e: "expected_ms ?m = of_nat (t0 + ?n * period)" "in_use ?m" "baseline_set ?m"
    "name ?m = nm" "period_ms ?m = of_nat period"
    using assms(1) Cons by (auto simp: jitter_shows_def)
  have "grid_jitter t0 period ?n t < 2 ^ 31"
    using assms(4) Cons by (auto simp: near_grid_def nth_append dest: spec [of _ ?n])
  then have j: "unat ?j = grid_jitter t0 period ?n t"
    unfolding e(1) grid_jitter_def by (rule jitter_of_exact)
  have "map unat (ds @ [?j]) = map (\<lambda>k. grid_jitter t0 period (Suc k) ((us @ [t]) ! k)) [0..<length (us @ [t])]"
    using ds(2) j by (simp add: nth_append)
  moreover note summarises_snoc [OF ds(1), of ?j]
  ultimately have ex: "\<exists>ds. summarises ds (if ?j < min_jitter_ms ?m then ?j else min_jitter_ms ?m)
      (if max_jitter_ms ?m < ?j then ?j else max_jitter_ms ?m) (sum_jitter_ms ?m + ?j) (sample_count ?m + 1) \<and>
      map unat ds = map (\<lambda>k. grid_jitter t0 period (Suc k) ((us @ [t]) ! k)) [0..<length (us @ [t])]"
    by blast
  have x: "of_nat (t0 + Suc (length (us @ [t])) * period) = (of_nat (t0 + ?n * period) + of_nat period :: u32)"
    by (simp add: algebra_simps)
  let ?m' = "jitter_monitor_mark (int i) (of_nat t) ms ! i"
  have m': "in_use ?m'" "name ?m' = nm" "period_ms ?m' = of_nat period" "baseline_set ?m'"
    "expected_ms ?m' = expected_ms ?m + of_nat period"
    "min_jitter_ms ?m' = (if ?j < min_jitter_ms ?m then ?j else min_jitter_ms ?m)"
    "max_jitter_ms ?m' = (if max_jitter_ms ?m < ?j then ?j else max_jitter_ms ?m)"
    "sum_jitter_ms ?m' = sum_jitter_ms ?m + ?j" "sample_count ?m' = sample_count ?m + 1"
    using e(2-5) assms(2,3)
    by (simp_all add: jitter_monitor_mark_def bad_jitter_handle_def JITTER_MONITOR_MAX_COUNT_def Let_def)
  show ?thesis unfolding Cons append_Cons jitter_shows_def list.case m' e(1) x
    using ex m'(1,4) unfolding e(1) by blast
qed

lemma near_grid_prefix: "near_grid period (ts @ us) \<Longrightarrow> ts \<noteq> [] \<Longrightarrow> near_grid period ts"
  unfolding near_grid_def by (auto simp: nth_append split: if_splits)

lemma marks_show:
  assumes "length ms = 8" and "i < 8" and "jitter_shows nm period [] (ms ! i)" and "near_grid period ts"
  shows "jitter_shows nm period ts (fold (\<lambda>t. jitter_monitor_mark (int i) (of_nat t)) ts ms ! i)
    \<and> length (fold (\<lambda>t. jitter_monitor_mark (int i) (of_nat t)) ts ms) = 8"
  using assms(4)
proof (induction ts rule: rev_induct)
  case Nil
  then show ?case using assms by simp
next
  case (snoc t ts)
  have "near_grid period ts"
    using near_grid_prefix [OF snoc.prems] by (cases "ts = []") (simp_all add: near_grid_def)
  with snoc.IH mark_shows [OF _ assms(2) _ snoc.prems] show ?case by simp
qed

lemma jitter_create_shows:
  assumes "length ms = 8" and "jitter_monitor_create nm (of_nat period) ms = (h, ms')" and "0 \<le> h"
  obtains i where "i < 8" "h = int i" "length ms' = 8" "jitter_shows nm period [] (ms' ! i)"
proof -
  from assms(2,3) obtain i where f: "find (\<lambda>i. \<not> in_use (ms ! i)) [0..<JITTER_MONITOR_MAX_COUNT] = Some i"
    and h: "h = int i"
    by (auto simp: jitter_monitor_create_def split: option.splits)
  then have "i < 8" unfolding find_upt_Some by (simp add: JITTER_MONITOR_MAX_COUNT_def)
  then show ?thesis using that [of i] assms(1,2) f h
    by (auto simp: jitter_monitor_create_def jitter_shows_def summarises_Nil)
qed

lemma jitter_report_text:
  assumes "\<not> bad_jitter_handle h" and "in_use (ms ! nat h)" and "sample_count (ms ! nat h) \<noteq> 0"
    and "NUL \<notin> set (name (ms ! nat h))"
  shows "jitter_monitor_report h ms =
    (let m = ms ! nat h; dec = (\<lambda>v. number_text False 10 (unat v)) in
     ''[JITTER] '' @ name m @ '': period='' @ dec (period_ms m) @ ''ms min='' @ dec (min_jitter_ms m)
     @ ''ms avg='' @ dec (sum_jitter_ms m div sample_count m) @ ''ms max='' @ dec (max_jitter_ms m)
     @ ''ms samples='' @ dec (sample_count m) @ jitter_crlf)"
proof -
  let ?m = "ms ! nat h"
  let ?segs = "[Lit ''[JITTER] '', SegS (name ?m), Lit '': period='', SegU False 0 (period_ms ?m),
    Lit ''ms min='', SegU False 0 (min_jitter_ms ?m), Lit ''ms avg='',
    SegU False 0 (sum_jitter_ms ?m div sample_count ?m), Lit ''ms max='', SegU False 0 (max_jitter_ms ?m),
    Lit ''ms samples='', SegU False 0 (sample_count ?m), Lit jitter_crlf] :: unit seg list"
  have "uart_printf (\<lambda>(_ :: unit) _. '''') (concat (map seg_fmt ?segs) @ [NUL]) (concat (map seg_args ?segs))
    = Some (concat (map (seg_text (\<lambda>_ _. '''')) ?segs))"
    by (rule printf_segs) (use assms(4) in \<open>simp add: jitter_crlf_def\<close>)
  then show ?thesis using assms(1-3)
    by (simp add: jitter_monitor_report_def jitter_printf_def pad_fmt_def padded_def Let_def)
qed

subsection \<open>Properties\<close>

text \<open>
  C19: The jitter monitor measures against a fixed grid. After one is created and marked at real
  times t0, t1, ..., tn (in milliseconds since boot, however often the 32-bit clock has
  wrapped), each less than 2^31 ms from its grid point t0 + k * period, the report gives the
  least, the greatest and, while the sum fits 32 bits, the average of the n distances
  |tk - (t0 + k * period)|.
\<close>

theorem jitter_monitor_exact:
  assumes "length ms = 8" and "jitter_monitor_create nm (of_nat period) ms = (h, ms')" and "0 \<le> h"
    and "near_grid period (t0 # us)" and "us \<noteq> []" and "length us < 2 ^ 32" and "period < 2 ^ 32"
    and "js = map (\<lambda>k. grid_jitter t0 period (Suc k) (us ! k)) [0..<length us]"
    and "sum_list js < 2 ^ 32" and "NUL \<notin> set nm"
  shows "jitter_monitor_report h (fold (\<lambda>t. jitter_monitor_mark h (of_nat t)) (t0 # us) ms') =
    (let dec = number_text False 10 in
     ''[JITTER] '' @ nm @ '': period='' @ dec period @ ''ms min='' @ dec (Min (set js))
     @ ''ms avg='' @ dec (sum_list js div length us) @ ''ms max='' @ dec (Max (set js))
     @ ''ms samples='' @ dec (length us) @ jitter_crlf)"
proof -
  obtain i where i: "i < 8" "h = int i" "length ms' = 8" "jitter_shows nm period [] (ms' ! i)"
    using jitter_create_shows [OF assms(1-3)] by blast
  let ?ms = "fold (\<lambda>t. jitter_monitor_mark h (of_nat t)) (t0 # us) ms'"
  let ?m = "?ms ! i"
  have "jitter_shows nm period (t0 # us) ?m"
    using marks_show [OF i(3,1,4) assms(4)] unfolding i(2) by blast
  then obtain ds where m: "in_use ?m" "name ?m = nm" "period_ms ?m = of_nat period"
    and s: "summarises ds (min_jitter_ms ?m) (max_jitter_ms ?m) (sum_jitter_ms ?m) (sample_count ?m)"
    and ds: "map unat ds = js"
    using assms(8) by (auto simp: jitter_shows_def)
  have len: "length ds = length us" using arg_cong [OF ds, of length] assms(8) by simp
  have js: "set js = unat ` set ds" by (metis ds list.set_map)
  have "sample_count ?m \<noteq> 0" using summarises_count_zero [OF s] assms(5,6) len by auto
  then have t: "jitter_monitor_report h ?ms =
    (let m = ?m; dec = (\<lambda>v. number_text False 10 (unat v)) in
     ''[JITTER] '' @ name m @ '': period='' @ dec (period_ms m) @ ''ms min='' @ dec (min_jitter_ms m)
     @ ''ms avg='' @ dec (sum_jitter_ms m div sample_count m) @ ''ms max='' @ dec (max_jitter_ms m)
     @ ''ms samples='' @ dec (sample_count m) @ jitter_crlf)"
    using jitter_report_text [of h ?ms] i(1,2) m assms(10)
    by (simp add: bad_jitter_handle_def JITTER_MONITOR_MAX_COUNT_def)
  have "ds \<noteq> []" using len assms(5) by auto
  then have "unat (min_jitter_ms ?m) = Min (set js)" "unat (max_jitter_ms ?m) = Max (set js)"
    "unat (sample_count ?m) = length us"
    using s assms(6) len js by (simp_all add: summarises_def unat_of_nat)
  moreover have "unat (sum_jitter_ms ?m div sample_count ?m) = sum_list js div length us"
    using summarises_average [OF s] assms(6,9) len ds by simp
  moreover have "unat (period_ms ?m) = period" using m(3) assms(7) by (simp add: unat_of_nat)
  ultimately show ?thesis unfolding t Let_def m(2) by simp
qed

definition no_jitter_monitors :: "jitter_t list" where
  "no_jitter_monitors = replicate 8 \<lparr>in_use = False, name = '''', period_ms = 0, expected_ms = 0,
     baseline_set = False, min_jitter_ms = 0, max_jitter_ms = 0, sum_jitter_ms = 0, sample_count = 0\<rparr>"

theorem jitter_monitor_exact_witness:
  "jitter_monitor_report 0 (fold (\<lambda>t. jitter_monitor_mark 0 (of_nat t)) [4294967290, 4294967296, 4294967297]
       (snd (jitter_monitor_create ''imu'' (of_nat 5) no_jitter_monitors)))
   = ''[JITTER] imu: period='' @ number_text False 10 5 @ ''ms min='' @ number_text False 10 1
     @ ''ms avg='' @ number_text False 10 2 @ ''ms max='' @ number_text False 10 3
     @ ''ms samples='' @ number_text False 10 2 @ jitter_crlf"
proof -
  have c: "jitter_monitor_create ''imu'' (of_nat 5) no_jitter_monitors
      = (0, snd (jitter_monitor_create ''imu'' (of_nat 5) no_jitter_monitors))"
    by (simp add: jitter_monitor_create_def no_jitter_monitors_def JITTER_MONITOR_MAX_COUNT_def upt_rec)
  have l: "length no_jitter_monitors = 8" by (simp add: no_jitter_monitors_def)
  have n: "near_grid 5 [4294967290, 4294967296, 4294967297]"
    by (simp add: near_grid_def grid_jitter_def less_Suc_eq all_conj_distrib)
  have j: "[1, 3] = map (\<lambda>k. grid_jitter 4294967290 5 (Suc k) ([4294967296, 4294967297] ! k))
      [0..<length [4294967296 :: nat, 4294967297]]"
    by (simp add: grid_jitter_def upt_rec)
  show ?thesis using jitter_monitor_exact [OF l c _ n _ _ _ j] by (simp add: Let_def numeral_2_eq_2 [symmetric])
qed

text \<open>
  The use the header documents (mark, work, then sched_delay_ms of the period) makes the
  jitter grow without bound: when the marks are regular but w ms further apart than the
  period, the code computes jitter k * w at the k-th mark, as the grid never moves.
\<close>

theorem jitter_grows_with_work:
  assumes "k * w < 2 ^ 31"
  shows "unat (jitter_of (of_nat (t0 + k * (period + w))) (of_nat (t0 + k * period))) = k * w"
proof -
  have d: "nat \<bar>int (t0 + k * (period + w)) - int (t0 + k * period)\<bar> = k * w"
    by (simp add: algebra_simps flip: of_nat_mult)
  show ?thesis using jitter_of_exact [of "t0 + k * (period + w)" "t0 + k * period"] assms
    unfolding d by simp
qed

theorem jitter_grows_with_work_witness:
  "unat (jitter_of (of_nat (100 + 20 * (5 + 1))) (of_nat (100 + 20 * 5))) = 20"
  using jitter_grows_with_work [of 20 1 100 5] by simp

end
