(* ===== verification/UartK64f.thy ===== *)
theory UartK64f
  imports UartStm Fifo
begin

text \<open>
  \<open>drivers/k64f/uart.c\<close>: the interrupt-driven UART with a 256-byte transmit and a 64-byte
  receive ring, and the formatter built on it. Ring indices are natural numbers (the source
  keeps them below the ring sizes). \<open>None\<close> as the result of \<open>uart_putc\<close> or \<open>uart_getc\<close>: the
  function spins in its wait loop in this state. \<open>tie\<close> and \<open>rie\<close> are the interrupt
  enables in the register C2; \<open>line\<close> is what has been written to the data register, oldest
  character first.
\<close>

definition UART_TX_BUF_SIZE :: nat where "UART_TX_BUF_SIZE = 256"
definition UART_RX_BUF_SIZE :: nat where "UART_RX_BUF_SIZE = 64"

record uart =
  s_tx_buf :: "char list"
  s_tx_head :: nat
  s_tx_tail :: nat
  s_rx_buf :: "char list"
  s_rx_head :: nat
  s_rx_tail :: nat
  tie :: bool
  rie :: bool
  BDL :: u8
  line :: string

definition k64f_uart_init :: "u32 \<Rightarrow> uart \<Rightarrow> uart" where
  "k64f_uart_init baud u =
     u\<lparr>BDL := ucast ((120000000 :: u32) div (16 * baud)), s_tx_head := 0, s_tx_tail := 0,
       s_rx_head := 0, s_rx_tail := 0, tie := False, rie := True\<rparr>"

text \<open>The handler, given the status flags it reads and the byte the receiver holds.\<close>

definition uart_irq_tx :: "uart \<Rightarrow> uart" where
  "uart_irq_tx u =
     (if s_tx_tail u \<noteq> s_tx_head u
      then u\<lparr>line := line u @ [s_tx_buf u ! s_tx_tail u],
             s_tx_tail := (s_tx_tail u + 1) mod UART_TX_BUF_SIZE\<rparr>
      else u\<lparr>tie := False\<rparr>)"

definition uart_irq_rx :: "char \<Rightarrow> uart \<Rightarrow> uart" where
  "uart_irq_rx byte u =
     (let next_head = (s_rx_head u + 1) mod UART_RX_BUF_SIZE in
      if next_head \<noteq> s_rx_tail u
      then u\<lparr>s_rx_buf := (s_rx_buf u)[s_rx_head u := byte], s_rx_head := next_head\<rparr>
      else u)"

definition UART0_RX_TX_IRQHandler :: "bool \<Rightarrow> char option \<Rightarrow> uart \<Rightarrow> uart" where
  "UART0_RX_TX_IRQHandler tdre rdrf u =
     (let u1 = (if tdre then uart_irq_tx u else u)
      in case rdrf of Some byte \<Rightarrow> uart_irq_rx byte u1 | None \<Rightarrow> u1)"

text \<open>\<open>uart_putc\<close>, its read of the head and its stores apart: a task switch can come between.\<close>

definition putc_next :: "uart \<Rightarrow> nat" where
  "putc_next u = (s_tx_head u + 1) mod UART_TX_BUF_SIZE"

definition putc_store :: "char \<Rightarrow> nat \<Rightarrow> nat \<Rightarrow> uart \<Rightarrow> uart" where
  "putc_store c head next_head u =
     u\<lparr>s_tx_buf := (s_tx_buf u)[head := c], s_tx_head := next_head, tie := True\<rparr>"

definition k64f_uart_putc :: "char \<Rightarrow> uart \<Rightarrow> uart option" where
  "k64f_uart_putc c u =
     (if putc_next u = s_tx_tail u then None
      else Some (putc_store c (s_tx_head u) (putc_next u) u))"

definition k64f_uart_getc :: "uart \<Rightarrow> (char \<times> uart) option" where
  "k64f_uart_getc u =
     (if s_rx_head u = s_rx_tail u then None
      else Some (s_rx_buf u ! s_rx_tail u, u\<lparr>s_rx_tail := (s_rx_tail u + 1) mod UART_RX_BUF_SIZE\<rparr>))"

subsection \<open>A ring as a queue\<close>

definition ring :: "nat \<Rightarrow> char list \<Rightarrow> nat \<Rightarrow> nat \<Rightarrow> string" where
  "ring n buf head tail = map (\<lambda>i. buf ! ((tail + i) mod n)) [0..<(head + n - tail) mod n]"

lemma ring_empty: "head < n \<Longrightarrow> ring n buf head head = []"
  by (simp add: ring_def)

lemma ring_length: "head < n \<Longrightarrow> tail < n \<Longrightarrow> length (ring n buf head tail) = (head + n - tail) mod n"
  by (simp add: ring_def)

lemma ring_Nil_iff:
  assumes "head < n" and "tail < n"
  shows "ring n buf head tail = [] \<longleftrightarrow> head = tail"
proof -
  have "(head + n - tail) mod n = 0 \<longleftrightarrow> head = tail"
  proof (cases "tail \<le> head")
    case True
    then have e: "head + n - tail = (head - tail) + n" by simp
    have "(head + n - tail) mod n = head - tail" unfolding e using assms(1) by simp
    then show ?thesis using True by auto
  next
    case False
    then have "head + n - tail < n" "0 < head + n - tail" using assms by simp_all
    then show ?thesis using False by simp
  qed
  then show ?thesis by (simp add: ring_def)
qed

lemma ring_span:
  fixes head n tail :: nat
  assumes "head < n" and "tail < n"
  obtains k where "k < n" "head = (tail + k) mod n" "(head + n - tail) mod n = k"
proof -
  have "0 < n" using assms(1) by simp
  then have "(head + n - tail) mod n < n" by (rule mod_less_divisor)
  moreover have "head = (tail + (head + n - tail) mod n) mod n"
    using assms by (simp add: mod_add_right_eq)
  ultimately show thesis using that by blast
qed

lemma ring_full:
  assumes "head < n" and "tail < n"
  shows "(head + 1) mod n = tail \<longleftrightarrow> Suc (length (ring n buf head tail)) = n"
proof -
  obtain k where k: "k < n" "head = (tail + k) mod n" "(head + n - tail) mod n = k"
    using ring_span [OF assms] by blast
  have nx: "(head + 1) mod n = (tail + Suc k) mod n" by (simp add: k(2) mod_Suc_eq)
  have "(tail + Suc k) mod n = tail \<longleftrightarrow> Suc k = n"
  proof (cases "Suc k < n")
    case True
    then show ?thesis using mod_add_inj [of tail "Suc k" n 0] assms(2) by auto
  next
    case False
    then have "Suc k = n" using k(1) by simp
    then show ?thesis using assms(2) by simp
  qed
  then show ?thesis using nx by (simp add: ring_def k(3))
qed

lemma ring_push:
  assumes "head < n" and "tail < n" and "length buf = n" and "(head + 1) mod n \<noteq> tail"
  shows "ring n (buf[head := c]) ((head + 1) mod n) tail = ring n buf head tail @ [c]"
proof -
  obtain k where k: "k < n" "head = (tail + k) mod n" "(head + n - tail) mod n = k"
    using ring_span [OF assms(1,2)] by blast
  have "Suc k \<noteq> n"
  proof
    assume "Suc k = n"
    then have "(head + 1) mod n = (tail + n) mod n" using k(2) by (simp add: mod_Suc_eq flip: \<open>Suc k = n\<close>)
    then show False using assms(2,4) by simp
  qed
  then have Sk: "Suc k < n" using k(1) by simp
  obtain j where j: "j < n" "(head + 1) mod n = (tail + j) mod n" "((head + 1) mod n + n - tail) mod n = j"
    using ring_span [of "(head + 1) mod n" n tail] assms(1,2) by (metis mod_less_divisor neq0_conv not_less0)
  have "(head + 1) mod n = (tail + Suc k) mod n" using k(2) by (simp add: mod_Suc_eq)
  then have "j = Suc k" using mod_add_inj [of tail j n "Suc k"] j(1,2) Sk by simp
  moreover have "buf[head := c] ! ((tail + i) mod n) = buf ! ((tail + i) mod n)" if "i < k" for i
  proof -
    have "(tail + i) mod n \<noteq> head"
      using mod_add_inj [of tail i n k] k(1,2) that by auto
    then show ?thesis by simp
  qed
  moreover have "buf[head := c] ! ((tail + k) mod n) = c" using k(2) assms(1,3) by simp
  ultimately show ?thesis using j(3) k(3) by (simp add: ring_def)
qed

lemma ring_pop:
  assumes "head < n" and "tail < n" and "head \<noteq> tail"
  shows "ring n buf head tail = buf ! tail # ring n buf head ((tail + 1) mod n)"
proof -
  obtain k where k: "k < n" "head = (tail + k) mod n" "(head + n - tail) mod n = k"
    using ring_span [OF assms(1,2)] by blast
  have "k \<noteq> 0"
  proof
    assume "k = 0"
    with k(2) assms(2) have "head = tail" by simp
    with assms(3) show False ..
  qed
  then obtain m where m: "k = Suc m" using not0_implies_Suc by blast
  have n0: "0 < n" using assms(1) by simp
  obtain j where j: "j < n" "head = ((tail + 1) mod n + j) mod n" "(head + n - (tail + 1) mod n) mod n = j"
    using ring_span [of head n "(tail + 1) mod n"] assms(1) n0 by (metis mod_less_divisor)
  have "((tail + 1) mod n + j) mod n = (tail + Suc j) mod n"
    by (simp add: mod_add_left_eq)
  moreover have "((tail + 1) mod n + m) mod n = (tail + Suc m) mod n"
    by (simp add: mod_add_left_eq)
  ultimately have "((tail + 1) mod n + j) mod n = ((tail + 1) mod n + m) mod n" using j(2) k(2) m by simp
  then have "j = m" using mod_add_inj [of "(tail + 1) mod n" j n m] j(1) k(1) m by simp
  moreover have "(tail + Suc i) mod n = ((tail + 1) mod n + i) mod n" for i
    by (simp add: mod_add_left_eq)
  ultimately show ?thesis
    using j(3) k(3) m assms(2)
    by (simp add: ring_def upt_conv_Cons map_Suc_upt [symmetric] comp_def del: upt_Suc)
qed

subsection \<open>The two rings as queues, under every interleaving\<close>

definition uart_wf :: "uart \<Rightarrow> bool" where
  "uart_wf u \<longleftrightarrow> length (s_tx_buf u) = UART_TX_BUF_SIZE \<and> s_tx_head u < UART_TX_BUF_SIZE
     \<and> s_tx_tail u < UART_TX_BUF_SIZE \<and> length (s_rx_buf u) = UART_RX_BUF_SIZE
     \<and> s_rx_head u < UART_RX_BUF_SIZE \<and> s_rx_tail u < UART_RX_BUF_SIZE"

definition tx_queue :: "uart \<Rightarrow> string" where
  "tx_queue u = ring UART_TX_BUF_SIZE (s_tx_buf u) (s_tx_head u) (s_tx_tail u)"

definition rx_queue :: "uart \<Rightarrow> string" where
  "rx_queue u = ring UART_RX_BUF_SIZE (s_rx_buf u) (s_rx_head u) (s_rx_tail u)"

lemma uart_sizes [simp]: "0 < UART_TX_BUF_SIZE" "0 < UART_RX_BUF_SIZE"
  by (simp_all add: UART_TX_BUF_SIZE_def UART_RX_BUF_SIZE_def)

lemma putc_spec:
  assumes "uart_wf u" and "k64f_uart_putc c u = Some u'"
  shows "uart_wf u'" "tx_queue u' = tx_queue u @ [c]" "rx_queue u' = rx_queue u" "line u' = line u" "tie u'"
  using assms ring_push [of "s_tx_head u" UART_TX_BUF_SIZE "s_tx_tail u" "s_tx_buf u" c]
  by (auto simp: k64f_uart_putc_def putc_store_def putc_next_def uart_wf_def tx_queue_def rx_queue_def
      split: if_splits)

lemma putc_None_iff: "uart_wf u \<Longrightarrow> k64f_uart_putc c u = None \<longleftrightarrow> length (tx_queue u) = 255"
  using ring_full [of "s_tx_head u" UART_TX_BUF_SIZE "s_tx_tail u" "s_tx_buf u"]
  by (auto simp: uart_wf_def k64f_uart_putc_def putc_next_def tx_queue_def UART_TX_BUF_SIZE_def)

lemma irq_tx_spec:
  assumes "uart_wf u"
  shows "uart_wf (uart_irq_tx u)" "rx_queue (uart_irq_tx u) = rx_queue u"
    "line (uart_irq_tx u) @ tx_queue (uart_irq_tx u) = line u @ tx_queue u"
    "tx_queue (uart_irq_tx u) = tl (tx_queue u)"
    "tx_queue (uart_irq_tx u) \<noteq> [] \<Longrightarrow> tie (uart_irq_tx u) = tie u"
  using assms ring_pop [of "s_tx_head u" UART_TX_BUF_SIZE "s_tx_tail u" "s_tx_buf u"]
    ring_empty [of "s_tx_tail u" UART_TX_BUF_SIZE]
  by (auto simp: uart_irq_tx_def uart_wf_def tx_queue_def rx_queue_def)

lemma irq_rx_spec:
  assumes "uart_wf u"
  shows "uart_wf (uart_irq_rx b u)" "tx_queue (uart_irq_rx b u) = tx_queue u"
    "line (uart_irq_rx b u) = line u" "tie (uart_irq_rx b u) = tie u"
    "rx_queue (uart_irq_rx b u) = rx_queue u @ (if length (rx_queue u) < 63 then [b] else [])"
proof -
  let ?n = UART_RX_BUF_SIZE
  have "(s_rx_head u + 1) mod ?n = s_rx_tail u \<longleftrightarrow> length (rx_queue u) = 63" "length (rx_queue u) < ?n"
    using ring_full [of "s_rx_head u" ?n "s_rx_tail u" "s_rx_buf u"] ring_length [of "s_rx_head u" ?n "s_rx_tail u" "s_rx_buf u"] assms
    by (auto simp: uart_wf_def rx_queue_def UART_RX_BUF_SIZE_def)
  then show "rx_queue (uart_irq_rx b u) = rx_queue u @ (if length (rx_queue u) < 63 then [b] else [])"
    using assms ring_push [of "s_rx_head u" ?n "s_rx_tail u" "s_rx_buf u" b]
    by (auto simp: uart_irq_rx_def rx_queue_def uart_wf_def Let_def UART_RX_BUF_SIZE_def)
qed (use assms in \<open>auto simp: uart_irq_rx_def uart_wf_def tx_queue_def Let_def\<close>)

lemma getc_spec:
  assumes "uart_wf u"
  shows "(case k64f_uart_getc u of
      None \<Rightarrow> rx_queue u = []
    | Some (c, u') \<Rightarrow> rx_queue u = c # rx_queue u' \<and> uart_wf u' \<and> tx_queue u' = tx_queue u
        \<and> line u' = line u \<and> tie u' = tie u)"
  using assms ring_pop [of "s_rx_head u" UART_RX_BUF_SIZE "s_rx_tail u" "s_rx_buf u"]
    ring_empty [of "s_rx_tail u" UART_RX_BUF_SIZE]
  by (auto simp: k64f_uart_getc_def uart_wf_def tx_queue_def rx_queue_def)

text \<open>
  Both rings are bounded queues: the transmit ring is put to by \<open>uart_putc\<close> and read by the
  interrupt (\<open>tx_take\<close>: the character it sends), the receive ring is put to by the interrupt
  (\<open>rx_offer\<close>: refused where it drops the byte) and read by \<open>uart_getc\<close>.
\<close>

definition tx_take :: "uart \<Rightarrow> (char \<times> uart) option" where
  "tx_take u = (if s_tx_tail u \<noteq> s_tx_head u then Some (s_tx_buf u ! s_tx_tail u, uart_irq_tx u) else None)"

definition rx_offer :: "char \<Rightarrow> uart \<Rightarrow> uart option" where
  "rx_offer byte u =
     (if (s_rx_head u + 1) mod UART_RX_BUF_SIZE \<noteq> s_rx_tail u then Some (uart_irq_rx byte u) else None)"

lemma tx_take_spec:
  assumes "uart_wf u"
  shows "(case tx_take u of
      None \<Rightarrow> tx_queue u = []
    | Some (c, u') \<Rightarrow> tx_queue u = c # tx_queue u' \<and> uart_wf u')"
  using assms irq_tx_spec(1,4) [OF assms] ring_pop [of "s_tx_head u" UART_TX_BUF_SIZE "s_tx_tail u" "s_tx_buf u"]
    ring_empty [of "s_tx_tail u" UART_TX_BUF_SIZE]
  by (auto simp: tx_take_def uart_wf_def tx_queue_def)

lemma rx_offer_spec:
  assumes "uart_wf u"
  shows "(case rx_offer b u of
      None \<Rightarrow> length (rx_queue u) = 63
    | Some u' \<Rightarrow> length (rx_queue u) < 63 \<and> rx_queue u' = rx_queue u @ [b] \<and> uart_wf u')"
  using assms irq_rx_spec(1,5) [OF assms, of b]
    ring_full [of "s_rx_head u" UART_RX_BUF_SIZE "s_rx_tail u" "s_rx_buf u"]
    ring_length [of "s_rx_head u" UART_RX_BUF_SIZE "s_rx_tail u" "s_rx_buf u"]
  by (auto simp: rx_offer_def uart_wf_def rx_queue_def UART_RX_BUF_SIZE_def)

lemma ring_bounds: "uart_wf u \<Longrightarrow> length (tx_queue u) \<le> 255 \<and> length (rx_queue u) \<le> 63"
  by (simp add: uart_wf_def tx_queue_def rx_queue_def ring_length UART_TX_BUF_SIZE_def UART_RX_BUF_SIZE_def less_Suc_eq_le [symmetric])

interpretation txq: fifo uart_wf tx_queue "\<lambda>_. 255" "\<lambda>_ _. True" k64f_uart_putc tx_take
proof (unfold_locales, goal_cases)
  case (1 u)
  then show ?case using ring_bounds by blast
next
  case (2 u x)
  then show ?case using putc_None_iff by blast
next
  case (3 u x u')
  then show ?case using putc_spec [of u x u'] by simp
next
  case (4 u)
  then show ?case using tx_take_spec [of u] by (auto split: option.splits)
next
  case (5 u x u')
  then show ?case using tx_take_spec [of u] by simp
qed

interpretation rxq: fifo uart_wf rx_queue "\<lambda>_. 63" "\<lambda>_ _. True" rx_offer k64f_uart_getc
proof (unfold_locales, goal_cases)
  case (1 u)
  then show ?case using ring_bounds by blast
next
  case (2 u x)
  then show ?case using rx_offer_spec [of u x] by (auto split: option.splits)
next
  case (3 u x u')
  then show ?case using rx_offer_spec [of u x] by simp
next
  case (4 u)
  then show ?case using getc_spec [of u] by (auto split: option.splits)
next
  case (5 u x u')
  then show ?case using getc_spec [of u] by simp
qed

text \<open>
  Events: a call of \<open>uart_putc\<close> or \<open>uart_getc\<close> that gets past its wait loop (one that spins
  leaves the state as it is), and the interrupt. Next to the driver's state a history: the
  characters put, the received bytes the ring had room for, and the characters got.
\<close>

datatype uart_event = UPutc char | UGetc | UIrq bool "char option"

fun uart_step :: "uart_event \<Rightarrow> uart \<times> string \<times> string \<times> string \<Rightarrow> uart \<times> string \<times> string \<times> string" where
  "uart_step (UPutc c) (u, put, acc, got) =
     (case k64f_uart_putc c u of None \<Rightarrow> (u, put, acc, got) | Some u' \<Rightarrow> (u', put @ [c], acc, got))"
| "uart_step UGetc (u, put, acc, got) =
     (case k64f_uart_getc u of None \<Rightarrow> (u, put, acc, got) | Some (c, u') \<Rightarrow> (u', put, acc, got @ [c]))"
| "uart_step (UIrq tdre rdrf) (u, put, acc, got) =
     (UART0_RX_TX_IRQHandler tdre rdrf u, put,
      acc @ (case rdrf of Some b \<Rightarrow> if length (rx_queue u) < 63 then [b] else [] | None \<Rightarrow> []), got)"

fun uart_history_inv :: "uart \<times> string \<times> string \<times> string \<Rightarrow> bool" where
  "uart_history_inv (u, put, acc, got) \<longleftrightarrow> uart_wf u \<and> put = line u @ tx_queue u
     \<and> acc = got @ rx_queue u \<and> (tx_queue u \<noteq> [] \<longrightarrow> tie u)"

lemma uart_step_inv: "uart_history_inv s \<Longrightarrow> uart_history_inv (uart_step e s)"
proof (cases s)
  case (fields u put acc got)
  assume inv: "uart_history_inv s"
  then have wf: "uart_wf u" and i: "put = line u @ tx_queue u" "acc = got @ rx_queue u"
    "tx_queue u \<noteq> [] \<longrightarrow> tie u" by (simp_all add: fields)
  show ?thesis
  proof (cases e)
    case (UPutc c)
    then show ?thesis using putc_spec [OF wf, of c] inv fields by (auto split: option.split)
  next
    case UGetc
    then show ?thesis using getc_spec [OF wf] inv fields by (auto split: option.split)
  next
    case (UIrq tdre rdrf)
    let ?u1 = "if tdre then uart_irq_tx u else u"
    have u1: "uart_wf ?u1" "rx_queue ?u1 = rx_queue u" "line ?u1 @ tx_queue ?u1 = put"
      "tx_queue ?u1 \<noteq> [] \<longrightarrow> tie ?u1"
      using irq_tx_spec [OF wf] i wf by (auto split: if_splits)
    show ?thesis using UIrq fields u1 i irq_rx_spec [OF u1(1)]
      by (cases rdrf) (auto simp: UART0_RX_TX_IRQHandler_def Let_def)
  qed
qed

definition uart_reset :: uart where
  "uart_reset = \<lparr>s_tx_buf = replicate 256 NUL, s_tx_head = 0, s_tx_tail = 0, s_rx_buf = replicate 64 NUL,
     s_rx_head = 0, s_rx_tail = 0, tie = False, rie = False, BDL = 0, line = []\<rparr>"

lemma uart_reset_inv: "uart_history_inv (k64f_uart_init baud uart_reset, [], [], [])"
  by (simp add: k64f_uart_init_def uart_reset_def uart_wf_def tx_queue_def rx_queue_def ring_def
      UART_TX_BUF_SIZE_def UART_RX_BUF_SIZE_def)

lemma uart_run_inv: "uart_history_inv s \<Longrightarrow> uart_history_inv (fold uart_step es s)"
  by (induction es arbitrary: s) (simp_all add: uart_step_inv)

lemma uart_drain:
  "uart_wf u \<Longrightarrow> fifo_drain tx_take n u = (xs, u') \<Longrightarrow> length xs = n \<Longrightarrow>
   u' = (uart_irq_tx ^^ n) u \<and> line u' = line u @ xs"
proof (induction n arbitrary: u xs)
  case (Suc n)
  let ?v = "uart_irq_tx u"
  have t: "s_tx_tail u \<noteq> s_tx_head u" using Suc.prems(2,3) by (auto simp: tx_take_def)
  then have k: "tx_take u = Some (s_tx_buf u ! s_tx_tail u, ?v)" by (simp add: tx_take_def)
  obtain ys v where d: "fifo_drain tx_take n ?v = (ys, v)" by (cases "fifo_drain tx_take n ?v")
  then have xs: "v = u'" "xs = s_tx_buf u ! s_tx_tail u # ys" using Suc.prems(2) k by simp_all
  from Suc.IH [OF irq_tx_spec(1) [OF Suc.prems(1)] d [unfolded xs(1)]] xs Suc.prems(3)
  have "u' = (uart_irq_tx ^^ n) ?v" "line u' = line ?v @ ys" by auto
  moreover have "line ?v = line u @ [s_tx_buf u ! s_tx_tail u]" using t by (simp add: uart_irq_tx_def)
  ultimately show ?case using xs(2) by (simp add: funpow_swap1)
qed simp

subsection \<open>Strings and numbers\<close>

text \<open>What the printing functions hand to \<open>uart_putc\<close>, in order.\<close>

fun k64f_uart_puts :: "char list \<Rightarrow> string" where
  "k64f_uart_puts [] = []"
| "k64f_uart_puts (c # s) =
     (if c = NUL then [] else (if c = CHR 0x0A then [CHR 0x0D] else []) @ c # k64f_uart_puts s)"

text \<open>The digits go into a 12-character buffer on the stack; \<open>None\<close> is a store past its end.\<close>

partial_function (option) put_uint_digits ::
  "u32 \<Rightarrow> bool \<Rightarrow> u32 \<Rightarrow> nat \<Rightarrow> char list \<Rightarrow> (nat \<times> char list) option" where
  "put_uint_digits base upper val i buf =
     (if 0 < val then
        (if i < length buf
         then put_uint_digits base upper (val div base) (i + 1)
                (buf[i := digit_char upper (unat (val mod base))])
         else None)
      else Some (i, buf))"

definition uart_put_uint :: "u32 \<Rightarrow> u8 \<Rightarrow> bool \<Rightarrow> string option" where
  "uart_put_uint val base upper =
     (if val = 0 then Some ''0''
      else case put_uint_digits (ucast base) upper val 0 (replicate 12 (CHR ''?'')) of
        None \<Rightarrow> None
      | Some (i, buf) \<Rightarrow> Some (rev (take i buf)))"

definition uart_put_int :: "u32 \<Rightarrow> string option" where
  "uart_put_int val =
     (if sint val < 0 then map_option (Cons (CHR ''-'')) (uart_put_uint (- val) 10 False)
      else uart_put_uint val 10 False)"

definition k64f_convert :: "char \<Rightarrow> 'd uart_arg list \<Rightarrow> (string \<times> 'd uart_arg list) option" where
  "k64f_convert c args =
     (if c = CHR ''u'' then case args of ArgInt v # r \<Rightarrow> map_option (\<lambda>s. (s, r)) (uart_put_uint v 10 False) | _ \<Rightarrow> None
      else if c = CHR ''d'' then case args of ArgInt v # r \<Rightarrow> map_option (\<lambda>s. (s, r)) (uart_put_int v) | _ \<Rightarrow> None
      else if c = CHR ''x'' then case args of ArgInt v # r \<Rightarrow> map_option (\<lambda>s. (s, r)) (uart_put_uint v 16 False) | _ \<Rightarrow> None
      else if c = CHR ''X'' then case args of ArgInt v # r \<Rightarrow> map_option (\<lambda>s. (s, r)) (uart_put_uint v 16 True) | _ \<Rightarrow> None
      else if c = CHR ''s'' then case args of ArgStr s # r \<Rightarrow> Some (k64f_uart_puts s, r) | _ \<Rightarrow> None
      else if c = CHR ''c'' then case args of ArgInt v # r \<Rightarrow> Some ([char_of (unat v)], r) | _ \<Rightarrow> None
      else if c = CHR ''%'' then Some (''%'', args)
      else Some ([CHR ''%'', c], args))"

fun k64f_uart_printf :: "char list \<Rightarrow> 'd uart_arg list \<Rightarrow> string option" where
  "k64f_uart_printf [] args = None"
| "k64f_uart_printf (c # fmt) args =
     (if c = NUL then Some []
      else if c \<noteq> CHR ''%''
      then map_option ((@) ((if c = CHR 0x0A then [CHR 0x0D] else []) @ [c])) (k64f_uart_printf fmt args)
      else case fmt of [] \<Rightarrow> None
        | x # fmt' \<Rightarrow> (case k64f_convert x args of
            None \<Rightarrow> None
          | Some (out, args') \<Rightarrow> map_option ((@) out) (k64f_uart_printf fmt' args')))"

declare k64f_uart_printf.simps(2) [simp del]

lemma put_uint_digits_eq:
  assumes "val \<noteq> 0" and "2 \<le> unat base" and "i + length (digits (unat base) (unat val)) \<le> length buf"
  shows "\<exists>buf'. put_uint_digits base upper val i buf = Some (i + length (digits (unat base) (unat val)), buf')
    \<and> length buf' = length buf
    \<and> take (i + length (digits (unat base) (unat val))) buf'
        = take i buf @ rev (map (digit_char upper) (digits (unat base) (unat val)))"
  using assms(1,3)
proof (induction "unat val" arbitrary: val i buf rule: less_induct)
  case less
  let ?d = "digit_char upper (unat (val mod base))"
  let ?b = "buf[i := ?d]"
  have i: "i < length buf" using less.prems(2) by (cases "digits (unat base) (unat val)") auto
  have step: "put_uint_digits base upper val i buf = put_uint_digits base upper (val div base) (i + 1) ?b"
    using i less.prems(1) by (subst put_uint_digits.simps) (simp add: word_pos_iff)
  have ti: "take (Suc i) ?b = take i buf @ [?d]" using i by (simp add: take_Suc_conv_app_nth)
  show ?case
  proof (cases "unat val < unat base")
    case True
    then have "val div base = 0" by (simp add: word_unat_eq_iff unat_div)
    then have "put_uint_digits base upper val i buf = Some (i + 1, ?b)"
      using step by (simp add: put_uint_digits.simps)
    moreover have "unat (val mod base) = unat val" using True by (simp add: unat_mod)
    ultimately show ?thesis using True ti by (simp add: digits_less)
  next
    case False
    have ds: "digits (unat base) (unat val) = digits (unat base) (unat (val div base)) @ [unat (val mod base)]"
      using False assms(2) by (simp add: digits_step unat_div unat_mod)
    have "unat (val div base) < unat val"
      using False assms(2) by (simp add: unat_div)
    moreover have "val div base \<noteq> 0" using False assms(2) by (simp add: word_unat_eq_iff unat_div div_eq_0_iff)
    moreover have "i + 1 + length (digits (unat base) (unat (val div base))) \<le> length ?b"
      using less.prems(2) ds by simp
    ultimately obtain b' where "put_uint_digits base upper (val div base) (i + 1) ?b
        = Some (i + 1 + length (digits (unat base) (unat (val div base))), b')" "length b' = length ?b"
      "take (i + 1 + length (digits (unat base) (unat (val div base)))) b'
        = take (i + 1) ?b @ rev (map (digit_char upper) (digits (unat base) (unat (val div base))))"
      using less.hyps by blast
    then show ?thesis unfolding step ds using ti by (intro exI [of _ b']) simp
  qed
qed

lemma uart_put_uint_text:
  assumes "base = 10 \<or> base = 16"
  shows "uart_put_uint val base upper = Some (number_text upper (unat base) (unat val))"
proof (cases "val = 0")
  case True
  then show ?thesis using assms by (auto simp: uart_put_uint_def number_text_def digits_less)
next
  case False
  have b: "2 \<le> unat base" "unat (ucast base :: u32) = unat base" using assms by auto
  have "unat val < unat base ^ Suc 11" using unat32_less [of val] assms by auto
  then have "length (digits (unat base) (unat val)) \<le> Suc 11" by (rule length_digits [OF b(1)])
  then obtain buf' where
    "put_uint_digits (ucast base) upper val 0 (replicate 12 (CHR ''?''))
      = Some (length (digits (unat base) (unat val)), buf')"
    "take (length (digits (unat base) (unat val))) buf' = rev (map (digit_char upper) (digits (unat base) (unat val)))"
    using put_uint_digits_eq [OF False, of "ucast base" 0 "replicate 12 (CHR ''?'')" upper] b by auto
  then show ?thesis using False by (simp add: uart_put_uint_def number_text_def)
qed

lemma uart_put_int_text: "uart_put_int val = Some (print_int val)"
  by (simp add: uart_put_int_def print_int_def print_uint_def uart_put_uint_text print_uint_padded_text Let_def)

subsection \<open>Properties\<close>



text \<open>
  uart_putc is not safe to call from two tasks: when a task switch comes after the first has
  read the head index and the second puts its character before the first goes on, the
  second character is overwritten. The ring holds only the first, and the loss is silent.
\<close>

theorem uart_putc_race_loses:
  assumes "uart_wf u" and "putc_next u \<noteq> s_tx_tail u" and "k64f_uart_putc b u = Some u1"
  shows "tx_queue (putc_store a (s_tx_head u) (putc_next u) u1) = tx_queue u @ [a]"
proof -
  have "putc_store a (s_tx_head u) (putc_next u) u1 = putc_store a (s_tx_head u) (putc_next u) u"
    using assms(3) by (auto simp: k64f_uart_putc_def putc_store_def split: if_splits)
  moreover have "k64f_uart_putc a u = Some (putc_store a (s_tx_head u) (putc_next u) u)"
    using assms(2) by (simp add: k64f_uart_putc_def)
  ultimately show ?thesis using putc_spec(2) [OF assms(1)] by metis
qed

theorem uart_putc_race_loses_witness:
  "\<exists>u1. k64f_uart_putc (CHR ''b'') uart_reset = Some u1
    \<and> tx_queue (putc_store (CHR ''a'') (s_tx_head uart_reset) (putc_next uart_reset) u1) = ''a''"
proof -
  have w: "uart_wf uart_reset" "putc_next uart_reset \<noteq> s_tx_tail uart_reset" "tx_queue uart_reset = []"
    by (simp_all add: uart_reset_def uart_wf_def putc_next_def UART_TX_BUF_SIZE_def UART_RX_BUF_SIZE_def
        tx_queue_def ring_def)
  then obtain u1 where "k64f_uart_putc (CHR ''b'') uart_reset = Some u1" by (simp add: k64f_uart_putc_def)
  with uart_putc_race_loses [OF w(1,2) this, of "CHR ''a''"] w(3) show ?thesis by simp
qed

text \<open>
  The two boards' formatters print numbers alike: the K64F's stack buffer of twelve characters
  is never overrun in bases 10 and 16, and every 32-bit value comes out as on the STM32.
\<close>

theorem uart_boards_agree:
  "uart_put_int v = Some (print_int v) \<and> uart_put_uint v 10 up = Some (print_uint v 10)
   \<and> uart_put_uint v 16 False = Some (print_uint v 16)"
proof -
  have "number_text up 10 n = number_text False 10 n" for n
    using digits_bound [of 10 _ n] by (auto simp: number_text_def digit_char_def)
  then show ?thesis
    by (simp add: uart_put_int_text uart_put_uint_text print_uint_def print_uint_padded_text Let_def)
qed

end
