(* ===== verification/Mmio.thy ===== *)
theory Mmio
  imports Prelude
begin

text \<open>
  What the device drivers share: configuration registers as a map from addresses to words, the
  register layouts of \<open>boards/k64f/MK64F12REGS.h\<close> with the base addresses of
  \<open>mmio_deviation.h\<close>, and the three shapes of bounded polling loop the drivers use.

  A configuration register reads back what was written. A status register is driven by the
  hardware: what a polling loop sees is an argument, the sequence of its readings.
\<close>

type_synonym mmio = "u32 \<Rightarrow> u32"

definition mm_write :: "u32 \<Rightarrow> u32 \<Rightarrow> mmio \<Rightarrow> mmio" where
  "mm_write a v m = m(a := v)"

definition mm_or :: "u32 \<Rightarrow> u32 \<Rightarrow> mmio \<Rightarrow> mmio" where
  "mm_or a v m = m(a := m a OR v)"

definition mm_clear :: "u32 \<Rightarrow> u32 \<Rightarrow> mmio \<Rightarrow> mmio" where
  "mm_clear a v m = m(a := m a AND NOT v)"

lemma mm_same [simp]:
  "mm_write a v m a = v" "mm_or a v m a = m a OR v" "mm_clear a v m a = m a AND NOT v"
  by (simp_all add: mm_write_def mm_or_def mm_clear_def)

lemma mm_other [simp]:
  "b \<noteq> a \<Longrightarrow> mm_write a v m b = m b" "b \<noteq> a \<Longrightarrow> mm_or a v m b = m b" "b \<noteq> a \<Longrightarrow> mm_clear a v m b = m b"
  by (simp_all add: mm_write_def mm_or_def mm_clear_def)

text \<open>A bit field of a register.\<close>

definition field :: "nat \<Rightarrow> nat \<Rightarrow> u32 \<Rightarrow> nat" where
  "field lo len w = unat (take_bit len (drop_bit lo w))"

lemma field_set:
  assumes "v < 2 ^ len" and "lo + len \<le> 32"
  shows "field lo len ((w AND NOT (push_bit lo (mask len))) OR push_bit lo (of_nat v)) = v"
proof -
  have "take_bit len (drop_bit lo ((w AND NOT (push_bit lo (mask len))) OR push_bit lo (of_nat v)))
      = (take_bit len (of_nat v) :: u32)"
    by (rule bit_word_eqI) (use assms(2) in \<open>auto simp: bit_simps\<close>)
  moreover have "(2 :: nat) ^ len \<le> 2 ^ 32" using assms(2) by (intro power_increasing) auto
  then have "v < 2 ^ 32" using assms(1) by linarith
  ultimately show ?thesis using assms(1)
    by (simp add: field_def unsigned_take_bit_eq unat_of_nat take_bit_nat_eq_self)
qed

subsection \<open>Register layouts\<close>

text \<open>
  A layout lists the members of a register block with their size in bytes and the number of
  array elements; the address of a member follows from the members before it.
\<close>

type_synonym layout = "(string \<times> nat \<times> nat) list"

fun offset_of :: "string \<Rightarrow> layout \<Rightarrow> nat option" where
  "offset_of x [] = None"
| "offset_of x ((y, sz, n) # ms) = (if x = y then Some 0 else map_option ((+) (sz * n)) (offset_of x ms))"

fun layout_size :: "layout \<Rightarrow> nat" where
  "layout_size [] = 0"
| "layout_size ((y, sz, n) # ms) = sz * n + layout_size ms"

definition reg :: "u32 \<Rightarrow> layout \<Rightarrow> string \<Rightarrow> u32" where
  "reg base l x = base + of_nat (the (offset_of x l))"

definition SIM_Type :: layout where
  "SIM_Type = [(''SOPT1'', 4, 1), (''SOPT1CFG'', 4, 1), (''RESERVED0'', 4, 1023), (''SOPT2'', 4, 1),
    (''RESERVED1'', 4, 1), (''SOPT4'', 4, 1), (''SOPT5'', 4, 1), (''RESERVED2'', 4, 1), (''SOPT7'', 4, 1),
    (''RESERVED3'', 4, 2), (''SDID'', 4, 1), (''SCGC1'', 4, 1), (''SCGC2'', 4, 1), (''SCGC3'', 4, 1),
    (''SCGC4'', 4, 1), (''SCGC5'', 4, 1), (''SCGC6'', 4, 1), (''SCGC7'', 4, 1), (''CLKDIV1'', 4, 1),
    (''CLKDIV2'', 4, 1), (''FCFG1'', 4, 1), (''FCFG2'', 4, 1), (''RESERVED4'', 4, 2), (''FCFG3'', 4, 1)]"

definition PORT_Type :: layout where
  "PORT_Type = [(''PCR'', 4, 32), (''GPCLR'', 4, 1), (''GPCHR'', 4, 1), (''RESERVED0'', 4, 6), (''ISFR'', 4, 1)]"

definition GPIO_Type :: layout where
  "GPIO_Type = [(''PDOR'', 4, 1), (''PSOR'', 4, 1), (''PCOR'', 4, 1), (''PTOR'', 4, 1), (''PDIR'', 4, 1), (''PDDR'', 4, 1)]"

definition WDOG_Type :: layout where
  "WDOG_Type = [(''STCTRLH'', 2, 1), (''STCTRLL'', 2, 1), (''TOVALH'', 2, 1), (''TOVALL'', 2, 1),
    (''WINH'', 2, 1), (''WINL'', 2, 1), (''REFRESH'', 2, 1), (''UNLOCK'', 2, 1)]"

definition UART_Type :: layout where
  "UART_Type = [(''BDH'', 1, 1), (''BDL'', 1, 1), (''C1'', 1, 1), (''C2'', 1, 1), (''S1'', 1, 1),
    (''S2'', 1, 1), (''C3'', 1, 1), (''D'', 1, 1), (''MA1'', 1, 1), (''MA2'', 1, 1), (''C4'', 1, 1), (''C5'', 1, 1)]"

definition ENET_Type :: layout where
  "ENET_Type = [(''ECR'', 4, 1), (''RESERVED0'', 4, 1), (''MII_CTRL'', 4, 1), (''MII_CMD'', 4, 1),
    (''MII_DATA'', 4, 1), (''RESERVED1'', 4, 0x3C), (''TCTRL'', 4, 1), (''RESERVED2'', 4, 0x3E), (''RCTRL'', 4, 1)]"

definition SysTick_Type :: layout where
  "SysTick_Type = [(''CTRL'', 4, 1), (''LOAD'', 4, 1), (''VAL'', 4, 1), (''CALIB'', 4, 1)]"

definition MCG_Type :: layout where
  "MCG_Type = [(''C1'', 1, 1), (''C2'', 1, 1), (''C3'', 1, 1), (''C4'', 1, 1), (''C5'', 1, 1), (''C6'', 1, 1),
    (''S'', 1, 1), (''RESERVED1'', 1, 1), (''ATCVH'', 1, 1), (''ATCVL'', 1, 1), (''C7'', 1, 1), (''C8'', 1, 1)]"

definition PIT_Channel_Type :: layout where
  "PIT_Channel_Type = [(''LDVAL'', 4, 1), (''CVAL'', 4, 1), (''TCTRL'', 4, 1), (''TFLG'', 4, 1)]"

definition PIT_Type :: layout where
  "PIT_Type = [(''MCR'', 4, 1), (''RESERVED'', 4, 63), (''CHANNEL'', layout_size PIT_Channel_Type, 4)]"

definition CAN_MB_Type :: layout where
  "CAN_MB_Type = [(''CS'', 4, 1), (''ID'', 4, 1), (''WORD0'', 4, 1), (''WORD1'', 4, 1)]"

definition CAN_Type :: layout where
  "CAN_Type = [(''MCR'', 4, 1), (''CTRL1'', 4, 1), (''TIMER'', 4, 1), (''RESERVED_0'', 4, 1),
    (''RXMGMASK'', 4, 1), (''RX14MASK'', 4, 1), (''RX15MASK'', 4, 1), (''ECR'', 4, 1), (''ESR1'', 4, 1),
    (''RESERVED_1'', 4, 1), (''IMASK1'', 4, 1), (''RESERVED_2'', 4, 1), (''IFLAG1'', 4, 1),
    (''CTRL2'', 4, 1), (''ESR2'', 4, 1), (''RESERVED_3'', 4, 2), (''CRCR'', 4, 1), (''RXFGMASK'', 4, 1),
    (''RXFIR'', 4, 1), (''RESERVED_4'', 4, 12), (''MB'', layout_size CAN_MB_Type, 16)]"

lemmas layout_defs = SIM_Type_def PORT_Type_def GPIO_Type_def WDOG_Type_def UART_Type_def
  SysTick_Type_def MCG_Type_def PIT_Channel_Type_def PIT_Type_def CAN_MB_Type_def CAN_Type_def

definition SIM_BASE_ADDR :: u32 where "SIM_BASE_ADDR = 0x40047000"
definition PORTB_BASE_ADDR :: u32 where "PORTB_BASE_ADDR = 0x4004A000"
definition UART0_BASE_ADDR :: u32 where "UART0_BASE_ADDR = 0x4006A000"
definition WDOG_BASE_ADDR :: u32 where "WDOG_BASE_ADDR = 0x40052000"
definition MCG_BASE_ADDR :: u32 where "MCG_BASE_ADDR = 0x40064000"
definition PIT_BASE_ADDR :: u32 where "PIT_BASE_ADDR = 0x40037000"
definition FLEXCAN0_BASE_ADDR :: u32 where "FLEXCAN0_BASE_ADDR = 0x40024000"

definition SIM :: "string \<Rightarrow> u32" where "SIM x = reg SIM_BASE_ADDR SIM_Type x"
definition PORTB_PCR :: "nat \<Rightarrow> u32" where "PORTB_PCR i = reg PORTB_BASE_ADDR PORT_Type ''PCR'' + 4 * of_nat i"
definition PIT_CH0 :: "string \<Rightarrow> u32" where
  "PIT_CH0 x = reg (reg PIT_BASE_ADDR PIT_Type ''CHANNEL'') PIT_Channel_Type x"
definition FLEXCAN0 :: "string \<Rightarrow> u32" where "FLEXCAN0 x = reg FLEXCAN0_BASE_ADDR CAN_Type x"
definition FLEXCAN0_MB :: "nat \<Rightarrow> string \<Rightarrow> u32" where
  "FLEXCAN0_MB i x = reg (FLEXCAN0 ''MB'' + 16 * of_nat i) CAN_MB_Type x"

lemmas k64f_base_defs = SIM_BASE_ADDR_def PORTB_BASE_ADDR_def UART0_BASE_ADDR_def WDOG_BASE_ADDR_def
  MCG_BASE_ADDR_def PIT_BASE_ADDR_def FLEXCAN0_BASE_ADDR_def SIM_def PORTB_PCR_def PIT_CH0_def
  FLEXCAN0_def FLEXCAN0_MB_def

text \<open>
  The register blocks of MK64F12REGS.h and mmio_deviation.h put their members where the
  reference addresses in the comments and the raw addresses in pwm.c say: the clock gates and
  dividers of the SIM, the channels of the PIT 16 bytes apart from 0x40037100, the FlexCAN
  flags at 0x30 and its message buffers 16 bytes apart from 0x80, PORTB's pins at their pin
  control registers.
\<close>

theorem k64f_register_addresses:
  "SIM ''SOPT2'' = 0x40048004 \<and> SIM ''SCGC3'' = 0x40047000 + 0x1030 \<and> SIM ''SCGC4'' = 0x40048034
   \<and> SIM ''SCGC5'' = 0x40047000 + 0x1038 \<and> SIM ''SCGC6'' = 0x40047000 + 0x103C
   \<and> SIM ''CLKDIV1'' = 0x40048044 \<and> SIM ''CLKDIV2'' = 0x40048048
   \<and> PIT_CH0 ''LDVAL'' = 0x40037100 \<and> PIT_CH0 ''TCTRL'' = 0x40037108 \<and> PIT_CH0 ''TFLG'' = 0x4003710C
   \<and> layout_size PIT_Channel_Type = 16 \<and> layout_size CAN_MB_Type = 16 \<and> layout_size CAN_Type = 0x180
   \<and> FLEXCAN0 ''IFLAG1'' = 0x40024030 \<and> FLEXCAN0 ''ESR1'' = 0x40024020
   \<and> FLEXCAN0_MB i ''CS'' = 0x40024080 + 16 * of_nat i \<and> FLEXCAN0_MB i ''WORD1'' = 0x4002408C + 16 * of_nat i
   \<and> PORTB_PCR i = 0x4004A000 + 4 * of_nat i"
  by (simp add: k64f_base_defs layout_defs reg_def)

subsection \<open>Bounded polling\<close>

text \<open>
  \<open>while (busy && t--) {}\<close>: the counter is decremented after it is tested, so a loop that runs
  out of tries leaves the counter at 0xFFFFFFFF.
\<close>

function poll_postdec :: "(nat \<Rightarrow> bool) \<Rightarrow> nat \<Rightarrow> u32 \<Rightarrow> nat \<times> u32" where
  "poll_postdec busy i t =
     (if busy i then if t = 0 then (i + 1, t - 1) else poll_postdec busy (i + 1) (t - 1) else (i, t))"
  by pat_completeness auto
termination
  by (relation "measure (\<lambda>(_, _, t). unat t)") (auto simp: measure_unat)

text \<open>\<open>while (busy && (t != 0)) { t--; }\<close>\<close>

function poll_countdown :: "(nat \<Rightarrow> bool) \<Rightarrow> nat \<Rightarrow> u32 \<Rightarrow> nat \<times> u32" where
  "poll_countdown busy i t =
     (if busy i \<and> t \<noteq> 0 then poll_countdown busy (i + 1) (t - 1) else (i, t))"
  by pat_completeness auto
termination
  by (relation "measure (\<lambda>(_, _, t). unat t)") (auto simp: measure_unat)

text \<open>\<open>while (t--) { if (done) return 0; } return -1;\<close>\<close>

function poll_return :: "(nat \<Rightarrow> bool) \<Rightarrow> nat \<Rightarrow> u32 \<Rightarrow> nat option" where
  "poll_return is_done i t =
     (if t = 0 then None else if is_done i then Some i else poll_return is_done (i + 1) (t - 1))"
  by pat_completeness auto
termination
  by (relation "measure (\<lambda>(_, _, t). unat t)") (auto simp: measure_unat)

declare poll_postdec.simps [simp del] poll_countdown.simps [simp del] poll_return.simps [simp del]

lemma unat_minus_one32: "(t :: u32) \<noteq> 0 \<Longrightarrow> unat (t - 1) = unat t - 1"
  by (simp add: unat_minus_one)

lemma poll_postdec_free:
  assumes "\<not> busy (i + n)" and "\<forall>j < n. busy (i + j)" and "n \<le> unat t"
  shows "poll_postdec busy i t = (i + n, t - of_nat n)"
  using assms
proof (induction n arbitrary: i t)
  case 0
  then show ?case by (simp add: poll_postdec.simps)
next
  case (Suc n)
  have b: "busy i" using Suc.prems(2) by (metis add.right_neutral zero_less_Suc)
  have t: "t \<noteq> 0" using Suc.prems(3) by auto
  have "poll_postdec busy (i + 1) (t - 1) = (i + 1 + n, t - 1 - of_nat n)"
  proof (rule Suc.IH)
    show "\<forall>j < n. busy (i + 1 + j)" using Suc.prems(2) by (metis Suc_less_eq add.assoc plus_1_eq_Suc)
    show "n \<le> unat (t - 1)" using Suc.prems(3) t by (simp add: unat_minus_one32)
  qed (use Suc.prems(1) in simp)
  then show ?case using b t by (subst poll_postdec.simps) simp
qed

lemma poll_postdec_stuck:
  assumes "\<forall>j \<le> unat t. busy (i + j)"
  shows "poll_postdec busy i t = (i + unat t + 1, 0xFFFFFFFF)"
  using assms
proof (induction "unat t" arbitrary: i t)
  case 0
  then have t: "t = 0" by (simp add: unat_eq_0)
  have "busy i" using 0(2) by (metis add.right_neutral le0)
  then show ?case unfolding t by (subst poll_postdec.simps) simp
next
  case (Suc n)
  then have t: "t \<noteq> 0" by auto
  have b: "busy i" using Suc.prems by (metis add.right_neutral le0)
  have u: "unat (t - 1) = n" using Suc(2) t by (simp add: unat_minus_one32)
  have "poll_postdec busy (i + 1) (t - 1) = (i + 1 + unat (t - 1) + 1, 0xFFFFFFFF)"
    using Suc.hyps(1) [of "t - 1" "i + 1"] u Suc.prems Suc.hyps(2) [symmetric]
    by (metis Suc_le_mono add.assoc plus_1_eq_Suc)
  then show ?case using b t u Suc.hyps(2) by (subst poll_postdec.simps) simp
qed

lemma poll_countdown_result:
  "\<exists>n \<le> unat t. poll_countdown busy i t = (i + n, t - of_nat n) \<and> (\<forall>j < n. busy (i + j))
     \<and> (busy (i + n) \<longrightarrow> n = unat t)"
proof (induction "unat t" arbitrary: i t)
  case 0
  then have "t = 0" by (simp add: unat_eq_0)
  then show ?case by (simp add: poll_countdown.simps)
next
  case (Suc n)
  then have t: "t \<noteq> 0" by auto
  have u: "unat (t - 1) = n" using Suc(2) t by (simp add: unat_minus_one32)
  show ?case
  proof (cases "busy i")
    case False
    then show ?thesis by (intro exI [of _ 0]) (simp add: poll_countdown.simps)
  next
    case True
    obtain m where m: "m \<le> n" "poll_countdown busy (i + 1) (t - 1) = (i + 1 + m, t - 1 - of_nat m)"
      "\<forall>j < m. busy (i + 1 + j)" "busy (i + 1 + m) \<longrightarrow> m = n"
      using Suc.hyps(1) [of "t - 1" "i + 1"] u by auto
    have "poll_countdown busy i t = (i + Suc m, t - of_nat (Suc m))"
      using True t m(2) by (subst poll_countdown.simps) simp
    moreover have "\<forall>j < Suc m. busy (i + j)" using m(3) True by (auto simp: less_Suc_eq_0_disj)
    ultimately show ?thesis using m(1,4) Suc.hyps(2) by (intro exI [of _ "Suc m"]) auto
  qed
qed

lemma poll_return_result:
  "case poll_return is_done i t of
     Some n \<Rightarrow> i \<le> n \<and> n < i + unat t \<and> is_done n \<and> (\<forall>j. i \<le> j \<and> j < n \<longrightarrow> \<not> is_done j)
   | None \<Rightarrow> \<forall>j. i \<le> j \<and> j < i + unat t \<longrightarrow> \<not> is_done j"
proof (induction "unat t" arbitrary: i t)
  case 0
  then have "t = 0" by (simp add: unat_eq_0)
  then show ?case by (auto simp: poll_return.simps)
next
  case (Suc n)
  then have t: "t \<noteq> 0" by auto
  have u: "unat (t - 1) = n" using Suc(2) t by (simp add: unat_minus_one32)
  show ?case
  proof (cases "is_done i")
    case True
    then show ?thesis using t Suc(2) by (subst poll_return.simps) auto
  next
    case False
    have IH: "case poll_return is_done (i + 1) (t - 1) of
       Some n \<Rightarrow> i + 1 \<le> n \<and> n < i + 1 + unat (t - 1) \<and> is_done n \<and> (\<forall>j. i + 1 \<le> j \<and> j < n \<longrightarrow> \<not> is_done j)
     | None \<Rightarrow> \<forall>j. i + 1 \<le> j \<and> j < i + 1 + unat (t - 1) \<longrightarrow> \<not> is_done j"
      by (rule Suc.hyps(1)) (simp add: u)
    have e: "poll_return is_done i t = poll_return is_done (i + 1) (t - 1)"
      using False t by (subst poll_return.simps) simp
    have nd: "\<not> is_done j" if "i \<le> j" "j < k" "\<forall>j. i + 1 \<le> j \<and> j < k \<longrightarrow> \<not> is_done j" for j k
      using that False by (cases "j = i") auto
    show ?thesis
    proof (cases "poll_return is_done (i + 1) (t - 1)")
      case None
      then have "\<forall>j. i + 1 \<le> j \<and> j < i + unat t \<longrightarrow> \<not> is_done j" using IH u Suc.hyps(2) by simp
      then show ?thesis unfolding e None option.case using nd [of _ "i + unat t"] by blast
    next
      case (Some m)
      then have m: "i + 1 \<le> m" "m < i + unat t" "is_done m" "\<forall>j. i + 1 \<le> j \<and> j < m \<longrightarrow> \<not> is_done j"
        using IH u Suc.hyps(2) by simp_all
      then show ?thesis unfolding e Some option.case using nd [of _ m] by auto
    qed
  qed
qed

text \<open>
  \<open>while (busy) {}\<close>, without a bound: the number of the first reading that lets the code go
  on, and no value when there is none.
\<close>

partial_function (option) spin :: "(nat \<Rightarrow> bool) \<Rightarrow> nat \<Rightarrow> nat option" where
  "spin busy i = (if busy i then spin busy (i + 1) else Some i)"

lemma spin_ends: "\<not> busy n \<Longrightarrow> i \<le> n \<Longrightarrow> \<exists>k. spin busy i = Some k \<and> i \<le> k \<and> k \<le> n \<and> \<not> busy k"
proof (induction "n - i" arbitrary: i)
  case 0
  then show ?case by (subst spin.simps) simp
next
  case (Suc m)
  show ?case
  proof (cases "busy i")
    case False
    then show ?thesis using Suc.prems by (subst spin.simps) simp
  next
    case True
    then have i: "i < n" using Suc.prems by (metis le_neq_implies_less)
    then have "m = n - (i + 1)" using Suc.hyps(2) by simp
    then obtain k where "spin busy (i + 1) = Some k" "i + 1 \<le> k" "k \<le> n" "\<not> busy k"
      using Suc.hyps(1) [of "i + 1"] Suc.prems(1) i by auto
    then show ?thesis using True by (subst spin.simps) auto
  qed
qed

lemma spin_not_busy [simp]: "\<not> busy i \<Longrightarrow> spin busy i = Some i"
  by (subst spin.simps) simp

lemma spin_Some: "spin busy i = Some k \<Longrightarrow> i \<le> k \<and> \<not> busy k"
proof (rule spin.raw_induct [where P = "\<lambda>busy i k. i \<le> k \<and> \<not> busy k"])
  fix f :: "(nat \<Rightarrow> bool) \<Rightarrow> nat \<Rightarrow> nat option" and busy i k
  assume f: "\<And>busy i k. f busy i = Some k \<Longrightarrow> i \<le> k \<and> \<not> busy k"
    and s: "(if busy i then f busy (i + 1) else Some i) = Some k"
  show "i \<le> k \<and> \<not> busy k"
  proof (cases "busy i")
    case True
    then show ?thesis using f [of busy "i + 1" k] s by simp
  qed (use s in simp)
qed

lemma spin_never: "\<forall>n. busy n \<Longrightarrow> spin busy i = None"
  using spin_Some [of busy i] by (cases "spin busy i") auto

end
