(* ===== verification/Can.thy ===== *)
theory Can
  imports Mmio UartK64f
begin

text \<open>
  \<open>drivers/stm32h753zi/fdcan.c\<close> and \<open>drivers/k64f/flexcan.c\<close>: the CAN drivers of the two
  boards, and a frame's way from one to the other. Registers and message memory are one map
  of words; the readings of the status registers the polling loops see are arguments. The
  functions of the K64F driver that print return the characters next to their result.
\<close>

record can_frame =
  id :: u32
  dlc :: u8
  data :: "u8 list"

subsection \<open>Bytes in words\<close>

definition pack_le :: "u8 \<Rightarrow> u8 \<Rightarrow> u8 \<Rightarrow> u8 \<Rightarrow> u32" where
  "pack_le a b c d = ucast a OR push_bit 8 (ucast b) OR push_bit 16 (ucast c) OR push_bit 24 (ucast d)"

definition pack_be :: "u8 \<Rightarrow> u8 \<Rightarrow> u8 \<Rightarrow> u8 \<Rightarrow> u32" where
  "pack_be a b c d = push_bit 24 (ucast a) OR push_bit 16 (ucast b) OR push_bit 8 (ucast c) OR push_bit 0 (ucast d)"

definition byte_of :: "nat \<Rightarrow> u32 \<Rightarrow> u8" where
  "byte_of k w = ucast (drop_bit (8 * k) w)"

lemma bit_u8_high: "8 \<le> n \<Longrightarrow> \<not> bit (w :: u8) n"
  using bit_imp_le_length [of w n] by auto

lemma byte_of_pack [simp]:
  "byte_of 0 (pack_le a b c d) = a" "byte_of (Suc 0) (pack_le a b c d) = b"
  "byte_of 2 (pack_le a b c d) = c" "byte_of 3 (pack_le a b c d) = d"
  "byte_of 3 (pack_be a b c d) = a" "byte_of 2 (pack_be a b c d) = b"
  "byte_of (Suc 0) (pack_be a b c d) = c" "byte_of 0 (pack_be a b c d) = d"
  by (rule bit_word_eqI, simp add: byte_of_def pack_le_def pack_be_def bit_simps bit_u8_high)+

subsection \<open>FDCAN (STM32H753ZI)\<close>

definition RCC_BASE :: u32 where "RCC_BASE = 0x58024400"
definition GPIOB_BASE :: u32 where "GPIOB_BASE = 0x58020400"
definition FDCAN1_BASE :: u32 where "FDCAN1_BASE = 0x4000A000"
definition MSG_RAM_BASE :: u32 where "MSG_RAM_BASE = 0x4000AC00"
definition RX_FIFO0_OFFSET :: u32 where "RX_FIFO0_OFFSET = 0"
definition TX_BUF_OFFSET :: u32 where "TX_BUF_OFFSET = 0x18"
definition FDCAN_TIMEOUT :: u32 where "FDCAN_TIMEOUT = 100000"

definition RCC_AHB4ENR :: u32 where "RCC_AHB4ENR = RCC_BASE + 0x0E0"
definition RCC_APB1HENR :: u32 where "RCC_APB1HENR = RCC_BASE + 0x0EC"
definition RCC_D2CCIP1R :: u32 where "RCC_D2CCIP1R = RCC_BASE + 0x050"
definition GPIOB_MODER :: u32 where "GPIOB_MODER = GPIOB_BASE + 0x00"
definition GPIOB_OSPEEDR :: u32 where "GPIOB_OSPEEDR = GPIOB_BASE + 0x08"
definition GPIOB_PUPDR :: u32 where "GPIOB_PUPDR = GPIOB_BASE + 0x0C"
definition GPIOB_AFRH :: u32 where "GPIOB_AFRH = GPIOB_BASE + 0x24"
definition FDCAN1_CCCR :: u32 where "FDCAN1_CCCR = FDCAN1_BASE + 0x018"
definition FDCAN1_NBTP :: u32 where "FDCAN1_NBTP = FDCAN1_BASE + 0x01C"
definition FDCAN1_PSR :: u32 where "FDCAN1_PSR = FDCAN1_BASE + 0x044"
definition FDCAN1_RXF0C :: u32 where "FDCAN1_RXF0C = FDCAN1_BASE + 0x0A0"
definition FDCAN1_RXF0S :: u32 where "FDCAN1_RXF0S = FDCAN1_BASE + 0x0A4"
definition FDCAN1_RXF0A :: u32 where "FDCAN1_RXF0A = FDCAN1_BASE + 0x0A8"
definition FDCAN1_TXBC :: u32 where "FDCAN1_TXBC = FDCAN1_BASE + 0x0C0"
definition FDCAN1_TXBAR :: u32 where "FDCAN1_TXBAR = FDCAN1_BASE + 0x0D0"
definition FDCAN1_GFC :: u32 where "FDCAN1_GFC = FDCAN1_BASE + 0x080"
definition TX_BUF_ELEM :: u32 where "TX_BUF_ELEM = MSG_RAM_BASE + TX_BUF_OFFSET"

lemmas fdcan_addrs = RCC_BASE_def GPIOB_BASE_def FDCAN1_BASE_def MSG_RAM_BASE_def RX_FIFO0_OFFSET_def
  TX_BUF_OFFSET_def RCC_AHB4ENR_def RCC_APB1HENR_def RCC_D2CCIP1R_def GPIOB_MODER_def GPIOB_OSPEEDR_def
  GPIOB_PUPDR_def GPIOB_AFRH_def FDCAN1_CCCR_def FDCAN1_NBTP_def FDCAN1_PSR_def FDCAN1_RXF0C_def
  FDCAN1_RXF0S_def FDCAN1_RXF0A_def FDCAN1_TXBC_def FDCAN1_TXBAR_def FDCAN1_GFC_def TX_BUF_ELEM_def

text \<open>\<open>init i\<close>: bit INIT of CCCR at the \<open>i\<close>-th poll.\<close>

definition fdcan_wait_init :: "bool \<Rightarrow> (nat \<Rightarrow> bool) \<Rightarrow> int" where
  "fdcan_wait_init wanted init =
     (case poll_return (\<lambda>i. init i = wanted) 0 FDCAN_TIMEOUT of Some _ \<Rightarrow> 0 | None \<Rightarrow> -1)"

definition fdcan_init_pins :: "mmio \<Rightarrow> mmio" where
  "fdcan_init_pins m =
     (let m = mm_or RCC_AHB4ENR (push_bit 1 1) m;
          m = mm_or RCC_APB1HENR (push_bit 8 1) m;
          m = mm_clear RCC_D2CCIP1R (push_bit 28 3) m;
          m = mm_or RCC_D2CCIP1R (push_bit 28 0) m;
          m = mm_clear GPIOB_MODER (push_bit 16 3 OR push_bit 18 3) m;
          m = mm_or GPIOB_MODER (push_bit 16 2 OR push_bit 18 2) m;
          m = mm_or GPIOB_OSPEEDR (push_bit 16 3 OR push_bit 18 3) m;
          m = mm_clear GPIOB_PUPDR (push_bit 16 3 OR push_bit 18 3) m;
          m = mm_clear GPIOB_AFRH (push_bit 0 0xF OR push_bit 4 0xF) m
      in mm_or GPIOB_AFRH (push_bit 0 9 OR push_bit 4 9) m)"

definition fdcan_init :: "(nat \<Rightarrow> bool) \<Rightarrow> (nat \<Rightarrow> bool) \<Rightarrow> mmio \<Rightarrow> string \<times> mmio" where
  "fdcan_init init1 init2 m0 =
     (let m = mm_or FDCAN1_CCCR (push_bit 0 1) (fdcan_init_pins m0) in
      if fdcan_wait_init True init1 < 0 then ('''', m)
      else let m = mm_or FDCAN1_CCCR (push_bit 1 1) m;
               m = mm_write FDCAN1_NBTP (push_bit 25 0 OR push_bit 16 0 OR push_bit 8 4 OR push_bit 0 1) m;
               out = the (uart_printf (\<lambda>(_ :: unit) _. '''')
                       (''[DEBUG] NBTP=0x%x'' @ [CHR 0x0D, CHR 0x0A, NUL]) [ArgInt (m FDCAN1_NBTP)]);
               m = mm_write FDCAN1_GFC 0 m;
               m = mm_write FDCAN1_RXF0C (push_bit 16 1 OR push_bit 2 (RX_FIFO0_OFFSET div 4)) m;
               m = mm_write FDCAN1_TXBC (push_bit 16 1 OR push_bit 2 (TX_BUF_OFFSET div 4)) m;
               m = mm_clear FDCAN1_CCCR (push_bit 1 1 OR push_bit 0 1) m;
               wait_result = fdcan_wait_init False init2
           in (out, m))"

definition fdcan_debug_print_gpio :: "mmio \<Rightarrow> string option" where
  "fdcan_debug_print_gpio m =
     uart_printf (\<lambda>(_ :: unit) _. '''') (''[DEBUG] GPIOB_MODER=0x%x GPIOB_AFRH=0x%x'' @ [CHR 0x0D, CHR 0x0A, NUL])
       [ArgInt (m GPIOB_MODER), ArgInt (m GPIOB_AFRH)]"

text \<open>
  What it prints. After the set-up of the pins, PB8 and PB9 show there as alternate function 9,
  whatever the other pins are.
\<close>

lemma fdcan_debug_print_gpio_text:
  "fdcan_debug_print_gpio m = Some (''[DEBUG] GPIOB_MODER=0x'' @ number_text False 16 (unat (m GPIOB_MODER))
     @ '' GPIOB_AFRH=0x'' @ number_text False 16 (unat (m GPIOB_AFRH)) @ [CHR 0x0D, CHR 0x0A])"
  using printf_segs [of "[Lit ''[DEBUG] GPIOB_MODER=0x'', SegX False 0 False (m GPIOB_MODER), Lit '' GPIOB_AFRH=0x'',
      SegX False 0 False (m GPIOB_AFRH), Lit [CHR 0x0D, CHR 0x0A]]" "\<lambda>(_ :: unit) _. ''''"]
  by (simp add: fdcan_debug_print_gpio_def pad_fmt_def padded_def)

lemma fdcan_pins_set:
  "field 16 4 (fdcan_init_pins m GPIOB_MODER) = 0xA" "field 0 8 (fdcan_init_pins m GPIOB_AFRH) = 0x99"
proof -
  have f: "fdcan_init_pins m GPIOB_MODER = (m GPIOB_MODER AND NOT (push_bit 16 (mask 4))) OR push_bit 16 (of_nat 0xA)"
    "fdcan_init_pins m GPIOB_AFRH = (m GPIOB_AFRH AND NOT (push_bit 0 (mask 8))) OR push_bit 0 (of_nat 0x99)"
    by (simp_all add: fdcan_init_pins_def Let_def fdcan_addrs mm_write_def mask_eq_decr_exp push_bit_eq_mult)
  show "field 16 4 (fdcan_init_pins m GPIOB_MODER) = 0xA" "field 0 8 (fdcan_init_pins m GPIOB_AFRH) = 0x99"
    unfolding f by (rule field_set; simp)+
qed

definition fdcan_is_bus_off :: "mmio \<Rightarrow> bool" where
  "fdcan_is_bus_off m \<longleftrightarrow> m FDCAN1_PSR AND push_bit 7 1 \<noteq> 0"

definition fdcan_get_psr :: "mmio \<Rightarrow> u32" where
  "fdcan_get_psr m = m FDCAN1_PSR"

text \<open>\<open>full i\<close>: bit TFQF of TXFQS at the \<open>i\<close>-th poll.\<close>

definition fdcan_transmit :: "(nat \<Rightarrow> bool) \<Rightarrow> can_frame \<Rightarrow> mmio \<Rightarrow> int \<times> mmio" where
  "fdcan_transmit full frame m =
     (let (n, t) = poll_postdec full 0 FDCAN_TIMEOUT in
      if t = 0 then (-1, m)
      else let d = data frame;
               m = mm_write TX_BUF_ELEM (push_bit 18 (id frame AND 0x7FF)) m;
               m = mm_write (TX_BUF_ELEM + 4) (push_bit 16 (ucast (dlc frame) AND 0xF)) m;
               m = mm_write (TX_BUF_ELEM + 8) (pack_le (d ! 0) (d ! 1) (d ! 2) (d ! 3)) m;
               m = mm_write (TX_BUF_ELEM + 12) (pack_le (d ! 4) (d ! 5) (d ! 6) (d ! 7)) m
           in (0, mm_write FDCAN1_TXBAR 1 m))"

definition fdcan_rx_pending :: "mmio \<Rightarrow> u8" where
  "fdcan_rx_pending m = ucast (drop_bit 0 (m FDCAN1_RXF0S) AND 0x7F)"

definition fdcan_rx_elem :: "mmio \<Rightarrow> u32" where
  "fdcan_rx_elem m = MSG_RAM_BASE + RX_FIFO0_OFFSET + (drop_bit 8 (m FDCAN1_RXF0S) AND 0x3F) * 16"

definition fdcan_receive :: "can_frame \<Rightarrow> mmio \<Rightarrow> int \<times> can_frame \<times> mmio" where
  "fdcan_receive frame m =
     (if fdcan_rx_pending m = 0 then (-1, frame, m)
      else let get_idx = drop_bit 8 (m FDCAN1_RXF0S) AND 0x3F; e = fdcan_rx_elem m;
               d0 = m (e + 8); d1 = m (e + 12)
           in (0, \<lparr>id = drop_bit 18 (m e) AND 0x7FF, dlc = ucast (drop_bit 16 (m (e + 4)) AND 0xF),
                   data = [byte_of 0 d0, byte_of 1 d0, byte_of 2 d0, byte_of 3 d0,
                           byte_of 0 d1, byte_of 1 d1, byte_of 2 d1, byte_of 3 d1]\<rparr>,
               mm_write FDCAN1_RXF0A get_idx m))"

subsection \<open>FlexCAN (K64F)\<close>

definition MB_TX_IDX :: nat where "MB_TX_IDX = 0"
definition MB_RX_IDX :: nat where "MB_RX_IDX = 4"
definition FLEXCAN_TIMEOUT :: u32 where "FLEXCAN_TIMEOUT = 100000"

definition CAN_CS_CODE :: "u32 \<Rightarrow> u32" where "CAN_CS_CODE x = push_bit 24 x AND 0xF000000"
definition CAN_CS_DLC :: "u32 \<Rightarrow> u32" where "CAN_CS_DLC x = push_bit 16 x AND 0xF0000"
definition CAN_ID_STD :: "u32 \<Rightarrow> u32" where "CAN_ID_STD x = push_bit 18 x AND 0x1FFC0000"
definition CAN_ESR1_FLTCONF :: "u32 \<Rightarrow> u32" where "CAN_ESR1_FLTCONF x = push_bit 4 x AND 0x30"

text \<open>The debug output of the driver.\<close>

definition uart_put_hex32 :: "u32 \<Rightarrow> string" where
  "uart_put_hex32 v = ''0x'' @ map (\<lambda>i. digit_char False (unat (drop_bit (28 - i * 4) v AND 0xF))) [0..<8]"

function udec_digits :: "u32 \<Rightarrow> nat \<Rightarrow> char list \<Rightarrow> nat \<times> char list" where
  "udec_digits v i buf =
     (if v \<noteq> 0 \<and> 0 < i then udec_digits (v div 10) (i - 1) (buf[i - 1 := digit_char False (unat (v mod 10))])
      else (i, buf))"
  by pat_completeness auto
termination by (relation "measure (\<lambda>(_, i, _). i)") auto

declare udec_digits.simps [simp del]

definition uart_put_udec :: "u32 \<Rightarrow> string" where
  "uart_put_udec v =
     (let buf = (replicate 11 (CHR ''?''))[10 := NUL];
          (i, buf) = (if v = 0 then (9, buf[9 := CHR ''0'']) else udec_digits v 10 buf)
      in k64f_uart_puts (drop i buf))"

definition flexcan_freeze :: "mmio \<Rightarrow> mmio" where
  "flexcan_freeze = mm_or (FLEXCAN0 ''MCR'') (0x40000000 OR 0x10000000)"

definition flexcan_thaw :: "mmio \<Rightarrow> mmio" where
  "flexcan_thaw = mm_clear (FLEXCAN0 ''MCR'') 0x10000000"

definition flexcan_init :: "mmio \<Rightarrow> mmio" where
  "flexcan_init m =
     (let m = mm_or (SIM ''SCGC6'') 0x10 m;
          m = mm_or (SIM ''SCGC5'') 0x400 m;
          m = mm_write (PORTB_PCR 18) (push_bit 8 2 AND 0x700) m;
          m = mm_write (PORTB_PCR 19) (push_bit 8 2 AND 0x700) m;
          m = mm_or (FLEXCAN0 ''CTRL1'') 0x2000 m;
          m = mm_clear (FLEXCAN0 ''MCR'') 0x80000000 m;
          m = flexcan_freeze m;
          m = mm_write (FLEXCAN0 ''CTRL1'')
                ((push_bit 24 4 AND 0xFF000000) OR (push_bit 22 1 AND 0xC00000) OR (push_bit 19 2 AND 0x380000)
                 OR (push_bit 16 2 AND 0x70000) OR 0x2000 OR (push_bit 0 4 AND 0x7)) m;
          m = mm_write (FLEXCAN0 ''RXMGMASK'') 0 m;
          m = fold (\<lambda>i. mm_write (FLEXCAN0_MB i ''CS'') (CAN_CS_CODE 0x8)) [0..<16] m;
          m = mm_write (FLEXCAN0_MB MB_RX_IDX ''ID'') 0 m;
          m = mm_write (FLEXCAN0_MB MB_RX_IDX ''CS'') (CAN_CS_CODE 0x4) m;
          m = mm_write (FLEXCAN0_MB MB_TX_IDX ''CS'') (CAN_CS_CODE 0x8) m
      in flexcan_thaw m)"

definition flexcan_recover_from_busoff :: "u32 \<Rightarrow> mmio \<Rightarrow> mmio" where
  "flexcan_recover_from_busoff esr1 m =
     (if esr1 AND 0x30 = CAN_ESR1_FLTCONF 2
      then flexcan_thaw (mm_write (FLEXCAN0_MB MB_TX_IDX ''CS'') (CAN_CS_CODE 0x8) (flexcan_freeze m))
      else m)"

text \<open>
  \<open>esr1\<close>: the reading of ESR1; \<open>cs i\<close> and \<open>iflag i\<close>: the transmit buffer's control word and
  IFLAG1 at the \<open>i\<close>-th poll.
\<close>

definition flexcan_transmit ::
  "u32 \<Rightarrow> (nat \<Rightarrow> u32) \<Rightarrow> (nat \<Rightarrow> u32) \<Rightarrow> can_frame \<Rightarrow> mmio \<Rightarrow> int \<times> string \<times> mmio" where
  "flexcan_transmit esr1 cs iflag frame m =
     (let m = flexcan_recover_from_busoff esr1 m;
          (n, t) = poll_countdown (\<lambda>i. drop_bit 24 (cs i AND 0xF000000) \<noteq> 0x8) 0 FLEXCAN_TIMEOUT in
      if t = 0 then (-1, uart_put_hex32 (cs n) @ '' ESR1='' @ uart_put_hex32 esr1 @ [CHR 0x0D, CHR 0x0D, CHR 0x0A], m)
      else let d = data frame;
               m = mm_write (FLEXCAN0_MB MB_TX_IDX ''ID'') (CAN_ID_STD (id frame AND 0x7FF)) m;
               m = mm_write (FLEXCAN0_MB MB_TX_IDX ''WORD0'') (pack_be (d ! 0) (d ! 1) (d ! 2) (d ! 3)) m;
               m = mm_write (FLEXCAN0_MB MB_TX_IDX ''WORD1'') (pack_be (d ! 4) (d ! 5) (d ! 6) (d ! 7)) m;
               m = mm_write (FLEXCAN0_MB MB_TX_IDX ''CS'')
                     (CAN_CS_CODE 0xC OR 0x400000 OR CAN_CS_DLC (ucast (dlc frame) AND 0xF)) m;
               (n, t) = poll_countdown (\<lambda>i. iflag i AND 1 = 0) 0 FLEXCAN_TIMEOUT in
           if t = 0 then (-1, ''[K64F DEBUG] tx_ret=-1 (IFLAG1 never set) MB0.CS='' @ uart_put_hex32 (cs n)
                 @ '' ESR1='' @ uart_put_hex32 esr1 @ [CHR 0x0D, CHR 0x0D, CHR 0x0A], m)
           else (0, ''[K64F DEBUG] tx_ret=0 ID='' @ uart_put_udec (id frame) @ '' ESR1='' @ uart_put_hex32 esr1
                   @ [CHR 0x0D, CHR 0x0D, CHR 0x0A],
                 mm_write (FLEXCAN0 ''IFLAG1'') 1 m))"

definition flexcan_rx_pending :: "mmio \<Rightarrow> bool" where
  "flexcan_rx_pending m \<longleftrightarrow> m (FLEXCAN0 ''IFLAG1'') AND push_bit MB_RX_IDX 1 \<noteq> 0"

definition flexcan_receive :: "can_frame \<Rightarrow> mmio \<Rightarrow> int \<times> can_frame \<times> mmio" where
  "flexcan_receive frame m =
     (if \<not> flexcan_rx_pending m then (-1, frame, m)
      else let cs = m (FLEXCAN0_MB MB_RX_IDX ''CS'');
               w0 = m (FLEXCAN0_MB MB_RX_IDX ''WORD0''); w1 = m (FLEXCAN0_MB MB_RX_IDX ''WORD1'')
           in (0, \<lparr>id = drop_bit 18 (m (FLEXCAN0_MB MB_RX_IDX ''ID'') AND 0x1FFC0000),
                   dlc = ucast (drop_bit 16 (cs AND 0xF0000)),
                   data = [byte_of 3 w0, byte_of 2 w0, byte_of 1 w0, byte_of 0 w0,
                           byte_of 3 w1, byte_of 2 w1, byte_of 1 w1, byte_of 0 w1]\<rparr>,
               mm_write (FLEXCAN0 ''IFLAG1'') (push_bit MB_RX_IDX 1) m))"

subsection \<open>What is on the wire\<close>

text \<open>
  The frame a controller sends from its transmit element, and a receive element that holds a
  frame: identifier, length code and data bytes sit where the reference manuals say (FDCAN:
  bits 28:18 and 19:16, first byte in the low byte; FlexCAN: the same fields, first byte in
  the high byte). The bytes beyond the length are not sent, and arbitrary on arrival.
\<close>

type_synonym can_wire = "u32 \<times> u32 \<times> u8 list"

definition can_bytes :: "u32 \<Rightarrow> nat" where
  "can_bytes code = min 8 (unat code)"

definition fdcan_sends :: "mmio \<Rightarrow> can_wire" where
  "fdcan_sends m =
     (let h0 = m TX_BUF_ELEM; code = drop_bit 16 (m (TX_BUF_ELEM + 4)) AND 0xF;
          d0 = m (TX_BUF_ELEM + 8); d1 = m (TX_BUF_ELEM + 12)
      in (drop_bit 18 h0 AND 0x7FF, code,
          take (can_bytes code) (map (\<lambda>k. byte_of k d0) [0, 1, 2, 3] @ map (\<lambda>k. byte_of k d1) [0, 1, 2, 3])))"

definition flexcan_sends :: "mmio \<Rightarrow> can_wire" where
  "flexcan_sends m =
     (let code = drop_bit 16 (m (FLEXCAN0_MB MB_TX_IDX ''CS'')) AND 0xF;
          w0 = m (FLEXCAN0_MB MB_TX_IDX ''WORD0''); w1 = m (FLEXCAN0_MB MB_TX_IDX ''WORD1'')
      in (drop_bit 18 (m (FLEXCAN0_MB MB_TX_IDX ''ID'')) AND 0x7FF, code,
          take (can_bytes code) (map (\<lambda>k. byte_of k w0) [3, 2, 1, 0] @ map (\<lambda>k. byte_of k w1) [3, 2, 1, 0])))"

definition flexcan_holds :: "mmio \<Rightarrow> can_wire \<Rightarrow> bool" where
  "flexcan_holds m w \<longleftrightarrow>
     (let code = drop_bit 16 (m (FLEXCAN0_MB MB_RX_IDX ''CS'')) AND 0xF;
          w0 = m (FLEXCAN0_MB MB_RX_IDX ''WORD0''); w1 = m (FLEXCAN0_MB MB_RX_IDX ''WORD1'')
      in flexcan_rx_pending m \<and> w = (drop_bit 18 (m (FLEXCAN0_MB MB_RX_IDX ''ID'')) AND 0x7FF, code,
          take (can_bytes code) (map (\<lambda>k. byte_of k w0) [3, 2, 1, 0] @ map (\<lambda>k. byte_of k w1) [3, 2, 1, 0])))"

definition fdcan_holds :: "mmio \<Rightarrow> can_wire \<Rightarrow> bool" where
  "fdcan_holds m w \<longleftrightarrow>
     (let e = fdcan_rx_elem m; code = drop_bit 16 (m (e + 4)) AND 0xF; d0 = m (e + 8); d1 = m (e + 12)
      in fdcan_rx_pending m \<noteq> 0 \<and> w = (drop_bit 18 (m e) AND 0x7FF, code,
          take (can_bytes code) (map (\<lambda>k. byte_of k d0) [0, 1, 2, 3] @ map (\<lambda>k. byte_of k d1) [0, 1, 2, 3])))"

lemma mask_fields:
  "drop_bit 18 (push_bit 18 (x AND 0x7FF)) AND 0x7FF = (x :: u32) AND 0x7FF"
  "drop_bit 16 (push_bit 16 (y AND 0xF)) AND 0xF = (y :: u32) AND 0xF"
  "drop_bit 18 (z AND 0x1FFC0000) = drop_bit 18 (z :: u32) AND 0x7FF"
  "drop_bit 16 (z AND 0xF0000) = drop_bit 16 (z :: u32) AND 0xF"
proof -
  have m: "(0x7FF :: u32) = mask 11" "(0xF :: u32) = mask 4"
    "(0x1FFC0000 :: u32) = push_bit 18 (mask 11)" "(0xF0000 :: u32) = push_bit 16 (mask 4)"
    by (simp_all add: mask_eq_exp_minus_1)
  show "drop_bit 18 (push_bit 18 (x AND 0x7FF)) AND 0x7FF = x AND 0x7FF"
    "drop_bit 16 (push_bit 16 (y AND 0xF)) AND 0xF = y AND 0xF"
    "drop_bit 18 (z AND 0x1FFC0000) = drop_bit 18 z AND 0x7FF"
    "drop_bit 16 (z AND 0xF0000) = drop_bit 16 z AND 0xF"
    unfolding m by (rule bit_word_eqI, auto simp: bit_simps)+
qed

lemma pushed_fields:
  "drop_bit 18 (push_bit 18 x) AND 0x7FF = (x :: u32) AND 0x7FF"
  "drop_bit 16 (push_bit 16 y) AND 0xF = (y :: u32) AND 0xF"
proof -
  have m: "(0x7FF :: u32) = mask 11" "(0xF :: u32) = mask 4"
    by (simp_all add: mask_eq_exp_minus_1)
  show "drop_bit 18 (push_bit 18 x) AND 0x7FF = x AND 0x7FF"
    "drop_bit 16 (push_bit 16 y) AND 0xF = y AND 0xF"
    unfolding m by (rule bit_word_eqI, auto simp: bit_simps)+
qed

lemma flexcan_words:
  "drop_bit 18 (CAN_ID_STD (x AND 0x7FF)) AND 0x7FF = x AND 0x7FF"
  "drop_bit 16 (CAN_CS_CODE 0xC OR 0x400000 OR CAN_CS_DLC (y AND 0xF)) AND 0xF = y AND 0xF"
proof -
  show "drop_bit 18 (CAN_ID_STD (x AND 0x7FF)) AND 0x7FF = x AND 0x7FF"
    by (simp add: CAN_ID_STD_def mask_fields pushed_fields and.assoc)
  have "drop_bit 16 (CAN_CS_CODE 0xC OR 0x400000 OR CAN_CS_DLC (y AND 0xF)) AND 0xF
      = (0xC40 AND 0xF) OR (drop_bit 16 (CAN_CS_DLC (y AND 0xF)) AND 0xF)"
    by (simp add: CAN_CS_CODE_def bit.conj_disj_distrib2 drop_bit_or)
  also have "\<dots> = y AND 0xF"
    by (simp add: CAN_CS_DLC_def mask_fields pushed_fields and.assoc)
  finally show "drop_bit 16 (CAN_CS_CODE 0xC OR 0x400000 OR CAN_CS_DLC (y AND 0xF)) AND 0xF = y AND 0xF" .
qed

definition frame_wire :: "can_frame \<Rightarrow> can_wire" where
  "frame_wire f =
     (let code = ucast (dlc f) AND 0xF in (id f AND 0x7FF, code, take (can_bytes code) (data f)))"

lemma list8: "length (d :: 'a list) = 8 \<Longrightarrow> [d ! 0, d ! 1, d ! 2, d ! 3, d ! 4, d ! 5, d ! 6, d ! 7] = d"
  by (rule nth_equalityI) (auto simp: less_Suc_eq numeral_nat)

lemma fdcan_transmit_wire:
  assumes "length (data f) = 8" and "fdcan_transmit full f m = (0, m')"
  shows "fdcan_sends m' = frame_wire f"
proof -
  obtain n t where p: "poll_postdec full 0 FDCAN_TIMEOUT = (n, t)" by force
  then have t: "t \<noteq> 0" using assms(2) by (auto simp: fdcan_transmit_def)
  show ?thesis
    using assms(2) list8 [OF assms(1)] unfolding fdcan_transmit_def p
    by (auto simp: t Let_def fdcan_sends_def frame_wire_def mask_fields pushed_fields and.assoc fdcan_addrs numeral_3_eq_3 [symmetric])
qed

lemmas flexcan_addrs = FLEXCAN0_MB_def FLEXCAN0_def FLEXCAN0_BASE_ADDR_def CAN_Type_def CAN_MB_Type_def
  reg_def MB_TX_IDX_def MB_RX_IDX_def

lemma flexcan_mb_addrs [simp]:
  "FLEXCAN0_MB MB_TX_IDX ''CS'' = 0x40024080" "FLEXCAN0_MB MB_TX_IDX ''ID'' = 0x40024084"
  "FLEXCAN0_MB MB_TX_IDX ''WORD0'' = 0x40024088" "FLEXCAN0_MB MB_TX_IDX ''WORD1'' = 0x4002408C"
  "FLEXCAN0_MB MB_RX_IDX ''CS'' = 0x400240C0" "FLEXCAN0_MB MB_RX_IDX ''ID'' = 0x400240C4"
  "FLEXCAN0_MB MB_RX_IDX ''WORD0'' = 0x400240C8" "FLEXCAN0_MB MB_RX_IDX ''WORD1'' = 0x400240CC"
  "FLEXCAN0 ''IFLAG1'' = 0x40024030"
  by (simp_all add: flexcan_addrs)

lemma flexcan_transmit_wire:
  assumes "length (data f) = 8" and "flexcan_transmit esr1 cs iflag f m = (0, out, m')"
  shows "flexcan_sends m' = frame_wire f"
proof -
  obtain n t where p: "poll_countdown (\<lambda>i. drop_bit 24 (cs i AND 0xF000000) \<noteq> 0x8) 0 FLEXCAN_TIMEOUT = (n, t)"
    by force
  obtain k s where q: "poll_countdown (\<lambda>i. iflag i AND 1 = 0) 0 FLEXCAN_TIMEOUT = (k, s)" by force
  have t: "t \<noteq> 0" using assms(2) p by (auto simp: flexcan_transmit_def Let_def)
  then have s: "s \<noteq> 0" using assms(2) p q by (auto simp: flexcan_transmit_def Let_def)
  let ?d = "data f"
  define b where "b = flexcan_recover_from_busoff esr1 m"
  define cw where "cw = CAN_CS_CODE 0xC OR 0x400000 OR CAN_CS_DLC (ucast (dlc f) AND 0xF)"
  have cw: "drop_bit 16 cw AND 0xF = ucast (dlc f) AND 0xF" unfolding cw_def by (rule flexcan_words(2))
  have m': "m' = mm_write (FLEXCAN0 ''IFLAG1'') 1 (mm_write (FLEXCAN0_MB MB_TX_IDX ''CS'') cw
      (mm_write (FLEXCAN0_MB MB_TX_IDX ''WORD1'') (pack_be (?d ! 4) (?d ! 5) (?d ! 6) (?d ! 7))
      (mm_write (FLEXCAN0_MB MB_TX_IDX ''WORD0'') (pack_be (?d ! 0) (?d ! 1) (?d ! 2) (?d ! 3))
      (mm_write (FLEXCAN0_MB MB_TX_IDX ''ID'') (CAN_ID_STD (id f AND 0x7FF)) b))))"
    using assms(2) unfolding flexcan_transmit_def p q b_def Let_def cw_def by (simp add: t s)
  show ?thesis
    unfolding flexcan_sends_def frame_wire_def m' mm_write_def flexcan_mb_addrs Let_def
    using list8 [OF assms(1)] by (simp add: flexcan_words(1) cw numeral_3_eq_3 [symmetric])
qed

text \<open>Receiving returns the frame the element holds, and releases the element.\<close>

lemma ucast_small: "w AND 0xF = (w :: u32) \<Longrightarrow> ucast (ucast w :: u8) AND 0xF = w"
proof -
  assume w: "w AND 0xF = w"
  have m: "(0xF :: u32) = mask 4" by (simp add: mask_eq_exp_minus_1)
  have "ucast (ucast w :: u8) AND 0xF = w AND 0xF"
    unfolding m by (rule bit_word_eqI) (auto simp: bit_simps)
  then show ?thesis by (simp add: w)
qed

lemma code_low: "(x AND 0xF) AND 0xF = (x :: u32) AND 0xF" "(x AND 0x7FF) AND 0x7FF = (x :: u32) AND 0x7FF"
  by (simp_all add: and.assoc)

lemma flexcan_receive_held:
  assumes "flexcan_holds m w"
  shows "\<exists>g m'. flexcan_receive f m = (0, g, m') \<and> frame_wire g = w \<and> length (data g) = 8
      \<and> m' = mm_write (FLEXCAN0 ''IFLAG1'') (push_bit MB_RX_IDX 1) m"
  using assms unfolding flexcan_holds_def flexcan_receive_def frame_wire_def Let_def
  by (auto simp: mask_fields ucast_small code_low)

lemma fdcan_receive_held:
  assumes "fdcan_holds m w"
  shows "\<exists>g m'. fdcan_receive f m = (0, g, m') \<and> frame_wire g = w \<and> length (data g) = 8
      \<and> m' = mm_write FDCAN1_RXF0A (drop_bit 8 (m FDCAN1_RXF0S) AND 0x3F) m"
  using assms unfolding fdcan_holds_def fdcan_receive_def frame_wire_def Let_def
  by (auto simp: mask_fields ucast_small code_low)

text \<open>
  C16: A frame handed to the transmit function of one board, once that function has returned 0,
  is what the receive function of the other board returns when its element holds what was
  sent: the low eleven bits of the identifier, the low four of the length code and the data
  bytes that count are the same in both directions, although the two controllers keep the
  bytes of a word in opposite orders.
\<close>

theorem can_frames_cross:
  assumes "length (data f) = 8"
  shows "(fdcan_transmit full f a = (0, a') \<and> flexcan_holds r (fdcan_sends a')
      \<longrightarrow> (\<exists>g r'. flexcan_receive h r = (0, g, r') \<and> frame_wire g = frame_wire f \<and> length (data g) = 8))
    \<and> (flexcan_transmit esr1 cs iflag f b = (0, out, b') \<and> fdcan_holds s (flexcan_sends b')
      \<longrightarrow> (\<exists>g s'. fdcan_receive h s = (0, g, s') \<and> frame_wire g = frame_wire f \<and> length (data g) = 8))"
  using flexcan_receive_held [of r _ h] fdcan_receive_held [of s _ h]
    fdcan_transmit_wire [OF assms] flexcan_transmit_wire [OF assms] by metis

definition a_frame :: can_frame where
  "a_frame = \<lparr>id = 0x123, dlc = 3, data = [1, 2, 3, 4, 5, 6, 7, 8]\<rparr>"

lemma can_frames_cross_witness:
  "let a' = snd (fdcan_transmit (\<lambda>_. False) a_frame (\<lambda>_. 0));
       r = mm_write 0x40024030 0x10 (mm_write 0x400240C0 0x30000
            (mm_write 0x400240C4 (push_bit 18 0x123) (mm_write 0x400240C8 0x010203FF (\<lambda>_. 0))))
   in flexcan_holds r (fdcan_sends a')
     \<and> (\<exists>g r'. flexcan_receive a_frame r = (0, g, r') \<and> frame_wire g = (0x123, 3, [1, 2, 3]) \<and> length (data g) = 8)"
proof -
  define a' where "a' = snd (fdcan_transmit (\<lambda>_. False) a_frame (\<lambda>_. 0))"
  define r :: mmio where "r = mm_write 0x40024030 0x10 (mm_write 0x400240C0 0x30000
            (mm_write 0x400240C4 (push_bit 18 0x123) (mm_write 0x400240C8 0x010203FF (\<lambda>_. 0))))"
  have t: "fdcan_transmit (\<lambda>_. False) a_frame (\<lambda>_. 0) = (0, a')"
    by (simp add: a'_def fdcan_transmit_def poll_postdec.simps FDCAN_TIMEOUT_def Let_def)
  have l: "length (data a_frame) = 8" by (simp add: a_frame_def)
  have w: "frame_wire a_frame = (0x123, 3, [1, 2, 3])"
    by (simp add: frame_wire_def a_frame_def can_bytes_def)
  have h: "flexcan_holds r (fdcan_sends a')"
    unfolding fdcan_transmit_wire [OF l t] w
    by (simp add: flexcan_holds_def flexcan_rx_pending_def r_def mm_write_def MB_RX_IDX_def [symmetric] byte_of_def)
      (simp add: can_bytes_def MB_RX_IDX_def)
  show ?thesis
    unfolding Let_def a'_def [symmetric] r_def [symmetric] w [symmetric]
    using can_frames_cross [OF l, of "\<lambda>_. False" "\<lambda>_. 0" a' r a_frame] t h by blast
qed

text \<open>
  How long the FDCAN transmit function waits for a free buffer. When the buffer is first
  seen free at poll \<open>n\<close> it returns 0 before the bound of 100000 polls and -1 exactly at it; a
  buffer that stays full through all the polls, however, is not reported: the counter has
  wrapped below zero when it is compared with 0, so the function overwrites the pending frame,
  requests its transmission and returns 0.
\<close>

theorem fdcan_transmit_timeout:
  assumes "\<forall>j < n. full j" and "n \<le> 100001" and "n \<le> 100000 \<longrightarrow> \<not> full n"
  shows "fst (fdcan_transmit full f m) = (if n = 100000 then -1 else 0)
    \<and> snd (fdcan_transmit full f m) FDCAN1_TXBAR = (if n = 100000 then m FDCAN1_TXBAR else 1)
    \<and> (n \<noteq> 100000 \<longrightarrow> snd (fdcan_transmit full f m) TX_BUF_ELEM = push_bit 18 (id f AND 0x7FF))"
proof -
  have p: "snd (poll_postdec full 0 FDCAN_TIMEOUT) = 0 \<longleftrightarrow> n = 100000"
  proof (cases "n \<le> 100000")
    case True
    then have "poll_postdec full 0 FDCAN_TIMEOUT = (0 + n, FDCAN_TIMEOUT - of_nat n)"
      by (intro poll_postdec_free) (use assms in \<open>auto simp: FDCAN_TIMEOUT_def\<close>)
    moreover have "of_nat n = (100000 :: u32) \<longleftrightarrow> n = 100000"
      using True by (auto dest: arg_cong [of _ _ unat] simp: unat_of_nat take_bit_nat_eq_self)
    ultimately show ?thesis by (auto simp: FDCAN_TIMEOUT_def)
  next
    case False
    then have "poll_postdec full 0 FDCAN_TIMEOUT = (0 + unat FDCAN_TIMEOUT + 1, 0xFFFFFFFF)"
      by (intro poll_postdec_stuck) (use assms in \<open>auto simp: FDCAN_TIMEOUT_def\<close>)
    then show ?thesis using False by simp
  qed
  show ?thesis
    unfolding fdcan_transmit_def case_prod_beta Let_def p by (simp add: mm_write_def fdcan_addrs)
qed

lemma fdcan_transmit_timeout_witness:
  "fst (fdcan_transmit (\<lambda>_. True) a_frame (\<lambda>_. 0)) = 0
   \<and> fst (fdcan_transmit (\<lambda>i. i < 100000) a_frame (\<lambda>_. 0)) = -1
   \<and> fst (fdcan_transmit (\<lambda>i. i < 99999) a_frame (\<lambda>_. 0)) = 0"
  using fdcan_transmit_timeout [of 100001 "\<lambda>_. True" a_frame "\<lambda>_. 0"]
    fdcan_transmit_timeout [of 100000 "\<lambda>i. i < 100000" a_frame "\<lambda>_. 0"]
    fdcan_transmit_timeout [of 99999 "\<lambda>i. i < 99999" a_frame "\<lambda>_. 0"] by simp

end
