(* ===== verification/Actuators.thy ===== *)
theory Actuators
  imports Mmio UartStm
begin

text \<open>
  \<open>drivers/stm32h753zi/pwm.c\<close>, \<open>drivers/k64f/pwm.c\<close> and the two \<open>actuators/*/servo.c\<close>: the
  pulse-width timers and the servo control built on them. The registers are one map of words;
  the endless GPIO toggle test and the register dumps are in theory \<open>PwmDebug\<close>.
\<close>

subsection \<open>PWM on the STM32H753ZI (TIM2)\<close>

definition TIM2_CR1 :: u32 where "TIM2_CR1 = 0x40000000"
definition TIM2_CCMR1 :: u32 where "TIM2_CCMR1 = 0x40000018"
definition TIM2_CCER :: u32 where "TIM2_CCER = 0x40000020"
definition TIM2_PSC :: u32 where "TIM2_PSC = 0x40000028"
definition TIM2_ARR :: u32 where "TIM2_ARR = 0x4000002C"
definition TIM2_CCR1 :: u32 where "TIM2_CCR1 = 0x40000034"
definition PWM_RCC_AHB4ENR :: u32 where "PWM_RCC_AHB4ENR = 0x58024400 + 0xE0"
definition PWM_RCC_APB1LENR :: u32 where "PWM_RCC_APB1LENR = 0x58024400 + 0xE8"
definition GPIOA_MODER :: u32 where "GPIOA_MODER = 0x58020000"
definition GPIOA_OSPEEDR :: u32 where "GPIOA_OSPEEDR = 0x58020008"
definition GPIOA_AFRL :: u32 where "GPIOA_AFRL = 0x58020020"
definition PWM_TIMER_CLOCK_HZ :: u32 where "PWM_TIMER_CLOCK_HZ = 240000000"

lemmas tim2_addrs = TIM2_CR1_def TIM2_CCMR1_def TIM2_CCER_def TIM2_PSC_def TIM2_ARR_def TIM2_CCR1_def
  PWM_RCC_AHB4ENR_def PWM_RCC_APB1LENR_def GPIOA_MODER_def GPIOA_OSPEEDR_def GPIOA_AFRL_def

definition pwm_init :: "mmio \<Rightarrow> string \<times> mmio" where
  "pwm_init m =
     (let m = mm_or PWM_RCC_AHB4ENR 1 m;
          m = mm_or PWM_RCC_APB1LENR 1 m;
          m = mm_clear GPIOA_MODER 3 m;
          m = mm_or GPIOA_MODER 2 m;
          m = mm_or GPIOA_OSPEEDR 3 m;
          m = mm_clear GPIOA_AFRL 0xF m;
          m = mm_or GPIOA_AFRL 1 m;
          m = mm_write TIM2_PSC (PWM_TIMER_CLOCK_HZ div 1000000 - 1) m;
          m = mm_write TIM2_ARR (20000 - 1) m;
          m = mm_clear TIM2_CCMR1 (push_bit 4 0x7) m;
          m = mm_or TIM2_CCMR1 (push_bit 4 0x6) m;
          m = mm_or TIM2_CCMR1 (push_bit 3 1) m;
          m = mm_write TIM2_CCR1 1000 m;
          m = mm_or TIM2_CCER 1 m;
          m = mm_or TIM2_CR1 1 m
      in (the (uart_printf (\<lambda>(_ :: unit) _. '''')
            (''[PWM-TIM2] init done: PSC=%u ARR=%u'' @ [CHR 0x0D, CHR 0x0A, NUL])
            [ArgInt (m TIM2_PSC), ArgInt (m TIM2_ARR)]), m))"

definition pulse_clamp :: "u16 \<Rightarrow> u16" where
  "pulse_clamp us = (let us = (if us < 1000 then 1000 else us) in if us > 2000 then 2000 else us)"

definition pwm_set_pulse_us :: "u16 \<Rightarrow> mmio \<Rightarrow> mmio" where
  "pwm_set_pulse_us us m = mm_write TIM2_CCR1 (ucast (pulse_clamp us)) m"

subsection \<open>PWM on the K64F (FTM0 and FTM3)\<close>

definition FTM0_SC :: u32 where "FTM0_SC = 0x40038000"
definition FTM0_MOD :: u32 where "FTM0_MOD = 0x40038008"
definition FTM0_C0SC :: u32 where "FTM0_C0SC = 0x4003800C"
definition FTM0_C0V :: u32 where "FTM0_C0V = 0x40038010"
definition FTM0_C2SC :: u32 where "FTM0_C2SC = 0x4003801C"
definition FTM0_C2V :: u32 where "FTM0_C2V = 0x40038020"
definition FTM3_SC :: u32 where "FTM3_SC = 0x400B9000"
definition FTM3_MOD :: u32 where "FTM3_MOD = 0x400B9008"
definition FTM3_C4SC :: u32 where "FTM3_C4SC = 0x400B902C"
definition FTM3_C4V :: u32 where "FTM3_C4V = 0x400B9030"
definition FTM3_C5SC :: u32 where "FTM3_C5SC = 0x400B9034"
definition FTM3_C5V :: u32 where "FTM3_C5V = 0x400B9038"
definition SIM_SCGC3 :: u32 where "SIM_SCGC3 = 0x40047000 + 0x1030"
definition SIM_SCGC5 :: u32 where "SIM_SCGC5 = 0x40047000 + 0x1038"
definition SIM_SCGC6 :: u32 where "SIM_SCGC6 = 0x40047000 + 0x103C"
definition PORTC_PCR1 :: u32 where "PORTC_PCR1 = 0x4004B004"
definition PORTC_PCR5 :: u32 where "PORTC_PCR5 = 0x4004B014"
definition PORTC_PCR8 :: u32 where "PORTC_PCR8 = 0x4004B020"
definition PORTC_PCR9 :: u32 where "PORTC_PCR9 = 0x4004B024"
definition FTM_CnSC_PWM_HIGHTRUE :: u32 where "FTM_CnSC_PWM_HIGHTRUE = push_bit 5 1 OR push_bit 3 1"
definition FTM_EFF_CLOCK_HZ :: u32 where "FTM_EFF_CLOCK_HZ = 60000000 div 32"

lemmas ftm_addrs = FTM0_SC_def FTM0_MOD_def FTM0_C0SC_def FTM0_C0V_def FTM0_C2SC_def FTM0_C2V_def
  FTM3_SC_def FTM3_MOD_def FTM3_C4SC_def FTM3_C4V_def FTM3_C5SC_def FTM3_C5V_def
  SIM_SCGC3_def SIM_SCGC5_def SIM_SCGC6_def PORTC_PCR1_def PORTC_PCR5_def PORTC_PCR8_def PORTC_PCR9_def

definition PWM_PERIOD_TICKS :: "u32 \<Rightarrow> u32" where
  "PWM_PERIOD_TICKS freq_hz = FTM_EFF_CLOCK_HZ div freq_hz - 1"

definition PWM_US_TO_TICKS :: "u32 \<Rightarrow> u32" where
  "PWM_US_TO_TICKS us = us * 15 div 8"

definition pcr_mux :: "u32 \<Rightarrow> u32 \<Rightarrow> mmio \<Rightarrow> mmio" where
  "pcr_mux pcr alt m = mm_write pcr ((m pcr AND NOT 0x700) OR push_bit 8 alt) m"

definition ftm_start :: "u32 \<Rightarrow> u32 \<Rightarrow> u32 \<Rightarrow> u32 \<Rightarrow> u32 \<Rightarrow> u32 \<Rightarrow> mmio \<Rightarrow> mmio" where
  "ftm_start sc md ca va cb vb m =
     (let period_ticks = PWM_PERIOD_TICKS 50; start_ticks = PWM_US_TO_TICKS 1000;
          m = mm_write sc 0 m;
          m = mm_write md period_ticks m;
          m = mm_write ca FTM_CnSC_PWM_HIGHTRUE m;
          m = mm_write va start_ticks m;
          m = mm_write cb FTM_CnSC_PWM_HIGHTRUE m;
          m = mm_write vb start_ticks m
      in mm_write sc (push_bit 3 1 OR push_bit 0 5) m)"

definition k64f_pwm_init :: "mmio \<Rightarrow> mmio" where
  "k64f_pwm_init m =
     (let m = mm_or SIM_SCGC6 (push_bit 24 1) m;
          m = mm_or SIM_SCGC3 (push_bit 25 1) m;
          m = mm_or SIM_SCGC5 (push_bit 11 1) m;
          m = pcr_mux PORTC_PCR1 4 m;
          m = pcr_mux PORTC_PCR5 7 m;
          m = pcr_mux PORTC_PCR8 3 m;
          m = pcr_mux PORTC_PCR9 3 m;
          m = ftm_start FTM0_SC FTM0_MOD FTM0_C0SC FTM0_C0V FTM0_C2SC FTM0_C2V m
      in ftm_start FTM3_SC FTM3_MOD FTM3_C4SC FTM3_C4V FTM3_C5SC FTM3_C5V m)"

definition pwm_set_pulse_us_ch :: "u8 \<Rightarrow> u16 \<Rightarrow> mmio \<Rightarrow> mmio" where
  "pwm_set_pulse_us_ch channel us m =
     (let ticks = PWM_US_TO_TICKS (ucast (pulse_clamp us)) in
      if channel = 0 then mm_write FTM0_C0V ticks m
      else if channel = 1 then mm_write FTM0_C2V ticks m
      else if channel = 2 then mm_write FTM3_C4V ticks m
      else if channel = 3 then mm_write FTM3_C5V ticks m
      else m)"

subsection \<open>The servos\<close>

definition SERVO_PULSE_MIN_US :: u32 where "SERVO_PULSE_MIN_US = 1000"
definition SERVO_PULSE_MAX_US :: u32 where "SERVO_PULSE_MAX_US = 2000"
definition SERVO_ANGLE_MAX_DEG :: u8 where "SERVO_ANGLE_MAX_DEG = 180"
definition SERVO_SWEEP_STEP_DEG :: u8 where "SERVO_SWEEP_STEP_DEG = 1"
definition SERVO_NUM_CHANNELS :: nat where "SERVO_NUM_CHANNELS = 4"

definition servo_pulse :: "u8 \<Rightarrow> u16" where
  "servo_pulse angle_deg =
     (let angle_deg = (if angle_deg > SERVO_ANGLE_MAX_DEG then SERVO_ANGLE_MAX_DEG else angle_deg);
          span_us = SERVO_PULSE_MAX_US - SERVO_PULSE_MIN_US
      in ucast (SERVO_PULSE_MIN_US + (ucast angle_deg * span_us) div ucast SERVO_ANGLE_MAX_DEG))"

text \<open>The direction is a signed byte: -1 is \<open>0xFF\<close>.\<close>

definition sweep_next :: "u8 \<times> u8 \<Rightarrow> u8 \<times> u8" where
  "sweep_next = (\<lambda>(angle, dir).
     let dir = (if angle \<ge> SERVO_ANGLE_MAX_DEG then -1 else if angle = 0 then 1 else dir)
     in (angle + dir * SERVO_SWEEP_STEP_DEG, dir))"

definition servo_set_angle :: "u8 \<Rightarrow> mmio \<Rightarrow> mmio" where
  "servo_set_angle angle_deg m = pwm_set_pulse_us (servo_pulse angle_deg) m"

definition servo_init :: "mmio \<Rightarrow> string \<times> mmio" where
  "servo_init m = (let (out, m) = pwm_init m in (out, servo_set_angle 90 m))"

definition servo_sweep_step :: "(u8 \<times> u8) \<times> mmio \<Rightarrow> string \<times> (u8 \<times> u8) \<times> mmio" where
  "servo_sweep_step = (\<lambda>((angle, dir), m).
     (the (uart_printf (\<lambda>(_ :: unit) _. '''')
        (''[SERVO] angle=%d deg (dir=%s)'' @ [CHR 0x0D, CHR 0x0A, NUL])
        [ArgInt (ucast angle), ArgStr ((if 0 <s dir then ''up'' else ''down'') @ [NUL])]),
      sweep_next (angle, dir), servo_set_angle angle m))"

record servos =
  s_sweep_angle :: "u8 list"
  s_sweep_dir :: "u8 list"
  ftm :: mmio

definition k64f_servo_set_angle :: "u8 \<Rightarrow> u8 \<Rightarrow> mmio \<Rightarrow> mmio" where
  "k64f_servo_set_angle channel angle_deg m =
     (if unat channel \<ge> SERVO_NUM_CHANNELS then m
      else pwm_set_pulse_us_ch channel (servo_pulse angle_deg) m)"

definition k64f_servo_init :: "mmio \<Rightarrow> mmio" where
  "k64f_servo_init m = fold (\<lambda>ch. k64f_servo_set_angle ch 90) (map of_nat [0..<SERVO_NUM_CHANNELS]) (k64f_pwm_init m)"

definition k64f_servo_sweep_step :: "u8 \<Rightarrow> servos \<Rightarrow> servos" where
  "k64f_servo_sweep_step channel s =
     (if unat channel \<ge> SERVO_NUM_CHANNELS then s
      else let c = unat channel;
               (angle, dir) = sweep_next (s_sweep_angle s ! c, s_sweep_dir s ! c)
           in s\<lparr>ftm := k64f_servo_set_angle channel (s_sweep_angle s ! c) (ftm s),
                s_sweep_angle := (s_sweep_angle s)[c := angle],
                s_sweep_dir := (s_sweep_dir s)[c := dir]\<rparr>)"

subsection \<open>Pulse lengths\<close>

definition pulse_of :: "nat \<Rightarrow> nat" where
  "pulse_of deg = 1000 + min 180 deg * 1000 div 180"

lemma pulse_of_range: "1000 \<le> pulse_of deg \<and> pulse_of deg \<le> 2000"
proof -
  have "min 180 deg * 1000 div 180 \<le> 180 * 1000 div 180" by (intro div_le_mono mult_le_mono1) simp
  then show ?thesis by (simp add: pulse_of_def)
qed

lemma unat_servo_pulse: "unat (servo_pulse a) = pulse_of (unat a)"
proof -
  define b where "b = (if a > SERVO_ANGLE_MAX_DEG then SERVO_ANGLE_MAX_DEG else a)"
  have b: "unat b = min 180 (unat a)"
    by (auto simp: b_def SERVO_ANGLE_MAX_DEG_def word_less_nat_alt)
  have le: "min 180 (unat a) * 1000 div 180 \<le> 1000" "min 180 (unat a) * 1000 \<le> 180000"
    using pulse_of_range [of "unat a"] by (simp_all add: pulse_of_def)
  define span :: u32 where "span = ucast b * 1000 div 180"
  have s: "unat span = min 180 (unat a) * 1000 div 180"
    using le(2) by (simp add: span_def unat_div unat_word_ariths unat_ucast_up b)
  have "unat (1000 + span) = 1000 + min 180 (unat a) * 1000 div 180"
    using le(1) s by (simp add: unat_word_ariths)
  moreover have "servo_pulse a = ucast (1000 + span)"
    unfolding servo_pulse_def Let_def b_def [symmetric] span_def
    by (simp add: SERVO_PULSE_MIN_US_def SERVO_PULSE_MAX_US_def SERVO_ANGLE_MAX_DEG_def)
  ultimately show ?thesis
    using le(1) by (simp add: pulse_of_def unsigned_ucast_eq take_bit_nat_eq_self)
qed

lemma pulse_clamp_id: "pulse_clamp (servo_pulse a) = servo_pulse a"
  using pulse_of_range [of "unat a"] unat_servo_pulse [of a]
  by (simp add: pulse_clamp_def Let_def word_less_nat_alt)

lemma unat_ticks: "unat p \<le> 2000 \<Longrightarrow> unat (PWM_US_TO_TICKS p) = unat p * 15 div 8"
  by (simp add: PWM_US_TO_TICKS_def unat_div unat_word_ariths)

definition channel_value :: "nat \<Rightarrow> u32" where
  "channel_value c = [FTM0_C0V, FTM0_C2V, FTM3_C4V, FTM3_C5V] ! c"

lemma channel_value_inj: "c < 4 \<Longrightarrow> d < 4 \<Longrightarrow> channel_value c = channel_value d \<longleftrightarrow> c = d"
  using nth_eq_iff_index_eq [of "[FTM0_C0V, FTM0_C2V, FTM3_C4V, FTM3_C5V]" c d]
  by (simp add: channel_value_def ftm_addrs)

lemma pwm_channel_write:
  "unat channel < 4 \<Longrightarrow> pwm_set_pulse_us_ch channel us m
     = mm_write (channel_value (unat channel)) (PWM_US_TO_TICKS (ucast (pulse_clamp us))) m"
proof -
  assume c: "unat channel < 4"
  have "channel = 0 \<or> channel = 1 \<or> channel = 2 \<or> channel = 3"
    unfolding word_unat_eq_iff using c by simp arith
  then show ?thesis
    by (elim disjE) (simp_all add: pwm_set_pulse_us_ch_def channel_value_def Let_def)
qed

lemma k64f_servo_write:
  "unat channel < 4 \<Longrightarrow> k64f_servo_set_angle channel a m
     = mm_write (channel_value (unat channel)) (PWM_US_TO_TICKS (ucast (servo_pulse a))) m"
  by (simp add: k64f_servo_set_angle_def SERVO_NUM_CHANNELS_def pwm_channel_write pulse_clamp_id)

lemma unat_servo_ticks: "unat (PWM_US_TO_TICKS (ucast (servo_pulse a))) = pulse_of (unat a) * 15 div 8"
  using pulse_of_range [of "unat a"] by (simp add: unat_ticks unat_ucast_up unat_servo_pulse)

text \<open>
  The servo pulse on both boards, for every angle. Angles above 180 degrees count as 180;
  the pulse is 1000 us plus the angle's share of another 1000 us, rounded down, so it always
  lies in the range the PWM driver would clamp to, and the compare value of the K64F, in ticks
  of 8/15 us, is below its period of 37500 ticks. Channels from 4 on are ignored.
\<close>

theorem servo_pulse_exact:
  "unat (servo_set_angle a m TIM2_CCR1) = 1000 + min 180 (unat a) * 1000 div 180
   \<and> unat (servo_set_angle a m TIM2_CCR1) \<in> {1000..2000}
   \<and> unat (PWM_PERIOD_TICKS 50) + 1 = 37500
   \<and> (unat (k64f_servo_set_angle channel a m (channel_value (unat channel)))
        = unat (servo_set_angle a m TIM2_CCR1) * 15 div 8
      \<or> unat channel \<ge> 4 \<and> k64f_servo_set_angle channel a m = m)"
proof -
  have p: "unat (servo_set_angle a m TIM2_CCR1) = pulse_of (unat a)"
    by (simp add: servo_set_angle_def pwm_set_pulse_us_def mm_write_def pulse_clamp_id unat_ucast_up unat_servo_pulse)
  have k: "unat (k64f_servo_set_angle channel a m (channel_value (unat channel))) = pulse_of (unat a) * 15 div 8
      \<or> unat channel \<ge> 4 \<and> k64f_servo_set_angle channel a m = m"
  proof (cases "unat channel < 4")
    case True
    then show ?thesis by (simp add: k64f_servo_write mm_write_def unat_servo_ticks)
  next
    case False
    then show ?thesis by (simp add: k64f_servo_set_angle_def SERVO_NUM_CHANNELS_def)
  qed
  show ?thesis
    unfolding p using pulse_of_range [of "unat a"] k
    by (simp add: PWM_PERIOD_TICKS_def FTM_EFF_CLOCK_HZ_def pulse_of_def)
qed

subsection \<open>The sweep\<close>

definition tri :: "nat \<Rightarrow> nat" where
  "tri n = (let r = n mod 360 in if r \<le> 180 then r else 360 - r)"

lemma tri_le: "tri n \<le> 180"
  by (simp add: tri_def Let_def) arith

text \<open>
  The direction flag matters strictly inside the range only; at the ends it is set again.
\<close>

definition sweeping :: "nat \<Rightarrow> u8 \<times> u8 \<Rightarrow> bool" where
  "sweeping n = (\<lambda>(angle, dir). angle = of_nat (tri n)
     \<and> (0 < tri n \<and> tri n < 180 \<longrightarrow> dir = (if n mod 360 < 180 then 1 else -1)))"

lemma sweeping_step: "sweeping n s \<Longrightarrow> sweeping (Suc n) (sweep_next s)"
proof -
  assume s: "sweeping n s"
  obtain angle dir where ad: "s = (angle, dir)" by force
  have a: "angle = of_nat (tri n)" "unat angle = tri n"
    using s tri_le [of n] by (auto simp: sweeping_def ad unat_of_nat take_bit_nat_eq_self)
  define r where "r = n mod 360"
  have r: "r < 360" by (simp add: r_def)
  have t: "tri n = (if r \<le> 180 then r else 360 - r)" by (simp add: tri_def Let_def r_def)
  have m: "Suc n mod 360 = (if r = 359 then 0 else Suc r)" by (simp add: mod_Suc r_def)
  have t': "tri (Suc n) = (if r < 180 then Suc r else if r = 359 then 0 else 359 - r)"
    using r by (auto simp: tri_def Let_def m)
  define d where "d = (if angle \<ge> SERVO_ANGLE_MAX_DEG then -1 else if angle = 0 then 1 else dir)"
  have d: "d = (if r < 180 then 1 else -1)"
  proof -
    have "angle \<ge> SERVO_ANGLE_MAX_DEG \<longleftrightarrow> r = 180"
      using r a(2) by (auto simp: SERVO_ANGLE_MAX_DEG_def word_le_nat_alt t split: if_splits)
    moreover have "angle = 0 \<longleftrightarrow> r = 0" using a(2) r by (auto simp: word_unat_eq_iff t split: if_splits)
    moreover have "r \<noteq> 0 \<and> r \<noteq> 180 \<Longrightarrow> dir = (if r < 180 then 1 else -1)"
      using s r by (auto simp: sweeping_def ad t r_def [symmetric] split: if_splits)
    ultimately show ?thesis by (auto simp: d_def)
  qed
  have n: "sweep_next s = (angle + d, d)"
    by (simp add: sweep_next_def ad d_def Let_def SERVO_SWEEP_STEP_DEG_def)
  have "angle + d = of_nat (tri (Suc n))"
  proof (cases "r < 180")
    case True
    then show ?thesis by (simp add: a(1) t t' d)
  next
    case False
    then have "tri n = Suc (tri (Suc n))" using r by (auto simp: t t' split: if_splits)
    then show ?thesis using False by (simp add: a(1) d)
  qed
  moreover have "0 < tri (Suc n) \<and> tri (Suc n) < 180 \<Longrightarrow> d = (if Suc n mod 360 < 180 then 1 else -1)"
    using r by (auto simp: d t' m split: if_splits)
  ultimately show ?thesis by (simp add: n sweeping_def)
qed

definition servos_reset :: "mmio \<Rightarrow> servos" where
  "servos_reset m = \<lparr>s_sweep_angle = [0, 0, 0, 0], s_sweep_dir = [1, 1, 1, 1], ftm = m\<rparr>"

lemma sweeping_reset: "sweeping 0 (0, 1)"
  by (simp add: sweeping_def tri_def)

text \<open>
  Steps of several channels in any order: each channel's own steps decide its state.
\<close>

definition sweep_run :: "u8 list \<Rightarrow> servos \<Rightarrow> servos" where
  "sweep_run cs = fold k64f_servo_sweep_step cs"

definition steps_of :: "nat \<Rightarrow> u8 list \<Rightarrow> nat" where
  "steps_of c cs = length (filter (\<lambda>x. unat x = c) cs)"

definition sweep_state :: "mmio \<Rightarrow> u8 list \<Rightarrow> servos \<Rightarrow> bool" where
  "sweep_state m cs s \<longleftrightarrow> length (s_sweep_angle s) = 4 \<and> length (s_sweep_dir s) = 4
     \<and> (\<forall>c < 4. sweeping (steps_of c cs) (s_sweep_angle s ! c, s_sweep_dir s ! c))
     \<and> (\<forall>c < 4. if steps_of c cs = 0 then ftm s (channel_value c) = m (channel_value c)
          else unat (ftm s (channel_value c)) = pulse_of (tri (steps_of c cs - 1)) * 15 div 8)"

lemma sweep_state_step:
  assumes "sweep_state m cs s"
  shows "sweep_state m (cs @ [x]) (k64f_servo_sweep_step x s)"
proof (cases "unat x < 4")
  case False
  then have "steps_of c (cs @ [x]) = steps_of c cs" if "c < 4" for c using that by (auto simp: steps_of_def)
  then show ?thesis using assms False by (simp add: sweep_state_def k64f_servo_sweep_step_def SERVO_NUM_CHANNELS_def)
next
  case True
  let ?c = "unat x"
  obtain a d where ad: "sweep_next (s_sweep_angle s ! ?c, s_sweep_dir s ! ?c) = (a, d)" by force
  have sw: "sweeping (steps_of ?c cs) (s_sweep_angle s ! ?c, s_sweep_dir s ! ?c)"
    using assms True by (simp add: sweep_state_def)
  have next': "sweeping (Suc (steps_of ?c cs)) (a, d)" using sweeping_step [OF sw] ad by simp
  have an: "unat (s_sweep_angle s ! ?c) = tri (steps_of ?c cs)"
    using sw tri_le [of "steps_of ?c cs"] by (simp add: sweeping_def unat_of_nat take_bit_nat_eq_self)
  have st: "steps_of c (cs @ [x]) = (if c = ?c then Suc (steps_of c cs) else steps_of c cs)" for c
    by (simp add: steps_of_def)
  have e: "k64f_servo_sweep_step x s = s\<lparr>ftm := mm_write (channel_value ?c)
        (PWM_US_TO_TICKS (ucast (servo_pulse (s_sweep_angle s ! ?c)))) (ftm s),
      s_sweep_angle := (s_sweep_angle s)[?c := a], s_sweep_dir := (s_sweep_dir s)[?c := d]\<rparr>"
    using True ad by (simp add: k64f_servo_sweep_step_def SERVO_NUM_CHANNELS_def k64f_servo_write Let_def)
  show ?thesis
    using assms True next'
    by (auto simp: sweep_state_def e st mm_write_def channel_value_inj nth_list_update unat_servo_ticks an)
qed

lemma sweep_state_run: "sweep_state m cs s \<Longrightarrow> sweep_state m (cs @ xs) (sweep_run xs s)"
proof (induction xs arbitrary: cs s)
  case (Cons x xs)
  from Cons.IH [OF sweep_state_step [OF Cons.prems, of x]] show ?case by (simp add: sweep_run_def)
qed (simp add: sweep_run_def)

lemma sweep_state_reset: "sweep_state m [] (servos_reset m)"
  by (auto simp: sweep_state_def servos_reset_def steps_of_def sweeping_reset less_Suc_eq numeral_nat)

text \<open>
  The sweep of the K64F servos is a triangle wave on each channel, whatever the order in
  which the channels are stepped. A channel stepped \<open>n\<close> times stands at the angle that rises
  from 0 to 180 and falls back in 360 steps, its compare register holds the pulse of the angle
  before the last step, and a channel that was not stepped keeps its register.
\<close>

theorem servo_sweep_triangle:
  assumes "c < 4" and "n = steps_of c cs"
  shows "unat (s_sweep_angle (sweep_run cs (servos_reset m)) ! c)
        = (let r = n mod 360 in if r \<le> 180 then r else 360 - r)
    \<and> (n = 0 \<longrightarrow> ftm (sweep_run cs (servos_reset m)) (channel_value c) = m (channel_value c))
    \<and> (n > 0 \<longrightarrow> unat (ftm (sweep_run cs (servos_reset m)) (channel_value c))
          = (1000 + tri (n - 1) * 1000 div 180) * 15 div 8)"
proof -
  have s: "sweep_state m cs (sweep_run cs (servos_reset m))"
    using sweep_state_run [OF sweep_state_reset, of m cs] by simp
  then have sw: "sweeping n (s_sweep_angle (sweep_run cs (servos_reset m)) ! c, s_sweep_dir (sweep_run cs (servos_reset m)) ! c)"
    using assms by (simp add: sweep_state_def)
  have "unat (s_sweep_angle (sweep_run cs (servos_reset m)) ! c) = tri n"
    using sw tri_le [of n] by (simp add: sweeping_def unat_of_nat take_bit_nat_eq_self)
  moreover have "pulse_of (tri (n - 1)) = 1000 + tri (n - 1) * 1000 div 180"
    using tri_le [of "n - 1"] by (simp add: pulse_of_def min_absorb2)
  ultimately show ?thesis
    unfolding tri_def [of n, symmetric] using s assms by (auto simp: sweep_state_def)
qed

lemma servo_sweep_triangle_witness:
  "unat (s_sweep_angle (sweep_run [1, 0, 1, 9] (servos_reset (\<lambda>_. 0))) ! 1) = 2
   \<and> unat (ftm (sweep_run [1, 0, 1, 9] (servos_reset (\<lambda>_. 0))) FTM0_C2V) = 1884"
  using servo_sweep_triangle [of 1 2 "[1, 0, 1, 9]" "\<lambda>_. 0"]
  by (simp add: steps_of_def tri_def channel_value_def)

end
