(* ===== verification/Watchdog.thy ===== *)
theory Watchdog
  imports Mmio
begin

text \<open>
  \<open>drivers/stm32h753zi/iwdg.c\<close>: the independent watchdog. A register write is an address
  and a value; \<open>iwdg_init\<close> returns its writes in order, or nothing when one of its two waits
  for the watchdog's clock domain does not end.
\<close>

definition IWDG_KR :: u32 where "IWDG_KR = 0x58004800"
definition IWDG_PR :: u32 where "IWDG_PR = 0x58004804"
definition IWDG_RLR :: u32 where "IWDG_RLR = 0x58004808"
definition IWDG_WINR :: u32 where "IWDG_WINR = 0x58004810"
definition IWDG_KEY_RELOAD :: u32 where "IWDG_KEY_RELOAD = 0x0000AAAA"
definition IWDG_KEY_ENABLE :: u32 where "IWDG_KEY_ENABLE = 0x0000CCCC"
definition IWDG_KEY_UNLOCK :: u32 where "IWDG_KEY_UNLOCK = 0x00005555"
definition RCC_RSR :: u32 where "RCC_RSR = 0x58024400 + 0x0D0"
definition RCC_RSR_IWDGRSTF :: u32 where "RCC_RSR_IWDGRSTF = push_bit 26 1"
definition RCC_RSR_RMVF :: u32 where "RCC_RSR_RMVF = push_bit 16 1"
definition LSI_FREQ_HZ :: u32 where "LSI_FREQ_HZ = 32000"

definition prescaler_table :: "u16 list" where
  "prescaler_table = [4, 8, 16, 32, 64, 128, 256]"

text \<open>The prescaler loop; the pair is \<open>pr_code\<close> and \<open>reload\<close>.\<close>

fun iwdg_search :: "u32 \<Rightarrow> u8 \<Rightarrow> u16 list \<Rightarrow> u8 \<times> u32 \<Rightarrow> u8 \<times> u32" where
  "iwdg_search timeout_ms i [] s = s"
| "iwdg_search timeout_ms i (p # ps) s =
     (let rl = (timeout_ms * (LSI_FREQ_HZ div ucast p)) div 1000 in
      if rl \<le> 4095 then (i, rl) else iwdg_search timeout_ms (i + 1) ps (6, 4095))"

definition iwdg_config :: "u32 \<Rightarrow> u8 \<times> u32" where
  "iwdg_config timeout_ms =
     (let (pr_code, reload) = iwdg_search timeout_ms 0 prescaler_table (6, 0)
      in (pr_code, if reload = 0 then 1 else reload))"

definition iwdg_init :: "u32 \<Rightarrow> (nat \<Rightarrow> bool) \<Rightarrow> (nat \<Rightarrow> bool) \<Rightarrow> (u32 \<times> u32) list option" where
  "iwdg_init timeout_ms pvu rvu =
     (let (pr_code, reload) = iwdg_config timeout_ms in
      case spin pvu 0 of None \<Rightarrow> None
      | Some _ \<Rightarrow> (case spin rvu 0 of None \<Rightarrow> None
        | Some _ \<Rightarrow> Some [(IWDG_KR, IWDG_KEY_UNLOCK), (IWDG_PR, ucast pr_code), (IWDG_RLR, reload),
            (IWDG_WINR, 0x0FFF), (IWDG_KR, IWDG_KEY_RELOAD), (IWDG_KR, IWDG_KEY_ENABLE)]))"

definition iwdg_kick :: "(u32 \<times> u32) list" where
  "iwdg_kick = [(IWDG_KR, IWDG_KEY_RELOAD)]"

definition iwdg_reset_was_watchdog :: "mmio \<Rightarrow> bool" where
  "iwdg_reset_was_watchdog m \<longleftrightarrow> m RCC_RSR AND RCC_RSR_IWDGRSTF \<noteq> 0"

definition iwdg_clear_reset_flags :: "mmio \<Rightarrow> mmio" where
  "iwdg_clear_reset_flags = mm_or RCC_RSR RCC_RSR_RMVF"

subsection \<open>The time the watchdog runs\<close>

text \<open>Units of 1/32 ms: a configuration runs for prescaler times reload of them.\<close>

definition iwdg_units :: "u8 \<times> u32 \<Rightarrow> nat" where
  "iwdg_units = (\<lambda>(pr, rl). 4 * 2 ^ unat pr * unat rl)"

lemma unat_reload:
  assumes "unat t * f < 2 ^ 32" and "unat w = f"
  shows "unat ((t :: u32) * w div 1000) = unat t * f div 1000"
  using assms by (simp add: unat_div unat_word_ariths)

text \<open>The reload the loop computes for prescaler code \<open>i\<close>, without overflow.\<close>

definition rl_of :: "nat \<Rightarrow> nat \<Rightarrow> nat" where
  "rl_of t i = t * (8000 div 2 ^ i) div 1000"

lemma seven_cases: "(i :: nat) < 7 \<Longrightarrow> i = 0 \<or> i = 1 \<or> i = 2 \<or> i = 3 \<or> i = 4 \<or> i = 5 \<or> i = 6"
  by arith

lemma rl_word:
  assumes "unat t < 536871" and "i < 7"
  shows "unat ((t * (LSI_FREQ_HZ div ucast (prescaler_table ! i))) div 1000) = rl_of (unat t) i"
proof -
  have p: "unat (LSI_FREQ_HZ div ucast (prescaler_table ! i)) = 8000 div 2 ^ i"
    using seven_cases [OF assms(2)]
    by (elim disjE) (simp_all add: prescaler_table_def LSI_FREQ_HZ_def)
  have "unat t * (8000 div 2 ^ i) \<le> 536870 * 8000"
    using assms(1) by (intro mult_le_mono) (auto intro: div_le_dividend)
  then have "unat t * (8000 div 2 ^ i) < 2 ^ 32" by simp
  from unat_reload [OF this p] show ?thesis by (simp add: rl_of_def)
qed

lemma rl_of_pow: "i < 7 \<Longrightarrow> rl_of t i = t * 8 div 2 ^ i \<and> 2 ^ i * (8000 div 2 ^ i) = (8000 :: nat)"
proof -
  assume i: "i < 7"
  have e: "2 ^ i * (8000 div 2 ^ i) = (8000 :: nat)"
    using seven_cases [OF i] by (elim disjE) simp_all
  have "rl_of t i = (t * 8000 div 2 ^ i) div 1000"
    unfolding rl_of_def by (metis div_mult_swap dvd_triv_left e)
  also have "\<dots> = (t * 8 * 1000) div (1000 * 2 ^ i)" by (simp add: div_mult2_eq [symmetric] mult.commute)
  also have "\<dots> = t * 8 div 2 ^ i" by (metis mult.commute nonzero_mult_div_cancel_left div_mult_mult1 zero_neq_numeral)
  finally show ?thesis using e by simp
qed

lemma iwdg_search_find:
  assumes "unat t < 536871" and "i \<le> 7"
  shows "iwdg_search t (of_nat i) (drop i prescaler_table) s =
     (case find (\<lambda>j. rl_of (unat t) j \<le> 4095) [i..<7] of
        Some j \<Rightarrow> (of_nat j, of_nat (rl_of (unat t) j)) | None \<Rightarrow> if i = 7 then s else (6, 4095))"
  using assms(2)
proof (induction "7 - i" arbitrary: i s)
  case 0
  then show ?case by (simp add: prescaler_table_def)
next
  case (Suc n)
  then have i: "i < 7" by simp
  let ?w = "(t * (LSI_FREQ_HZ div ucast (prescaler_table ! i))) div 1000"
  have w: "unat ?w = rl_of (unat t) i" using assms(1) i by (rule rl_word)
  define rl where "rl = ?w"
  have c: "rl \<le> 4095 \<longleftrightarrow> rl_of (unat t) i \<le> 4095" unfolding rl_def word_le_nat_alt w by simp
  have o: "rl = of_nat (rl_of (unat t) i)" unfolding rl_def w [symmetric] by simp
  have d: "drop i prescaler_table = prescaler_table ! i # drop (Suc i) prescaler_table"
    using i by (intro Cons_nth_drop_Suc [symmetric]) (simp add: prescaler_table_def)
  have u: "[i..<7] = i # [Suc i..<7]" using i by (rule upt_conv_Cons)
  have "n = 7 - Suc i" "Suc i \<le> 7" using Suc.hyps(2) i by simp_all
  note IH = Suc.hyps(1) [OF this, of "(6, 4095)"]
  show ?case
  proof (cases "rl_of (unat t) i \<le> 4095")
    case True
    then have "rl \<le> 4095" using c by simp
    then show ?thesis unfolding d u iwdg_search.simps Let_def rl_def [symmetric] using True o by simp
  next
    case False
    then have "\<not> rl \<le> 4095" using c by simp
    then show ?thesis
      unfolding d u iwdg_search.simps Let_def rl_def [symmetric]
      using False IH i by (simp add: add.commute split: option.split)
  qed
qed

lemma reload_pos:
  fixes t :: nat
  assumes "1 \<le> t" and "\<forall>k < j. \<not> t * 8 div 2 ^ k \<le> 4095"
  shows "t * 8 div 2 ^ j \<noteq> 0 \<and> (j = 0 \<or> 4096 * (2 * 2 ^ j) \<le> 32 * t)"
proof (cases j)
  case 0
  then show ?thesis using assms(1) by simp
next
  case (Suc k)
  then have k: "4096 \<le> t * 8 div 2 ^ k" using assms(2) by auto
  then have "4096 div 2 \<le> t * 8 div 2 ^ k div 2" by (rule div_le_mono)
  moreover have "t * 8 div 2 ^ j = t * 8 div 2 ^ k div 2"
    unfolding Suc power_Suc mult.commute [of 2] by (rule div_mult2_eq)
  ultimately have "t * 8 div 2 ^ j \<noteq> 0" by linarith
  moreover have "4096 * 2 ^ k \<le> t * 8"
    using k by (meson div_times_less_eq_dividend le_trans mult_le_mono1)
  ultimately show ?thesis by (simp add: Suc)
qed

lemma iwdg_config_find:
  assumes "unat t < 536871" and "1 \<le> unat t"
  shows "iwdg_config t =
     (case find (\<lambda>j. unat t * 8 div 2 ^ j \<le> 4095) [0..<7] of
        Some j \<Rightarrow> (of_nat j, of_nat (unat t * 8 div 2 ^ j)) | None \<Rightarrow> (6, 4095))"
proof -
  have r: "find (\<lambda>j. rl_of (unat t) j \<le> 4095) [0..<7] = find (\<lambda>j. unat t * 8 div 2 ^ j \<le> 4095) [0..<7]"
    by (rule find_cong) (use rl_of_pow in auto)
  note f = iwdg_search_find [OF assms(1), of 0 "(6, 0)", unfolded r, simplified]
  show ?thesis
  proof (cases "find (\<lambda>j. unat t * 8 div 2 ^ j \<le> 4095) [0..<7]")
    case None
    then show ?thesis using f by (simp add: iwdg_config_def)
  next
    case (Some j)
    then have j: "j < 7" "unat t * 8 div 2 ^ j \<le> 4095" "\<forall>k < j. \<not> unat t * 8 div 2 ^ k \<le> 4095"
      by (auto simp: find_upt_Some)
    then have "unat t * 8 div 2 ^ j \<noteq> 0" using assms(2) reload_pos by blast
    then have nz: "of_nat (unat t * 8 div 2 ^ j) \<noteq> (0 :: u32)"
      using j(2) by (auto dest: arg_cong [of _ _ unat] simp: unat_of_nat take_bit_nat_eq_self)
    show ?thesis using f Some nz rl_of_pow [OF j(1), of "unat t"] by (simp add: iwdg_config_def)
  qed
qed



text \<open>
  Asking for 536871 ms, about nine minutes, does not give the longest watchdog time but
  one eighth of a millisecond: the product of the timeout and the counter frequency wraps at
  32 bits, the first prescaler seems to fit and the reload becomes 1. The header promises a
  clamp to the hardware's range.
\<close>

theorem iwdg_timeout_wraps:
  "iwdg_config 536871 = (0, 1) \<and> iwdg_units (iwdg_config 536871) = 4 \<and> iwdg_units (iwdg_config 536870) = 256 * 4095"
  by (simp add: iwdg_config_def prescaler_table_def LSI_FREQ_HZ_def iwdg_units_def)

end
