(* ===== verification/I2c.thy ===== *)
theory I2c
  imports Mmio
begin

text \<open>
  \<open>drivers/stm32h753zi/i2c.c\<close>: the polling I2C master. The readings of the status register
  are a stream \<open>isr\<close>, those of the receive register a stream \<open>rx\<close>; the driver's state says how
  many of each were taken and which registers were written, in order.
\<close>

definition I2C1_CR1 :: u32 where "I2C1_CR1 = 0x40005400"
definition I2C1_CR2 :: u32 where "I2C1_CR2 = 0x40005404"
definition I2C1_TIMINGR :: u32 where "I2C1_TIMINGR = 0x40005410"
definition I2C1_ICR :: u32 where "I2C1_ICR = 0x4000541C"
definition I2C1_TXDR :: u32 where "I2C1_TXDR = 0x40005428"
definition I2C_CR2_SADD :: "u8 \<Rightarrow> u32" where "I2C_CR2_SADD x = push_bit 1 (ucast x)"
definition I2C_CR2_RD_WRN :: u32 where "I2C_CR2_RD_WRN = push_bit 10 1"
definition I2C_CR2_NBYTES :: "u8 \<Rightarrow> u32" where "I2C_CR2_NBYTES x = push_bit 16 (ucast x)"
definition I2C_CR2_AUTOEND :: u32 where "I2C_CR2_AUTOEND = push_bit 25 1"
definition I2C_CR2_START :: u32 where "I2C_CR2_START = push_bit 13 1"
definition I2C_ISR_TXIS :: u32 where "I2C_ISR_TXIS = push_bit 1 1"
definition I2C_ISR_RXNE :: u32 where "I2C_ISR_RXNE = push_bit 2 1"
definition I2C_ISR_STOPF :: u32 where "I2C_ISR_STOPF = push_bit 5 1"
definition I2C_ISR_NACKF :: u32 where "I2C_ISR_NACKF = push_bit 4 1"
definition I2C_ISR_BUSY :: u32 where "I2C_ISR_BUSY = push_bit 15 1"
definition I2C_ICR_NACKCF :: u32 where "I2C_ICR_NACKCF = push_bit 4 1"
definition I2C_ICR_STOPCF :: u32 where "I2C_ICR_STOPCF = push_bit 5 1"
definition I2C_TIMEOUT :: u32 where "I2C_TIMEOUT = 100000"

record i2c_io =
  isr_reads :: nat
  rx_reads :: nat
  writes :: "(u32 \<times> u32) list"

definition i2c_put :: "u32 \<Rightarrow> u32 \<Rightarrow> i2c_io \<Rightarrow> i2c_io" where
  "i2c_put a v io = io\<lparr>writes := writes io @ [(a, v)]\<rparr>"

text \<open>\<open>i2c_wait\<close> on the status register: the result and the state after its readings.\<close>

definition i2c_wait :: "(nat \<Rightarrow> u32) \<Rightarrow> u32 \<Rightarrow> bool \<Rightarrow> i2c_io \<Rightarrow> bool \<times> i2c_io" where
  "i2c_wait isr flag wanted io =
     (case poll_return (\<lambda>i. (isr i AND flag \<noteq> 0) = wanted) (isr_reads io) I2C_TIMEOUT of
        Some i \<Rightarrow> (True, io\<lparr>isr_reads := i + 1\<rparr>)
      | None \<Rightarrow> (False, io\<lparr>isr_reads := isr_reads io + unat I2C_TIMEOUT\<rparr>))"

definition i2c_init :: "mmio \<Rightarrow> mmio" where
  "i2c_init m =
     (let m = mm_or 0x580244E0 (push_bit 1 1) m;
          m = mm_or 0x580244E8 (push_bit 21 1) m;
          m = mm_clear 0x58020400 (push_bit 16 3 OR push_bit 18 3) m;
          m = mm_or 0x58020400 (push_bit 16 2 OR push_bit 18 2) m;
          m = mm_or 0x58020404 (push_bit 8 1 OR push_bit 9 1) m;
          m = mm_or 0x58020408 (push_bit 16 3 OR push_bit 18 3) m;
          m = mm_clear 0x5802040C (push_bit 16 3 OR push_bit 18 3) m;
          m = mm_or 0x5802040C (push_bit 16 1 OR push_bit 18 1) m;
          m = mm_clear 0x58020424 (push_bit 0 0xF OR push_bit 4 0xF) m;
          m = mm_or 0x58020424 (push_bit 0 4 OR push_bit 4 4) m;
          m = mm_write I2C1_CR1 0 m;
          m = mm_write I2C1_TIMINGR 0x00B03FDF m
      in mm_write I2C1_CR1 (push_bit 0 1) m)"

text \<open>
  The inner wait of \<open>i2c_write\<close>, \<open>while (t--) { if (NACKF) break; if (TXIS) break; }\<close>, reads the
  register twice per round; it returns the reading it stopped at and the counter.
\<close>

function wait_txis :: "(nat \<Rightarrow> u32) \<Rightarrow> nat \<Rightarrow> u32 \<Rightarrow> nat \<times> u32" where
  "wait_txis isr n t =
     (if t = 0 then (n, t - 1)
      else if isr n AND I2C_ISR_NACKF \<noteq> 0 then (n + 1, t - 1)
      else if isr (n + 1) AND I2C_ISR_TXIS \<noteq> 0 then (n + 2, t - 1)
      else wait_txis isr (n + 2) (t - 1))"
  by pat_completeness auto
termination
  by (relation "measure (\<lambda>(_, _, t). unat t)") (auto simp: measure_unat)

declare wait_txis.simps [simp del]

text \<open>The bytes of a write transfer; \<open>False\<close> when the function returns -1.\<close>

fun i2c_send :: "(nat \<Rightarrow> u32) \<Rightarrow> u8 list \<Rightarrow> i2c_io \<Rightarrow> bool \<times> i2c_io" where
  "i2c_send isr [] io = (True, io)"
| "i2c_send isr (d # ds) io =
     (let (n, t) = wait_txis isr (isr_reads io) I2C_TIMEOUT; io = io\<lparr>isr_reads := n\<rparr> in
      if t = 0 then (False, i2c_put I2C1_CR2 0 io)
      else let nack = isr n AND I2C_ISR_NACKF; io = io\<lparr>isr_reads := n + 1\<rparr> in
        if nack \<noteq> 0
        then let io = snd (i2c_wait isr I2C_ISR_STOPF True io);
                 io = i2c_put I2C1_ICR (I2C_ICR_NACKCF OR I2C_ICR_STOPCF) io
             in (False, i2c_put I2C1_CR2 0 io)
        else i2c_send isr ds (i2c_put I2C1_TXDR (ucast d) io))"

definition i2c_write :: "(nat \<Rightarrow> u32) \<Rightarrow> u8 \<Rightarrow> u8 list \<Rightarrow> i2c_io \<Rightarrow> int \<times> i2c_io" where
  "i2c_write isr addr data io =
     (let (ok, io) = i2c_wait isr I2C_ISR_BUSY False io in
      if \<not> ok then (-1, io)
      else let io = i2c_put I2C1_CR2 (I2C_CR2_SADD addr OR I2C_CR2_NBYTES (of_nat (length data))
                      OR I2C_CR2_AUTOEND OR I2C_CR2_START) io;
               (ok, io) = i2c_send isr data io in
        if \<not> ok then (-1, io)
        else let (ok, io) = i2c_wait isr I2C_ISR_STOPF True io in
          if \<not> ok then (-1, i2c_put I2C1_CR2 0 io)
          else (0, i2c_put I2C1_CR2 0 (i2c_put I2C1_ICR I2C_ICR_STOPCF io)))"

text \<open>The bytes of a read transfer: those stored in the buffer so far, and whether all came.\<close>

fun i2c_fetch :: "(nat \<Rightarrow> u32) \<Rightarrow> (nat \<Rightarrow> u32) \<Rightarrow> nat \<Rightarrow> u8 list \<Rightarrow> i2c_io \<Rightarrow> bool \<times> u8 list \<times> i2c_io" where
  "i2c_fetch isr rx 0 got io = (True, got, io)"
| "i2c_fetch isr rx (Suc k) got io =
     (let (ok, io) = i2c_wait isr I2C_ISR_RXNE True io in
      if \<not> ok then (False, got, io)
      else i2c_fetch isr rx k (got @ [ucast (rx (rx_reads io) AND 0xFF)]) (io\<lparr>rx_reads := rx_reads io + 1\<rparr>))"

text \<open>\<open>buf\<close>: the buffer of the caller, whose length is the number of bytes asked for.\<close>

definition i2c_read ::
  "(nat \<Rightarrow> u32) \<Rightarrow> (nat \<Rightarrow> u32) \<Rightarrow> u8 \<Rightarrow> u8 \<Rightarrow> u8 list \<Rightarrow> i2c_io \<Rightarrow> int \<times> u8 list \<times> i2c_io" where
  "i2c_read isr rx addr reg_addr buf io =
     (let (r, io) = i2c_write isr addr [reg_addr] io in
      if r < 0 then (-1, buf, io)
      else let (ok, io) = i2c_wait isr I2C_ISR_BUSY False io in
        if \<not> ok then (-1, buf, io)
        else let io = i2c_put I2C1_CR2 (I2C_CR2_SADD addr OR I2C_CR2_NBYTES (of_nat (length buf))
                        OR I2C_CR2_AUTOEND OR I2C_CR2_RD_WRN OR I2C_CR2_START) io;
                 (ok, got, io) = i2c_fetch isr rx (length buf) [] io;
                 buf = got @ drop (length got) buf in
          if \<not> ok then (-1, buf, io)
          else let (ok, io) = i2c_wait isr I2C_ISR_STOPF True io in
            if \<not> ok then (-1, buf, io)
            else (0, buf, i2c_put I2C1_CR2 0 (i2c_put I2C1_ICR I2C_ICR_STOPCF io)))"

subsection \<open>Waiting\<close>

lemma i2c_wait_writes [simp]:
  "writes (snd (i2c_wait isr flag wanted io)) = writes io"
  "rx_reads (snd (i2c_wait isr flag wanted io)) = rx_reads io"
  by (simp_all add: i2c_wait_def split: option.split)

lemma i2c_put_simps [simp]:
  "writes (i2c_put a v io) = writes io @ [(a, v)]" "isr_reads (i2c_put a v io) = isr_reads io"
  "rx_reads (i2c_put a v io) = rx_reads io"
  by (simp_all add: i2c_put_def)

text \<open>
  \<open>answers isr flag wanted\<close>: within any 50000 readings there are two in a row that show the
  flag at the wanted value.
\<close>

definition answers :: "(nat \<Rightarrow> u32) \<Rightarrow> u32 \<Rightarrow> bool \<Rightarrow> bool" where
  "answers isr flag wanted \<longleftrightarrow> (\<forall>n. \<exists>k < 50000.
     (isr (n + k) AND flag \<noteq> 0) = wanted \<and> (isr (n + k + 1) AND flag \<noteq> 0) = wanted)"

lemma i2c_wait_answers:
  assumes "answers isr flag wanted"
  shows "fst (i2c_wait isr flag wanted io)"
proof -
  obtain k where k: "k < 50000" "(isr (isr_reads io + k) AND flag \<noteq> 0) = wanted"
    using assms by (auto simp: answers_def)
  have "poll_return (\<lambda>i. (isr i AND flag \<noteq> 0) = wanted) (isr_reads io) I2C_TIMEOUT \<noteq> None"
    using poll_return_result [where is_done = "\<lambda>i. (isr i AND flag \<noteq> 0) = wanted" and i = "isr_reads io"
        and t = I2C_TIMEOUT] k
    by (auto simp: I2C_TIMEOUT_def split: option.splits)
  then show ?thesis by (auto simp: i2c_wait_def)
qed

lemma wait_txis_stop:
  assumes "\<exists>k < unat t. isr (n + 2 * k + 1) AND I2C_ISR_TXIS \<noteq> 0 \<and> k + 1 < unat t" and "\<forall>i. isr i AND I2C_ISR_NACKF = 0"
  shows "\<exists>n' t'. wait_txis isr n t = (n', t') \<and> t' \<noteq> 0"
  using assms(1)
proof (induction "unat t" arbitrary: n t)
  case 0
  then show ?case by simp
next
  case (Suc m)
  then have t: "t \<noteq> 0" by auto
  have u: "unat (t - 1) = m" using Suc(2) t by (simp add: unat_minus_one32)
  obtain k where k: "k + 1 < unat t" "isr (n + 2 * k + 1) AND I2C_ISR_TXIS \<noteq> 0" using Suc.prems by blast
  show ?case
  proof (cases "isr (n + 1) AND I2C_ISR_TXIS \<noteq> 0")
    case True
    moreover have "t - 1 \<noteq> 0" using u k(1) Suc(2) by (metis add.commute less_nat_zero_code nat_add_left_cancel_less plus_1_eq_Suc unat_0)
    ultimately show ?thesis using t assms(2) by (subst wait_txis.simps) simp
  next
    case False
    then obtain j where j: "k = Suc j" using k(2) by (cases k) auto
    have "wait_txis isr n t = wait_txis isr (n + 2) (t - 1)"
      using t False assms(2) by (subst wait_txis.simps) simp
    moreover have "\<exists>j < unat (t - 1). isr (n + 2 + 2 * j + 1) AND I2C_ISR_TXIS \<noteq> 0 \<and> j + 1 < unat (t - 1)"
      using k j u Suc(2) by (intro exI [of _ j]) (simp add: add.assoc)
    ultimately show ?thesis using Suc.hyps(1) [of "t - 1" "n + 2"] u by simp
  qed
qed

lemma wait_txis_answers:
  assumes "answers isr I2C_ISR_TXIS True" and "\<forall>i. isr i AND I2C_ISR_NACKF = 0"
  shows "\<exists>n' t'. wait_txis isr n I2C_TIMEOUT = (n', t') \<and> t' \<noteq> 0"
proof (rule wait_txis_stop [OF _ assms(2)])
  obtain k where k: "k < 50000" "isr (n + k) AND I2C_ISR_TXIS \<noteq> 0" "isr (n + k + 1) AND I2C_ISR_TXIS \<noteq> 0"
    using assms(1) by (auto simp: answers_def)
  show "\<exists>k < unat I2C_TIMEOUT. isr (n + 2 * k + 1) AND I2C_ISR_TXIS \<noteq> 0 \<and> k + 1 < unat I2C_TIMEOUT"
  proof (cases "even k")
    case True
    then obtain j where "k = 2 * j" by blast
    then show ?thesis using k by (intro exI [of _ j]) (simp add: I2C_TIMEOUT_def)
  next
    case False
    then obtain j where "k = 2 * j + 1" by (rule oddE)
    then show ?thesis using k by (intro exI [of _ j]) (simp add: I2C_TIMEOUT_def)
  qed
qed

subsection \<open>Transfers\<close>

definition sent :: "u8 list \<Rightarrow> (u32 \<times> u32) list" where
  "sent ds = map (\<lambda>d. (I2C1_TXDR, ucast d)) ds"

definition stopped :: "(u32 \<times> u32) list" where
  "stopped = [(I2C1_ICR, I2C_ICR_STOPCF), (I2C1_CR2, 0)]"

definition given_up :: "(u32 \<times> u32) list \<Rightarrow> bool" where
  "given_up w \<longleftrightarrow> w = [(I2C1_CR2, 0)] \<or> w = [(I2C1_ICR, I2C_ICR_NACKCF OR I2C_ICR_STOPCF), (I2C1_CR2, 0)]"

lemma i2c_send_trace:
  "i2c_send isr ds io = (ok, io') \<Longrightarrow> rx_reads io' = rx_reads io \<and>
   (\<exists>k w. writes io' = writes io @ sent (take k ds) @ w
     \<and> (if ok then k = length ds \<and> w = [] else k < length ds \<and> given_up w))"
proof (induction ds arbitrary: io)
  case Nil
  then show ?case by (auto simp: sent_def)
next
  case (Cons d ds)
  obtain n t where w: "wait_txis isr (isr_reads io) I2C_TIMEOUT = (n, t)" by force
  let ?io = "io\<lparr>isr_reads := n + 1\<rparr>"
  consider (timeout) "t = 0" | (nack) "t \<noteq> 0" "isr n AND I2C_ISR_NACKF \<noteq> 0" | (go) "t \<noteq> 0" "isr n AND I2C_ISR_NACKF = 0"
    by blast
  then show ?case
  proof cases
    case timeout
    then have "(ok, io') = (False, i2c_put I2C1_CR2 0 (io\<lparr>isr_reads := n\<rparr>))" using Cons.prems w by simp
    then show ?thesis by (auto simp: sent_def given_up_def intro!: exI [of _ 0] exI [of _ "[(I2C1_CR2, 0)]"])
  next
    case nack
    then show ?thesis using Cons.prems w
      by (auto simp: Let_def sent_def given_up_def intro!: exI [of _ 0])
  next
    case go
    then have "i2c_send isr ds (i2c_put I2C1_TXDR (ucast d) ?io) = (ok, io')"
      using Cons.prems w by (simp add: Let_def)
    from Cons.IH [OF this] obtain k w' where
      k: "rx_reads io' = rx_reads io" "writes io' = writes io @ [(I2C1_TXDR, ucast d)] @ sent (take k ds) @ w'"
        "if ok then k = length ds \<and> w' = [] else k < length ds \<and> given_up w'"
      by auto
    then show ?thesis
      by (intro conjI exI [of _ "Suc k"] exI [of _ w']) (auto simp: sent_def split: if_splits)
  qed
qed

lemma i2c_write_trace:
  assumes "i2c_write isr addr data io = (r, io')"
  defines "start \<equiv> (I2C1_CR2, I2C_CR2_SADD addr OR I2C_CR2_NBYTES (of_nat (length data)) OR I2C_CR2_AUTOEND OR I2C_CR2_START)"
  shows "rx_reads io' = rx_reads io \<and> r \<in> {0, -1} \<and>
    (if r = 0 then writes io' = writes io @ start # sent data @ stopped
     else writes io' = writes io \<or>
       (\<exists>k w. k \<le> length data \<and> given_up w \<and> writes io' = writes io @ start # sent (take k data) @ w))"
proof -
  obtain ok1 io1 where b: "i2c_wait isr I2C_ISR_BUSY False io = (ok1, io1)" by force
  have b': "writes io1 = writes io" "rx_reads io1 = rx_reads io"
    using i2c_wait_writes [of isr I2C_ISR_BUSY False io] b by simp_all
  let ?io2 = "i2c_put (fst start) (snd start) io1"
  obtain ok3 io3 where s: "i2c_send isr data ?io2 = (ok3, io3)" by force
  obtain ok4 io4 where f: "i2c_wait isr I2C_ISR_STOPF True io3 = (ok4, io4)" by force
  have f': "writes io4 = writes io3" "rx_reads io4 = rx_reads io3"
    using i2c_wait_writes [of isr I2C_ISR_STOPF True io3] f by simp_all
  have w: "i2c_write isr addr data io = (if \<not> ok1 then (-1, io1) else if \<not> ok3 then (-1, io3)
      else if \<not> ok4 then (-1, i2c_put I2C1_CR2 0 io4)
      else (0, i2c_put I2C1_CR2 0 (i2c_put I2C1_ICR I2C_ICR_STOPCF io4)))"
    using s by (simp add: i2c_write_def b f start_def Let_def)
  obtain k w' where k: "rx_reads io3 = rx_reads io" "writes io3 = writes io @ start # sent (take k data) @ w'"
    "if ok3 then k = length data \<and> w' = [] else k < length data \<and> given_up w'"
    using i2c_send_trace [OF s] b' by auto
  show ?thesis
  proof (cases "ok1 \<and> ok3")
    case True
    then have "writes io3 = writes io @ start # sent data" using k by simp
    then show ?thesis using True assms(1) w f' k(1)
      by (auto simp: stopped_def given_up_def split: if_splits intro!: exI [of _ "length data"])
  next
    case False
    then show ?thesis using assms(1) w b' k by (auto split: if_splits intro!: exI [of _ k])
  qed
qed

definition bus_ok :: "(nat \<Rightarrow> u32) \<Rightarrow> bool" where
  "bus_ok isr \<longleftrightarrow> answers isr I2C_ISR_BUSY False \<and> answers isr I2C_ISR_TXIS True \<and> answers isr I2C_ISR_RXNE True
     \<and> answers isr I2C_ISR_STOPF True \<and> (\<forall>i. isr i AND I2C_ISR_NACKF = 0)"

lemma i2c_wait_ok:
  "answers isr flag wanted \<Longrightarrow> \<exists>n. i2c_wait isr flag wanted io = (True, io\<lparr>isr_reads := n\<rparr>)"
  using i2c_wait_answers [of isr flag wanted io] by (auto simp: i2c_wait_def split: option.splits)

lemma i2c_send_ok: "bus_ok isr \<Longrightarrow> \<exists>io'. i2c_send isr ds io = (True, io')"
proof (induction ds arbitrary: io)
  case (Cons d ds)
  then obtain n t where "wait_txis isr (isr_reads io) I2C_TIMEOUT = (n, t)" "t \<noteq> 0"
    using wait_txis_answers [of isr "isr_reads io"] by (auto simp: bus_ok_def)
  then show ?case using Cons by (simp add: Let_def bus_ok_def)
qed simp

lemma i2c_write_ok:
  assumes "bus_ok isr"
  shows "\<exists>io'. i2c_write isr addr data io = (0, io')"
proof -
  obtain n where b: "i2c_wait isr I2C_ISR_BUSY False io = (True, io\<lparr>isr_reads := n\<rparr>)"
    using i2c_wait_ok [of isr I2C_ISR_BUSY False io] assms by (auto simp: bus_ok_def)
  obtain io3 where s: "i2c_send isr data (i2c_put I2C1_CR2 (I2C_CR2_SADD addr OR I2C_CR2_NBYTES (of_nat (length data))
      OR I2C_CR2_AUTOEND OR I2C_CR2_START) (io\<lparr>isr_reads := n\<rparr>)) = (True, io3)"
    using i2c_send_ok [OF assms] by blast
  obtain m where "i2c_wait isr I2C_ISR_STOPF True io3 = (True, io3\<lparr>isr_reads := m\<rparr>)"
    using i2c_wait_ok [of isr I2C_ISR_STOPF True io3] assms by (auto simp: bus_ok_def)
  then show ?thesis using s by (simp add: i2c_write_def b Let_def)
qed

definition rx_byte :: "(nat \<Rightarrow> u32) \<Rightarrow> nat \<Rightarrow> u8" where
  "rx_byte rx i = ucast (rx i AND 0xFF)"

lemma i2c_fetch_ok:
  "bus_ok isr \<Longrightarrow> \<exists>n. i2c_fetch isr rx k got io =
     (True, got @ map (\<lambda>i. rx_byte rx (rx_reads io + i)) [0..<k], io\<lparr>isr_reads := n, rx_reads := rx_reads io + k\<rparr>)"
proof (induction k arbitrary: got io)
  case 0
  have "io = io\<lparr>isr_reads := isr_reads io, rx_reads := rx_reads io\<rparr>" by simp
  then show ?case by (metis add.right_neutral append.right_neutral i2c_fetch.simps(1) list.simps(8) upt_0)
next
  case (Suc k)
  obtain n where w: "i2c_wait isr I2C_ISR_RXNE True io = (True, io\<lparr>isr_reads := n\<rparr>)"
    using i2c_wait_ok [of isr I2C_ISR_RXNE True io] Suc.prems by (auto simp: bus_ok_def)
  let ?io = "io\<lparr>isr_reads := n, rx_reads := rx_reads io + 1\<rparr>"
  obtain m where f: "i2c_fetch isr rx k (got @ [rx_byte rx (rx_reads io)]) ?io =
     (True, (got @ [rx_byte rx (rx_reads io)]) @ map (\<lambda>i. rx_byte rx (rx_reads ?io + i)) [0..<k],
      ?io\<lparr>isr_reads := m, rx_reads := rx_reads ?io + k\<rparr>)"
    using Suc.IH [OF Suc.prems] by blast
  have e: "[rx_byte rx (rx_reads io)] @ map (\<lambda>i. rx_byte rx (rx_reads ?io + i)) [0..<k]
      = map (\<lambda>i. rx_byte rx (rx_reads io + i)) [0..<Suc k]"
    by (simp add: upt_conv_Cons map_Suc_upt [symmetric] comp_def del: upt_Suc)
  have "i2c_fetch isr rx (Suc k) got io = i2c_fetch isr rx k (got @ [rx_byte rx (rx_reads io)]) ?io"
    by (simp add: w Let_def rx_byte_def)
  then show ?case unfolding f append_assoc e by (intro exI [of _ m]) simp
qed

lemma i2c_read_ok:
  assumes "bus_ok isr"
  shows "\<exists>io'. i2c_read isr rx addr reg_addr buf io =
      (0, map (\<lambda>i. rx_byte rx (rx_reads io + i)) [0..<length buf], io')
    \<and> rx_reads io' = rx_reads io + length buf
    \<and> writes io' = writes io
        @ [(I2C1_CR2, I2C_CR2_SADD addr OR I2C_CR2_NBYTES 1 OR I2C_CR2_AUTOEND OR I2C_CR2_START),
           (I2C1_TXDR, ucast reg_addr)] @ stopped
        @ [(I2C1_CR2, I2C_CR2_SADD addr OR I2C_CR2_NBYTES (of_nat (length buf)) OR I2C_CR2_AUTOEND
             OR I2C_CR2_RD_WRN OR I2C_CR2_START)] @ stopped"
proof -
  obtain io1 where w: "i2c_write isr addr [reg_addr] io = (0, io1)" using i2c_write_ok [OF assms] by blast
  note t = i2c_write_trace [OF w]
  obtain n where b: "i2c_wait isr I2C_ISR_BUSY False io1 = (True, io1\<lparr>isr_reads := n\<rparr>)"
    using i2c_wait_ok [of isr I2C_ISR_BUSY False io1] assms by (auto simp: bus_ok_def)
  let ?io2 = "i2c_put I2C1_CR2 (I2C_CR2_SADD addr OR I2C_CR2_NBYTES (of_nat (length buf))
                        OR I2C_CR2_AUTOEND OR I2C_CR2_RD_WRN OR I2C_CR2_START) (io1\<lparr>isr_reads := n\<rparr>)"
  obtain m where f: "i2c_fetch isr rx (length buf) [] ?io2 =
     (True, [] @ map (\<lambda>i. rx_byte rx (rx_reads ?io2 + i)) [0..<length buf],
      ?io2\<lparr>isr_reads := m, rx_reads := rx_reads ?io2 + length buf\<rparr>)"
    using i2c_fetch_ok [OF assms] by blast
  obtain l where s: "i2c_wait isr I2C_ISR_STOPF True (?io2\<lparr>isr_reads := m, rx_reads := rx_reads ?io2 + length buf\<rparr>)
      = (True, ?io2\<lparr>isr_reads := m, rx_reads := rx_reads ?io2 + length buf\<rparr>\<lparr>isr_reads := l\<rparr>)"
    using i2c_wait_ok [of isr I2C_ISR_STOPF True "?io2\<lparr>isr_reads := m, rx_reads := rx_reads ?io2 + length buf\<rparr>"] assms
    unfolding bus_ok_def by blast
  show ?thesis using w b f s t by (simp add: i2c_read_def Let_def sent_def stopped_def)
qed

text \<open>
  C20: On a bus that answers, that is, where the flags appear in time and no byte is refused, a
  register read always ends with 0. The transfer it makes is one write of the register's
  number, ended by a stop, then one read of as many bytes as the buffer has, ended by a stop
  with the controller's command register cleared; and the buffer holds the low bytes of the
  receive register's readings, in order.
\<close>

theorem i2c_read_completes:
  assumes "bus_ok isr"
  shows "\<exists>io'. i2c_read isr rx addr reg_addr buf io =
      (0, map (\<lambda>i. rx_byte rx (rx_reads io + i)) [0..<length buf], io')
    \<and> rx_reads io' = rx_reads io + length buf
    \<and> writes io' = writes io
        @ [(I2C1_CR2, I2C_CR2_SADD addr OR I2C_CR2_NBYTES 1 OR I2C_CR2_AUTOEND OR I2C_CR2_START),
           (I2C1_TXDR, ucast reg_addr)] @ stopped
        @ [(I2C1_CR2, I2C_CR2_SADD addr OR I2C_CR2_NBYTES (of_nat (length buf)) OR I2C_CR2_AUTOEND
             OR I2C_CR2_RD_WRN OR I2C_CR2_START)] @ stopped"
  using assms by (rule i2c_read_ok)

definition idle_bus :: "nat \<Rightarrow> u32" where
  "idle_bus i = I2C_ISR_TXIS OR I2C_ISR_RXNE OR I2C_ISR_STOPF"

definition fresh_io :: i2c_io where
  "fresh_io = \<lparr>isr_reads = 0, rx_reads = 0, writes = []\<rparr>"

lemma idle_bus_ok: "bus_ok idle_bus"
  by (simp add: bus_ok_def answers_def idle_bus_def I2C_ISR_TXIS_def I2C_ISR_RXNE_def I2C_ISR_STOPF_def
      I2C_ISR_NACKF_def I2C_ISR_BUSY_def exI [of _ 0])

lemma i2c_read_completes_witness:
  "\<exists>io'. i2c_read idle_bus (\<lambda>i. 0xABCD00 + of_nat i) 0x69 0x75 [0, 0] fresh_io = (0, [0, 1], io')
     \<and> length (writes io') = 7"
  using i2c_read_completes [OF idle_bus_ok, of "\<lambda>i. 0xABCD00 + of_nat i" "0x69" "0x75" "[0, 0]" fresh_io]
  by (auto simp: fresh_io_def rx_byte_def stopped_def upt_rec)



end
