(* ===== verification/Sensors.thy ===== *)
theory Sensors
  imports I2c UartStm "HOL-Library.Signed_Division"
begin

text \<open>
  \<open>sensors/mpu6050.c\<close> and \<open>sensors/bmp280.c\<close> on top of the I2C driver. The arithmetic of the
  BMP280 compensation is that of the unbounded integers, with \<open>>>\<close> on a negative number as the
  arithmetic shift and \<open>/\<close> rounding towards zero; theory \<open>BmpRange\<close> shows when the 32-bit
  and 64-bit variables of the source hold the same values. The altitude, a floating-point
  power, is in theory \<open>Altitude\<close>.
\<close>

subsection \<open>MPU6050\<close>

definition MPU6050_ADDR :: u8 where "MPU6050_ADDR = 0x68"

record mpu6050_data =
  accel_x :: u16
  accel_y :: u16
  accel_z :: u16
  temp_raw :: u16
  gyro_x :: u16
  gyro_y :: u16
  gyro_z :: u16

definition be16 :: "u8 \<Rightarrow> u8 \<Rightarrow> u16" where
  "be16 hi lo = ucast (push_bit 8 (ucast hi :: u32) OR ucast lo)"

definition mpu6050_write_reg :: "(nat \<Rightarrow> u32) \<Rightarrow> u8 \<Rightarrow> u8 \<Rightarrow> i2c_io \<Rightarrow> int \<times> i2c_io" where
  "mpu6050_write_reg isr reg_addr v io = i2c_write isr MPU6050_ADDR [reg_addr, v] io"

text \<open>The chain \<open>if (write(...) < 0) return -1;\<close> over a list of register settings.\<close>

fun write_regs :: "(u8 \<Rightarrow> u8 \<Rightarrow> i2c_io \<Rightarrow> int \<times> i2c_io) \<Rightarrow> (u8 \<times> u8) list \<Rightarrow> i2c_io \<Rightarrow> int \<times> i2c_io" where
  "write_regs wr [] io = (0, io)"
| "write_regs wr ((r, v) # rs) io =
     (let (e, io) = wr r v io in if e < 0 then (-1, io) else write_regs wr rs io)"

definition mpu6050_init :: "(nat \<Rightarrow> u32) \<Rightarrow> (nat \<Rightarrow> u32) \<Rightarrow> i2c_io \<Rightarrow> int \<times> i2c_io" where
  "mpu6050_init isr rx io =
     (let (r, who, io) = i2c_read isr rx MPU6050_ADDR 0x75 [0] io in
      if r < 0 then (-1, io)
      else if who ! 0 \<noteq> 0x68 then (-2, io)
      else write_regs (mpu6050_write_reg isr) [(0x6B, 0x00), (0x1A, 0x03), (0x1B, 0x00), (0x1C, 0x00)] io)"

definition mpu6050_parse :: "u8 list \<Rightarrow> mpu6050_data" where
  "mpu6050_parse b =
     \<lparr>accel_x = be16 (b ! 0) (b ! 1), accel_y = be16 (b ! 2) (b ! 3), accel_z = be16 (b ! 4) (b ! 5),
      temp_raw = be16 (b ! 6) (b ! 7), gyro_x = be16 (b ! 8) (b ! 9), gyro_y = be16 (b ! 10) (b ! 11),
      gyro_z = be16 (b ! 12) (b ! 13)\<rparr>"

text \<open>\<open>stack\<close>: the fourteen bytes of the buffer before the call.\<close>

definition mpu6050_read ::
  "(nat \<Rightarrow> u32) \<Rightarrow> (nat \<Rightarrow> u32) \<Rightarrow> u8 list \<Rightarrow> mpu6050_data \<Rightarrow> i2c_io \<Rightarrow> int \<times> mpu6050_data \<times> i2c_io" where
  "mpu6050_read isr rx stack out io =
     (let (r, buf, io) = i2c_read isr rx MPU6050_ADDR 0x3B stack io in
      if r < 0 then (-1, out, io) else (0, mpu6050_parse buf, io))"

subsection \<open>BMP280\<close>

definition BMP280_ADDR :: u8 where "BMP280_ADDR = 0x76"

record bmp280_calib =
  dig_T1 :: u16
  dig_T2 :: u16
  dig_T3 :: u16
  dig_P1 :: u16
  dig_P2 :: u16
  dig_P3 :: u16
  dig_P4 :: u16
  dig_P5 :: u16
  dig_P6 :: u16
  dig_P7 :: u16
  dig_P8 :: u16
  dig_P9 :: u16

definition le16_unsigned :: "u8 \<Rightarrow> u8 \<Rightarrow> u16" where
  "le16_unsigned p0 p1 = ucast p0 OR push_bit 8 (ucast p1)"

definition bmp280_write_reg :: "(nat \<Rightarrow> u32) \<Rightarrow> u8 \<Rightarrow> u8 \<Rightarrow> i2c_io \<Rightarrow> int \<times> i2c_io" where
  "bmp280_write_reg isr reg_addr v io = i2c_write isr BMP280_ADDR [reg_addr, v] io"

definition bmp280_calibration :: "u8 list \<Rightarrow> bmp280_calib" where
  "bmp280_calibration c =
     (let w = (\<lambda>i. le16_unsigned (c ! i) (c ! (i + 1))) in
      \<lparr>dig_T1 = w 0, dig_T2 = w 2, dig_T3 = w 4, dig_P1 = w 6, dig_P2 = w 8, dig_P3 = w 10,
       dig_P4 = w 12, dig_P5 = w 14, dig_P6 = w 16, dig_P7 = w 18, dig_P8 = w 20, dig_P9 = w 22\<rparr>)"

definition bmp280_init ::
  "(nat \<Rightarrow> u32) \<Rightarrow> (nat \<Rightarrow> u32) \<Rightarrow> u8 list \<Rightarrow> bmp280_calib \<Rightarrow> i2c_io \<Rightarrow> int \<times> string \<times> bmp280_calib \<times> i2c_io" where
  "bmp280_init isr rx stack cal io =
     (let (r, chip_id, io) = i2c_read isr rx BMP280_ADDR 0xD0 [0] io;
          out = the (uart_printf (\<lambda>(_ :: unit) _. '''')
            (''[BMP280-DEBUG] i2c_read result=%d chip_id=0x%x'' @ [CHR 0x0D, CHR 0x0A, NUL])
            [ArgInt (word_of_int r), ArgInt (ucast (chip_id ! 0))])
      in if r < 0 then (-1, out, cal, io)
      else if chip_id ! 0 \<noteq> 0x58 then (-2, out, cal, io)
      else let (r, c, io) = i2c_read isr rx BMP280_ADDR 0x88 stack io in
        if r < 0 then (-1, out, cal, io)
        else let (r, io) = write_regs (bmp280_write_reg isr) [(0xF4, 0x57), (0xF5, 0x00)] io
             in (r, out, bmp280_calibration c, io))"

text \<open>The 20-bit readings.\<close>

definition adc20 :: "u8 \<Rightarrow> u8 \<Rightarrow> u8 \<Rightarrow> int" where
  "adc20 a b c = uint (push_bit 12 (ucast a :: u32) OR push_bit 4 (ucast b) OR drop_bit 4 (ucast c))"

definition bmp280_t_fine :: "bmp280_calib \<Rightarrow> int \<Rightarrow> int" where
  "bmp280_t_fine cal adc_t =
     (let T1 = uint (dig_T1 cal); T2 = sint (dig_T2 cal); T3 = sint (dig_T3 cal);
          var1_t = ((adc_t div 2 ^ 3 - T1 * 2) * T2) div 2 ^ 11;
          var2_t = ((((adc_t div 2 ^ 4 - T1) * (adc_t div 2 ^ 4 - T1)) div 2 ^ 12) * T3) div 2 ^ 14
      in var1_t + var2_t)"

definition bmp280_temperature :: "int \<Rightarrow> int" where
  "bmp280_temperature t_fine = (t_fine * 5 + 128) div 2 ^ 8"

definition bmp280_var1 :: "bmp280_calib \<Rightarrow> int \<Rightarrow> int" where
  "bmp280_var1 cal t_fine =
     (let v = t_fine - 128000;
          w = (v * v * sint (dig_P3 cal)) div 2 ^ 8 + (v * sint (dig_P2 cal)) * 2 ^ 12
      in ((2 ^ 47 + w) * uint (dig_P1 cal)) div 2 ^ 33)"

definition bmp280_var2 :: "bmp280_calib \<Rightarrow> int \<Rightarrow> int" where
  "bmp280_var2 cal t_fine =
     (let v = t_fine - 128000
      in v * v * sint (dig_P6 cal) + (v * sint (dig_P5 cal)) * 2 ^ 17 + sint (dig_P4 cal) * 2 ^ 35)"

definition bmp280_pressure :: "bmp280_calib \<Rightarrow> int \<Rightarrow> int \<Rightarrow> int" where
  "bmp280_pressure cal t_fine adc_p =
     (let var1_p = bmp280_var1 cal t_fine; var2_p = bmp280_var2 cal t_fine in
      if var1_p = 0 then 0
      else let p = 1048576 - adc_p;
               p = ((p * 2 ^ 31 - var2_p) * 3125) sdiv var1_p;
               var1_p = (sint (dig_P9 cal) * (p div 2 ^ 13) * (p div 2 ^ 13)) div 2 ^ 25;
               var2_p = (sint (dig_P8 cal) * p) div 2 ^ 19
           in (p + var1_p + var2_p) div 2 ^ 8 + sint (dig_P7 cal) * 2 ^ 4)"

record bmp280_data =
  temperature_x100 :: int
  pressure_pa_x256 :: u32

definition bmp280_compensate :: "bmp280_calib \<Rightarrow> u8 list \<Rightarrow> bmp280_data" where
  "bmp280_compensate cal b =
     (let adc_p = adc20 (b ! 0) (b ! 1) (b ! 2); adc_t = adc20 (b ! 3) (b ! 4) (b ! 5);
          t_fine = bmp280_t_fine cal adc_t
      in \<lparr>temperature_x100 = bmp280_temperature t_fine,
          pressure_pa_x256 = word_of_int (bmp280_pressure cal t_fine adc_p)\<rparr>)"

definition bmp280_read ::
  "(nat \<Rightarrow> u32) \<Rightarrow> (nat \<Rightarrow> u32) \<Rightarrow> u8 list \<Rightarrow> bmp280_calib \<Rightarrow> bmp280_data \<Rightarrow> i2c_io \<Rightarrow> int \<times> bmp280_data \<times> i2c_io" where
  "bmp280_read isr rx stack cal out io =
     (let (r, buf, io) = i2c_read isr rx BMP280_ADDR 0xF7 stack io in
      if r < 0 then (-1, out, io) else (0, bmp280_compensate cal buf, io))"

text \<open>
  The averaging loop; a reading is the outcome of one \<open>bmp280_read\<close>, the delay between the
  readings is left out. The new reference is returned, or nothing when every reading failed.
\<close>

fun zero_loop :: "u32 option list \<Rightarrow> int \<times> u8 \<Rightarrow> int \<times> u8" where
  "zero_loop [] s = s"
| "zero_loop (None # rs) s = zero_loop rs s"
| "zero_loop (Some p # rs) (acc, got) = zero_loop rs (acc + uint p, got + 1)"

definition bmp280_zero_altitude :: "u8 \<Rightarrow> (nat \<Rightarrow> u32 option) \<Rightarrow> u32 option" where
  "bmp280_zero_altitude num_samples reading =
     (let num_samples = (if num_samples = 0 then 1 else num_samples);
          (acc, got) = zero_loop (map reading [0..<unat num_samples]) (0, 0)
      in if got = 0 then None else Some (word_of_int (acc sdiv uint got)))"

subsection \<open>Bytes and values\<close>

lemma be16_of_bytes: "be16 (ucast (drop_bit 8 (w :: u16))) (ucast w) = w"
  by (rule bit_word_eqI) (auto simp: be16_def bit_simps)

lemma le16_of_bytes: "le16_unsigned (ucast (w :: u16)) (ucast (drop_bit 8 w)) = w"
  by (rule bit_word_eqI) (auto simp: le16_unsigned_def bit_simps)

definition be_bytes :: "u16 \<Rightarrow> u8 list" where
  "be_bytes w = [ucast (drop_bit 8 w), ucast w]"

definition le_bytes :: "u16 \<Rightarrow> u8 list" where
  "le_bytes w = [ucast w, ucast (drop_bit 8 w)]"

text \<open>The data registers of the sensors, in address order.\<close>

definition imu_registers :: "mpu6050_data \<Rightarrow> u8 list" where
  "imu_registers d = concat (map be_bytes [accel_x d, accel_y d, accel_z d, temp_raw d, gyro_x d, gyro_y d, gyro_z d])"

definition calib_registers :: "bmp280_calib \<Rightarrow> u8 list" where
  "calib_registers c = concat (map le_bytes [dig_T1 c, dig_T2 c, dig_T3 c, dig_P1 c, dig_P2 c, dig_P3 c,
     dig_P4 c, dig_P5 c, dig_P6 c, dig_P7 c, dig_P8 c, dig_P9 c])"

lemma mpu6050_parse_registers: "mpu6050_parse (imu_registers d) = d"
  by (cases d) (simp add: mpu6050_parse_def imu_registers_def be_bytes_def be16_of_bytes)

lemma bmp280_calibration_registers: "bmp280_calibration (calib_registers c) = c"
  by (cases c) (simp add: bmp280_calibration_def calib_registers_def le_bytes_def le16_of_bytes Let_def)

definition sends :: "(nat \<Rightarrow> u32) \<Rightarrow> nat \<Rightarrow> u8 list \<Rightarrow> bool" where
  "sends rx n bs \<longleftrightarrow> (\<forall>i < length bs. rx_byte rx (n + i) = bs ! i)"

lemma rx_byte_ucast: "rx_byte (\<lambda>i. ucast (b i :: u8)) i = b i"
proof -
  have m: "(0xFF :: u32) = mask 8" by (simp add: mask_eq_exp_minus_1)
  show ?thesis unfolding rx_byte_def m by (rule bit_word_eqI) (simp add: bit_simps)
qed

lemma sends_append: "sends rx n (a @ b) \<Longrightarrow> sends rx n a \<and> sends rx (n + length a) b"
proof -
  assume s: "sends rx n (a @ b)"
  have "rx_byte rx (n + i) = a ! i" if "i < length a" for i
    using s that by (auto simp: sends_def nth_append dest: spec [of _ i])
  moreover have "rx_byte rx (n + length a + i) = b ! i" if "i < length b" for i
    using s that by (auto simp: sends_def add.assoc dest: spec [of _ "length a + i"])
  ultimately show ?thesis by (simp add: sends_def)
qed

lemma sends_map: "sends rx n bs \<Longrightarrow> map (\<lambda>i. rx_byte rx (n + i)) [0..<length bs] = bs"
  by (rule nth_equalityI) (simp_all add: sends_def)

lemma i2c_read_sends:
  assumes "bus_ok isr" and "sends rx (rx_reads io) bs" and "length buf = length bs"
  shows "\<exists>io'. i2c_read isr rx addr reg_addr buf io = (0, bs, io') \<and> rx_reads io' = rx_reads io + length bs"
  using i2c_read_ok [OF assms(1), of rx addr reg_addr buf io] sends_map [OF assms(2)] assms(3) by auto

text \<open>
  Reading the IMU returns what the sensor measured. On a bus that answers, when the sensor
  sends its fourteen data registers, each of the seven 16-bit values arrives with its high byte
  first and is put together unchanged, whatever the buffer held before.
\<close>

theorem mpu6050_read_round_trip:
  assumes "bus_ok isr" and "length stack = 14" and "sends rx (rx_reads io) (imu_registers d)"
  shows "\<exists>io'. mpu6050_read isr rx stack out io = (0, d, io') \<and> rx_reads io' = rx_reads io + 14"
proof -
  have l: "length (imu_registers d) = 14" by (simp add: imu_registers_def be_bytes_def)
  obtain io' where "i2c_read isr rx MPU6050_ADDR 0x3B stack io = (0, imu_registers d, io')"
    "rx_reads io' = rx_reads io + 14"
    using i2c_read_sends [OF assms(1,3), of stack] assms(2) l by auto
  then show ?thesis by (simp add: mpu6050_read_def mpu6050_parse_registers)
qed

definition demo_imu :: mpu6050_data where
  "demo_imu = \<lparr>accel_x = 0xFFF6, accel_y = 0x4000, accel_z = 3, temp_raw = 4, gyro_x = 5, gyro_y = 6, gyro_z = 0x8000\<rparr>"

lemma mpu6050_read_round_trip_witness:
  "\<exists>io'. mpu6050_read idle_bus (\<lambda>i. ucast (imu_registers demo_imu ! i)) (replicate 14 0) undefined fresh_io
     = (0, demo_imu, io')"
proof -
  have l: "length (imu_registers demo_imu) = 14" by (simp add: imu_registers_def be_bytes_def)
  have s: "sends (\<lambda>i. ucast (imu_registers demo_imu ! i)) (rx_reads fresh_io) (imu_registers demo_imu)"
    by (simp add: sends_def fresh_io_def rx_byte_ucast)
  show ?thesis using mpu6050_read_round_trip [OF idle_bus_ok _ s, of "replicate 14 0"] by auto
qed

subsection \<open>The barometer\<close>

lemma write_regs_ok:
  assumes "\<And>r v io. \<exists>io'. wr r v io = (0, io') \<and> rx_reads io' = rx_reads io"
  shows "\<exists>io'. write_regs wr rs io = (0, io') \<and> rx_reads io' = rx_reads io"
proof (induction rs arbitrary: io)
  case (Cons rv rs)
  obtain r v where "rv = (r, v)" by force
  moreover obtain io1 where "wr r v io = (0, io1)" "rx_reads io1 = rx_reads io" using assms by blast
  ultimately show ?case using Cons [of io1] by simp
qed simp

lemma bmp280_init_ok:
  assumes "bus_ok isr" and "length stack = 24" and "sends rx (rx_reads io) (0x58 # calib_registers c)"
  shows "\<exists>out io'. bmp280_init isr rx stack cal io = (0, out, c, io') \<and> rx_reads io' = rx_reads io + 25"
proof -
  have l: "length (calib_registers c) = 24" by (simp add: calib_registers_def le_bytes_def)
  have s: "sends rx (rx_reads io) [0x58]" "sends rx (rx_reads io + 1) (calib_registers c)"
    using sends_append [of rx "rx_reads io" "[0x58]" "calib_registers c"] assms(3) by simp_all
  obtain io1 where r1: "i2c_read isr rx BMP280_ADDR 0xD0 [0] io = (0, [0x58], io1)" "rx_reads io1 = rx_reads io + 1"
    using i2c_read_sends [OF assms(1) s(1), of "[0]"] by auto
  obtain io2 where r2: "i2c_read isr rx BMP280_ADDR 0x88 stack io1 = (0, calib_registers c, io2)"
    "rx_reads io2 = rx_reads io + 25"
    using i2c_read_sends [OF assms(1), of rx io1 "calib_registers c" stack BMP280_ADDR "0x88"] s(2) assms(2) l
    by (auto simp: r1(2) add.commute)
  have w: "\<exists>io'. bmp280_write_reg isr r v io = (0, io') \<and> rx_reads io' = rx_reads io" for r v io
    using i2c_write_ok [OF assms(1)] i2c_write_trace unfolding bmp280_write_reg_def by blast
  obtain io3 where "write_regs (bmp280_write_reg isr) [(0xF4, 0x57), (0xF5, 0x00)] io2 = (0, io3)" "rx_reads io3 = rx_reads io2"
    using write_regs_ok [of "bmp280_write_reg isr", OF w] by blast
  then show ?thesis
    using r1 r2 by (simp add: bmp280_init_def Let_def bmp280_calibration_registers)
qed

text \<open>The worked example of the sensor's datasheet.\<close>

definition datasheet_calib :: bmp280_calib where
  "datasheet_calib = \<lparr>dig_T1 = 27504, dig_T2 = 26435, dig_T3 = - 1000, dig_P1 = 36477, dig_P2 = - 10685,
     dig_P3 = 3024, dig_P4 = 2855, dig_P5 = 140, dig_P6 = - 7, dig_P7 = 15500, dig_P8 = - 14600, dig_P9 = 6000\<rparr>"

definition datasheet_adc :: "u8 list" where
  "datasheet_adc = [0x65, 0x5A, 0xC0, 0x7E, 0xED, 0x00]"

lemma datasheet_values:
  "bmp280_t_fine datasheet_calib 519888 = 128422" "bmp280_temperature 128422 = 2508"
  "bmp280_pressure datasheet_calib 128422 415148 = 25767233"
  by (simp_all add: bmp280_t_fine_def bmp280_temperature_def bmp280_pressure_def bmp280_var1_def bmp280_var2_def
      datasheet_calib_def Let_def signed_divide_int_def)

lemma datasheet_compensated:
  "bmp280_compensate datasheet_calib datasheet_adc = \<lparr>temperature_x100 = 2508, pressure_pa_x256 = 25767233\<rparr>"
proof -
  have "adc20 0x65 0x5A 0xC0 = 415148" "adc20 0x7E 0xED 0x00 = 519888" by (simp_all add: adc20_def)
  then show ?thesis
    by (simp add: bmp280_compensate_def datasheet_adc_def datasheet_values Let_def)
qed

text \<open>
  The barometer's way from its registers to the values. On a bus that answers, a sensor
  that identifies as a BMP280 and sends its calibration registers is set up with exactly these
  coefficients, and a read then returns the compensation of the six data bytes it sends. For
  the coefficients and readings of the datasheet's worked example that is 25.08 degrees and
  100653.25 Pa (the datasheet's floating-point value is 100653.27).
\<close>

theorem bmp280_reads_compensated:
  assumes "bus_ok isr" and "length stack = 24" and "length stack' = 6" and "length b = 6"
    and "sends rx (rx_reads io) (0x58 # calib_registers c @ b)"
  shows "\<exists>out io1 io2. bmp280_init isr rx stack cal io = (0, out, c, io1)
    \<and> bmp280_read isr rx stack' c d io1 = (0, bmp280_compensate c b, io2)
    \<and> (c = datasheet_calib \<and> b = datasheet_adc
        \<longrightarrow> bmp280_compensate c b = \<lparr>temperature_x100 = 2508, pressure_pa_x256 = 25767233\<rparr>)"
proof -
  have l: "length (calib_registers c) = 24" by (simp add: calib_registers_def le_bytes_def)
  have s: "sends rx (rx_reads io) (0x58 # calib_registers c)" "sends rx (rx_reads io + 25) b"
    using sends_append [of rx "rx_reads io" "0x58 # calib_registers c" b] assms(5) l by simp_all
  obtain out io1 where i: "bmp280_init isr rx stack cal io = (0, out, c, io1)" "rx_reads io1 = rx_reads io + 25"
    using bmp280_init_ok [OF assms(1,2) s(1)] by blast
  obtain io2 where "i2c_read isr rx BMP280_ADDR 0xF7 stack' io1 = (0, b, io2)"
    using i2c_read_sends [OF assms(1), of rx io1 b stack'] s(2) i(2) assms(3,4) by auto
  then have "bmp280_read isr rx stack' c d io1 = (0, bmp280_compensate c b, io2)" by (simp add: bmp280_read_def)
  then show ?thesis using i(1) datasheet_compensated by blast
qed

lemma bmp280_reads_compensated_witness:
  "\<exists>out io1 io2. bmp280_init idle_bus (\<lambda>i. ucast ((0x58 # calib_registers datasheet_calib @ datasheet_adc) ! i))
      (replicate 24 0) undefined fresh_io = (0, out, datasheet_calib, io1)
    \<and> bmp280_read idle_bus (\<lambda>i. ucast ((0x58 # calib_registers datasheet_calib @ datasheet_adc) ! i))
      (replicate 6 0) datasheet_calib undefined io1 = (0, \<lparr>temperature_x100 = 2508, pressure_pa_x256 = 25767233\<rparr>, io2)"
proof -
  let ?bs = "0x58 # calib_registers datasheet_calib @ datasheet_adc"
  have s: "sends (\<lambda>i. ucast (?bs ! i)) (rx_reads fresh_io) ?bs"
    by (simp add: sends_def fresh_io_def rx_byte_ucast)
  have "length datasheet_adc = 6" by (simp add: datasheet_adc_def)
  from bmp280_reads_compensated [OF idle_bus_ok _ _ this s, of "replicate 24 0" "replicate 6 0" undefined undefined]
  show ?thesis by auto
qed

subsection \<open>The reference pressure\<close>

definition good :: "(nat \<Rightarrow> u32 option) \<Rightarrow> nat \<Rightarrow> int list" where
  "good reading n = map (\<lambda>i. uint (the (reading i))) (filter (\<lambda>i. reading i \<noteq> None) [0..<n])"

lemma zero_loop_sum:
  "zero_loop rs (acc, got) = (acc + sum_list (map (uint \<circ> the) (filter (\<lambda>r. r \<noteq> None) rs)),
     got + of_nat (length (filter (\<lambda>r. r \<noteq> None) rs)))"
  by (induction rs "(acc, got)" arbitrary: acc got rule: zero_loop.induct) (auto simp: algebra_simps)

text \<open>
  bmp280_zero_altitude sets the reference to the mean, rounded down, of the readings that
  succeeded, fails just when none did, and takes one reading when asked for none.
\<close>

theorem bmp280_zero_altitude_mean:
  "let n = max 1 (unat num_samples) in
   bmp280_zero_altitude num_samples reading =
     (if good reading n = [] then None
      else Some (word_of_int (sum_list (good reading n) div int (length (good reading n)))))"
proof -
  let ?n = "if num_samples = 0 then 1 else num_samples"
  have n: "unat ?n = max 1 (unat num_samples)" by (auto simp: max_def word_unat_eq_iff)
  define m where "m = max 1 (unat num_samples)"
  have m: "m < 256" using unsigned_less [of ?n, where 'a = nat] n by (simp add: m_def)
  let ?k = "length (good reading m)"
  have k: "?k \<le> m" by (simp add: good_def) (metis length_filter_le length_upt minus_nat.diff_0)
  have g: "map (uint \<circ> the) (filter (\<lambda>r. r \<noteq> None) (map reading [0..<m])) = good reading m"
    "length (filter (\<lambda>r. r \<noteq> None) (map reading [0..<m])) = ?k"
    by (simp_all add: good_def filter_map comp_def)
  have z: "zero_loop (map reading [0..<m]) (0, 0) = (sum_list (good reading m), of_nat ?k)"
    unfolding zero_loop_sum g by simp
  have u: "uint (of_nat ?k :: u8) = int ?k" using k m by (simp add: unsigned_of_nat take_bit_nat_eq_self)
  have k0: "(of_nat ?k :: u8) = 0 \<longleftrightarrow> good reading m = []"
    using k m by (auto simp: word_of_nat_eq_0_iff dest: dvd_imp_le)
  have "0 \<le> sum_list (good reading m)" by (rule sum_list_nonneg) (auto simp: good_def)
  then have d: "sum_list (good reading m) sdiv int ?k = sum_list (good reading m) div int ?k"
    by (simp add: signed_divide_int_def sgn_if)
  show ?thesis
    unfolding bmp280_zero_altitude_def Let_def n m_def [symmetric] z by (simp add: k0 u d)
qed

end
