(* ===== verification/Eth.thy ===== *)
theory Eth
  imports Mmio UartStm
begin

text \<open>
  \<open>drivers/network/stm32h753zi/eth.c\<close>: the Ethernet MAC and its DMA rings. The descriptors and
  buffers are lists of the driver's state, its registers a map of words; where the linker puts
  the rings is a parameter. The DMA engine takes a transmit descriptor it owns, or fills a
  receive descriptor it owns, and gives it back by clearing the OWN bit.
\<close>

definition ETH_NUM_TX_DESC :: nat where "ETH_NUM_TX_DESC = 2"
definition ETH_NUM_RX_DESC :: nat where "ETH_NUM_RX_DESC = 4"
definition ETH_BUF_SIZE :: nat where "ETH_BUF_SIZE = 1536"
definition ETH_BASE :: u32 where "ETH_BASE = 0x40028000"
definition MDIO_CR_VALUE :: u32 where "MDIO_CR_VALUE = 4"
definition ETH_AF :: u32 where "ETH_AF = 11"

definition ETH_MACCR :: u32 where "ETH_MACCR = ETH_BASE + 0x0000"
definition ETH_MACA0HR :: u32 where "ETH_MACA0HR = ETH_BASE + 0x0300"
definition ETH_MACA0LR :: u32 where "ETH_MACA0LR = ETH_BASE + 0x0304"
definition ETH_MACMDIOAR :: u32 where "ETH_MACMDIOAR = ETH_BASE + 0x0200"
definition ETH_MACMDIODR :: u32 where "ETH_MACMDIODR = ETH_BASE + 0x0204"
definition ETH_MTLRXQOMR :: u32 where "ETH_MTLRXQOMR = ETH_BASE + 0x0D30"
definition ETH_DMAMR :: u32 where "ETH_DMAMR = ETH_BASE + 0x1000"
definition ETH_DMACCR :: u32 where "ETH_DMACCR = ETH_BASE + 0x1100"
definition ETH_DMACTXCR :: u32 where "ETH_DMACTXCR = ETH_BASE + 0x1104"
definition ETH_DMACRXCR :: u32 where "ETH_DMACRXCR = ETH_BASE + 0x1108"
definition ETH_DMACTXDLAR :: u32 where "ETH_DMACTXDLAR = ETH_BASE + 0x1114"
definition ETH_DMACRXDLAR :: u32 where "ETH_DMACRXDLAR = ETH_BASE + 0x111C"
definition ETH_DMACTXDTPR :: u32 where "ETH_DMACTXDTPR = ETH_BASE + 0x1120"
definition ETH_DMACRXDTPR :: u32 where "ETH_DMACRXDTPR = ETH_BASE + 0x1128"
definition ETH_DMACTXRLR :: u32 where "ETH_DMACTXRLR = ETH_BASE + 0x112C"
definition ETH_DMACRXRLR :: u32 where "ETH_DMACRXRLR = ETH_BASE + 0x1130"
definition ETH_DMACSR :: u32 where "ETH_DMACSR = ETH_BASE + 0x1160"

record eth_descriptor =
  des0 :: u32
  des1 :: u32
  des2 :: u32
  des3 :: u32

record eth_layout =
  tx_desc_at :: u32
  rx_desc_at :: u32
  tx_buf_at :: u32
  rx_buf_at :: u32

record eth =
  tx_desc :: "eth_descriptor list"
  rx_desc :: "eth_descriptor list"
  tx_buf :: "u8 list list"
  rx_buf :: "u8 list list"
  tx_index :: u8
  rx_index :: u8
  eth_regs :: mmio

definition desc_addr :: "u32 \<Rightarrow> nat \<Rightarrow> u32" where
  "desc_addr base i = base + 16 * of_nat i"

definition buf_addr :: "u32 \<Rightarrow> nat \<Rightarrow> u32" where
  "buf_addr base i = base + of_nat (ETH_BUF_SIZE * i)"

subsection \<open>Management interface\<close>

text \<open>
  \<open>while (busy) { if (--timeout == 0) return; }\<close>: the reading at which the code goes on, or
  nothing.
\<close>

function poll_predec :: "(nat \<Rightarrow> bool) \<Rightarrow> nat \<Rightarrow> u32 \<Rightarrow> nat option" where
  "poll_predec busy i t =
     (if busy i then (if t - 1 = 0 then None else poll_predec busy (i + 1) (t - 1)) else Some i)"
  by pat_completeness auto
termination
proof (relation "measure (\<lambda>(_, _, t). unat (t - 1))", goal_cases)
  case (2 busy i t)
  then have n: "t - 1 \<noteq> 0" by blast
  then have "unat (t - 1) \<noteq> 0" by (simp only: unat_eq_0) simp
  then show ?case unfolding in_measure case_prod_conv using unat_minus_one32 [OF n] by linarith
qed simp

declare poll_predec.simps [simp del]

definition mdio_read :: "u8 \<Rightarrow> u8 \<Rightarrow> (nat \<Rightarrow> bool) \<Rightarrow> u32 \<Rightarrow> mmio \<Rightarrow> u16 \<times> mmio" where
  "mdio_read phy_addr reg_addr busy dr m =
     (let m = mm_write ETH_MACMDIOAR (push_bit 21 (ucast phy_addr) OR push_bit 16 (ucast reg_addr)
                OR push_bit 8 MDIO_CR_VALUE OR push_bit 2 3 OR 1) m in
      case poll_predec busy 0 100000 of None \<Rightarrow> (0xFFFF, m) | Some _ \<Rightarrow> (ucast (dr AND 0xFFFF), m))"

definition mdio_write :: "u8 \<Rightarrow> u8 \<Rightarrow> u16 \<Rightarrow> mmio \<Rightarrow> mmio" where
  "mdio_write phy_addr reg_addr v m =
     mm_write ETH_MACMDIOAR (push_bit 21 (ucast phy_addr) OR push_bit 16 (ucast reg_addr)
       OR push_bit 8 MDIO_CR_VALUE OR push_bit 2 1 OR 1) (mm_write ETH_MACMDIODR (ucast v) m)"

subsection \<open>Initialisation\<close>

definition gpio_set_af_eth :: "u32 \<Rightarrow> u8 \<Rightarrow> mmio \<Rightarrow> mmio" where
  "gpio_set_af_eth port_base pin m =
     (let p = unat pin;
          m = mm_clear port_base (push_bit (p * 2) 3) m;
          m = mm_or port_base (push_bit (p * 2) 2) m
      in if p < 8
         then mm_or (port_base + 0x20) (push_bit (p * 4) ETH_AF) (mm_clear (port_base + 0x20) (push_bit (p * 4) 0xF) m)
         else let shift = (p - 8) * 4
              in mm_or (port_base + 0x24) (push_bit shift ETH_AF) (mm_clear (port_base + 0x24) (push_bit shift 0xF) m))"

definition eth_configure_dma_region_noncacheable :: "u32 \<Rightarrow> mmio \<Rightarrow> mmio" where
  "eth_configure_dma_region_noncacheable base m =
     (let m = mm_clear 0xE000ED94 1 m;
          m = mm_write 0xE000ED98 6 m;
          m = mm_write 0xE000ED9C base m;
          m = mm_write 0xE000EDA0 (push_bit 28 1 OR push_bit 24 3 OR push_bit 19 1 OR push_bit 1 12 OR 1) m
      in mm_or 0xE000ED94 (push_bit 0 1 OR push_bit 2 1) m)"

definition eth_pins :: "mmio \<Rightarrow> mmio" where
  "eth_pins m = fold (\<lambda>(port, pin). gpio_set_af_eth port pin)
     [(0x58020000, 1), (0x58020000, 2), (0x58020000, 7), (0x58020400, 13), (0x58020800, 1),
      (0x58020800, 4), (0x58020800, 5), (0x58021800, 11), (0x58021800, 13)] m"

definition RX_DESC_FREE :: u32 where
  "RX_DESC_FREE = push_bit 31 1 OR push_bit 30 1 OR push_bit 24 1"

text \<open>\<open>swr i\<close>: whether the \<open>i\<close>-th poll still sees the software reset bit.\<close>

definition eth_init :: "eth_layout \<Rightarrow> bool \<Rightarrow> (nat \<Rightarrow> bool) \<Rightarrow> eth \<Rightarrow> eth" where
  "eth_init lay loopback_mode swr s =
     (let m = eth_configure_dma_region_noncacheable (desc_addr (tx_desc_at lay) 0) (eth_regs s);
          m = mm_or 0x580244E0 (push_bit 0 1 OR push_bit 1 1 OR push_bit 2 1 OR push_bit 6 1) m;
          m = mm_or 0x580244F4 (push_bit 1 1) m;
          m = mm_write 0x58000404 ((m 0x58000404 AND NOT (push_bit 21 7)) OR push_bit 21 4) m;
          m = mm_or 0x580244D8 (push_bit 15 1 OR push_bit 16 1 OR push_bit 17 1) m;
          m = eth_pins m;
          m = mm_or ETH_DMAMR 1 m
      in case poll_predec swr 0 100000 of
        None \<Rightarrow> s\<lparr>eth_regs := m\<rparr>
      | Some _ \<Rightarrow>
         let m = mm_write ETH_DMACCR 0 m;
             maccr = push_bit 14 1 OR push_bit 13 1;
             maccr = (if loopback_mode then maccr OR push_bit 12 1 else maccr);
             m = mm_write ETH_MACCR maccr m;
             m = mm_write ETH_MACA0HR (push_bit 31 1 OR 0x0100) m;
             m = mm_write ETH_MACA0LR 0x00000002 m;
             txd = map (\<lambda>i. \<lparr>des0 = buf_addr (tx_buf_at lay) i, des1 = 0, des2 = 0, des3 = 0\<rparr>) [0..<ETH_NUM_TX_DESC];
             m = mm_write ETH_DMACTXDLAR (desc_addr (tx_desc_at lay) 0) m;
             m = mm_write ETH_DMACTXRLR (of_nat ETH_NUM_TX_DESC - 1) m;
             m = mm_write ETH_DMACTXDTPR (desc_addr (tx_desc_at lay) 0) m;
             m = mm_or ETH_MTLRXQOMR (push_bit 5 1) m;
             rxd = map (\<lambda>i. \<lparr>des0 = buf_addr (rx_buf_at lay) i, des1 = 0, des2 = 0, des3 = RX_DESC_FREE\<rparr>)
                     [0..<ETH_NUM_RX_DESC];
             m = mm_write ETH_DMACRXDLAR (desc_addr (rx_desc_at lay) 0) m;
             m = mm_write ETH_DMACRXRLR (of_nat ETH_NUM_RX_DESC - 1) m;
             m = mm_write ETH_DMACRXDTPR (desc_addr (rx_desc_at lay) (ETH_NUM_RX_DESC - 1)) m;
             m = mm_or ETH_DMACTXCR 1 m;
             m = mm_write ETH_DMACRXCR (push_bit 16 1 OR push_bit 1 (of_nat ETH_BUF_SIZE) OR 1) m;
             m = mm_or ETH_MACCR (push_bit 1 1 OR push_bit 0 1) m
         in s\<lparr>tx_desc := txd, rx_desc := rxd, eth_regs := m\<rparr>)"

subsection \<open>Transmit and receive\<close>

definition owned :: "eth_descriptor \<Rightarrow> bool" where
  "owned d \<longleftrightarrow> des3 d AND push_bit 31 1 \<noteq> 0"

text \<open>\<open>own i\<close>: the OWN bit of the descriptor at the \<open>i\<close>-th poll.\<close>

definition eth_transmit :: "eth_layout \<Rightarrow> (nat \<Rightarrow> bool) \<Rightarrow> u8 list \<Rightarrow> eth \<Rightarrow> int \<times> eth" where
  "eth_transmit lay own data s =
     (if length data > ETH_BUF_SIZE then (-1, s)
      else let i = unat (tx_index s) in
        case poll_predec own 0 100000 of
          None \<Rightarrow> (-1, s)
        | Some _ \<Rightarrow>
          (0, s\<lparr>tx_buf := (tx_buf s)[i := data @ drop (length data) (tx_buf s ! i)],
                tx_desc := (tx_desc s)[i := \<lparr>des0 = buf_addr (tx_buf_at lay) i, des1 = 0,
                   des2 = push_bit 31 1 OR (of_nat (length data) AND 0x3FFF),
                   des3 = push_bit 31 1 OR push_bit 29 1 OR push_bit 28 1 OR (of_nat (length data) AND 0x7FFF)\<rparr>],
                eth_regs := mm_write ETH_DMACTXDTPR (desc_addr (tx_desc_at lay) i) (eth_regs s),
                tx_index := (tx_index s + 1) mod of_nat ETH_NUM_TX_DESC\<rparr>))"

text \<open>\<open>buf\<close>: the caller's buffer, of \<open>max_len\<close> bytes; the second result is \<open>*out_len\<close>.\<close>

definition eth_receive :: "eth_layout \<Rightarrow> u8 list \<Rightarrow> u16 \<Rightarrow> u16 \<Rightarrow> eth \<Rightarrow> int \<times> u8 list \<times> u16 \<times> eth" where
  "eth_receive lay buf max_len out_len s =
     (let i = unat (rx_index s); d = rx_desc s ! i in
      if owned d then (-1, buf, out_len, s)
      else let pkt_len = ucast (des3 d AND 0x7FFF);
               pkt_len = (if pkt_len > max_len then max_len else pkt_len)
           in (0, take (unat pkt_len) (rx_buf s ! i) @ drop (unat pkt_len) buf, pkt_len,
               s\<lparr>rx_desc := (rx_desc s)[i := d\<lparr>des3 := RX_DESC_FREE\<rparr>],
                 eth_regs := mm_write ETH_DMACRXDTPR (desc_addr (rx_desc_at lay) i) (eth_regs s),
                 rx_index := (rx_index s + 1) mod of_nat ETH_NUM_RX_DESC\<rparr>))"

definition eth_debug_read_dmacsr :: "eth \<Rightarrow> u32" where
  "eth_debug_read_dmacsr s = eth_regs s ETH_DMACSR"

definition eth_debug_clear_dmacsr :: "u32 \<Rightarrow> eth \<Rightarrow> eth" where
  "eth_debug_clear_dmacsr msk s = s\<lparr>eth_regs := mm_write ETH_DMACSR msk (eth_regs s)\<rparr>"

definition eth_debug_read_rx_des3 :: "u8 \<Rightarrow> eth \<Rightarrow> u32" where
  "eth_debug_read_rx_des3 i s = (if unat i \<ge> ETH_NUM_RX_DESC then 0xFFFFFFFF else des3 (rx_desc s ! unat i))"

definition eth_dump_line :: "string \<Rightarrow> u32 \<Rightarrow> string" where
  "eth_dump_line name v = the (uart_printf (\<lambda>(_ :: unit) _. '''')
     (''[ETH-DUMP] '' @ name @ ''=0x%X'' @ [CHR 0x0D, CHR 0x0A, NUL]) [ArgInt v])"

definition eth_debug_dump_registers :: "eth \<Rightarrow> string" where
  "eth_debug_dump_registers s = concat (map (\<lambda>(name, a). eth_dump_line name (eth_regs s a))
     [(''MACCR'', ETH_MACCR), (''DMAMR'', ETH_DMAMR), (''DMACCR'', ETH_DMACCR), (''DMACTXCR'', ETH_DMACTXCR),
      (''DMACRXCR'', ETH_DMACRXCR), (''DMACRXDLAR'', ETH_DMACRXDLAR), (''DMACRXRLR'', ETH_DMACRXRLR),
      (''DMACRXDTPR'', ETH_DMACRXDTPR), (''MTLRXQOMR'', ETH_MTLRXQOMR), (''DMACSR'', ETH_DMACSR)])"

subsection \<open>A ring of descriptors as a queue\<close>

text \<open>
  \<open>ring_holds n d p full pkt q\<close>: in a ring of \<open>n\<close> slots, read at \<open>d\<close> and written at \<open>p\<close>, the
  full slots from \<open>d\<close> on hold the elements of \<open>q\<close>, and the others are free.
\<close>

definition ring_holds :: "nat \<Rightarrow> nat \<Rightarrow> nat \<Rightarrow> (nat \<Rightarrow> bool) \<Rightarrow> (nat \<Rightarrow> 'a) \<Rightarrow> 'a list \<Rightarrow> bool" where
  "ring_holds n d p full pkt q \<longleftrightarrow> d < n \<and> length q \<le> n \<and> p = (d + length q) mod n
     \<and> (\<forall>j < n. full ((d + j) mod n) \<longleftrightarrow> j < length q) \<and> (\<forall>j < length q. pkt ((d + j) mod n) = q ! j)"

lemma ring_holds_slot_inj: "i < n \<Longrightarrow> j < n \<Longrightarrow> (d + i) mod n = (d + j) mod n \<longleftrightarrow> i = (j :: nat)"
  by (metis mod_add_inj)

lemma ring_holds_full: "ring_holds n d p full pkt q \<Longrightarrow> full p \<longleftrightarrow> length q = n"
proof -
  assume r: "ring_holds n d p full pkt q"
  show ?thesis
  proof (cases "length q < n")
    case True
    then show ?thesis using r by (auto simp: ring_holds_def)
  next
    case False
    then have "length q = n" "0 < n" using r by (auto simp: ring_holds_def)
    then have "p = (d + 0) mod n" using r by (simp add: ring_holds_def)
    then show ?thesis using r \<open>length q = n\<close> \<open>0 < n\<close> by (metis ring_holds_def)
  qed
qed

lemma ring_holds_push:
  assumes "ring_holds n d p full pkt q" and "length q < n"
    and "full' = full(p := True)" and "pkt' = pkt(p := x)" and "p' = (p + 1) mod n"
  shows "ring_holds n d p' full' pkt' (q @ [x])"
proof -
  have p: "p = (d + length q) mod n" using assms(1) by (simp add: ring_holds_def)
  have s: "(d + j) mod n = p \<longleftrightarrow> j = length q" if "j < n" for j
    unfolding p using ring_holds_slot_inj [OF that assms(2)] by simp
  have f: "full' ((d + j) mod n) \<longleftrightarrow> j < Suc (length q)" if "j < n" for j
    using assms(1,3) s [OF that] that by (auto simp: ring_holds_def less_Suc_eq)
  have k: "pkt' ((d + j) mod n) = (q @ [x]) ! j" if "j < Suc (length q)" for j
    using assms(1,2,4) s [of j] that by (auto simp: ring_holds_def nth_append less_Suc_eq)
  have "p' = (d + Suc (length q)) mod n" unfolding assms(5) p by (simp add: mod_simps)
  then show ?thesis
    using assms(1,2) f k by (simp add: ring_holds_def)
qed

lemma ring_holds_pop:
  assumes "ring_holds n d p full pkt (x # q)" and "full' = full(d := False)" and "d' = (d + 1) mod n"
    and "\<And>i. i \<noteq> d \<Longrightarrow> pkt' i = pkt i"
  shows "full d \<and> pkt d = x \<and> ring_holds n d' p full' pkt' q"
proof -
  have d: "d < n" "Suc (length q) \<le> n" using assms(1) by (simp_all add: ring_holds_def)
  have f: "full ((d + j) mod n) \<longleftrightarrow> j < Suc (length q)" if "j < n" for j
    using assms(1) that by (simp add: ring_holds_def)
  have k: "pkt ((d + j) mod n) = (x # q) ! j" if "j < Suc (length q)" for j
    using assms(1) that by (simp add: ring_holds_def)
  have sh: "(d' + j) mod n = (d + Suc j) mod n" for j by (simp add: assms(3) mod_simps)
  have nd: "(d + Suc j) mod n = d \<longleftrightarrow> Suc j = n" if "Suc j \<le> n" for j
    using ring_holds_slot_inj [of "Suc j" n 0 d] that d by (cases "Suc j = n") auto
  have "full' ((d' + j) mod n) \<longleftrightarrow> j < length q" if "j < n" for j
  proof (cases "Suc j = n")
    case True
    then show ?thesis using nd [of j] d(2) by (auto simp: sh assms(2))
  next
    case False
    then show ?thesis using nd [of j] f [of "Suc j"] that by (simp add: sh assms(2))
  qed
  moreover have "pkt' ((d' + j) mod n) = q ! j" if "j < length q" for j
    using k [of "Suc j"] nd [of j] that d(2) by (simp add: sh assms(4))
  moreover have "p = (d' + length q) mod n" using assms(1) by (simp add: sh ring_holds_def)
  moreover have "full d" "pkt d = x" using f [of 0] k [of 0] d by simp_all
  ultimately show ?thesis using d by (simp add: ring_holds_def assms(3))
qed

lemma ring_holds_empty: "ring_holds n d p full pkt [] \<Longrightarrow> \<not> full d"
  by (force simp: ring_holds_def)

subsection \<open>The driver and the DMA engine\<close>

lemma owned_bit: "owned d \<longleftrightarrow> bit (des3 d) 31"
  using and_exp_eq_0_iff_not_bit [of "des3 d" 31] by (simp add: owned_def)

definition eth_wf :: "eth \<Rightarrow> bool" where
  "eth_wf s \<longleftrightarrow> length (tx_desc s) = 2 \<and> length (rx_desc s) = 4 \<and> length (tx_buf s) = 2 \<and> length (rx_buf s) = 4
     \<and> (\<forall>b \<in> set (tx_buf s) \<union> set (rx_buf s). length b = ETH_BUF_SIZE)
     \<and> unat (tx_index s) < 2 \<and> unat (rx_index s) < 4
     \<and> (\<forall>d \<in> set (rx_desc s). unat (des3 d AND 0x7FFF) \<le> ETH_BUF_SIZE)"

definition frame_in :: "u32 \<Rightarrow> u8 list \<Rightarrow> u8 list" where
  "frame_in d3 b = take (unat (d3 AND 0x7FFF)) b"

definition tx_frame :: "eth \<Rightarrow> nat \<Rightarrow> u8 list" where
  "tx_frame s i = frame_in (des3 (tx_desc s ! i)) (tx_buf s ! i)"

definition rx_frame :: "eth \<Rightarrow> nat \<Rightarrow> u8 list" where
  "rx_frame s i = frame_in (des3 (rx_desc s ! i)) (rx_buf s ! i)"

definition dma_send :: "nat \<Rightarrow> eth \<Rightarrow> u8 list option \<times> nat \<times> eth" where
  "dma_send d s =
     (let e = tx_desc s ! d in
      if owned e then (Some (tx_frame s d), (d + 1) mod 2,
        s\<lparr>tx_desc := (tx_desc s)[d := e\<lparr>des3 := des3 e AND NOT (push_bit 31 1)\<rparr>]\<rparr>)
      else (None, d, s))"

definition dma_store :: "nat \<Rightarrow> u8 list \<Rightarrow> eth \<Rightarrow> bool \<times> nat \<times> eth" where
  "dma_store r f s =
     (let e = rx_desc s ! r in
      if owned e then (True, (r + 1) mod 4,
        s\<lparr>rx_buf := (rx_buf s)[r := f @ drop (length f) (rx_buf s ! r)],
          rx_desc := (rx_desc s)[r := e\<lparr>des3 := push_bit 29 1 OR push_bit 28 1 OR of_nat (length f)\<rparr>]\<rparr>)
      else (False, r, s))"

lemma len15: "n < 32768 \<Longrightarrow> unat ((of_nat n :: u32) AND 0x7FFF) = n"
proof -
  assume n: "n < 32768"
  have "(of_nat n :: u32) AND 0x7FFF = take_bit 15 (of_nat n)" by (simp add: take_bit_eq_mask mask_eq_exp_minus_1)
  then show ?thesis using n by (simp add: unsigned_take_bit_eq unat_of_nat take_bit_nat_eq_self)
qed

lemma len_field:
  assumes "n < 32768" and "f AND 0x7FFF = (0 :: u32)"
  shows "unat ((f OR of_nat n) AND 0x7FFF) = n" "unat ((f OR (of_nat n AND 0x7FFF)) AND 0x7FFF) = n"
  using assms by (simp_all add: bit.conj_disj_distrib2 len15 and.assoc)

lemma bit31_len: "n < 32768 \<Longrightarrow> \<not> bit (of_nat n :: u32) 31"
proof -
  assume "n < 32768"
  then have "n div 2 ^ 31 = 0" by simp
  then have "\<not> bit n 31" by (simp add: bit_iff_odd)
  then show ?thesis by (simp add: bit_of_nat_iff)
qed

lemma poll_predec_const: "t \<noteq> 0 \<Longrightarrow> poll_predec (\<lambda>_. b) i t = (if b then None else Some i)"
proof (induction "unat t" arbitrary: i t)
  case 0
  then show ?case by (metis unat_eq_0)
next
  case (Suc n)
  have u: "unat (t - 1) = n" using Suc by (simp add: unat_minus_one32)
  show ?case
  proof (cases "t - 1 = 0")
    case False
    then show ?thesis using Suc.hyps(1) [of "t - 1" "i + 1"] u by (subst poll_predec.simps) (cases b; simp)
  qed (subst poll_predec.simps, simp)
qed

lemma index_next: "unat (x :: u8) < n \<Longrightarrow> n \<le> 4 \<Longrightarrow> unat ((x + 1) mod of_nat n) = (unat x + 1) mod n"
  by (simp add: unat_mod unat_word_ariths unat_of_nat take_bit_nat_eq_self)


lemma transmit_full:
  assumes "length data \<le> ETH_BUF_SIZE" and "owned (tx_desc s ! unat (tx_index s))"
  shows "eth_transmit lay (\<lambda>_. owned (tx_desc s ! unat (tx_index s))) data s = (-1, s)"
  using assms by (simp add: eth_transmit_def poll_predec_const Let_def)

lemma transmit_push:
  assumes wf: "eth_wf s" and r: "ring_holds 2 d (unat (tx_index s)) (\<lambda>i. owned (tx_desc s ! i)) (tx_frame s) q"
    and "length data \<le> ETH_BUF_SIZE" and "\<not> owned (tx_desc s ! unat (tx_index s))"
  shows "\<exists>s'. eth_transmit lay (\<lambda>_. owned (tx_desc s ! unat (tx_index s))) data s = (0, s') \<and> eth_wf s'
    \<and> ring_holds 2 d (unat (tx_index s')) (\<lambda>i. owned (tx_desc s' ! i)) (tx_frame s') (q @ [data])
    \<and> rx_desc s' = rx_desc s \<and> rx_buf s' = rx_buf s \<and> rx_index s' = rx_index s"
proof -
  let ?i = "unat (tx_index s)"
  have i: "?i < 2" "length (tx_desc s) = 2" "length (tx_buf s) = 2" "length (tx_buf s ! ?i) = ETH_BUF_SIZE"
    using wf by (auto simp: eth_wf_def)
  have q: "length q < 2" using ring_holds_full [OF r] assms(4) r by (auto simp: ring_holds_def)
  have n: "unat ((tx_index s + 1) mod of_nat ETH_NUM_TX_DESC) = (?i + 1) mod 2"
    using i(1) by (simp add: ETH_NUM_TX_DESC_def index_next [of _ 2, simplified])
  have l: "length data < 32768" using assms(3) by (simp add: ETH_BUF_SIZE_def)
  define d3 where "d3 = push_bit 31 1 OR push_bit 29 1 OR push_bit 28 1 OR (of_nat (length data) AND 0x7FFF :: u32)"
  have o: "bit d3 31" by (simp add: d3_def bit_simps)
  have f: "unat (d3 AND 0x7FFF) = length data"
    unfolding d3_def or.assoc [symmetric] by (rule len_field(2) [OF l]) simp
  obtain s' where s': "eth_transmit lay (\<lambda>_. owned (tx_desc s ! ?i)) data s = (0, s')"
    "tx_buf s' = (tx_buf s)[?i := data @ drop (length data) (tx_buf s ! ?i)]"
    "tx_desc s' = (tx_desc s)[?i := \<lparr>des0 = buf_addr (tx_buf_at lay) ?i, des1 = 0,
        des2 = push_bit 31 1 OR (of_nat (length data) AND 0x3FFF), des3 = d3\<rparr>]"
    "unat (tx_index s') = (?i + 1) mod 2" "rx_desc s' = rx_desc s" "rx_buf s' = rx_buf s" "rx_index s' = rx_index s"
    using assms(3,4) n by (simp add: eth_transmit_def poll_predec_const Let_def d3_def)
  have "ring_holds 2 d (unat (tx_index s')) (\<lambda>i. owned (tx_desc s' ! i)) (tx_frame s') (q @ [data])"
  proof (rule ring_holds_push [OF r q])
    show "(\<lambda>i. owned (tx_desc s' ! i)) = (\<lambda>i. owned (tx_desc s ! i))(?i := True)"
      using i o by (auto simp: s'(3) owned_bit nth_list_update)
    show "tx_frame s' = (tx_frame s)(?i := data)"
      using i assms(3) f by (auto simp: s'(2,3) tx_frame_def frame_in_def nth_list_update fun_eq_iff)
  qed (rule s'(4))
  moreover have "eth_wf s'"
    using wf assms(3) i by (auto simp: eth_wf_def s' dest!: set_update_subset_insert [THEN subsetD])
  ultimately show ?thesis using s' by blast
qed

lemma dma_send_pop:
  assumes wf: "eth_wf s" and r: "ring_holds 2 d p (\<lambda>i. owned (tx_desc s ! i)) (tx_frame s) (f # q)"
  shows "\<exists>d' s'. dma_send d s = (Some f, d', s') \<and> eth_wf s'
    \<and> ring_holds 2 d' p (\<lambda>i. owned (tx_desc s' ! i)) (tx_frame s') q
    \<and> rx_desc s' = rx_desc s \<and> rx_buf s' = rx_buf s \<and> rx_index s' = rx_index s \<and> tx_index s' = tx_index s"
proof -
  have d: "d < 2" "length (tx_desc s) = 2" using r wf by (auto simp: ring_holds_def eth_wf_def)
  define s' where "s' = s\<lparr>tx_desc := (tx_desc s)[d := (tx_desc s ! d)\<lparr>des3 := des3 (tx_desc s ! d) AND NOT (push_bit 31 1)\<rparr>]\<rparr>"
  have "\<not> bit (des3 (tx_desc s ! d) AND NOT (push_bit 31 1)) 31" by (simp add: bit_simps)
  then have "(\<lambda>i. owned (tx_desc s' ! i)) = (\<lambda>i. owned (tx_desc s ! i))(d := False)"
    using d by (auto simp: s'_def owned_bit nth_list_update)
  from ring_holds_pop [OF r this refl, of "tx_frame s'"]
  have p: "owned (tx_desc s ! d)" "tx_frame s d = f"
    "ring_holds 2 ((d + 1) mod 2) p (\<lambda>i. owned (tx_desc s' ! i)) (tx_frame s') q"
    by (auto simp: s'_def tx_frame_def)
  have "dma_send d s = (Some f, (d + 1) mod 2, s')" using p(1,2) by (simp add: dma_send_def Let_def s'_def)
  moreover have "eth_wf s'" using wf by (simp add: eth_wf_def s'_def)
  ultimately show ?thesis using p(3) by (simp add: s'_def)
qed

lemma dma_store_push:
  assumes wf: "eth_wf s" and r: "ring_holds 4 h d (\<lambda>i. \<not> owned (rx_desc s ! i)) (rx_frame s) q"
    and f: "length f \<le> ETH_BUF_SIZE"
  shows "if length q = 4 then dma_store d f s = (False, d, s)
    else \<exists>d' s'. dma_store d f s = (True, d', s') \<and> eth_wf s'
    \<and> ring_holds 4 h d' (\<lambda>i. \<not> owned (rx_desc s' ! i)) (rx_frame s') (q @ [f])
    \<and> tx_desc s' = tx_desc s \<and> tx_buf s' = tx_buf s \<and> tx_index s' = tx_index s \<and> rx_index s' = rx_index s"
proof (cases "length q = 4")
  case True
  then show ?thesis using ring_holds_full [OF r] by (simp add: dma_store_def)
next
  case False
  then have q: "length q < 4" using r by (auto simp: ring_holds_def)
  have o: "owned (rx_desc s ! d)" using ring_holds_full [OF r] False by simp
  have d: "d < 4" using r by (auto simp: ring_holds_def)
  have i: "length (rx_desc s) = 4" "length (rx_buf s) = 4" "length (rx_buf s ! d) = ETH_BUF_SIZE"
    using wf d by (auto simp: eth_wf_def)
  have l: "length f < 32768" using f by (simp add: ETH_BUF_SIZE_def)
  define d3 where "d3 = push_bit 29 1 OR push_bit 28 1 OR (of_nat (length f) :: u32)"
  have nb: "\<not> bit d3 31" using bit31_len [OF l] by (simp add: d3_def bit_simps)
  have u: "unat (d3 AND 0x7FFF) = length f"
    unfolding d3_def or.assoc [symmetric] by (rule len_field(1) [OF l]) simp
  define s' where "s' = s\<lparr>rx_buf := (rx_buf s)[d := f @ drop (length f) (rx_buf s ! d)],
    rx_desc := (rx_desc s)[d := (rx_desc s ! d)\<lparr>des3 := d3\<rparr>]\<rparr>"
  have "ring_holds 4 h ((d + 1) mod 4) (\<lambda>i. \<not> owned (rx_desc s' ! i)) (rx_frame s') (q @ [f])"
  proof (rule ring_holds_push [OF r q])
    show "(\<lambda>i. \<not> owned (rx_desc s' ! i)) = (\<lambda>i. \<not> owned (rx_desc s ! i))(d := True)"
      using i d nb by (auto simp: s'_def owned_bit nth_list_update)
    show "rx_frame s' = (rx_frame s)(d := f)"
      using i d f u by (auto simp: s'_def rx_frame_def frame_in_def nth_list_update fun_eq_iff)
  qed simp
  moreover have "eth_wf s'"
    using wf f i u by (auto simp: eth_wf_def s'_def dest!: set_update_subset_insert [THEN subsetD])
  moreover have "dma_store d f s = (True, (d + 1) mod 4, s')"
    using o by (simp add: dma_store_def Let_def s'_def d3_def)
  ultimately show ?thesis using False by (simp add: s'_def)
qed

lemma receive_empty:
  assumes "ring_holds 4 (unat (rx_index s)) d (\<lambda>i. \<not> owned (rx_desc s ! i)) (rx_frame s) []"
  shows "eth_receive lay buf max_len out_len s = (-1, buf, out_len, s)"
  using ring_holds_empty [OF assms] by (simp add: eth_receive_def Let_def)

lemma receive_pop:
  assumes wf: "eth_wf s" and r: "ring_holds 4 (unat (rx_index s)) d (\<lambda>i. \<not> owned (rx_desc s ! i)) (rx_frame s) (f # q)"
    and b: "length buf = unat max_len"
  shows "\<exists>buf' n s'. eth_receive lay buf max_len out_len s = (0, buf', n, s') \<and> eth_wf s'
    \<and> take (unat n) buf' = take (unat max_len) f
    \<and> ring_holds 4 (unat (rx_index s')) d (\<lambda>i. \<not> owned (rx_desc s' ! i)) (rx_frame s') q
    \<and> tx_desc s' = tx_desc s \<and> tx_buf s' = tx_buf s \<and> tx_index s' = tx_index s"
proof -
  let ?i = "unat (rx_index s)"
  have i: "?i < 4" "length (rx_desc s) = 4" "length (rx_buf s ! ?i) = ETH_BUF_SIZE"
    using wf by (auto simp: eth_wf_def)
  have n: "unat ((rx_index s + 1) mod of_nat ETH_NUM_RX_DESC) = (?i + 1) mod 4"
    using i(1) by (simp add: ETH_NUM_RX_DESC_def index_next [of _ 4, simplified])
  define k where "k = unat (des3 (rx_desc s ! ?i) AND 0x7FFF)"
  have kb: "k \<le> ETH_BUF_SIZE" using wf i by (auto simp: eth_wf_def k_def)
  then have k: "k < 32768" by (simp add: ETH_BUF_SIZE_def)
  define len0 where "len0 = (ucast (des3 (rx_desc s ! ?i) AND 0x7FFF) :: u16)"
  have len0: "unat len0 = k"
    using k by (simp add: len0_def unsigned_ucast_eq k_def [symmetric] take_bit_nat_eq_self)
  define len where "len = (if len0 > max_len then max_len else len0)"
  have len: "unat len = min k (unat max_len)"
    by (auto simp: len_def word_less_nat_alt len0)
  define s' where "s' = s\<lparr>rx_desc := (rx_desc s)[?i := (rx_desc s ! ?i)\<lparr>des3 := RX_DESC_FREE\<rparr>],
    eth_regs := mm_write ETH_DMACRXDTPR (desc_addr (rx_desc_at lay) ?i) (eth_regs s),
    rx_index := (rx_index s + 1) mod of_nat ETH_NUM_RX_DESC\<rparr>"
  have "bit RX_DESC_FREE 31" by (simp add: RX_DESC_FREE_def bit_simps)
  then have "(\<lambda>i. \<not> owned (rx_desc s' ! i)) = (\<lambda>i. \<not> owned (rx_desc s ! i))(?i := False)"
    using i by (auto simp: s'_def owned_bit nth_list_update)
  from ring_holds_pop [OF r this refl, of "rx_frame s'"]
  have p: "\<not> owned (rx_desc s ! ?i)" "rx_frame s ?i = f"
    "ring_holds 4 ((?i + 1) mod 4) d (\<lambda>i. \<not> owned (rx_desc s' ! i)) (rx_frame s') q"
    by (auto simp: s'_def rx_frame_def)
  have e: "eth_receive lay buf max_len out_len s =
      (0, take (unat len) (rx_buf s ! ?i) @ drop (unat len) buf, len, s')"
    using p(1) by (simp add: eth_receive_def Let_def len_def len0_def s'_def)
  have t: "take (unat len) (take (unat len) (rx_buf s ! ?i) @ drop (unat len) buf) = take (unat max_len) f"
    using kb i(3) by (simp add: len p(2) [symmetric] rx_frame_def frame_in_def k_def [symmetric] min.commute)
  have "unat (RX_DESC_FREE AND 0x7FFF) = 0" by (simp add: RX_DESC_FREE_def)
  then have "eth_wf s'"
    using wf n i(1) by (auto simp: eth_wf_def s'_def dest!: set_update_subset_insert [THEN subsetD])
  moreover have "unat (rx_index s') = (?i + 1) mod 4" using n by (simp add: s'_def)
  ultimately show ?thesis using e t p(3) by (auto simp: s'_def)
qed

subsection \<open>The rings under any interleaving\<close>

text \<open>
  The driver next to the DMA engine, with the histories: the frames \<open>eth_transmit\<close> accepted
  and those that went out, the frames the engine stored and those \<open>eth_receive\<close> returned, each
  with the size of its buffer.
\<close>

record eth_sys =
  dev :: eth
  tx_dma :: nat
  rx_dma :: nat
  accepted :: "u8 list list"
  wired :: "u8 list list"
  arrived :: "u8 list list"
  received :: "(u8 list \<times> nat) list"

datatype eth_event = ESend "u8 list" | EWire | EArrive "u8 list" | EReceive "u8 list"

fun eth_step :: "eth_layout \<Rightarrow> eth_event \<Rightarrow> eth_sys \<Rightarrow> eth_sys" where
  "eth_step lay (ESend data) c =
     (let (r, s) = eth_transmit lay (\<lambda>_. owned (tx_desc (dev c) ! unat (tx_index (dev c)))) data (dev c)
      in c\<lparr>dev := s, accepted := accepted c @ (if r = 0 then [data] else [])\<rparr>)"
| "eth_step lay EWire c =
     (let (f, d, s) = dma_send (tx_dma c) (dev c)
      in c\<lparr>dev := s, tx_dma := d, wired := wired c @ (case f of None \<Rightarrow> [] | Some f \<Rightarrow> [f])\<rparr>)"
| "eth_step lay (EArrive f) c =
     (if length f > ETH_BUF_SIZE then c
      else let (stored, d, s) = dma_store (rx_dma c) f (dev c)
           in c\<lparr>dev := s, rx_dma := d, arrived := arrived c @ (if stored then [f] else [])\<rparr>)"
| "eth_step lay (EReceive buf) c =
     (let max_len = of_nat (length buf); (r, buf', n, s) = eth_receive lay buf max_len 0 (dev c)
      in c\<lparr>dev := s, received := received c @ (if r = 0 then [(take (unat n) buf', unat max_len)] else [])\<rparr>)"

definition eth_inv :: "eth_sys \<Rightarrow> u8 list list \<Rightarrow> u8 list list \<Rightarrow> bool" where
  "eth_inv c tq rq \<longleftrightarrow> eth_wf (dev c)
     \<and> ring_holds 2 (tx_dma c) (unat (tx_index (dev c))) (\<lambda>i. owned (tx_desc (dev c) ! i)) (tx_frame (dev c)) tq
     \<and> ring_holds 4 (unat (rx_index (dev c))) (rx_dma c) (\<lambda>i. \<not> owned (rx_desc (dev c) ! i)) (rx_frame (dev c)) rq
     \<and> accepted c = wired c @ tq
     \<and> (\<exists>out. arrived c = out @ rq \<and> list_all2 (\<lambda>(b, m) f. b = take m f) (received c) out)"

lemma tx_frame_cong: "tx_desc s' = tx_desc s \<Longrightarrow> tx_buf s' = tx_buf s \<Longrightarrow> tx_frame s' = tx_frame s"
  by (simp add: tx_frame_def fun_eq_iff)

lemma rx_frame_cong: "rx_desc s' = rx_desc s \<Longrightarrow> rx_buf s' = rx_buf s \<Longrightarrow> rx_frame s' = rx_frame s"
  by (simp add: rx_frame_def fun_eq_iff)

lemma eth_inv_send: "eth_inv c tq rq \<Longrightarrow> \<exists>tq. eth_inv (eth_step lay (ESend data) c) tq rq"
proof -
  assume inv: "eth_inv c tq rq"
  let ?o = "owned (tx_desc (dev c) ! unat (tx_index (dev c)))"
  consider (long) "length data > ETH_BUF_SIZE" | (full) "length data \<le> ETH_BUF_SIZE" ?o | (go) "length data \<le> ETH_BUF_SIZE" "\<not> ?o"
    by linarith
  then show ?thesis
  proof cases
    case long
    then have "eth_transmit lay (\<lambda>_. ?o) data (dev c) = (-1, dev c)" by (simp add: eth_transmit_def)
    then have "eth_step lay (ESend data) c = c" by simp
    then show ?thesis using inv by metis
  next
    case full
    then have "eth_step lay (ESend data) c = c" unfolding eth_step.simps transmit_full [OF full] by simp
    then show ?thesis using inv by metis
  next
    case go
    from inv have "eth_wf (dev c)" "ring_holds 2 (tx_dma c) (unat (tx_index (dev c)))
        (\<lambda>i. owned (tx_desc (dev c) ! i)) (tx_frame (dev c)) tq" by (simp_all add: eth_inv_def)
    from transmit_push [OF this go, of lay] obtain s' where s':
      "eth_transmit lay (\<lambda>_. ?o) data (dev c) = (0, s')" "eth_wf s'"
      "ring_holds 2 (tx_dma c) (unat (tx_index s')) (\<lambda>i. owned (tx_desc s' ! i)) (tx_frame s') (tq @ [data])"
      "rx_desc s' = rx_desc (dev c)" "rx_buf s' = rx_buf (dev c)" "rx_index s' = rx_index (dev c)" by blast
    then have "eth_inv (eth_step lay (ESend data) c) (tq @ [data]) rq"
      using inv by (simp add: eth_inv_def rx_frame_cong [OF s'(4,5)])
    then show ?thesis by blast
  qed
qed

lemma eth_inv_wire: "eth_inv c tq rq \<Longrightarrow> \<exists>tq. eth_inv (eth_step lay EWire c) tq rq"
proof -
  assume inv: "eth_inv c tq rq"
  from inv have r: "eth_wf (dev c)" "ring_holds 2 (tx_dma c) (unat (tx_index (dev c)))
        (\<lambda>i. owned (tx_desc (dev c) ! i)) (tx_frame (dev c)) tq" by (simp_all add: eth_inv_def)
  show ?thesis
  proof (cases tq)
    case Nil
    then have "eth_step lay EWire c = c" using ring_holds_empty r(2) by (fastforce simp: dma_send_def Let_def)
    then show ?thesis using inv by metis
  next
    case (Cons f q)
    from dma_send_pop [OF r(1) r(2) [unfolded Cons]] obtain d' s' where s':
      "dma_send (tx_dma c) (dev c) = (Some f, d', s')" "eth_wf s'"
      "ring_holds 2 d' (unat (tx_index (dev c))) (\<lambda>i. owned (tx_desc s' ! i)) (tx_frame s') q"
      "rx_desc s' = rx_desc (dev c)" "rx_buf s' = rx_buf (dev c)" "rx_index s' = rx_index (dev c)"
      "tx_index s' = tx_index (dev c)" by blast
    then have "eth_inv (eth_step lay EWire c) q rq"
      using inv by (simp add: eth_inv_def rx_frame_cong [OF s'(4,5)] Cons)
    then show ?thesis by blast
  qed
qed


lemma eth_inv_arrive: "eth_inv c tq rq \<Longrightarrow> \<exists>rq. eth_inv (eth_step lay (EArrive f) c) tq rq"
proof -
  assume inv: "eth_inv c tq rq"
  from inv have r: "eth_wf (dev c)" "ring_holds 4 (unat (rx_index (dev c))) (rx_dma c)
        (\<lambda>i. \<not> owned (rx_desc (dev c) ! i)) (rx_frame (dev c)) rq" by (simp_all add: eth_inv_def)
  show ?thesis
  proof (cases "length f > ETH_BUF_SIZE")
    case True
    then show ?thesis using inv by auto
  next
    case False
    then have l: "length f \<le> ETH_BUF_SIZE" by simp
    note st = dma_store_push [OF r l]
    show ?thesis
    proof (cases "length rq = 4")
      case True
      then have "eth_step lay (EArrive f) c = c" using st by simp
      then show ?thesis using inv by metis
    next
      case room: False
      obtain d' s' where s': "dma_store (rx_dma c) f (dev c) = (True, d', s')" "eth_wf s'"
        "ring_holds 4 (unat (rx_index (dev c))) d' (\<lambda>i. \<not> owned (rx_desc s' ! i)) (rx_frame s') (rq @ [f])"
        "tx_desc s' = tx_desc (dev c)" "tx_buf s' = tx_buf (dev c)" "tx_index s' = tx_index (dev c)"
        "rx_index s' = rx_index (dev c)" using st room by auto
      then have "eth_inv (eth_step lay (EArrive f) c) tq (rq @ [f])"
        using inv l by (simp add: eth_inv_def tx_frame_cong [OF s'(4,5)])
      then show ?thesis by blast
    qed
  qed
qed

lemma eth_inv_receive:
  "eth_inv c tq rq \<Longrightarrow> length buf < 65536 \<Longrightarrow> \<exists>rq. eth_inv (eth_step lay (EReceive buf) c) tq rq"
proof -
  assume inv: "eth_inv c tq rq" and l: "length buf < 65536"
  from inv have r: "eth_wf (dev c)" "ring_holds 4 (unat (rx_index (dev c))) (rx_dma c)
        (\<lambda>i. \<not> owned (rx_desc (dev c) ! i)) (rx_frame (dev c)) rq" by (simp_all add: eth_inv_def)
  show ?thesis
  proof (cases rq)
    case Nil
    then have "eth_step lay (EReceive buf) c = c" using receive_empty r(2) by (simp add: Let_def)
    then show ?thesis using inv by metis
  next
    case (Cons f q)
    have b: "length buf = unat (of_nat (length buf) :: u16)"
      using l by (simp add: unat_of_nat take_bit_nat_eq_self)
    from receive_pop [OF r(1) r(2) [unfolded Cons] b, of lay 0] obtain buf' n s' where s':
      "eth_receive lay buf (of_nat (length buf)) 0 (dev c) = (0, buf', n, s')" "eth_wf s'"
      "take (unat n) buf' = take (unat (of_nat (length buf) :: u16)) f"
      "ring_holds 4 (unat (rx_index s')) (rx_dma c) (\<lambda>i. \<not> owned (rx_desc s' ! i)) (rx_frame s') q"
      "tx_desc s' = tx_desc (dev c)" "tx_buf s' = tx_buf (dev c)" "tx_index s' = tx_index (dev c)" by blast
    obtain out where o: "arrived c = out @ rq" "list_all2 (\<lambda>(b, m) f. b = take m f) (received c) out"
      using inv by (auto simp: eth_inv_def)
    have "list_all2 (\<lambda>(b, m) f. b = take m f)
        (received c @ [(take (unat n) buf', unat (of_nat (length buf) :: u16))]) (out @ [f])"
      using o(2) s'(3) by (simp add: list_all2_appendI)
    moreover have "arrived c = (out @ [f]) @ q" using o(1) Cons by simp
    ultimately have "eth_inv (eth_step lay (EReceive buf) c) tq q"
      using inv s'(1,2,4) unfolding eth_inv_def
      by (simp add: Let_def tx_frame_cong [OF s'(5,6)] s'(5,7))
    then show ?thesis by blast
  qed
qed

definition event_ok :: "eth_event \<Rightarrow> bool" where
  "event_ok e = (case e of EReceive buf \<Rightarrow> length buf < 65536 | _ \<Rightarrow> True)"

lemma eth_inv_run: "eth_inv c tq rq \<Longrightarrow> \<forall>e \<in> set es. event_ok e \<Longrightarrow> \<exists>tq rq. eth_inv (fold (eth_step lay) es c) tq rq"
proof (induction es arbitrary: c tq rq)
  case (Cons e es)
  have "\<exists>tq rq. eth_inv (eth_step lay e c) tq rq"
  proof (cases e)
    case (ESend data)
    then show ?thesis using eth_inv_send [OF Cons.prems(1)] by blast
  next
    case EWire
    then show ?thesis using eth_inv_wire [OF Cons.prems(1)] by blast
  next
    case (EArrive f)
    then show ?thesis using eth_inv_arrive [OF Cons.prems(1)] by blast
  next
    case (EReceive buf)
    then show ?thesis using eth_inv_receive [OF Cons.prems(1), of buf] Cons.prems(2) by (simp add: event_ok_def) blast
  qed
  then show ?case using Cons.IH Cons.prems(2) by fastforce
qed auto

definition eth_boot :: "eth \<Rightarrow> bool" where
  "eth_boot s \<longleftrightarrow> length (tx_buf s) = 2 \<and> length (rx_buf s) = 4
     \<and> (\<forall>b \<in> set (tx_buf s) \<union> set (rx_buf s). length b = ETH_BUF_SIZE)
     \<and> tx_index s = 0 \<and> rx_index s = 0"

lemma eth_init_inv:
  assumes "eth_boot s" and "\<not> swr 0"
  shows "eth_inv \<lparr>dev = eth_init lay loopback swr s, tx_dma = 0, rx_dma = 0, accepted = [], wired = [], arrived = [], received = []\<rparr> [] []"
proof -
  let ?s = "eth_init lay loopback swr s"
  have p: "poll_predec swr 0 100000 = Some 0" using assms(2) by (simp add: poll_predec.simps)
  have d: "tx_desc ?s = map (\<lambda>i. \<lparr>des0 = buf_addr (tx_buf_at lay) i, des1 = 0, des2 = 0, des3 = 0\<rparr>) [0..<2]"
    "rx_desc ?s = map (\<lambda>i. \<lparr>des0 = buf_addr (rx_buf_at lay) i, des1 = 0, des2 = 0, des3 = RX_DESC_FREE\<rparr>) [0..<4]"
    "tx_buf ?s = tx_buf s" "rx_buf ?s = rx_buf s" "tx_index ?s = tx_index s" "rx_index ?s = rx_index s"
    by (simp_all add: eth_init_def p Let_def ETH_NUM_TX_DESC_def ETH_NUM_RX_DESC_def)
  have lb: "\<forall>b \<in> set (tx_buf s) \<union> set (rx_buf s). length b = ETH_BUF_SIZE"
    "length (tx_buf s) = 2" "length (rx_buf s) = 4"
    using assms(1) by (auto simp: eth_boot_def)
  have "unat (RX_DESC_FREE AND 0x7FFF) = 0" by (simp add: RX_DESC_FREE_def)
  then have "eth_wf ?s" using lb assms(1) by (auto simp: eth_wf_def d eth_boot_def)
  moreover have "ring_holds 2 0 (unat (tx_index ?s)) (\<lambda>i. owned (tx_desc ?s ! i)) (tx_frame ?s) []"
    using assms(1) by (auto simp: ring_holds_def d eth_boot_def owned_bit)
  moreover have "bit RX_DESC_FREE 31" by (simp add: RX_DESC_FREE_def bit_simps)
  then have "ring_holds 4 (unat (rx_index ?s)) 0 (\<lambda>i. \<not> owned (rx_desc ?s ! i)) (rx_frame ?s) []"
    using assms(1) by (auto simp: ring_holds_def d eth_boot_def owned_bit)
  ultimately show ?thesis by (simp add: eth_inv_def)
qed


definition demo_eth :: eth where
  "demo_eth = \<lparr>tx_desc = [], rx_desc = [], tx_buf = replicate 2 (replicate 1536 0), rx_buf = replicate 4 (replicate 1536 0),
     tx_index = 0, rx_index = 0, eth_regs = \<lambda>_. 0\<rparr>"


end
