(* ===== verification/Clocks.thy ===== *)
theory Clocks
  imports Mmio "HOL-Library.Monad_Syntax"
begin

text \<open>
  \<open>drivers/stm32h753zi/rcc.c\<close>, \<open>drivers/k64f/mcg.c\<close>, the initialisation of the STM32 UART and
  the two analogue converters: sequences of register writes with waits between them. A wait is
  a stream of poll results that say whether the code must go on waiting; a sequence returns
  nothing when one of its waits never ends. What the clock registers then mean is compared
  with the frequencies the drivers compute with.
\<close>

definition await :: "(nat \<Rightarrow> bool) \<Rightarrow> mmio \<Rightarrow> mmio option" where
  "await busy m = (case spin busy 0 of None \<Rightarrow> None | Some _ \<Rightarrow> Some m)"

lemma await_ends: "\<not> busy n \<Longrightarrow> await busy m = Some m"
  using spin_ends [of busy n 0] by (auto simp: await_def)

definition mm_field :: "u32 \<Rightarrow> u32 \<Rightarrow> u32 \<Rightarrow> mmio \<Rightarrow> mmio" where
  "mm_field a msk v m = mm_write a ((m a AND NOT msk) OR v) m"

subsection \<open>STM32H753ZI\<close>

definition RCC_CR :: u32 where "RCC_CR = 0x58024400"
definition RCC_CFGR :: u32 where "RCC_CFGR = 0x58024410"
definition RCC_D1CFGR :: u32 where "RCC_D1CFGR = 0x58024418"
definition RCC_PLLCKSELR :: u32 where "RCC_PLLCKSELR = 0x58024428"
definition RCC_PLLCFGR :: u32 where "RCC_PLLCFGR = 0x5802442C"
definition RCC_PLL1DIVR :: u32 where "RCC_PLL1DIVR = 0x58024430"
definition RCC_PLL1FRACR :: u32 where "RCC_PLL1FRACR = 0x58024434"
definition RCC_APB4ENR :: u32 where "RCC_APB4ENR = 0x580244F4"
definition PWR_D3CR :: u32 where "PWR_D3CR = 0x58024818"
definition FLASH_ACR :: u32 where "FLASH_ACR = 0x52002000"

lemmas rcc_addrs = RCC_CR_def RCC_CFGR_def RCC_D1CFGR_def RCC_PLLCKSELR_def RCC_PLLCFGR_def
  RCC_PLL1DIVR_def RCC_PLL1FRACR_def RCC_APB4ENR_def PWR_D3CR_def FLASH_ACR_def

definition rcc_init_hsi64 :: "(nat \<Rightarrow> nat \<Rightarrow> bool) \<Rightarrow> mmio \<Rightarrow> mmio option" where
  "rcc_init_hsi64 busy m = do {
     m \<leftarrow> await (busy 0) (mm_or RCC_CR (push_bit 0 1) m);
     await (busy 1) (mm_field RCC_CFGR 7 0 m)
   }"

definition rcc_init_pll_480 :: "(nat \<Rightarrow> nat \<Rightarrow> bool) \<Rightarrow> mmio \<Rightarrow> mmio option" where
  "rcc_init_pll_480 busy m = do {
     m \<leftarrow> await (busy 0) (mm_field RCC_CFGR 7 0 m);
     m \<leftarrow> await (busy 1) (mm_clear RCC_CR (push_bit 24 1) m);
     let m = mm_write RCC_PLLCKSELR 0 m;
     let m = mm_write RCC_PLLCFGR 0 m;
     let m = mm_write RCC_PLL1DIVR 0 m;
     let m = mm_write RCC_PLL1FRACR 0 m;
     m \<leftarrow> await (busy 2) (mm_or RCC_CR (push_bit 16 1) m);
     let m = mm_or RCC_APB4ENR (push_bit 1 1) m;
     m \<leftarrow> await (busy 3) (mm_field PWR_D3CR (push_bit 14 3) (push_bit 14 3) m);
     let m = mm_write FLASH_ACR (push_bit 0 4 OR push_bit 4 2) m;
     let m = mm_write RCC_D1CFGR (push_bit 0 8 OR push_bit 4 4) m;
     let m = mm_write RCC_PLLCKSELR (push_bit 0 2 OR push_bit 4 2) m;
     let m = mm_write RCC_PLLCFGR (push_bit 2 2 OR push_bit 16 1) m;
     let m = mm_write RCC_PLL1DIVR (push_bit 0 (240 - 1) OR push_bit 9 (2 - 1)) m;
     m \<leftarrow> await (busy 4) (mm_or RCC_CR (push_bit 24 1) m);
     await (busy 5) (mm_field RCC_CFGR 7 (push_bit 0 3) m)
   }"

text \<open>The reference manual's reading of the registers, in Hz; the crystal is 8 MHz.\<close>

definition stm32_sysclk :: "mmio \<Rightarrow> nat" where
  "stm32_sysclk m =
     (if m RCC_CFGR AND 7 = 3 \<and> m RCC_PLLCKSELR AND 3 = 2
      then 8000000 div field 4 6 (m RCC_PLLCKSELR) * (field 0 9 (m RCC_PLL1DIVR) + 1) div (field 9 7 (m RCC_PLL1DIVR) + 1)
      else 64000000)"

definition stm32_hclk :: "mmio \<Rightarrow> nat" where
  "stm32_hclk m = stm32_sysclk m div (if field 0 4 (m RCC_D1CFGR) = 8 then 2 else 1)"

definition USART3_CR1 :: u32 where "USART3_CR1 = 0x40004800"
definition USART3_CR2 :: u32 where "USART3_CR2 = 0x40004804"
definition USART3_CR3 :: u32 where "USART3_CR3 = 0x40004808"
definition USART3_BRR :: u32 where "USART3_BRR = 0x4000480C"

text \<open>\<open>uart_init\<close> without its \<open>mutex_init\<close>, which the mutex theory models.\<close>

definition uart_init :: "mmio \<Rightarrow> mmio" where
  "uart_init m =
     (let m = mm_or 0x580244E0 (push_bit 3 1) m;
          m = mm_or 0x580244E8 (push_bit 18 1) m;
          m = mm_clear 0x58020C00 (push_bit 16 3 OR push_bit 18 3) m;
          m = mm_or 0x58020C00 (push_bit 16 2 OR push_bit 18 2) m;
          m = mm_or 0x58020C08 (push_bit 16 3 OR push_bit 18 3) m;
          m = mm_clear 0x58020C0C (push_bit 16 3 OR push_bit 18 3) m;
          m = mm_clear 0x58020C24 (push_bit 0 0xF OR push_bit 4 0xF) m;
          m = mm_or 0x58020C24 (push_bit 0 7 OR push_bit 4 7) m;
          m = mm_write USART3_CR1 0 m;
          m = mm_write USART3_CR2 0 m;
          m = mm_write USART3_CR3 0 m;
          m = mm_write USART3_BRR 2083 m
      in mm_write USART3_CR1 (push_bit 0 1 OR push_bit 3 1 OR push_bit 2 1) m)"

definition ADC_CR :: u32 where "ADC_CR = 0x40022008"
definition ADC_CFGR :: u32 where "ADC_CFGR = 0x4002200C"
definition ADC_SMPR2 :: u32 where "ADC_SMPR2 = 0x40022018"
definition ADC_PCSEL :: u32 where "ADC_PCSEL = 0x4002201C"
definition ADC_SQR1 :: u32 where "ADC_SQR1 = 0x40022030"
definition ADC_DR :: u32 where "ADC_DR = 0x40022040"

definition stm32_adc_init :: "(nat \<Rightarrow> nat \<Rightarrow> bool) \<Rightarrow> mmio \<Rightarrow> mmio option" where
  "stm32_adc_init busy m = do {
     let m = mm_clear 0x58024458 (push_bit 16 3) m;
     let m = mm_or 0x58024458 (push_bit 16 2) m;
     let m = mm_or 0x580244E0 (push_bit 0 1) m;
     let m = mm_or 0x580244D8 (push_bit 5 1) m;
     let m = mm_or 0x580244E0 (push_bit 0 1) m;
     let m = mm_or 0x580244D8 (push_bit 5 1) m;
     let m = mm_or 0x58020000 (push_bit 6 3) m;
     let m = mm_clear ADC_CR (push_bit 29 1) m;
     let m = mm_or ADC_CR (push_bit 28 1) m;
     let m = mm_clear ADC_CR (push_bit 30 1) m;
     let m = mm_clear ADC_CR (push_bit 16 1) m;
     m \<leftarrow> await (busy 0) (mm_or ADC_CR (push_bit 31 1) m);
     let m = mm_or ADC_PCSEL (push_bit 15 1) m;
     let m = mm_clear ADC_SMPR2 (push_bit 15 0x7) m;
     let m = mm_or ADC_SMPR2 (push_bit 15 0x4) m;
     let m = mm_clear ADC_CFGR (push_bit 13 1) m;
     let m = mm_write ADC_SQR1 (push_bit 6 15 OR push_bit 0 0) m;
     await (busy 1) (mm_or ADC_CR (push_bit 0 1) m)
   }"

text \<open>\<open>dr\<close>: what the data register holds when the conversion has ended.\<close>

definition adc_read_channel15 :: "(nat \<Rightarrow> bool) \<Rightarrow> u32 \<Rightarrow> mmio \<Rightarrow> (u16 \<times> mmio) option" where
  "adc_read_channel15 busy dr m = do {
     m \<leftarrow> await busy (mm_or ADC_CR (push_bit 2 1) m);
     Some (ucast dr, m)
   }"

subsection \<open>K64F\<close>

definition MCG :: "string \<Rightarrow> u32" where "MCG x = reg MCG_BASE_ADDR MCG_Type x"
definition OSC_CR :: u32 where "OSC_CR = 0x40065000"

definition SIM_CLKDIV1_OUTDIV :: "nat \<Rightarrow> u32 \<Rightarrow> u32" where
  "SIM_CLKDIV1_OUTDIV shift x = push_bit shift (x AND 0xF)"

definition MCG_C1_CLKS :: "u32 \<Rightarrow> u32" where
  "MCG_C1_CLKS x = push_bit 6 x AND 0xC0"

text \<open>The byte registers of the MCG hold zero-extended values.\<close>

definition mcg_init_120mhz :: "(nat \<Rightarrow> nat \<Rightarrow> bool) \<Rightarrow> mmio \<Rightarrow> mmio option" where
  "mcg_init_120mhz busy m = do {
     let m = mm_write (SIM ''CLKDIV1'') (SIM_CLKDIV1_OUTDIV 28 0 OR SIM_CLKDIV1_OUTDIV 24 1
               OR SIM_CLKDIV1_OUTDIV 20 2 OR SIM_CLKDIV1_OUTDIV 16 4) m;
     let m = mm_write (MCG ''C2'') ((push_bit 4 2 AND 0x30) OR 0x08 OR 0x04) m;
     let m = mm_write OSC_CR 0x02 m;
     let m = mm_write (MCG ''C1'') 0x02 m;
     let m = mm_write 0x40064008 0x01 m;
     let m = mm_write (MCG ''C5'') 14 m;
     let m = mm_write (MCG ''C6'') 12 m;
     m \<leftarrow> await (busy 0) (mm_write (MCG ''C1'') ((m (MCG ''C1'') AND NOT 0xC0 AND 0xFF) OR MCG_C1_CLKS 2) m);
     m \<leftarrow> await (busy 1) (mm_or (MCG ''C6'') 0x40 m);
     m \<leftarrow> await (busy 2) m;
     m \<leftarrow> await (busy 3) (mm_write (MCG ''C1'') (m (MCG ''C1'') AND NOT 0xC0 AND 0xFF) m);
     Some (mm_field (SIM ''SOPT2'') (push_bit 28 1) (push_bit 28 1 AND push_bit 28 1) m)
   }"

text \<open>The external clock is 50 MHz.\<close>

definition k64f_mcgout :: "mmio \<Rightarrow> nat" where
  "k64f_mcgout m =
     (if field 6 2 (m (MCG ''C1'')) = 0 \<and> field 6 1 (m (MCG ''C6'')) = 1
      then 50000000 * (field 0 5 (m (MCG ''C6'')) + 24) div (field 0 5 (m (MCG ''C5'')) + 1)
      else 0)"

definition k64f_clock :: "nat \<Rightarrow> mmio \<Rightarrow> nat" where
  "k64f_clock shift m = k64f_mcgout m div (field shift 4 (m (SIM ''CLKDIV1'')) + 1)"

definition ADC0_SC1A :: u32 where "ADC0_SC1A = 0x4003B000"
definition ADC0_CFG1 :: u32 where "ADC0_CFG1 = 0x4003B008"
definition ADC0_CFG2 :: u32 where "ADC0_CFG2 = 0x4003B00C"
definition ADC0_SC2 :: u32 where "ADC0_SC2 = 0x4003B020"
definition ADC0_SC3 :: u32 where "ADC0_SC3 = 0x4003B024"

text \<open>\<open>calf\<close>: whether the calibration failed.\<close>

definition k64f_adc_init :: "(nat \<Rightarrow> bool) \<Rightarrow> bool \<Rightarrow> mmio \<Rightarrow> mmio option" where
  "k64f_adc_init busy calf m = do {
     let m = mm_or 0x40048038 (push_bit 10 1) m;
     let m = mm_or 0x4004803C (push_bit 27 1) m;
     let m = mm_clear 0x4004A008 0x700 m;
     let m = mm_write ADC0_CFG1 (push_bit 2 1) m;
     let m = mm_write ADC0_CFG2 0 m;
     let m = mm_clear ADC0_SC2 (push_bit 6 1) m;
     m \<leftarrow> await busy (mm_or ADC0_SC3 (push_bit 7 1) m);
     Some (if calf then mm_or ADC0_SC3 (push_bit 6 1) m else m)
   }"

definition adc_calibration_failed :: "mmio \<Rightarrow> bool" where
  "adc_calibration_failed m \<longleftrightarrow> m ADC0_SC3 AND push_bit 6 1 \<noteq> 0"

definition adc_read_se12 :: "(nat \<Rightarrow> bool) \<Rightarrow> u32 \<Rightarrow> mmio \<Rightarrow> (u16 \<times> mmio) option" where
  "adc_read_se12 busy ra m = do {
     m \<leftarrow> await busy (mm_write ADC0_SC1A 12 m);
     Some (ucast (ra AND 0xFFFF), m)
   }"

subsection \<open>The frequencies\<close>

lemma mm_field_same [simp]: "mm_field a k v m a = (m a AND NOT k) OR v"
  by (simp add: mm_field_def)

lemma mm_field_other [simp]: "b \<noteq> a \<Longrightarrow> mm_field a k v m b = m b"
  by (simp add: mm_field_def)

lemma await_all: "\<forall>k. \<exists>n. \<not> busy k n \<Longrightarrow> await (busy k) m = Some m"
  using await_ends by blast

lemma low_bits: "((w AND - 8) OR 3) AND 7 = (3 :: u32)"
  by (simp add: bit.conj_disj_distrib2 and.assoc)

lemma rcc_registers:
  assumes "\<forall>k. \<exists>n. \<not> busy k n"
  shows "\<exists>m'. rcc_init_pll_480 busy m = Some m' \<and> m' RCC_CFGR AND 7 = 3 \<and> m' RCC_PLLCKSELR = 0x22
    \<and> m' RCC_PLL1DIVR = 0x2EF \<and> m' RCC_D1CFGR = 0x48"
  unfolding rcc_init_pll_480_def await_all [OF assms] by (simp add: Let_def rcc_addrs low_bits)

lemma mcg_addrs:
  "MCG ''C1'' = 0x40064000" "MCG ''C2'' = 0x40064001" "MCG ''C5'' = 0x40064004" "MCG ''C6'' = 0x40064005"
  "SIM ''CLKDIV1'' = 0x40048044" "SIM ''SOPT2'' = 0x40048004"
  by (simp_all add: MCG_def SIM_def reg_def MCG_BASE_ADDR_def SIM_BASE_ADDR_def MCG_Type_def SIM_Type_def)

lemma mcg_registers:
  assumes "\<forall>k. \<exists>n. \<not> busy k n"
  shows "\<exists>m'. mcg_init_120mhz busy m = Some m' \<and> m' (MCG ''C1'') = 0x02 \<and> m' (MCG ''C5'') = 14
    \<and> m' (MCG ''C6'') = 0x4C \<and> m' (SIM ''CLKDIV1'') = 0x01240000"
  unfolding mcg_init_120mhz_def await_all [OF assms]
  by (simp add: Let_def mcg_addrs OSC_CR_def SIM_CLKDIV1_OUTDIV_def MCG_C1_CLKS_def)

text \<open>
  The clock trees run at the frequencies the drivers reckon with. When the oscillators and
  the PLLs get ready, rcc_init_pll_480 ends with a 480 MHz system clock and a 240 MHz bus, and
  mcg_init_120mhz with 120, 60, 40 and 24 MHz for core, bus, FlexBus and flash; at these the
  baud rate dividers both UART drivers write give 115200 baud within two tenths of a percent.
  When some flag never comes, the functions do not return.
\<close>

theorem clock_trees:
  assumes "\<forall>k. \<exists>n. \<not> busy k n"
  shows "(\<exists>m'. rcc_init_pll_480 busy m = Some m' \<and> stm32_sysclk m' = 480000000 \<and> stm32_hclk m' = 240000000
      \<and> (let baud = stm32_hclk m' div unat (uart_init m' USART3_BRR)
         in 500 * \<bar>int baud - 115200\<bar> < 115200))
    \<and> (\<exists>m'. mcg_init_120mhz busy m = Some m'
      \<and> map (\<lambda>shift. k64f_clock shift m') [28, 24, 20, 16] = [120000000, 60000000, 40000000, 24000000]
      \<and> (let divider = k64f_clock 28 m' div (16 * 115200)
         in divider < 256 \<and> 500 * \<bar>int (k64f_clock 28 m' div (16 * divider)) - 115200\<bar> < 115200))
    \<and> rcc_init_pll_480 (\<lambda>k _. k = 3) m = None \<and> mcg_init_120mhz (\<lambda>k _. k = 3) m = None"
proof (intro conjI)
  have u: "uart_init m' USART3_BRR = 2083" for m'
    by (simp add: uart_init_def Let_def USART3_BRR_def USART3_CR1_def USART3_CR2_def USART3_CR3_def)
  obtain m1 where m1: "rcc_init_pll_480 busy m = Some m1" "m1 RCC_CFGR AND 7 = 3" "m1 RCC_PLLCKSELR = 0x22"
    "m1 RCC_PLL1DIVR = 0x2EF" "m1 RCC_D1CFGR = 0x48" using rcc_registers [OF assms] by blast
  have s: "stm32_sysclk m1 = 480000000" by (simp add: stm32_sysclk_def m1 field_def numeral_2_eq_2 [symmetric])
  then have h: "stm32_hclk m1 = 240000000" by (simp add: stm32_hclk_def m1 field_def)
  show "\<exists>m'. rcc_init_pll_480 busy m = Some m' \<and> stm32_sysclk m' = 480000000 \<and> stm32_hclk m' = 240000000
      \<and> (let baud = stm32_hclk m' div unat (uart_init m' USART3_BRR) in 500 * \<bar>int baud - 115200\<bar> < 115200)"
    using m1(1) s h by (simp add: u)
  obtain m2 where m2: "mcg_init_120mhz busy m = Some m2" "m2 (MCG ''C1'') = 0x02" "m2 (MCG ''C5'') = 14"
    "m2 (MCG ''C6'') = 0x4C" "m2 (SIM ''CLKDIV1'') = 0x01240000" using mcg_registers [OF assms] by blast
  have "k64f_mcgout m2 = 120000000" by (simp add: k64f_mcgout_def m2 field_def)
  then have c: "map (\<lambda>shift. k64f_clock shift m2) [28, 24, 20, 16] = [120000000, 60000000, 40000000, 24000000]"
    by (simp add: k64f_clock_def m2 field_def numeral_2_eq_2 [symmetric])
  then show "\<exists>m'. mcg_init_120mhz busy m = Some m'
      \<and> map (\<lambda>shift. k64f_clock shift m') [28, 24, 20, 16] = [120000000, 60000000, 40000000, 24000000]
      \<and> (let divider = k64f_clock 28 m' div (16 * 115200)
         in divider < 256 \<and> 500 * \<bar>int (k64f_clock 28 m' div (16 * divider)) - 115200\<bar> < 115200)"
    using m2(1) by simp
  have a: "await (\<lambda>_. True) m = None" "await (\<lambda>_. False) m = Some m" for m
    using spin_never [of "\<lambda>_. True" 0] by (simp_all add: await_def)
  show "rcc_init_pll_480 (\<lambda>k _. k = 3) m = None" by (simp add: rcc_init_pll_480_def a)
  show "mcg_init_120mhz (\<lambda>k _. k = 3) m = None" by (simp add: mcg_init_120mhz_def a)
qed

lemma clock_trees_witness:
  "\<exists>m'. rcc_init_pll_480 (\<lambda>k i. i < k) (\<lambda>_. 0) = Some m' \<and> stm32_sysclk m' = 480000000"
proof -
  have "\<forall>k. \<exists>n. \<not> n < (k :: nat)" by blast
  from clock_trees [OF this, of "\<lambda>_. 0"] show ?thesis by blast
qed

end
