(* ===== verification/Pit.thy ===== *)
theory Pit
  imports Systick Mmio
begin

text \<open>
  \<open>drivers/k64f/pit.c\<close> and \<open>drivers/k64f/pit_systick_shim.c\<close>: the periodic interrupt timer as
  the tick source of the K64F build (\<open>TICK_SOURCE=pit\<close>), in place of SysTick.
\<close>

record 'w pit =
  host :: "'w sys"
  g_pit_tick :: u32
  s_callback :: "('w sys \<Rightarrow> 'w sys) option"
  s_sched_active :: bool
  pit_regs :: mmio

definition PIT_MCR :: u32 where "PIT_MCR = reg PIT_BASE_ADDR PIT_Type ''MCR''"
definition PIT_CLOCK_HZ :: u32 where "PIT_CLOCK_HZ = 60000000"
definition PIT0_IRQ_NUMBER :: u32 where "PIT0_IRQ_NUMBER = 48"

definition pit_set_callback :: "('w sys \<Rightarrow> 'w sys) option \<Rightarrow> 'w pit \<Rightarrow> 'w pit" where
  "pit_set_callback cb p = p\<lparr>s_callback := cb\<rparr>"

definition pit_init :: "u32 \<Rightarrow> 'w pit \<Rightarrow> 'w pit" where
  "pit_init period_us p =
     (let m = mm_or (SIM ''SCGC6'') (push_bit 23 1) (pit_regs p);
          m = mm_write PIT_MCR (push_bit 0 1) m;
          m = mm_write (PIT_CH0 ''LDVAL'') ((PIT_CLOCK_HZ div 1000000) * period_us - 1) m;
          m = mm_write (PIT_CH0 ''TFLG'') (push_bit 0 1) m;
          m = mm_write (PIT_CH0 ''TCTRL'') (push_bit 0 1 OR push_bit 1 1) m;
          m = mm_write (0xE000E400 + 48) 0x40 m;
          m = mm_write (0xE000E100 + 4 * (PIT0_IRQ_NUMBER div 32)) (push_bit (unat (PIT0_IRQ_NUMBER mod 32)) 1) m
      in p\<lparr>pit_regs := m\<rparr>)"

definition pit_get_tick :: "'w pit \<Rightarrow> u32" where
  "pit_get_tick p = g_pit_tick p"

text \<open>The values of the tick counter that the polling loop reads.\<close>

definition pit_delay_ms :: "u32 \<Rightarrow> u32 list \<Rightarrow> nat option" where
  "pit_delay_ms ms ticks = (case ticks of [] \<Rightarrow> None | start # ticks \<Rightarrow> delay_poll start ms ticks)"

definition pit_sched_enable :: "'w pit \<Rightarrow> 'w pit" where
  "pit_sched_enable p = p\<lparr>s_sched_active := True\<rparr>"

definition pit_systick_get_ms :: "'w pit \<Rightarrow> u32" where
  "pit_systick_get_ms p = g_pit_tick p"

definition PIT0_IRQHandler :: "'w pit \<Rightarrow> 'w pit option" where
  "PIT0_IRQHandler p =
     (let p = p\<lparr>pit_regs := mm_write (PIT_CH0 ''TFLG'') (push_bit 0 1) (pit_regs p),
                g_pit_tick := g_pit_tick p + 1\<rparr>;
          k = kernel (host p) in
      case (if s_sched_active p then sched_tick k else Some k) of
        None \<Rightarrow> None
      | Some k \<Rightarrow>
         let p = p\<lparr>host := (host p)\<lparr>kernel := k\<rparr>\<rparr>
         in Some (case s_callback p of None \<Rightarrow> p | Some cb \<Rightarrow> p\<lparr>host := cb (host p)\<rparr>))"

definition shim_systick_init :: "u32 \<Rightarrow> 'w pit \<Rightarrow> 'w pit" where
  "shim_systick_init core_clock_hz p = pit_init 1000 p"

definition shim_systick_get_ms :: "'w pit \<Rightarrow> u32" where
  "shim_systick_get_ms p = pit_get_tick p"

definition shim_systick_delay_ms :: "u32 \<Rightarrow> u32 list \<Rightarrow> nat option" where
  "shim_systick_delay_ms ms ticks = pit_delay_ms ms ticks"

definition shim_systick_sched_enable :: "'w pit \<Rightarrow> 'w pit" where
  "shim_systick_sched_enable p = pit_sched_enable p"

text \<open>A run of interrupts.\<close>

fun pit_run :: "nat \<Rightarrow> 'w pit \<Rightarrow> 'w pit option" where
  "pit_run 0 p = Some p"
| "pit_run (Suc n) p = (case PIT0_IRQHandler p of None \<Rightarrow> None | Some p' \<Rightarrow> pit_run n p')"

text \<open>One interrupt, in a sound kernel state: it ends, keeps the kernel invariant, and touches no timer.\<close>

lemma pit_irq_step:
  assumes "s_callback p = None" and "kern_inv (kernel (host p)) W"
  obtains p' V where "PIT0_IRQHandler p = Some p'" and "kern_inv (kernel (host p')) V" and "s_callback p' = None"
    and "soft_timers (host p') = soft_timers (host p)" and "g_pit_tick p' = g_pit_tick p + 1"
proof (cases "s_sched_active p")
  case True
  obtain k where "sched_tick (kernel (host p)) = Some k"
    and "kern_inv k (drop_expired 1 (kernel (host p)) (s_task_count (kernel (host p))) W)"
    unfolding sched_tick_def by (rule sched_tick_n_spec [OF assms(2), of 1]) blast
  with True assms that show thesis by (simp add: PIT0_IRQHandler_def Let_def)
next
  case False
  with assms that show thesis by (simp add: PIT0_IRQHandler_def Let_def)
qed

text \<open>
  With the PIT as the tick source every interrupt ends and advances the clock by one, but
  software timers never run: without an application callback, any number of interrupts leaves
  the timer table as it is, however many of its timers are due. SysTick_Handler services the
  timers at every tick; PIT0_IRQHandler does not.
\<close>

theorem pit_never_services_timers:
  assumes "s_callback p = None" and "kern_inv (kernel (host p)) W"
  shows "\<exists>p' V. pit_run n p = Some p' \<and> kern_inv (kernel (host p')) V
    \<and> soft_timers (host p') = soft_timers (host p)
    \<and> pit_systick_get_ms p' = pit_systick_get_ms p + of_nat n"
  using assms
proof (induction n arbitrary: p W)
  case (Suc n)
  obtain q V where q: "PIT0_IRQHandler p = Some q" "kern_inv (kernel (host q)) V" "s_callback q = None"
      "soft_timers (host q) = soft_timers (host p)" "g_pit_tick q = g_pit_tick p + 1"
    by (rule pit_irq_step [OF Suc.prems]) (rule that, assumption+)
  from Suc.IH [OF q(3,2)] q show ?case by (auto simp: pit_systick_get_ms_def algebra_simps)
qed (auto simp: pit_systick_get_ms_def)

definition demo_pit :: "unit pit" where
  "demo_pit = \<lparr>host = demo_sys, g_pit_tick = 0, s_callback = None, s_sched_active = True, pit_regs = (\<lambda>_. 0)\<rparr>"

theorem pit_never_services_timers_witness:
  "timer_due 1000 (fst (soft_timers demo_sys) ! 3)
   \<and> (\<exists>p'. pit_run 1000 demo_pit = Some p' \<and> soft_timers (host p') = soft_timers demo_sys
        \<and> pit_systick_get_ms p' = 1000)"
proof -
  have "timer_due 1000 (fst (soft_timers demo_sys) ! 3)"
    by (simp add: demo_sys_def demo_armed_def demo_timers_def demo_timer_def timer_due_def TIMER_MAX_COUNT_def)
  moreover have "s_callback demo_pit = None" "kern_inv (kernel (host demo_pit)) (\<lambda>_. [])"
    by (simp_all add: demo_pit_def demo_sys_simps(2))
  ultimately show ?thesis
    using pit_never_services_timers [of demo_pit "\<lambda>_. []" 1000]
    by (auto simp: demo_pit_def pit_systick_get_ms_def)
qed

end
