(* ===== verification/Kalman.thy ===== *)
theory Kalman
  imports Complex_Main
begin

text \<open>
  \<open>controls/kalman.c\<close>: the roll and pitch estimator. The arrays are functions on the indices
  0 to 3, the numbers an ordered field: the arithmetic is exact where the C code rounds to
  single precision, so the statements are about the algorithm, not its rounding. The two
  functions of the C mathematics library are parameters.
\<close>

record 'a kalman =
  kx :: "nat \<Rightarrow> 'a"
  kP :: "nat \<Rightarrow> nat \<Rightarrow> 'a"

definition Q_ANGLE :: "'a :: linordered_field" where "Q_ANGLE = 1 / 1000"
definition Q_BIAS :: "'a :: linordered_field" where "Q_BIAS = 1 / 10000"
definition SCALE :: "'a :: linordered_field" where "SCALE = 1 / 16384"
definition R_ROLL :: "'a :: linordered_field" where "R_ROLL = 70211 / 100 * SCALE * SCALE"
definition R_PITCH :: "'a :: linordered_field" where "R_PITCH = 65155 / 100 * SCALE * SCALE"

definition kalman_init :: "'a :: linordered_field kalman" where
  "kalman_init = \<lparr>kx = (\<lambda>i. 0), kP = (\<lambda>i j. if i = j then 1 else 0)\<rparr>"

definition kalman_roll :: "'a kalman \<Rightarrow> 'a" where "kalman_roll k = kx k 0"
definition kalman_pitch :: "'a kalman \<Rightarrow> 'a" where "kalman_pitch k = kx k 1"

subsection \<open>Prediction\<close>

definition predict_x :: "'a \<Rightarrow> 'a \<Rightarrow> 'a \<Rightarrow> (nat \<Rightarrow> 'a :: linordered_field) \<Rightarrow> nat \<Rightarrow> 'a" where
  "predict_x wx wy dt x =
     (let roll = x 0; pitch = x 1; bgx = x 2; bgy = x 3; wx_c = wx - bgx; wy_c = wy - bgy
      in x(0 := roll + wx_c * dt, 1 := pitch + wy_c * dt))"

text \<open>The products \<open>F*P\<close> and \<open>(F*P)*F'\<close>, and the sum with the noise, entry by entry as assigned.\<close>

definition FP :: "'a \<Rightarrow> (nat \<Rightarrow> nat \<Rightarrow> 'a :: linordered_field) \<Rightarrow> nat \<Rightarrow> nat \<Rightarrow> 'a" where
  "FP dt P i j = (if i = 0 then P 0 j - dt * P 2 j else if i = 1 then P 1 j - dt * P 3 j else P i j)"

definition FPFT :: "'a \<Rightarrow> (nat \<Rightarrow> nat \<Rightarrow> 'a :: linordered_field) \<Rightarrow> nat \<Rightarrow> nat \<Rightarrow> 'a" where
  "FPFT dt P i j =
     (if j = 0 then FP dt P i 0 - dt * FP dt P i 2
      else if j = 1 then FP dt P i 1 - dt * FP dt P i 3 else FP dt P i j)"

definition predict_P :: "'a \<Rightarrow> (nat \<Rightarrow> nat \<Rightarrow> 'a :: linordered_field) \<Rightarrow> nat \<Rightarrow> nat \<Rightarrow> 'a" where
  "predict_P dt P i j = (if i = j then FPFT dt P i i + (if i < 2 then Q_ANGLE else Q_BIAS) else FPFT dt P i j)"

subsection \<open>Update\<close>

text \<open>The gain, or nothing when the innovation covariance is taken to be singular.\<close>

definition kalman_gain :: "(nat \<Rightarrow> nat \<Rightarrow> 'a :: linordered_field) \<Rightarrow> (nat \<Rightarrow> nat \<Rightarrow> 'a) option" where
  "kalman_gain P =
     (let S00 = P 0 0 + R_ROLL; S01 = P 0 1; S10 = P 1 0; S11 = P 1 1 + R_PITCH;
          det = S00 * S11 - S01 * S10
      in if \<bar>det\<bar> < 1 / 10000000000 then None
         else let inv_det = 1 / det;
                  Si00 = S11 * inv_det; Si01 = - S01 * inv_det; Si10 = - S10 * inv_det; Si11 = S00 * inv_det
              in Some (\<lambda>i j. if j = 0 then P i 0 * Si00 + P i 1 * Si10 else P i 0 * Si01 + P i 1 * Si11))"

text \<open>\<open>newP[i][j]\<close>: the row of \<open>I - K*H\<close> times the column of \<open>P\<close>, summed from 0 on.\<close>

definition IKH :: "(nat \<Rightarrow> nat \<Rightarrow> 'a :: linordered_field) \<Rightarrow> nat \<Rightarrow> nat \<Rightarrow> 'a" where
  "IKH K i j = (if i = j then 1 else 0) - (if j < 2 then K i j else 0)"

definition newP :: "(nat \<Rightarrow> nat \<Rightarrow> 'a :: linordered_field) \<Rightarrow> (nat \<Rightarrow> nat \<Rightarrow> 'a) \<Rightarrow> nat \<Rightarrow> nat \<Rightarrow> 'a" where
  "newP K P i j = foldl (\<lambda>acc m. acc + IKH K i m * P m j) 0 [0..<4]"

definition kalman_update ::
  "('a \<Rightarrow> 'a) \<Rightarrow> ('a \<Rightarrow> 'a \<Rightarrow> 'a) \<Rightarrow> 'a \<Rightarrow> 'a \<Rightarrow> 'a \<Rightarrow> 'a \<Rightarrow> 'a \<Rightarrow> 'a \<Rightarrow> 'a :: linordered_field kalman \<Rightarrow> 'a kalman"
where
  "kalman_update sqrtf atan2f ax ay az wx wy dt k =
     (let x = predict_x wx wy dt (kx k); P = predict_P dt (kP k);
          roll_meas = atan2f ay (sqrtf (ax * ax + az * az));
          pitch_meas = atan2f (- ax) (sqrtf (ay * ay + az * az));
          y0 = roll_meas - x 0; y1 = pitch_meas - x 1
      in case kalman_gain P of
           None \<Rightarrow> \<lparr>kx = x, kP = P\<rparr>
         | Some K \<Rightarrow> \<lparr>kx = (\<lambda>i. x i + (K i 0 * y0 + K i 1 * y1)), kP = newP K P\<rparr>)"

subsection \<open>The covariance\<close>

text \<open>A symmetric positive definite two by two block.\<close>

definition pd :: "'a :: linordered_field \<Rightarrow> 'a \<Rightarrow> 'a \<Rightarrow> bool" where
  "pd a b c \<longleftrightarrow> 0 < a \<and> 0 < c \<and> b * b < a * c"

text \<open>Angle and bias of each axis correlate; the axes do not.\<close>

definition cov_ok :: "(nat \<Rightarrow> nat \<Rightarrow> 'a :: linordered_field) \<Rightarrow> bool" where
  "cov_ok P \<longleftrightarrow> P 2 0 = P 0 2 \<and> P 3 1 = P 1 3 \<and> pd (P 0 0) (P 0 2) (P 2 2) \<and> pd (P 1 1) (P 1 3) (P 3 3)
     \<and> P 0 1 = 0 \<and> P 1 0 = 0 \<and> P 0 3 = 0 \<and> P 3 0 = 0 \<and> P 1 2 = 0 \<and> P 2 1 = 0 \<and> P 2 3 = 0 \<and> P 3 2 = 0"

lemma noise_pos [simp]:
  "0 < (Q_ANGLE :: 'a :: linordered_field)" "0 < (Q_BIAS :: 'a)" "0 < (R_ROLL :: 'a)" "0 < (R_PITCH :: 'a)"
  by (simp_all add: Q_ANGLE_def Q_BIAS_def R_ROLL_def R_PITCH_def SCALE_def)

lemma pd_predict:
  assumes "pd a b c" and "0 < q" and "0 < r"
  shows "pd (a - dt * b - dt * (b - dt * c) + q) (b - dt * c) (c + (r :: 'a :: linordered_field))"
    and "q < a - dt * b - dt * (b - dt * c) + q"
proof -
  let ?a = "a - dt * b - dt * (b - dt * c)" and ?b = "b - dt * c"
  have c: "0 < c" "b * b < a * c" using assms(1) by (simp_all add: pd_def)
  have e: "?a * c - ?b * ?b = a * c - b * b" by (simp add: algebra_simps)
  then have lt: "?b * ?b < ?a * c" using c(2) by (metis diff_gt_0_iff_gt)
  then have "0 < ?a * c" by (rule le_less_trans [rotated]) simp
  then have a: "0 < ?a" using c(1) by (simp add: zero_less_mult_iff)
  then show "q < ?a + q" by simp
  have "0 < ?a * r + q * c + q * r" using a c(1) assms(2,3) by (intro add_pos_pos) simp_all
  then have "?a * c < ?a * c + (?a * r + q * c + q * r)" by simp
  also have "\<dots> = (?a + q) * (c + r)" by (simp add: algebra_simps)
  finally have "?b * ?b < (?a + q) * (c + r)" using lt by (rule less_trans [rotated])
  with a c(1) assms(2,3) show "pd (?a + q) ?b (c + r)" by (simp add: pd_def)
qed

lemma cov_predict:
  assumes "cov_ok P"
  shows "cov_ok (predict_P dt P)" and "Q_ANGLE < predict_P dt P 0 0" and "Q_ANGLE < predict_P dt P 1 1"
proof -
  note n = noise_pos(1,2) [where 'a = 'a]
  from assms have p: "pd (P 0 0) (P 0 2) (P 2 2)" "pd (P 1 1) (P 1 3) (P 3 3)" by (simp_all add: cov_ok_def)
  show "cov_ok (predict_P dt P)" using assms pd_predict(1) [OF p(1) n, of dt] pd_predict(1) [OF p(2) n, of dt]
    by (simp add: cov_ok_def predict_P_def FPFT_def FP_def)
  show "Q_ANGLE < predict_P dt P 0 0" "Q_ANGLE < predict_P dt P 1 1"
    using assms pd_predict(2) [OF p(1) n, of dt] pd_predict(2) [OF p(2) n, of dt]
    by (simp_all add: cov_ok_def predict_P_def FPFT_def FP_def)
qed

text \<open>A scalar measurement of variance \<open>r\<close> of the first coordinate.\<close>

lemma pd_update:
  assumes "pd a b c" and "0 < (r :: 'a :: linordered_field)"
  shows "pd (a * r / (a + r)) (b * r / (a + r)) (c - b * b / (a + r))"
proof -
  have a: "0 < a" "0 < c" "b * b < a * c" "0 < a + r" using assms by (simp_all add: pd_def)
  have s: "b * b < c * (a + r)"
  proof -
    have "0 < c * r" using a(2) assms(2) by simp
    then show ?thesis using a(3) by (simp add: algebra_simps)
  qed
  then have p: "0 < c - b * b / (a + r)" using a(4) by (simp add: divide_less_eq)
  define s where "s = a + r"
  have "s \<noteq> 0" using a(4) by (simp add: s_def)
  have "a * r / s * (c - b * b / s) - b * r / s * (b * r / s) = a * c * r / s - b * b * r * s / (s * s)"
    unfolding s_def by (simp add: algebra_simps add_divide_distrib diff_divide_distrib)
  also have "\<dots> = (a * c - b * b) * r / s" using \<open>s \<noteq> 0\<close> by (simp add: algebra_simps diff_divide_distrib)
  finally have "a * r / (a + r) * (c - b * b / (a + r)) - b * r / (a + r) * (b * r / (a + r))
      = (a * c - b * b) * r / (a + r)" unfolding s_def .
  then have "0 < a * r / (a + r) * (c - b * b / (a + r)) - b * r / (a + r) * (b * r / (a + r))" using a(3,4) assms(2) by simp
  then have "b * r / (a + r) * (b * r / (a + r)) < a * r / (a + r) * (c - b * b / (a + r))"
    by (metis diff_gt_0_iff_gt)
  with p a(1,4) assms(2) show ?thesis by (simp add: pd_def)
qed

subsection \<open>The gain is never refused\<close>

lemma gain_ok:
  fixes P :: "nat \<Rightarrow> nat \<Rightarrow> 'a :: linordered_field"
  assumes ok: "cov_ok P" and q: "Q_ANGLE < P 0 0" "Q_ANGLE < P 1 1"
  obtains K where "kalman_gain P = Some K"
    and "\<And>i. K i 0 = P i 0 / (P 0 0 + R_ROLL)" and "\<And>i. K i 1 = P i 1 / (P 1 1 + R_PITCH)"
proof -
  let ?S0 = "P 0 0 + R_ROLL" and ?S1 = "P 1 1 + R_PITCH"
  have s: "Q_ANGLE < ?S0" "Q_ANGLE < ?S1"
    using pos_add_strict [OF noise_pos(3) q(1)] pos_add_strict [OF noise_pos(4) q(2)]
    by (simp_all add: add.commute)
  have z: "P 0 1 = 0" "P 1 0 = 0" using ok by (simp_all add: cov_ok_def)
  have p: "0 < ?S0" "0 < ?S1"
    using less_trans [OF noise_pos(1) s(1)] less_trans [OF noise_pos(1) s(2)] by simp_all
  have "(Q_ANGLE :: 'a) * Q_ANGLE < ?S0 * ?S1" using s by (intro mult_strict_mono) (simp_all add: less_imp_le p)
  moreover have "1 / 10000000000 < (Q_ANGLE :: 'a) * Q_ANGLE" by (simp add: Q_ANGLE_def)
  ultimately have "\<not> \<bar>?S0 * ?S1\<bar> < 1 / 10000000000" using p by (simp add: abs_of_pos not_less)
  then have "kalman_gain P = Some (\<lambda>i j. if j = 0 then P i 0 * (?S1 * (1 / (?S0 * ?S1))) + P i 1 * 0
      else P i 0 * 0 + P i 1 * (?S0 * (1 / (?S0 * ?S1))))"
    by (simp add: kalman_gain_def Let_def z del: One_nat_def)
  moreover have "q * (t * (1 / (s * t))) = q / s" "q * (s * (1 / (s * t))) = q / t" if "0 < s" "0 < t" for q s t :: 'a
    using that by simp_all
  note this [OF p]
  ultimately show thesis using that by (simp del: One_nat_def)
qed

lemma newP_sum: "newP K P i j = IKH K i 0 * P 0 j + IKH K i 1 * P 1 j + IKH K i 2 * P 2 j + IKH K i 3 * P 3 j"
proof -
  have "[0..<4] = [0, 1, 2, 3 :: nat]" by (simp add: upt_rec numeral_eq_Suc)
  then show ?thesis by (simp add: newP_def)
qed

text \<open>The update on each axis, entry by entry.\<close>

lemma newP_entries:
  fixes P :: "nat \<Rightarrow> nat \<Rightarrow> 'a :: linordered_field"
  assumes ok: "cov_ok P" and K: "\<And>i. K i 0 = P i 0 / (P 0 0 + R_ROLL)" "\<And>i. K i 1 = P i 1 / (P 1 1 + R_PITCH)"
  shows "newP K P 0 0 = P 0 0 * R_ROLL / (P 0 0 + R_ROLL)" "newP K P 0 2 = P 0 2 * R_ROLL / (P 0 0 + R_ROLL)"
    "newP K P 2 0 = P 0 2 * R_ROLL / (P 0 0 + R_ROLL)" "newP K P 2 2 = P 2 2 - P 0 2 * P 0 2 / (P 0 0 + R_ROLL)"
    "newP K P 1 1 = P 1 1 * R_PITCH / (P 1 1 + R_PITCH)" "newP K P 1 3 = P 1 3 * R_PITCH / (P 1 1 + R_PITCH)"
    "newP K P 3 1 = P 1 3 * R_PITCH / (P 1 1 + R_PITCH)" "newP K P 3 3 = P 3 3 - P 1 3 * P 1 3 / (P 1 1 + R_PITCH)"
    "newP K P 0 1 = 0" "newP K P 1 0 = 0" "newP K P 0 3 = 0" "newP K P 3 0 = 0"
    "newP K P 1 2 = 0" "newP K P 2 1 = 0" "newP K P 2 3 = 0" "newP K P 3 2 = 0"
proof -
  have "0 < P 0 0" "0 < P 1 1" using ok by (simp_all add: cov_ok_def pd_def)
  then have "P 0 0 + R_ROLL \<noteq> 0" "P 1 1 + R_PITCH \<noteq> 0"
    using noise_pos(3,4) [where 'a = 'a] by (metis add_pos_pos less_irrefl)+
  then show "newP K P 0 0 = P 0 0 * R_ROLL / (P 0 0 + R_ROLL)" "newP K P 0 2 = P 0 2 * R_ROLL / (P 0 0 + R_ROLL)"
    "newP K P 2 0 = P 0 2 * R_ROLL / (P 0 0 + R_ROLL)" "newP K P 2 2 = P 2 2 - P 0 2 * P 0 2 / (P 0 0 + R_ROLL)"
    "newP K P 1 1 = P 1 1 * R_PITCH / (P 1 1 + R_PITCH)" "newP K P 1 3 = P 1 3 * R_PITCH / (P 1 1 + R_PITCH)"
    "newP K P 3 1 = P 1 3 * R_PITCH / (P 1 1 + R_PITCH)" "newP K P 3 3 = P 3 3 - P 1 3 * P 1 3 / (P 1 1 + R_PITCH)"
    using ok
    by (simp_all add: newP_sum IKH_def cov_ok_def K K(2) [unfolded One_nat_def], simp_all add: field_simps)
  show "newP K P 0 1 = 0" "newP K P 1 0 = 0" "newP K P 0 3 = 0" "newP K P 3 0 = 0"
    "newP K P 1 2 = 0" "newP K P 2 1 = 0" "newP K P 2 3 = 0" "newP K P 3 2 = 0"
    using ok by (simp_all add: newP_sum IKH_def cov_ok_def K K(2) [unfolded One_nat_def])
qed

subsection \<open>Two independent filters\<close>

text \<open>
  The textbook filter of one angle and the bias of its rate sensor: rate \<open>w\<close>, measured angle
  \<open>z\<close> of variance \<open>r\<close>.
\<close>

definition axis_update :: "'a \<Rightarrow> 'a \<Rightarrow> 'a \<Rightarrow> 'a \<Rightarrow> 'a \<times> 'a \<times> 'a \<times> 'a \<times> 'a \<Rightarrow> 'a :: linordered_field \<times> 'a \<times> 'a \<times> 'a \<times> 'a" where
  "axis_update r z w dt = (\<lambda>(angle, bias, a, b, c).
     let angle = angle + (w - bias) * dt;
         a = a - dt * b - dt * (b - dt * c) + Q_ANGLE; b = b - dt * c; c = c + Q_BIAS;
         g = a / (a + r); h = b / (a + r)
     in (angle + g * (z - angle), bias + h * (z - angle), a * r / (a + r), b * r / (a + r), c - b * b / (a + r)))"

definition axis_of :: "nat \<Rightarrow> nat \<Rightarrow> 'a kalman \<Rightarrow> 'a \<times> 'a \<times> 'a \<times> 'a \<times> 'a" where
  "axis_of i j k = (kx k i, kx k j, kP k i i, kP k i j, kP k j j)"

text \<open>States after any number of updates, whatever the readings and the time steps.\<close>

inductive kalman_reach :: "('a \<Rightarrow> 'a) \<Rightarrow> ('a \<Rightarrow> 'a \<Rightarrow> 'a) \<Rightarrow> 'a :: linordered_field kalman \<Rightarrow> bool" for sq atn where
  kreach_init: "kalman_reach sq atn kalman_init"
| kreach_update: "kalman_reach sq atn k \<Longrightarrow> kalman_reach sq atn (kalman_update sq atn ax ay az wx wy dt k)"

lemma update_parts:
  assumes "cov_ok (kP k)"
  shows "axis_of 0 2 (kalman_update sq atn ax ay az wx wy dt k)
        = axis_update R_ROLL (atn ay (sq (ax * ax + az * az))) wx dt (axis_of 0 2 k)"
    and "axis_of 1 3 (kalman_update sq atn ax ay az wx wy dt k)
        = axis_update R_PITCH (atn (- ax) (sq (ay * ay + az * az))) wy dt (axis_of 1 3 k)"
    and "cov_ok (kP (kalman_update sq atn ax ay az wx wy dt k))"
proof -
  let ?P = "predict_P dt (kP k)"
  note pred = cov_predict [OF assms, of dt]
  obtain K where g: "kalman_gain ?P = Some K"
    and K0: "\<And>i. K i 0 = ?P i 0 / (?P 0 0 + R_ROLL)" and K1: "\<And>i. K i 1 = ?P i 1 / (?P 1 1 + R_PITCH)"
    by (rule gain_ok [OF pred]) (rule that, assumption+)
  note e = newP_entries [OF pred(1) K0 K1]
  have P: "?P 0 0 = kP k 0 0 - dt * kP k 0 2 - dt * (kP k 0 2 - dt * kP k 2 2) + Q_ANGLE"
      "?P 0 2 = kP k 0 2 - dt * kP k 2 2" "?P 2 2 = kP k 2 2 + Q_BIAS" "?P 2 0 = ?P 0 2"
      "?P 1 1 = kP k 1 1 - dt * kP k 1 3 - dt * (kP k 1 3 - dt * kP k 3 3) + Q_ANGLE"
      "?P 1 3 = kP k 1 3 - dt * kP k 3 3" "?P 3 3 = kP k 3 3 + Q_BIAS" "?P 3 1 = ?P 1 3"
      "?P 0 1 = 0" "?P 1 0 = 0" "?P 2 1 = 0" "?P 3 0 = 0"
    using assms by (simp_all add: cov_ok_def predict_P_def FPFT_def FP_def)
  have x: "predict_x wx wy dt (kx k) 0 = kx k 0 + (wx - kx k 2) * dt" "predict_x wx wy dt (kx k) 2 = kx k 2"
      "predict_x wx wy dt (kx k) 1 = kx k 1 + (wy - kx k 3) * dt" "predict_x wx wy dt (kx k) 3 = kx k 3"
    by (simp_all add: predict_x_def Let_def)
  show "axis_of 0 2 (kalman_update sq atn ax ay az wx wy dt k)
      = axis_update R_ROLL (atn ay (sq (ax * ax + az * az))) wx dt (axis_of 0 2 k)"
    unfolding kalman_update_def Let_def g option.case axis_of_def axis_update_def kalman.select_convs
      prod.case e K0 K1 x P by simp
  show "axis_of 1 3 (kalman_update sq atn ax ay az wx wy dt k)
      = axis_update R_PITCH (atn (- ax) (sq (ay * ay + az * az))) wy dt (axis_of 1 3 k)"
    unfolding kalman_update_def Let_def g option.case axis_of_def axis_update_def kalman.select_convs
      prod.case e K0 K1 x P by simp
  have "cov_ok (newP K ?P)"
    unfolding cov_ok_def e using pred(1)
    by (simp add: cov_ok_def pd_update del: One_nat_def)
  then show "cov_ok (kP (kalman_update sq atn ax ay az wx wy dt k))"
    by (simp add: kalman_update_def Let_def g)
qed

lemma kalman_reach_cov: "kalman_reach sq atn k \<Longrightarrow> cov_ok (kP k)"
proof (induction rule: kalman_reach.induct)
  case kreach_init
  show ?case by (simp add: kalman_init_def cov_ok_def pd_def)
qed (rule update_parts(3))



text \<open>
  An estimate lies strictly between the prediction and the measurement, as their weighted
  mean with positive weights, and its variance is positive and below both the predicted
  variance and the variance of the accelerometer: on both axes, after any history.
\<close>

theorem kalman_estimate_between:
  assumes "kalman_reach sq atn k"
  shows "\<exists>g. 0 < g \<and> g < 1
    \<and> kalman_roll (kalman_update sq atn ax ay az wx wy dt k)
        = (1 - g) * (kalman_roll k + (wx - kx k 2) * dt) + g * atn ay (sq (ax * ax + az * az))
    \<and> 0 < kP (kalman_update sq atn ax ay az wx wy dt k) 0 0
    \<and> kP (kalman_update sq atn ax ay az wx wy dt k) 0 0 < R_ROLL
    \<and> kP (kalman_update sq atn ax ay az wx wy dt k) 0 0 < predict_P dt (kP k) 0 0"
proof -
  let ?k' = "kalman_update sq atn ax ay az wx wy dt k" and ?a = "predict_P dt (kP k) 0 0"
  have ok: "cov_ok (kP k)" by (rule kalman_reach_cov [OF assms])
  have "?a = kP k 0 0 - dt * kP k 0 2 - dt * (kP k 0 2 - dt * kP k 2 2) + Q_ANGLE"
    using ok by (simp add: cov_ok_def predict_P_def FPFT_def FP_def)
  with update_parts(1) [OF ok, of sq atn ax ay az wx wy dt]
  have u: "kx ?k' 0 = kx k 0 + (wx - kx k 2) * dt
        + ?a / (?a + R_ROLL) * (atn ay (sq (ax * ax + az * az)) - (kx k 0 + (wx - kx k 2) * dt))"
      "kP ?k' 0 0 = ?a * R_ROLL / (?a + R_ROLL)"
    by (simp_all add: axis_of_def axis_update_def Let_def)
  have a: "0 < ?a" "0 < R_ROLL" "0 < ?a + R_ROLL"
    using less_trans [OF noise_pos(1) cov_predict(2) [OF ok, of dt]] noise_pos(3) by (simp_all add: add_pos_pos)
  define g where "g = ?a / (?a + R_ROLL)"
  have g: "0 < g" "g < 1" using a by (simp_all add: g_def)
  have "kalman_roll ?k' = (1 - g) * (kalman_roll k + (wx - kx k 2) * dt) + g * atn ay (sq (ax * ax + az * az))"
    unfolding kalman_roll_def u(1) g_def [symmetric] by (simp add: algebra_simps)
  moreover have "0 < kP ?k' 0 0" using a by (simp add: u(2))
  moreover have v: "kP ?k' 0 0 = g * R_ROLL" "kP ?k' 0 0 = ?a * (1 - g)"
    using a by (simp_all add: u(2) g_def field_simps)
  have "kP ?k' 0 0 < R_ROLL" unfolding v(1) using g a by simp
  moreover have "kP ?k' 0 0 < ?a" unfolding v(2) using g a by simp
  ultimately show ?thesis using g by blast
qed

theorem kalman_estimate_between_witness:
  "\<exists>g. 0 < g \<and> g < 1
    \<and> kalman_roll (kalman_update (\<lambda>x. x) (\<lambda>y x. y) 0 (1 / 10) 1 0 0 (1 / 100) (kalman_init :: rat kalman)) = g * (1 / 10)"
  using kalman_estimate_between [OF kreach_init, where sq = "\<lambda>x. x" and atn = "\<lambda>y x. y" and ax = 0
      and ay = "1 / 10" and az = 1 and wx = 0 and wy = 0 and dt = "1 / 100 :: rat"]
  by (auto simp: kalman_roll_def kalman_init_def)

end
