(* ===== verification/PrintFloat.thy ===== *)
theory PrintFloat
  imports Complex_Main UartStm
begin

text \<open>
  The %f of the STM32 formatter: \<open>print_float\<close> of \<open>drivers/stm32h753zi/uart.c\<close>, over an ordered
  field with a floor function. \<open>double\<close> rounds every product and difference; the theorem is
  about the exact algorithm, which it approximates.
\<close>

fun frac_digits :: "nat \<Rightarrow> 'a :: floor_ceiling \<Rightarrow> string" where
  "frac_digits 0 x = []"
| "frac_digits (Suc n) x =
     (let x = x * 10; digit = (word_of_int \<lfloor>x\<rfloor> :: u32)
      in char_of (48 + unat digit) # frac_digits n (x - of_int (uint digit)))"

definition print_float :: "'a :: floor_ceiling \<Rightarrow> int \<Rightarrow> string" where
  "print_float f decimals =
     (let f' = (if f < 0 then - f else f); integer = (word_of_int \<lfloor>f'\<rfloor> :: u32)
      in (if f < 0 then ''-'' else '''') @ print_uint integer 10 @ ''.''
         @ frac_digits (nat decimals) (f' - of_int (uint integer)))"

text \<open>The digits are those of the number, cut off (never rounded) after the last place.\<close>

lemma frac_digits_eq:
  assumes "0 \<le> x" and "x < 1"
  shows "frac_digits n x = map (\<lambda>i. digit_char False (nat (\<lfloor>x * 10 ^ Suc i\<rfloor> mod 10))) [0..<n]"
  using assms
proof (induction n arbitrary: x)
  case (Suc n)
  define d where "d = \<lfloor>x * 10\<rfloor>"
  have d: "0 \<le> d" "d < 10" using Suc.prems by (simp_all add: d_def floor_less_iff)
  then have u: "uint (word_of_int d :: u32) = d" "unat (word_of_int d :: u32) = nat d"
    by (simp_all add: uint_word_of_int unat_eq_nat_uint)
  have v: "(unsigned (word_of_int d :: u32) :: 'a) = of_int d"
    using arg_cong [OF u(1), of "of_int :: int \<Rightarrow> 'a"] by simp
  have "of_int d \<le> x * 10" "x * 10 < of_int d + 1" unfolding d_def by linarith+
  then have IH: "frac_digits n (x * 10 - of_int d)
      = map (\<lambda>i. digit_char False (nat (\<lfloor>(x * 10 - of_int d) * 10 ^ Suc i\<rfloor> mod 10))) [0..<n]"
    by (intro Suc.IH) auto
  have e: "\<lfloor>(x * 10 - of_int d) * 10 ^ Suc i\<rfloor> mod 10 = \<lfloor>x * 10 ^ Suc (Suc i)\<rfloor> mod 10" for i
  proof -
    have "(x * 10 - of_int d) * 10 ^ Suc i = x * 10 ^ Suc (Suc i) - of_int (d * 10 ^ Suc i)"
      by (simp add: algebra_simps)
    then have "\<lfloor>(x * 10 - of_int d) * 10 ^ Suc i\<rfloor> = \<lfloor>x * 10 ^ Suc (Suc i)\<rfloor> - d * 10 ^ Suc i"
      by (simp only: floor_diff_of_int)
    also have "\<dots> mod 10 = \<lfloor>x * 10 ^ Suc (Suc i)\<rfloor> mod 10" by (simp add: mod_simps mod_diff_eq [symmetric])
    finally show ?thesis .
  qed
  have "frac_digits (Suc n) x = digit_char False (nat d) # frac_digits n (x * 10 - of_int d)"
    using d by (simp add: Let_def u v d_def [symmetric] digit_char_def nat_less_iff)
  also have "\<dots> = map (\<lambda>i. digit_char False (nat (\<lfloor>x * 10 ^ Suc i\<rfloor> mod 10))) (0 # map Suc [0..<n])"
    using d unfolding IH e by (simp add: d_def [symmetric] o_def)
  finally show ?case by (simp only: upt_conv_Cons map_Suc_upt zero_less_Suc)
qed simp

lemma print_float_text:
  assumes "\<bar>f\<bar> < 2 ^ 32"
  shows "print_float f (int n) = (if f < 0 then ''-'' else '''') @ number_text False 10 (nat \<lfloor>\<bar>f\<bar>\<rfloor>) @ ''.''
    @ map (\<lambda>i. digit_char False (nat (\<lfloor>frac \<bar>f\<bar> * 10 ^ Suc i\<rfloor> mod 10))) [0..<n]"
proof -
  have a: "(if f < 0 then - f else f) = \<bar>f\<bar>" by (simp add: abs_if)
  have "\<lfloor>\<bar>f\<bar>\<rfloor> < 2 ^ 32" using assms by (simp add: floor_less_iff)
  then have u: "uint (word_of_int \<lfloor>\<bar>f\<bar>\<rfloor> :: u32) = \<lfloor>\<bar>f\<bar>\<rfloor>" "unat (word_of_int \<lfloor>\<bar>f\<bar>\<rfloor> :: u32) = nat \<lfloor>\<bar>f\<bar>\<rfloor>"
    by (simp_all add: uint_word_of_int unat_eq_nat_uint)
  have "\<bar>f\<bar> - of_int \<lfloor>\<bar>f\<bar>\<rfloor> = frac \<bar>f\<bar>" by (simp add: frac_def)
  then show ?thesis
    unfolding print_float_def a Let_def u
    by (simp add: frac_digits_eq frac_lt_1 print_uint_def print_uint_padded_text u Let_def)
qed
end
