(* ===== verification/UartLock.thy ===== *)
theory UartLock
  imports Mutex UartStm Mmio "HOL-Library.Sublist"
begin

text \<open>
  The lines of the STM32 console: \<open>uart_putc\<close>, \<open>uart_getc\<close> and \<open>uart_puts\<close> of
  \<open>drivers/stm32h753zi/uart.c\<close> with the mutex \<open>s_uart_mutex\<close> around the string. A task inside
  \<open>uart_puts\<close> is the rest of its string; other tasks run between any two characters. The
  number of the mutex is \<open>i\<close>; the record of started lists them in the order of their locks.
\<close>

definition USART_ISR_RXNE :: u32 where "USART_ISR_RXNE = push_bit 5 1"
definition USART_ISR_TXE :: u32 where "USART_ISR_TXE = push_bit 7 1"
definition USART3_TDR :: u32 where "USART3_TDR = 0x40004800 + 0x28"

text \<open>\<open>isr k\<close> is the \<open>k\<close>-th value read from the status register.\<close>

definition uart_putc :: "(nat \<Rightarrow> u32) \<Rightarrow> char \<Rightarrow> (u32 \<times> u32) list option" where
  "uart_putc isr c = (case spin (\<lambda>k. isr k AND USART_ISR_TXE = 0) 0 of
     None \<Rightarrow> None | Some _ \<Rightarrow> Some [(USART3_TDR, of_char c)])"

definition uart_getc :: "(nat \<Rightarrow> u32) \<Rightarrow> u32 \<Rightarrow> char option" where
  "uart_getc isr rdr = (case spin (\<lambda>k. isr k AND USART_ISR_RXNE = 0) 0 of
     None \<Rightarrow> None | Some _ \<Rightarrow> Some (char_of (unat (rdr AND 0xFF))))"

lemma uart_putc_sends:
  assumes "\<exists>k. isr k AND USART_ISR_TXE \<noteq> 0"
  shows "uart_putc isr c = Some [(USART3_TDR, of_char c)]"
proof -
  obtain n where "\<not> isr n AND USART_ISR_TXE = 0" using assms by blast
  then have "\<exists>k. spin (\<lambda>k. isr k AND USART_ISR_TXE = 0) 0 = Some k"
    using spin_ends [of "\<lambda>k. isr k AND USART_ISR_TXE = 0" n 0] by auto
  then show ?thesis by (auto simp: uart_putc_def)
qed

subsection \<open>uart_puts\<close>

record console =
  s_uart_mutex :: mutex_t
  kernel :: kern
  inside :: "tid \<Rightarrow> string option"
  wire :: string
  started :: "string list"

text \<open>The first statement: one round of \<open>mutex_lock\<close>; it is tried again until it returns.\<close>

definition puts_lock :: "nat \<Rightarrow> tid \<Rightarrow> string \<Rightarrow> console \<Rightarrow> console" where
  "puts_lock i t str s =
     (case mutex_lock i (s_uart_mutex s) (kernel s) of (r, m, k) \<Rightarrow>
        let s = s\<lparr>s_uart_mutex := m, kernel := k\<rparr>
        in if r = Ret 0
           then s\<lparr>inside := (inside s)(t := Some (uart_puts_raw str)), started := started s @ [uart_puts_raw str]\<rparr> else s)"

text \<open>One character of \<open>uart_puts_raw\<close>, or the end of the loop and \<open>mutex_unlock\<close>.\<close>

definition puts_step :: "nat \<Rightarrow> tid \<Rightarrow> console \<Rightarrow> console" where
  "puts_step i t s =
     (case inside s t of
        None \<Rightarrow> s
      | Some (c # r) \<Rightarrow> s\<lparr>wire := wire s @ [c], inside := (inside s)(t := Some r)\<rparr>
      | Some [] \<Rightarrow> (case mutex_unlock i (s_uart_mutex s) (kernel s) of (m, k) \<Rightarrow>
          s\<lparr>s_uart_mutex := m, kernel := k, inside := (inside s)(t := None)\<rparr>))"

inductive console_reach :: "nat \<Rightarrow> console \<Rightarrow> console \<Rightarrow> bool" for i s0 where
  cr_start: "console_reach i s0 s0"
| cr_puts: "console_reach i s0 s \<Longrightarrow> running (kernel s) t \<Longrightarrow> inside s t = None \<Longrightarrow>
    console_reach i s0 (puts_lock i t str s)"
| cr_step: "console_reach i s0 s \<Longrightarrow> running (kernel s) t \<Longrightarrow> console_reach i s0 (puts_step i t s)"
| cr_other: "console_reach i s0 s \<Longrightarrow> console_reach i s0 (s\<lparr>kernel := k\<rparr>)"

definition console_idle :: "console \<Rightarrow> bool" where
  "console_idle s \<longleftrightarrow> mtx_task (s_uart_mutex s) = None \<and> inside s = (\<lambda>_. None) \<and> wire s = '''' \<and> started s = []"

text \<open>Whoever holds the mutex is the one inside; what it has left completes its line.\<close>

definition console_inv :: "console \<Rightarrow> bool" where
  "console_inv s \<longleftrightarrow>
     (case mtx_task (s_uart_mutex s) of
        None \<Rightarrow> inside s = (\<lambda>_. None) \<and> wire s = concat (started s)
      | Some t \<Rightarrow> \<exists>rest. inside s = (\<lambda>_. None)(t := Some rest) \<and> wire s @ rest = concat (started s)
          \<and> started s \<noteq> [] \<and> suffix rest (last (started s)))"

lemma puts_lock_inv:
  assumes inv: "console_inv s" and r: "running (kernel s) t"
  shows "console_inv (puts_lock i t str s)"
proof -
  have c: "g_current_task (kernel s) = Some t" using r by (simp add: running_def)
  obtain q m k where l: "mutex_lock i (s_uart_mutex s) (kernel s) = (q, m, k)" by (metis prod_cases3)
  show ?thesis
  proof (cases "mtx_task (s_uart_mutex s)")
    case None
    with mutex_lock_returns [OF l c] have "q = Ret 0" "mtx_task m = Some t" by simp_all
    with None inv l show ?thesis by (simp add: console_inv_def puts_lock_def)
  next
    case (Some u)
    with mutex_lock_returns [OF l c] have "q \<noteq> Ret 0" "mtx_task m = Some u" by simp_all
    with Some inv l show ?thesis by (simp add: console_inv_def puts_lock_def)
  qed
qed

lemma puts_step_inv:
  assumes inv: "console_inv s" and r: "running (kernel s) t"
  shows "console_inv (puts_step i t s)"
proof (cases "mtx_task (s_uart_mutex s) = Some t")
  case True
  with inv obtain rest where rest: "inside s = (\<lambda>_. None)(t := Some rest)" "wire s @ rest = concat (started s)"
    "started s \<noteq> []" "suffix rest (last (started s))" by (auto simp: console_inv_def)
  show ?thesis
  proof (cases rest)
    case Nil
    obtain m k where u: "mutex_unlock i (s_uart_mutex s) (kernel s) = (m, k)" by fastforce
    have "mtx_task m = None" using mutex_unlock_returns [OF u] True r by (simp add: running_def)
    then show ?thesis using rest Nil u by (auto simp: console_inv_def puts_step_def fun_eq_iff)
  next
    case (Cons c rest')
    then have "suffix rest' (last (started s))" using rest(4) suffix_ConsD by metis
    then show ?thesis using rest Cons True by (auto simp: console_inv_def puts_step_def fun_eq_iff)
  qed
next
  case False
  then have "inside s t = None" using inv by (auto simp: console_inv_def split: option.splits)
  then show ?thesis using inv by (simp add: puts_step_def)
qed

lemma console_reach_inv: "console_reach i s0 s \<Longrightarrow> console_idle s0 \<Longrightarrow> console_inv s"
proof (induction rule: console_reach.induct)
  case cr_start
  then show ?case by (simp add: console_idle_def console_inv_def)
next
  case (cr_other s k)
  then show ?case by (simp add: console_inv_def split: option.splits)
qed (auto intro: puts_lock_inv puts_step_inv)

text \<open>
  C36: Lines stay whole. However the tasks that call \<open>uart_puts\<close> are interleaved, preempted or
  blocked: what has been sent is the concatenation of their strings in the order in which they
  got the mutex, the last one possibly cut where its task stands; when no task is inside,
  every line is complete.
\<close>

theorem uart_lines_whole:
  assumes "console_idle s0" and "console_reach i s0 s"
  shows "\<exists>rest. wire s @ rest = concat (started s) \<and> (\<forall>t u. inside s t \<noteq> None \<longrightarrow> inside s u \<noteq> None \<longrightarrow> t = u)
    \<and> (started s \<noteq> [] \<longrightarrow> suffix rest (last (started s))) \<and> ((\<forall>t. inside s t = None) \<longrightarrow> rest = [])"
proof -
  have inv: "console_inv s" using console_reach_inv [OF assms(2,1)] .
  show ?thesis
  proof (cases "mtx_task (s_uart_mutex s)")
    case None
    with inv show ?thesis by (intro exI [of _ "[]"]) (simp add: console_inv_def)
  next
    case (Some t)
    with inv obtain rest where "inside s = (\<lambda>_. None)(t := Some rest)" "wire s @ rest = concat (started s)"
      "suffix rest (last (started s))" by (auto simp: console_inv_def)
    then show ?thesis by (intro exI [of _ rest]) (auto dest: spec [of _ t])
  qed
qed

theorem uart_lines_whole_witness:
  "let s0 = \<lparr>s_uart_mutex = free_mutex, kernel = demo_kern, inside = (\<lambda>_. None), wire = '''', started = []\<rparr>;
       s = puts_step 0 (Task 0) (puts_lock 0 (Task 0) [CHR ''o'', CHR ''k'', NUL] s0)
   in wire s = ''o'' \<and> started s = [''ok''] \<and> (\<exists>rest. ''o'' @ rest = ''ok'')"
proof -
  let ?s0 = "\<lparr>s_uart_mutex = free_mutex, kernel = demo_kern, inside = (\<lambda>_. None), wire = '''', started = []\<rparr>"
  let ?s1 = "puts_lock 0 (Task 0) [CHR ''o'', CHR ''k'', NUL] ?s0"
  have g: "g_current_task demo_kern = Some (Task 0)" using demo_running by (simp add: running_def)
  have l: "mutex_lock 0 free_mutex demo_kern = (Ret 0, free_mutex\<lparr>mtx_task := Some (Task 0)\<rparr>, demo_kern)"
    by (simp add: mutex_lock_def mutex_try_acquire_eq free_mutex_def g)
  have s1: "kernel ?s1 = demo_kern" "inside ?s1 = (\<lambda>_. None)(Task 0 := Some ''ok'')" "started ?s1 = [''ok'']" "wire ?s1 = ''''"
    by (simp_all add: puts_lock_def l uart_puts_raw_def)
  have "console_reach 0 ?s0 ?s1" by (rule cr_puts [OF cr_start]) (simp_all add: demo_running)
  then have "console_reach 0 ?s0 (puts_step 0 (Task 0) ?s1)"
    by (rule cr_step) (use s1(1) demo_running in \<open>simp only:\<close>)
  moreover have "console_idle ?s0" by (simp add: console_idle_def free_mutex_def)
  ultimately have "\<exists>rest. wire (puts_step 0 (Task 0) ?s1) @ rest = concat (started (puts_step 0 (Task 0) ?s1))"
    using uart_lines_whole by blast
  moreover have "wire (puts_step 0 (Task 0) ?s1) = ''o''" "started (puts_step 0 (Task 0) ?s1) = [''ok'']"
    by (simp_all add: puts_step_def s1)
  ultimately show ?thesis by simp
qed

end
