(* ===== verification/MpuGuard.thy ===== *)
theory MpuGuard
  imports Scheduler
begin

text \<open>
  The stack guard of \<open>kernel/core/scheduler.c\<close> at register level: \<open>mpu_init_stack_guard\<close> and
  \<open>mpu_set_stack_guard\<close>, which \<open>Scheduler\<close> keeps as the name of the guarded task. The unit's
  rules are those of its documentation: a region is selected by \<open>RNR\<close> unless \<open>RBAR\<close> names one
  in its low bits, it covers the aligned block of its size, the enabled region of the highest
  number that covers an address decides, and with \<open>PRIVDEFENA\<close> privileged code may access
  what no region covers.
\<close>

record mpu =
  MPU_CTRL :: u32
  MPU_RNR :: u32
  rbar :: "u32 \<Rightarrow> u32"
  rasr :: "u32 \<Rightarrow> u32"

definition write_rbar :: "u32 \<Rightarrow> mpu \<Rightarrow> mpu" where
  "write_rbar v m =
     (let m = (if bit v 4 then m\<lparr>MPU_RNR := v AND 0xF\<rparr> else m)
      in m\<lparr>rbar := (rbar m)(MPU_RNR m := v AND NOT 0x1F)\<rparr>)"

definition write_rasr :: "u32 \<Rightarrow> mpu \<Rightarrow> mpu" where
  "write_rasr v m = m\<lparr>rasr := (rasr m)(MPU_RNR m := v)\<rparr>"

definition region_mask :: "u32 \<Rightarrow> u32" where
  "region_mask attr = NOT (mask (unat (drop_bit 1 attr AND 0x1F) + 1))"

definition region_covers :: "mpu \<Rightarrow> u32 \<Rightarrow> u32 \<Rightarrow> bool" where
  "region_covers m r a \<longleftrightarrow> bit (rasr m r) 0 \<and> a AND region_mask (rasr m r) = rbar m r AND region_mask (rasr m r)"

definition region_denies :: "mpu \<Rightarrow> u32 \<Rightarrow> bool" where
  "region_denies m r \<longleftrightarrow> drop_bit 24 (rasr m r) AND 7 = 0"

fun deciding :: "mpu \<Rightarrow> u32 \<Rightarrow> nat \<Rightarrow> u32 option" where
  "deciding m a 0 = None"
| "deciding m a (Suc n) = (if region_covers m (of_nat n) a then Some (of_nat n) else deciding m a n)"

text \<open>Whether a data access of privileged code faults, on a unit with \<open>n\<close> regions.\<close>

definition faults :: "nat \<Rightarrow> mpu \<Rightarrow> u32 \<Rightarrow> bool" where
  "faults n m a \<longleftrightarrow> bit (MPU_CTRL m) 0 \<and>
     (case deciding m a n of Some r \<Rightarrow> region_denies m r | None \<Rightarrow> \<not> bit (MPU_CTRL m) 2)"

definition STACK_GUARD_REGION :: u32 where "STACK_GUARD_REGION = 7"
definition STACK_GUARD_SIZE_WORDS :: nat where "STACK_GUARD_SIZE_WORDS = 8"
definition MPU_CTRL_ENABLE :: u32 where "MPU_CTRL_ENABLE = push_bit 0 1"
definition MPU_CTRL_PRIVDEFENA :: u32 where "MPU_CTRL_PRIVDEFENA = push_bit 2 1"
definition MPU_RASR_AP_NOACCESS :: u32 where "MPU_RASR_AP_NOACCESS = push_bit 24 0"
definition MPU_RASR_SIZE_32B :: u32 where "MPU_RASR_SIZE_32B = push_bit 1 4"
definition MPU_RASR_ENABLE :: u32 where "MPU_RASR_ENABLE = push_bit 0 1"

definition mpu_init_stack_guard :: "mpu \<Rightarrow> mpu" where
  "mpu_init_stack_guard m =
     (let m = m\<lparr>MPU_CTRL := 0\<rparr> in m\<lparr>MPU_CTRL := MPU_CTRL_ENABLE OR MPU_CTRL_PRIVDEFENA\<rparr>)"

text \<open>\<open>base\<close> is the address of the task's \<open>stack[0]\<close>.\<close>

definition mpu_set_guard :: "u32 \<Rightarrow> mpu \<Rightarrow> mpu" where
  "mpu_set_guard base m =
     (let m = m\<lparr>MPU_RNR := STACK_GUARD_REGION\<rparr>; m = write_rbar base m
      in write_rasr (push_bit 28 1 OR MPU_RASR_AP_NOACCESS OR MPU_RASR_SIZE_32B OR MPU_RASR_ENABLE) m)"

lemma guard_attr: "push_bit 28 1 OR MPU_RASR_AP_NOACCESS OR MPU_RASR_SIZE_32B OR MPU_RASR_ENABLE = (0x10000009 :: u32)"
  by (simp add: MPU_RASR_AP_NOACCESS_def MPU_RASR_SIZE_32B_def MPU_RASR_ENABLE_def)

lemma guard_mask: "region_mask 0x10000009 = NOT 0x1F"
  by (simp add: region_mask_def mask_eq_exp_minus_1)

lemma block_of: "a AND NOT 0x1F = b AND NOT 0x1F \<longleftrightarrow> unat a div 32 = unat b div 32" for a b :: u32
proof -
  have m: "(0x1F :: u32) = mask 5" by (simp add: mask_eq_exp_minus_1)
  have "a AND NOT (mask 5) = push_bit 5 (drop_bit 5 a)" for a :: u32
    by (rule bit_word_eqI) (auto simp: bit_simps)
  moreover have "push_bit 5 (drop_bit 5 a) = push_bit 5 (drop_bit 5 b) \<longleftrightarrow> drop_bit 5 a = drop_bit 5 b"
  proof
    assume "push_bit 5 (drop_bit 5 a) = push_bit 5 (drop_bit 5 b)"
    then have "drop_bit 5 (push_bit 5 (drop_bit 5 a)) = drop_bit 5 (push_bit 5 (drop_bit 5 b))" by simp
    moreover have "drop_bit 5 (push_bit 5 (drop_bit 5 a)) = drop_bit 5 a" for a :: u32
      by (rule bit_word_eqI) (auto simp: bit_simps dest: bit_imp_le_length)
    ultimately show "drop_bit 5 a = drop_bit 5 b" by simp
  qed simp
  moreover have "drop_bit 5 a = drop_bit 5 b \<longleftrightarrow> unat a div 32 = unat b div 32"
    by (simp add: word_unat_eq_iff drop_bit_eq_div unat_div)
  ultimately show ?thesis unfolding m by simp
qed

text \<open>What \<open>TAMGAOS_ALIGNED(32)\<close> gives.\<close>

lemma aligned:
  assumes "base AND 0x1F = (0 :: u32)"
  shows "base AND NOT 0x1F = base" and "\<not> bit base 4"
    and "a AND NOT 0x1F = base \<longleftrightarrow> unat base \<le> unat a \<and> unat a < unat base + 32"
proof -
  have m: "(0x1F :: u32) = mask 5" by (simp add: mask_eq_exp_minus_1)
  have b: "\<not> bit base n" if "n < 5" for n
    using arg_cong [OF assms, of "\<lambda>w. bit w n"] that unfolding m by (auto simp: bit_simps)
  then show "\<not> bit base 4" by simp
  show e: "base AND NOT 0x1F = base"
    unfolding m by (rule bit_word_eqI) (auto simp: bit_simps b)
  have "unat base mod 32 = 0"
  proof -
    have "take_bit 5 base = 0" using assms unfolding m by (simp add: take_bit_eq_mask)
    then have "unat (take_bit 5 base) = 0" by simp
    then show ?thesis by (simp add: unsigned_take_bit_eq take_bit_eq_mod unat_mod)
  qed
  then obtain q where "unat base = 32 * q" by (auto simp: mod_eq_0_iff_dvd)
  then show "a AND NOT 0x1F = base \<longleftrightarrow> unat base \<le> unat a \<and> unat a < unat base + 32"
    using block_of [of a base] unfolding e by auto
qed

lemma deciding_guard:
  assumes "\<And>r. r \<noteq> 7 \<Longrightarrow> \<not> bit (rasr m r) 0" and "7 < n" and "n \<le> 16"
  shows "deciding m a n = (if region_covers m 7 a then Some 7 else None)"
proof -
  have o: "\<not> region_covers m r a" if "r \<noteq> 7" for r using assms(1) [OF that] by (simp add: region_covers_def)
  have lo: "j \<le> 7 \<Longrightarrow> deciding m a j = None" for j
  proof (induction j)
    case (Suc j)
    then have "(of_nat j :: u32) \<noteq> 7" by (simp add: word_unat_eq_iff unat_of_nat)
    with Suc o show ?case by simp
  qed simp
  have "j \<le> 8 \<Longrightarrow> deciding m a (8 + j) = (if region_covers m 7 a then Some 7 else None)" for j
  proof (induction j)
    case 0
    have "8 + 0 = Suc 7" by simp
    then have "deciding m a (8 + 0) = (if region_covers m (of_nat 7) a then Some (of_nat 7) else deciding m a 7)"
      by (simp only: deciding.simps(2))
    then show ?case using lo [of 7] by simp
  next
    case (Suc j)
    have "(of_nat (8 + j) :: u32) \<noteq> 7"
    proof
      assume "(of_nat (8 + j) :: u32) = 7"
      then have "unat (of_nat (8 + j) :: u32) = 7" by (simp del: of_nat_add)
      moreover have "unat (of_nat (8 + j) :: u32) = 8 + j" using Suc.prems by (simp add: unat_of_nat del: of_nat_add)
      ultimately show False by simp
    qed
    then have "\<not> region_covers m (of_nat (8 + j)) a" by (rule o)
    then have "deciding m a (Suc (8 + j)) = deciding m a (8 + j)" by (simp only: deciding.simps(2) if_False)
    then show ?case using Suc by (simp only: add_Suc_right)
  qed
  from this [of "n - 8"] show ?thesis using assms(2,3) by simp
qed

lemma mpu_set_guard_eq:
  "base AND 0x1F = 0 \<Longrightarrow> mpu_set_guard base m =
     m\<lparr>MPU_RNR := 7, rbar := (rbar m)(7 := base), rasr := (rasr m)(7 := 0x10000009)\<rparr>"
  using aligned(1,2) [of base]
  unfolding mpu_set_guard_def guard_attr
  by (simp add: write_rbar_def write_rasr_def STACK_GUARD_REGION_def Let_def)

text \<open>
  C35: The guard is exactly the bottom of the stack. After \<open>sched_init\<close> has enabled the unit and
  the scheduler has switched to a task, on the Cortex-M4 (8 regions) as on the Cortex-M7 (16),
  with no other region in use and the stacks aligned as declared: an access of privileged code
  faults if and only if it falls into the 32 lowest bytes of that task's stack, which are the
  words below its canary; the guard of the task before is gone.
\<close>

theorem stack_guard_exact:
  assumes "base AND 0x1F = 0" and "before AND 0x1F = 0" and "\<forall>r. r \<noteq> 7 \<longrightarrow> \<not> bit (rasr m r) 0"
    and "n = 8 \<or> n = 16"
  shows "faults n (mpu_set_guard base (mpu_set_guard before (mpu_init_stack_guard m))) a
      \<longleftrightarrow> unat base \<le> unat a \<and> unat a < unat base + 4 * TASK_STACK_CANARY_INDEX"
proof -
  define m' where "m' = mpu_set_guard base (mpu_set_guard before (mpu_init_stack_guard m))"
  have m': "rasr m' r = (if r = 7 then 0x10000009 else rasr m r)" "rbar m' 7 = base" "MPU_CTRL m' = 5" for r
    using assms(1,2) by (simp_all add: m'_def mpu_set_guard_eq mpu_init_stack_guard_def MPU_CTRL_ENABLE_def MPU_CTRL_PRIVDEFENA_def Let_def)
  have "deciding m' a n = (if region_covers m' 7 a then Some 7 else None)"
    by (rule deciding_guard) (use assms(3,4) m'(1) in auto)
  moreover have "region_covers m' 7 a \<longleftrightarrow> unat base \<le> unat a \<and> unat a < unat base + 32"
    using aligned(1) [OF assms(1)] aligned(3) [OF assms(1), of a] by (simp add: region_covers_def m' guard_mask)
  moreover have "region_denies m' 7" by (simp add: region_denies_def m')
  moreover have "bit (5 :: u32) 0" "bit (5 :: u32) 2" by simp_all
  ultimately show ?thesis unfolding m'_def [symmetric] by (simp add: faults_def m'(3) TASK_STACK_CANARY_INDEX_def)
qed

theorem stack_guard_exact_witness:
  "faults 16 (mpu_set_guard 0x20000A20 (mpu_set_guard 0x20000000 (mpu_init_stack_guard
       \<lparr>MPU_CTRL = 0, MPU_RNR = 0, rbar = (\<lambda>_. 0), rasr = (\<lambda>_. 0)\<rparr>))) 0x20000A3C
   \<and> \<not> faults 16 (mpu_set_guard 0x20000A20 (mpu_set_guard 0x20000000 (mpu_init_stack_guard
       \<lparr>MPU_CTRL = 0, MPU_RNR = 0, rbar = (\<lambda>_. 0), rasr = (\<lambda>_. 0)\<rparr>))) 0x20000A40"
  using stack_guard_exact [where base = "0x20000A20" and before = "0x20000000" and n = 16
    and m = "\<lparr>MPU_CTRL = 0, MPU_RNR = 0, rbar = (\<lambda>_. 0), rasr = (\<lambda>_. 0)\<rparr>"]
  by (simp add: TASK_STACK_CANARY_INDEX_def)

end
