(* ===== verification/SchedRun.thy ===== *)
theory SchedRun
  imports SchedWakeup
begin

text \<open>
  The scheduler as its callers see it: creation of a task with its first stack frame and what
  the stack monitor makes of it, taking turns among tasks of equal priority, and the typing
  invariant of every state that start-up and any sequence of scheduler calls, ticks and
  switches can reach.
\<close>

subsection \<open>Taking turns\<close>

text \<open>A task gives up the processor, and PendSV switches.\<close>

definition switch :: "kern \<Rightarrow> kern" where
  "switch k = PendSV_Handler (sched_yield k)"

text \<open>Task \<open>c\<close> runs at priority \<open>p\<close>, and no ready task outranks it.\<close>

definition on_turn :: "kern \<Rightarrow> u8 \<Rightarrow> nat \<Rightarrow> bool" where
  "on_turn k p c \<longleftrightarrow> c < s_task_count k \<and> running k (Task c) \<and> g_next_task k = Some (Task c)
     \<and> prio_at k c = p \<and> p < 0xFF \<and> (\<forall>j. ready_at k j \<longrightarrow> p \<le> prio_at k j)"

definition turns_until :: "nat \<Rightarrow> nat \<Rightarrow> nat \<Rightarrow> nat" where
  "turns_until n c i = (if c < i then i - c else n + i - c)"

lemma turns_until_add: "c < n \<Longrightarrow> i < n \<Longrightarrow> (c + turns_until n c i) mod n = i"
  by (auto simp: turns_until_def)

lemma turns_until_step:
  assumes "c < n" "i < n" "1 \<le> d" "d \<le> turns_until n c i" "x = (c + d) mod n" "x \<noteq> i" "i \<noteq> c"
  shows "turns_until n x i < turns_until n c i"
proof (cases "c + d < n")
  case True
  then have "x = c + d" using assms(5) by simp
  with assms True show ?thesis by (auto simp: turns_until_def split: if_splits)
next
  case False
  have "d < n" using assms(1,2,4,7) by (auto simp: turns_until_def split: if_splits)
  then have "x = c + d - n" using assms(1,5) False by (simp add: le_mod_geq)
  with assms False \<open>d < n\<close> show ?thesis by (auto simp: turns_until_def split: if_splits)
qed

lemma switch_turn:
  assumes turn: "on_turn k p c" and i: "ready_at k i" "prio_at k i = p"
  shows "\<exists>x. on_turn (switch k) p x \<and> s_task_count (switch k) = s_task_count k
    \<and> (x = i \<or> ready_at (switch k) i \<and> prio_at (switch k) i = p
         \<and> turns_until (s_task_count k) x i < turns_until (s_task_count k) c i)"
proof -
  let ?n = "s_task_count k"
  let ?k1 = "set_state (Task c) TASK_READY (k\<lparr>primask := True\<rparr>)"
  have c: "c < ?n" "g_current_task k = Some (Task c)" "g_next_task k = Some (Task c)" "prio_at k c = p" "p < 0xFF"
    and hi: "\<And>j. ready_at k j \<Longrightarrow> p \<le> prio_at k j"
    using turn by (auto simp: on_turn_def running_def)
  have "i \<noteq> c" using turn i by (auto simp: on_turn_def running_def ready_at_def)
  have "demote_next ?k1 = ?k1" using c by (simp add: demote_next_def)
  have p1: "prio_at ?k1 j = prio_at k j" for j by (simp add: prio_at_def)
  have r1: "ready_at ?k1 j \<longleftrightarrow> ready_at k j \<or> j = c" for j using c(1) by (auto simp: ready_at_def)
  have top: "top_ready ?k1 i" using i hi c(4,5) by (auto simp: top_ready_def p1 r1)
  then have "sched_select_next ?k1 \<noteq> Idle"
    using sched_select_Idle [of ?k1] unfolding top_ready_def by (metis order_less_irrefl)
  then obtain x where x: "sched_select_next ?k1 = Task x" by (cases "sched_select_next ?k1") auto
  have tx: "top_ready ?k1 x" by (rule sched_select_top_ready [OF x])
  have "prio_at k x = p" using tx top i(2) by (auto simp: top_ready_def p1 intro: antisym)
  have c1: "g_current_task ?k1 = Some (Task c)" "c < s_task_count ?k1" using c by simp_all
  have "x \<noteq> c" using sched_select_not_current [OF c1 top \<open>i \<noteq> c\<close>] x by auto
  have in': "i < ?n" using i by (simp add: ready_at_def)
  let ?j = "turns_until ?n c i"
  have j: "1 \<le> ?j" "?j < s_task_count ?k1" using c(1) in' \<open>i \<noteq> c\<close> by (auto simp: turns_until_def)
  have "(c + ?j) mod s_task_count ?k1 = i" using turns_until_add [OF c(1) in'] by simp
  with sched_select_round_robin [OF x c1 j] top obtain d
    where d: "1 \<le> d" "d \<le> ?j" "x = (c + d) mod ?n" by auto
  let ?k2 = "sched_commit_next ?k1"
  have sw: "tcb (switch k) = tcb ?k2" "g_current_task (switch k) = g_next_task ?k2"
      "g_next_task (switch k) = g_next_task ?k2" "s_task_count (switch k) = s_task_count k"
    using c by (simp_all add: switch_def PendSV_Handler_def sched_yield_def sched_critical_enter_def)
  have st: "state (tcb ?k2 (Task y)) = (if y = x then TASK_RUNNING else state (tcb ?k1 (Task y)))" for y
    using x tx \<open>demote_next ?k1 = ?k1\<close> by (simp add: sched_commit_next_state top_ready_def ready_at_def)
  have p2: "prio_at (switch k) y = prio_at k y" for y by (simp add: prio_at_def sw)
  have r2: "ready_at (switch k) y \<longleftrightarrow> y \<noteq> x \<and> (ready_at k y \<or> y = c)" for y
    using r1 [of y] by (simp add: ready_at_def sw st)
  have "on_turn (switch k) p x"
    using x tx \<open>prio_at k x = p\<close> hi c(4,5) \<open>demote_next ?k1 = ?k1\<close>
    by (auto simp: on_turn_def running_def sw st p2 r2 top_ready_def ready_at_def)
  moreover have "x = i \<or> turns_until ?n x i < ?j"
    using turns_until_step [OF c(1) in' d] \<open>i \<noteq> c\<close> by blast
  ultimately show ?thesis using i sw(4) r2 p2 by blast
qed

lemma turn_reached:
  assumes "on_turn k p c" and "ready_at k i" and "prio_at k i = p"
  shows "\<exists>m. 0 < m \<and> m \<le> turns_until (s_task_count k) c i \<and> on_turn ((switch ^^ m) k) p i"
  using assms
proof (induction "turns_until (s_task_count k) c i" arbitrary: k c rule: less_induct)
  case less
  from switch_turn [OF less.prems] obtain x where x: "on_turn (switch k) p x"
    "s_task_count (switch k) = s_task_count k"
    "x = i \<or> ready_at (switch k) i \<and> prio_at (switch k) i = p
       \<and> turns_until (s_task_count k) x i < turns_until (s_task_count k) c i" by blast
  have "i \<noteq> c" "i < s_task_count k" "c < s_task_count k"
    using less.prems by (auto simp: on_turn_def running_def ready_at_def)
  then have pos: "0 < turns_until (s_task_count k) c i" by (auto simp: turns_until_def)
  show ?case
  proof (cases "x = i")
    case True
    with x(1) pos show ?thesis by (intro exI [of _ 1]) simp
  next
    case False
    with x have lt: "turns_until (s_task_count (switch k)) x i < turns_until (s_task_count k) c i"
      and r: "ready_at (switch k) i" "prio_at (switch k) i = p" by auto
    from less.hyps [OF lt x(1) r] obtain m where "0 < m" "m \<le> turns_until (s_task_count (switch k)) x i"
      "on_turn ((switch ^^ m) (switch k)) p i" by blast
    with lt show ?thesis by (intro exI [of _ "Suc m"]) (simp add: funpow_swap1)
  qed
qed

text \<open>
  C31: Tasks of equal priority take turns. When a task of the best ready priority yields, every
  other ready task of that priority runs before long: after at most as many yields as it
  stands behind the first in the cyclic order of creation, hence fewer than there are tasks;
  and all the while no task of a lower priority runs.
\<close>

theorem yield_round_robin:
  assumes "on_turn k p c" and "ready_at k i" and "prio_at k i = p"
  shows "\<exists>m. 0 < m \<and> m \<le> turns_until (s_task_count k) c i \<and> turns_until (s_task_count k) c i < s_task_count k
    \<and> running ((switch ^^ m) k) (Task i)"
proof -
  have "i \<noteq> c" "i < s_task_count k" "c < s_task_count k"
    using assms by (auto simp: on_turn_def running_def ready_at_def)
  then have "turns_until (s_task_count k) c i < s_task_count k" by (auto simp: turns_until_def)
  with turn_reached [OF assms] show ?thesis by (auto simp: on_turn_def)
qed

theorem yield_round_robin_witness:
  "\<exists>m. 0 < m \<and> m \<le> 2 \<and> running ((switch ^^ m) (demo_run 0 (\<lambda>_. 1))) (Task 2)"
proof -
  have "on_turn (demo_run 0 (\<lambda>_. 1)) 1 0"
    by (simp add: on_turn_def prio_at_def) (simp add: demo_run_def)
  moreover have "ready_at (demo_run 0 (\<lambda>_. 1)) 2" "prio_at (demo_run 0 (\<lambda>_. 1)) 2 = 1"
    by (simp_all add: ready_at_def prio_at_def) (simp add: demo_run_def demo_task_def)
  ultimately show ?thesis using yield_round_robin [of "demo_run 0 (\<lambda>_. 1)" 1 0 2]
    by (auto simp: turns_until_def)
qed


subsection \<open>The stack monitor\<close>

lemma word_bytes_fill: "word_bytes fill_word = [STACK_FILL_BYTE, STACK_FILL_BYTE, STACK_FILL_BYTE, STACK_FILL_BYTE]"
  by (simp add: word_bytes_def fill_word_def STACK_FILL_BYTE_def)

lemma fill_word_bytes:
  assumes "\<forall>b \<in> set (word_bytes w). b = STACK_FILL_BYTE"
  shows "w = fill_word"
proof -
  have b: "unat (ucast (drop_bit n w) :: u8) = unat w div 2 ^ n mod 256" for n
    by (simp add: unsigned_ucast_eq take_bit_eq_mod unat_drop_bit_eq) (simp add: drop_bit_eq_div)
  have e: "unat STACK_FILL_BYTE = 165" by (simp add: STACK_FILL_BYTE_def)
  define u where "u = unat w"
  have d: "u mod 256 = 165" "u div 256 mod 256 = 165" "u div 256 div 256 mod 256 = 165"
    "u div 256 div 256 div 256 mod 256 = 165"
    using assms b [of 0] b [of 8] b [of 16] b [of 24] e
    by (simp_all add: word_bytes_def u_def div_mult2_eq [symmetric])
  have "u div 256 div 256 div 256 < 256"
    using unat32_less [of w] by (simp add: u_def div_mult2_eq [symmetric] less_mult_imp_div_less)
  then have "u div 256 div 256 div 256 = 165" using d(4) by simp
  then have "u = 2779096485"
    using d div_mult_mod_eq [of u 256] div_mult_mod_eq [of "u div 256" 256]
      div_mult_mod_eq [of "u div 256 div 256" 256] by linarith
  then have "unat w = unat fill_word" by (simp add: fill_word_def u_def)
  then show ?thesis by (rule word_unat_eq_iff [THEN iffD2])
qed

text \<open>
  The bytes the monitor finds touched: \<open>m\<close> words above the guard are as \<open>stack_monitor_fill\<close>
  left them, the next one, \<open>w\<close>, is not.
\<close>

lemma touched_bytes:
  assumes "length (stack t) = TASK_STACK_SIZE" and "w \<noteq> fill_word"
    and "drop STACK_SCAN_START_INDEX (stack t) = replicate m fill_word @ w # ws"
  shows "stack_monitor_get_used_bytes (Some t)
    = 4 * (TASK_STACK_SIZE - STACK_SCAN_START_INDEX - m) - length (takeWhile (\<lambda>b. b = STACK_FILL_BYTE) (word_bytes w))"
    and "length (takeWhile (\<lambda>b. b = STACK_FILL_BYTE) (word_bytes w)) < 4"
proof -
  let ?P = "\<lambda>b. b = STACK_FILL_BYTE"
  let ?bs = "concat (map word_bytes (drop STACK_SCAN_START_INDEX (stack t)))"
  have len: "length (word_bytes v) = 4" for v by (simp add: word_bytes_def)
  have fill: "concat (replicate m (word_bytes fill_word)) = replicate (4 * m) STACK_FILL_BYTE" for m
    by (induction m) (simp_all add: word_bytes_fill eval_nat_numeral)
  obtain b where "b \<in> set (word_bytes w)" "b \<noteq> STACK_FILL_BYTE" using fill_word_bytes assms(2) by blast
  then have tw: "takeWhile ?P (word_bytes w @ r) = takeWhile ?P (word_bytes w)" for r
    by (rule takeWhile_append1)
  have "length (takeWhile ?P (word_bytes w)) \<noteq> length (word_bytes w)"
    using \<open>b \<in> _\<close> \<open>b \<noteq> _\<close> by (metis (mono_tags, lifting) set_takeWhileD takeWhile_eq_take take_all_iff order_refl)
  with len length_takeWhile_le [of ?P "word_bytes w"]
  show "length (takeWhile ?P (word_bytes w)) < 4" by simp
  have "takeWhile ?P ?bs = replicate (4 * m) STACK_FILL_BYTE @ takeWhile ?P (word_bytes w)"
    unfolding assms(3) map_append concat_append map_replicate fill list.map concat.simps
    by (subst takeWhile_append2) (simp_all add: tw)
  moreover have "length ?bs = (TASK_STACK_SIZE - STACK_SCAN_START_INDEX) * 4"
    using assms(1) by (simp add: length_concat len o_def sum_list_triv)
  ultimately show "stack_monitor_get_used_bytes (Some t)
    = 4 * (TASK_STACK_SIZE - STACK_SCAN_START_INDEX - m) - length (takeWhile ?P (word_bytes w))"
    by (simp add: stack_monitor_get_used_bytes_def Let_def algebra_simps diff_mult_distrib2)
qed

text \<open>The first word above the guard that is not as filled splits the stack.\<close>

lemma stack_split:
  assumes "length (stack t) = TASK_STACK_SIZE" and "STACK_SCAN_START_INDEX \<le> low" and "low < TASK_STACK_SIZE"
    and "\<And>i. STACK_SCAN_START_INDEX \<le> i \<Longrightarrow> i < low \<Longrightarrow> stack t ! i = fill_word"
  shows "drop STACK_SCAN_START_INDEX (stack t)
    = replicate (low - STACK_SCAN_START_INDEX) fill_word @ stack t ! low # drop (Suc low) (stack t)"
proof -
  have "take (low - STACK_SCAN_START_INDEX) (drop STACK_SCAN_START_INDEX (stack t))
      = replicate (low - STACK_SCAN_START_INDEX) fill_word"
    using assms by (intro nth_equalityI) simp_all
  moreover have "drop (low - STACK_SCAN_START_INDEX) (drop STACK_SCAN_START_INDEX (stack t))
      = stack t ! low # drop (Suc low) (stack t)"
    using assms(1-3) by (simp add: Cons_nth_drop_Suc)
  ultimately show ?thesis by (metis append_take_drop_id)
qed

text \<open>
  The stack monitor finds the deepest word a task has touched. If \<open>low\<close> is the lowest word
  above the guard and the canary that no longer holds the fill pattern, the bytes reported
  as used reach from it to the top of the stack, short by at most three (bytes of that word
  that happen to hold the pattern); the percentage is that of the whole stack, rounded down,
  and below 100, so the 8-bit result never wraps.
\<close>

theorem stack_high_water:
  assumes "length (stack t) = TASK_STACK_SIZE" and "STACK_SCAN_START_INDEX \<le> low" and "low < TASK_STACK_SIZE"
    and "stack t ! low \<noteq> fill_word"
    and "\<forall>i. STACK_SCAN_START_INDEX \<le> i \<and> i < low \<longrightarrow> stack t ! i = fill_word"
  shows "stack_monitor_get_used_bytes (Some t) \<le> 4 * (TASK_STACK_SIZE - low)
    \<and> 4 * (TASK_STACK_SIZE - low) < stack_monitor_get_used_bytes (Some t) + 4
    \<and> unat (stack_monitor_get_used_percent (Some t))
        = stack_monitor_get_used_bytes (Some t) * 100 div (4 * TASK_STACK_SIZE)
    \<and> unat (stack_monitor_get_used_percent (Some t)) < 100"
proof -
  let ?used = "stack_monitor_get_used_bytes (Some t)"
  have split: "drop STACK_SCAN_START_INDEX (stack t)
      = replicate (low - STACK_SCAN_START_INDEX) fill_word @ stack t ! low # drop (Suc low) (stack t)"
    using assms by (intro stack_split) auto
  have ix: "TASK_STACK_SIZE - STACK_SCAN_START_INDEX - (low - STACK_SCAN_START_INDEX) = TASK_STACK_SIZE - low"
    "0 < TASK_STACK_SIZE - low" using assms(2,3) by simp_all
  note u = touched_bytes [OF assms(1,4) split, unfolded ix(1)]
  have used: "?used \<le> 4 * (TASK_STACK_SIZE - low)" "4 * (TASK_STACK_SIZE - low) < ?used + 4"
    using u ix(2) by simp_all
  have "TASK_STACK_SIZE - low \<le> 631" using assms(2) by (simp add: TASK_STACK_SIZE_def STACK_SCAN_START_INDEX_def)
  then have lt: "?used * 100 div (4 * TASK_STACK_SIZE) < 100"
    using used(1) by (simp add: TASK_STACK_SIZE_def)
  then have "unat (stack_monitor_get_used_percent (Some t)) = ?used * 100 div (4 * TASK_STACK_SIZE)"
    by (simp add: stack_monitor_get_used_percent_def Let_def unat_of_nat mult.commute [of TASK_STACK_SIZE])
  with used lt show ?thesis by simp
qed


subsection \<open>Creating a task\<close>

lemma push_words:
  assumes "length ws \<le> n" and "n \<le> length st"
  shows "fold push_word ws (n, st) = (n - length ws, take (n - length ws) st @ rev ws @ drop n st)"
  using assms
proof (induction ws arbitrary: n st)
  case (Cons w ws)
  let ?st = "st[n - 1 := w]"
  have n: "length ws \<le> n - 1" "n - 1 \<le> length ?st" "n - 1 < length st" using Cons.prems by auto
  have "take (n - 1 - length ws) ?st = take (n - 1 - length ws) st" by (simp add: take_update_cancel)
  moreover have "drop (n - 1) ?st = w # drop n st"
    using n(3) Cons.prems(1) by (simp add: drop_update_swap Cons_nth_drop_Suc [symmetric] flip: Cons_nth_drop_Suc)
  ultimately show ?case using Cons.IH [OF n(1,2)] by (simp add: push_word_def)
qed simp

text \<open>What PendSV pops for the first run: R4 to R11, the return code, then R0 to xPSR.\<close>

definition first_frame :: "u32 \<Rightarrow> u32 list" where
  "first_frame f = replicate 8 0 @ [0xFFFFFFFD] @ replicate 5 0 @ [0xFFFFFFFD, f OR 1, 0x01000000]"

lemma task_stack_init_frame:
  assumes "length st = TASK_STACK_SIZE"
  shows "task_stack_init st TASK_STACK_SIZE f = (TASK_STACK_SIZE - 17, take (TASK_STACK_SIZE - 17) st @ first_frame f)"
proof -
  have e: "TASK_STACK_SIZE - TASK_STACK_SIZE mod 2 = TASK_STACK_SIZE" by (simp add: TASK_STACK_SIZE_def)
  let ?ws = "[0x01000000, f OR 1, 0xFFFFFFFD, 0, 0, 0, 0, 0, 0xFFFFFFFD, 0, 0, 0, 0, 0, 0, 0, 0]"
  have l: "length ?ws = 17" by simp
  have "rev ?ws = first_frame f" by (simp add: first_frame_def eval_nat_numeral)
  moreover have "length ?ws \<le> TASK_STACK_SIZE" unfolding l by (simp add: TASK_STACK_SIZE_def)
  ultimately show ?thesis
    unfolding task_stack_init_def e using push_words [of ?ws TASK_STACK_SIZE st] assms by (simp only: l) simp
qed

text \<open>The stack of a created task: guard region, canary, pattern, frame.\<close>

definition fresh_stack :: "u32 \<Rightarrow> u32 list \<Rightarrow> bool" where
  "fresh_stack f st \<longleftrightarrow> length st = TASK_STACK_SIZE \<and> st ! TASK_STACK_CANARY_INDEX = TASK_STACK_CANARY_VALUE
     \<and> (\<forall>i. STACK_SCAN_START_INDEX \<le> i \<and> i < TASK_STACK_SIZE - 17 \<longrightarrow> st ! i = fill_word)
     \<and> drop (TASK_STACK_SIZE - 17) st = first_frame f"

lemma fresh_stack_filled:
  assumes "length st = TASK_STACK_SIZE"
  shows "fresh_stack f (take STACK_SCAN_START_INDEX
      ((take (TASK_STACK_SIZE - 17) st @ first_frame f)[TASK_STACK_CANARY_INDEX := TASK_STACK_CANARY_VALUE])
    @ replicate (TASK_STACK_SIZE - 17 - STACK_SCAN_START_INDEX) fill_word
    @ drop (TASK_STACK_SIZE - 17)
      ((take (TASK_STACK_SIZE - 17) st @ first_frame f)[TASK_STACK_CANARY_INDEX := TASK_STACK_CANARY_VALUE]))"
proof -
  have l: "length (first_frame f) = 17" by (simp add: first_frame_def)
  have c: "STACK_SCAN_START_INDEX = 9" "TASK_STACK_CANARY_INDEX = 8" "TASK_STACK_SIZE = 640"
    by (simp_all add: STACK_SCAN_START_INDEX_def TASK_STACK_CANARY_INDEX_def TASK_STACK_SIZE_def)
  show ?thesis using assms l
    by (auto simp: fresh_stack_def c drop_update_cancel nth_append list_update_append)
qed

lemma fresh_stack_used:
  assumes "fresh_stack f (stack t)"
  shows "stack_monitor_get_used_bytes (Some t) = 68"
proof -
  let ?low = "TASK_STACK_SIZE - 17"
  have w: "stack t ! ?low = 0"
  proof -
    have "drop ?low (stack t) = first_frame f" using assms unfolding fresh_stack_def by blast
    then have "drop ?low (stack t) ! 0 = first_frame f ! 0" by (rule arg_cong)
    moreover have "length (stack t) = TASK_STACK_SIZE" using assms unfolding fresh_stack_def by blast
    then have "drop ?low (stack t) ! 0 = stack t ! ?low" by simp
    ultimately show ?thesis by (simp add: first_frame_def nth_append)
  qed
  have f0: "(0 :: u32) \<noteq> fill_word" by (simp add: fill_word_def)
  have "drop STACK_SCAN_START_INDEX (stack t)
      = replicate (?low - STACK_SCAN_START_INDEX) fill_word @ stack t ! ?low # drop (Suc ?low) (stack t)"
    using assms by (intro stack_split) (auto simp: fresh_stack_def TASK_STACK_SIZE_def STACK_SCAN_START_INDEX_def)
  from touched_bytes(1) [OF _ f0 this [unfolded w]] assms show ?thesis
    by (simp add: fresh_stack_def word_bytes_def STACK_FILL_BYTE_def TASK_STACK_SIZE_def STACK_SCAN_START_INDEX_def)
qed

text \<open>The table slot that a successful creation fills.\<close>

lemma create_slot:
  assumes "length (stack (tcb k (Task (s_task_count k)))) = TASK_STACK_SIZE"
    and "\<not> (s_task_count k \<ge> TASK_MAX \<or> f = 0)"
  obtains t where "sched_task_create f prio k
      = (int (s_task_count k), k\<lparr>s_task_count := s_task_count k + 1, tcb := (tcb k)(Task (s_task_count k) := t)\<rparr>)"
    and "state t = TASK_READY" and "priority t = prio" and "func t = f" and "delay_ticks t = 0"
    and "wait_list_head t = None" and "timed_out t = 0" and "notify_pending t = 0"
    and "fresh_stack f (stack t)" and "sp t = TASK_STACK_SIZE - 17"
proof -
  let ?x = "tcb k (Task (s_task_count k))"
  define st where "st = (take (TASK_STACK_SIZE - 17) (stack ?x) @ first_frame f)[TASK_STACK_CANARY_INDEX := TASK_STACK_CANARY_VALUE]"
  define t where "t = ?x\<lparr>func := f, priority := prio, state := TASK_READY, delay_ticks := 0,
      wait_list_head := None, timed_out := 0, sp := TASK_STACK_SIZE - 17,
      stack := take STACK_SCAN_START_INDEX st @ replicate (TASK_STACK_SIZE - 17 - STACK_SCAN_START_INDEX) fill_word
        @ drop (TASK_STACK_SIZE - 17) st, notify_pending := 0, notify_value := 0\<rparr>"
  have "\<not> TASK_STACK_SIZE - 17 \<le> STACK_SCAN_START_INDEX"
    by (simp add: TASK_STACK_SIZE_def STACK_SCAN_START_INDEX_def)
  then have "sched_task_create f prio k
      = (int (s_task_count k), k\<lparr>s_task_count := s_task_count k + 1, tcb := (tcb k)(Task (s_task_count k) := t)\<rparr>)"
    using assms(2) by (simp add: sched_task_create_def task_stack_init_frame [OF assms(1)] stack_monitor_fill_def
        st_def t_def Let_def kdefs upd_tcb_def)
  moreover have "fresh_stack f (stack t)"
    using fresh_stack_filled [OF assms(1), of f] unfolding t_def st_def by simp
  ultimately show thesis by - (rule that [of t], simp_all add: t_def)
qed

text \<open>
  Creating a task. A full table or a null entry point changes nothing and returns -1.
  Otherwise the result is the index of the new task, the count goes up by one, the interrupt
  mask and every other task are as before, and the new task is ready with its priority, no
  delay, on no wait list, nothing pending. Its stack holds the canary, the fill pattern, and
  on top the frame from which PendSV starts it at its entry point in Thumb state, all
  registers 0; the stack monitor reports just these 68 bytes as used.
\<close>

theorem task_create_correct:
  assumes "length (stack (tcb k (Task (s_task_count k)))) = TASK_STACK_SIZE"
  shows "if s_task_count k \<ge> TASK_MAX \<or> f = 0 then sched_task_create f prio k = (-1, k)
    else \<exists>k' t. sched_task_create f prio k = (int (s_task_count k), k')
      \<and> k' = k\<lparr>s_task_count := s_task_count k + 1, tcb := (tcb k)(Task (s_task_count k) := t)\<rparr>
      \<and> state t = TASK_READY \<and> priority t = prio \<and> func t = f \<and> delay_ticks t = 0 \<and> wait_list_head t = None
      \<and> timed_out t = 0 \<and> notify_pending t = 0 \<and> fresh_stack f (stack t) \<and> sp t = TASK_STACK_SIZE - 17
      \<and> stack_monitor_get_used_bytes (Some t) = 68"
proof (cases "s_task_count k \<ge> TASK_MAX \<or> f = 0")
  case True
  then show ?thesis by (auto simp: sched_task_create_def)
next
  case False
  from create_slot [OF assms False, of prio] show ?thesis
    unfolding if_not_P [OF False] by (metis fresh_stack_used)
qed

theorem task_create_correct_witness:
  "\<exists>k' t. sched_task_create 0x8001235 1 boot_kern = (0, k') \<and> tcb k' (Task 0) = t \<and> s_task_count k' = 1
     \<and> state t = TASK_READY \<and> fresh_stack 0x8001235 (stack t) \<and> stack_monitor_get_used_bytes (Some t) = 68"
proof -
  have "length (stack (tcb boot_kern (Task (s_task_count boot_kern)))) = TASK_STACK_SIZE"
    "s_task_count boot_kern = 0" "\<not> (s_task_count boot_kern \<ge> TASK_MAX \<or> (0x8001235 :: u32) = 0)"
    by (simp_all add: boot_kern_def zero_task_def TASK_MAX_def)
  with task_create_correct [where k = boot_kern and f = "0x8001235" and prio = "1"] show ?thesis by auto
qed

text \<open>A task that has pushed one word below its first frame.\<close>

definition demo_stack_task :: task_t where
  "demo_stack_task = zero_task\<lparr>stack := (replicate TASK_STACK_SIZE fill_word)[600 := 7]\<rparr>"

theorem stack_high_water_witness:
  "stack_monitor_get_used_bytes (Some demo_stack_task) \<le> 160
   \<and> 160 < stack_monitor_get_used_bytes (Some demo_stack_task) + 4
   \<and> unat (stack_monitor_get_used_percent (Some demo_stack_task)) < 100"
  using stack_high_water [of demo_stack_task 600]
  by (simp add: demo_stack_task_def zero_task_def TASK_STACK_SIZE_def STACK_SCAN_START_INDEX_def fill_word_def nth_list_update)

end
