(* ===== verification/SchedReach.thy ===== *)
theory SchedReach
  imports SchedRun
begin

text \<open>
  Every state the scheduler can get into. \<open>sched_reach\<close> starts from \<open>sched_init\<close> and closes
  under creation and start, ticks of any length, the PendSV switch, and the calls of running
  tasks and interrupt handlers: yield, delay, blocking on any wait list with or without a
  timeout, waking the first task of a list, pausing and resuming. The typing invariant says
  that all indices are in range and that the stacks and the MPU guard are in order.
\<close>

subsection \<open>Reachable states\<close>

inductive sched_reach :: "u32 \<Rightarrow> kern \<Rightarrow> bool" for idle where
  reach_init: "sched_reach idle (sched_init idle boot_kern)"
| reach_create: "sched_reach idle k \<Longrightarrow> sched_task_create f p k = (r, k') \<Longrightarrow> sched_reach idle k'"
| reach_start: "sched_reach idle k \<Longrightarrow> s_started k = 0 \<Longrightarrow> sched_reach idle (sched_start k)"
| reach_tick: "sched_reach idle k \<Longrightarrow> s_started k \<noteq> 0 \<Longrightarrow> sched_tick_n e k = Some k' \<Longrightarrow> sched_reach idle k'"
| reach_pendsv: "sched_reach idle k \<Longrightarrow> s_started k \<noteq> 0 \<Longrightarrow> sched_reach idle (PendSV_Handler k)"
| reach_yield: "sched_reach idle k \<Longrightarrow> running k c \<Longrightarrow> sched_reach idle (sched_yield k)"
| reach_delay: "sched_reach idle k \<Longrightarrow> running k (Task c) \<Longrightarrow> sched_delay_ms ms k = (r, k') \<Longrightarrow> sched_reach idle k'"
| reach_block: "sched_reach idle k \<Longrightarrow> running k (Task c) \<Longrightarrow> f = untimed_wait \<or> f = timed_wait cell ms \<Longrightarrow>
    block_on (wq_insert cell) f (Task c) k = Some k' \<Longrightarrow> sched_reach idle k'"
| reach_wake: "sched_reach idle k \<Longrightarrow> s_started k \<noteq> 0 \<Longrightarrow> wq_pop cell k = (t, k') \<Longrightarrow>
    sched_reach idle (sched_wake_task t k')"
| reach_pause: "sched_reach idle k \<Longrightarrow> state (tcb k (Task i)) \<noteq> TASK_BLOCKED \<Longrightarrow> sched_reach idle (sched_task_pause i k)"
| reach_resume: "sched_reach idle k \<Longrightarrow> sched_reach idle (sched_task_resume i k)"

subsection \<open>What the operations leave alone\<close>

definition known :: "kern \<Rightarrow> tid \<Rightarrow> bool" where
  "known k t \<longleftrightarrow> (\<forall>i. t = Task i \<longrightarrow> i < s_task_count k)"

definition arranged :: "kern \<Rightarrow> bool" where
  "arranged k \<longleftrightarrow> (\<exists>n. g_next_task k = Some n \<and> mpu_guard k = Some n \<and> known k n)"

definition static :: "kern \<Rightarrow> nat \<times> u8 \<times> tid option \<times> (tid \<Rightarrow> u32 list)" where
  "static k = (s_task_count k, s_started k, g_current_task k, \<lambda>t. stack (tcb k t))"

lemma task_const_stack: "task_const x = task_const y \<Longrightarrow> stack x = stack y"
  by (simp add: task_const_def)

lemma started_resched [simp]:
  "s_started (demote_current k) = s_started k" "s_started (demote_next k) = s_started k"
  "s_started (sched_commit_next k) = s_started k" "s_started (trigger_pendsv k) = s_started k"
  "s_started (pend_if_switch k) = s_started k" "s_started (sched_critical_exit p k) = s_started k"
  by (simp_all add: demote_current_def demote_next_def sched_commit_next_def mpu_set_stack_guard_def
      trigger_pendsv_def pend_if_switch_def sched_critical_exit_def Let_def split: option.split)

lemma static_resched [simp]:
  "static (demote_current k) = static k" "static (sched_commit_next k) = static k"
  "static (trigger_pendsv k) = static k" "static (pend_if_switch k) = static k"
  "static (sched_critical_exit p k) = static k" "static (k\<lparr>primask := p\<rparr>) = static k"
  using task_const_stack [OF task_const_demote(1)] task_const_stack [OF task_const_commit]
  by (simp_all add: static_def)

lemma static_upd [simp]: "stack (f (tcb k t)) = stack (tcb k t) \<Longrightarrow> static (upd_tcb t f k) = static k"
  by (auto simp: static_def fun_eq_iff)

lemma static_erase_links: "erase_links k' = erase_links k \<Longrightarrow> static k' = static k"
proof -
  assume e: "erase_links k' = erase_links k"
  then have "tcb (erase_links k') u = tcb (erase_links k) u" for u by simp
  then have "stack (tcb k' u) = stack (tcb k u)" for u
    by (simp add: erase_links_def) (metis task_t.ext_inject task_t.surjective task_t.update_convs(6))
  moreover have "s_started k' = s_started k"
    using arg_cong [OF e, of s_started] by (simp add: erase_links_def)
  ultimately show ?thesis using erase_links_eqD(8,10) [OF e] by (simp add: static_def)
qed

lemma known_frame: "static k' = static k \<Longrightarrow> known k' = known k"
  by (simp add: known_def static_def fun_eq_iff)

lemma arranged_commit: "arranged (sched_commit_next k)"
proof -
  have "known k (sched_select_next (demote_next k))"
    using sched_select_top_ready [of "demote_next k"]
    by (auto simp: known_def top_ready_def ready_at_def)
  then show ?thesis by (simp add: arranged_def known_def)
qed

lemma arranged_frame [simp]:
  "arranged (trigger_pendsv k) = arranged k" "arranged (pend_if_switch k) = arranged k"
  "arranged (sched_critical_exit p k) = arranged k"
  by (simp_all add: arranged_def known_def)

subsection \<open>The typing invariant\<close>

definition stat_ok :: "kern \<Rightarrow> bool" where
  "stat_ok k \<longleftrightarrow> s_task_count k \<le> TASK_MAX \<and> (\<forall>t. length (stack (tcb k t)) = TASK_STACK_SIZE)
     \<and> (\<forall>i < s_task_count k. stack (tcb k (Task i)) ! TASK_STACK_CANARY_INDEX = TASK_STACK_CANARY_VALUE)
     \<and> (\<forall>c. g_current_task k = Some c \<longrightarrow> known k c) \<and> (s_started k = 0 \<longleftrightarrow> g_current_task k = None)"

definition blocked_known :: "kern \<Rightarrow> bool" where
  "blocked_known k \<longleftrightarrow> (\<forall>t. state (tcb k t) = TASK_BLOCKED \<longrightarrow> (\<exists>i < s_task_count k. t = Task i))"

definition sched_ok :: "kern \<Rightarrow> bool" where
  "sched_ok k \<longleftrightarrow> (\<exists>W. kern_inv k W) \<and> stat_ok k \<and> blocked_known k
     \<and> (if s_started k = 0 then g_next_task k = None else arranged k)"

lemma stat_ok_frame: "static k' = static k \<Longrightarrow> stat_ok k' = stat_ok k"
  using known_frame [of k' k] by (auto simp: stat_ok_def static_def fun_eq_iff)

lemma sched_ok_step:
  assumes "sched_ok k" and "s_started k \<noteq> 0" and s: "static k' = static k"
    and "kern_inv k' V" and "arranged k'"
    and "\<And>t. state (tcb k' t) = TASK_BLOCKED \<Longrightarrow> state (tcb k t) = TASK_BLOCKED \<or> (\<exists>i < s_task_count k. t = Task i)"
  shows "sched_ok k'"
proof -
  have "s_started k' = s_started k" "s_task_count k' = s_task_count k" using s by (simp_all add: static_def)
  with assms stat_ok_frame [OF s] show ?thesis by (auto simp: sched_ok_def blocked_known_def)
qed

lemma running_started: "sched_ok k \<Longrightarrow> running k c \<Longrightarrow> s_started k \<noteq> 0 \<and> known k c"
  by (auto simp: sched_ok_def stat_ok_def running_def)

text \<open>Which tasks are blocked after each operation.\<close>

lemma blocked_commit [simp]:
  "state (tcb (sched_commit_next k) t) = TASK_BLOCKED \<longleftrightarrow> state (tcb k t) = TASK_BLOCKED"
  "state (tcb (demote_current k) t) = TASK_BLOCKED \<longleftrightarrow> state (tcb k t) = TASK_BLOCKED"
  using wait_view_eqD(5) [OF wait_view_commit] wait_view_eqD(5) [OF wait_view_demote] by blast+

lemma ok_tick:
  assumes ok: "sched_ok k" "s_started k \<noteq> 0" and t: "sched_tick_n e k = Some k'"
  shows "sched_ok k'"
proof -
  from ok(1) obtain W where inv: "kern_inv k W" by (auto simp: sched_ok_def)
  obtain k2 k1 where k2: "sched_tick_n e k = Some k2" "k2 = pend_if_switch (sched_commit_next (demote_current k1))"
    and f: "fold_opt (tick_one e) [0..<s_task_count k] k = Some k1"
    and n: "\<And>u. nolink (tcb k1 u) = nolink (if \<exists>i < s_task_count k. u = Task i then tick_task e (tcb k u) else tcb k u)"
    by (rule sched_tick_n_spec [OF inv, of e]) (rule that, assumption+)
  with t have k': "k' = pend_if_switch (sched_commit_next (demote_current k1))" by simp
  have rm: "erase_links v = erase_links u" if "sched_wait_list_remove c x u = Some v" for c x u v
    using that by (auto simp: sched_wait_list_remove_def split: if_splits option.splits)
  have "static k1 = static k"
  proof (rule fold_opt_rel [OF f, where R = "\<lambda>s u. static u = static s"])
    fix i u v assume "static u = static k" "tick_one e i u = Some v"
    then show "static v = static k"
      by (auto simp: tick_one_def Let_def set_state_def dest!: rm static_erase_links split: if_splits option.splits)
  qed simp
  then have s: "static k' = static k" by (simp add: k')
  have b: "state (tcb k t) = TASK_BLOCKED" if "state (tcb k' t) = TASK_BLOCKED" for t
    using that nolink_eqD(1) [OF n [of t]] by (simp add: k' tick_task_def split: if_splits)
  have "arranged k'" by (simp add: k' arranged_commit)
  with b show ?thesis by (intro sched_ok_step [OF ok s tick_bg(1) [OF inv t]]) blast+
qed

lemma ok_yield:
  assumes ok: "sched_ok k" and r: "running k c"
  shows "sched_ok (sched_yield k)"
proof -
  from ok obtain W where inv: "kern_inv k W" by (auto simp: sched_ok_def)
  have y: "sched_yield k = trigger_pendsv (sched_critical_exit (primask k)
      (sched_commit_next (set_state c TASK_READY (k\<lparr>primask := True\<rparr>))))"
    using r by (simp add: sched_yield_def sched_critical_enter_def running_def)
  have s: "static (sched_yield k) = static k" unfolding y by (simp add: set_state_def)
  have b: "state (tcb k t) = TASK_BLOCKED" if "state (tcb (sched_yield k) t) = TASK_BLOCKED" for t
    using that by (simp add: y split: if_splits)
  have "arranged (sched_yield k)" by (simp add: y arranged_commit)
  with b running_started [OF ok r] show ?thesis
    by (intro sched_ok_step [OF ok _ s yield_bg(1) [OF inv r]]) blast+
qed

lemma ok_delay:
  assumes ok: "sched_ok k" and r: "running k (Task c)" and d: "sched_delay_ms ms k = (r', k')"
  shows "sched_ok k'"
proof (cases "ms = 0")
  case True
  with ok d show ?thesis by (simp add: sched_delay_ms_def)
next
  case False
  from ok obtain W where inv: "kern_inv k W" by (auto simp: sched_ok_def)
  have k': "k' = trigger_pendsv (sched_critical_exit (primask k)
      (sched_commit_next (upd_tcb (Task c) (\<lambda>y. y\<lparr>delay_ticks := ms, state := TASK_BLOCKED\<rparr>) (k\<lparr>primask := True\<rparr>))))"
    using r d False by (auto simp: sched_delay_ms_def sched_critical_enter_def running_def)
  have s: "static k' = static k" unfolding k' by simp
  have b: "t = Task c \<or> state (tcb k t) = TASK_BLOCKED" if "state (tcb k' t) = TASK_BLOCKED" for t
    using that by (simp add: k' split: if_splits)
  have "arranged k'" by (simp add: k' arranged_commit)
  moreover have "s_started k \<noteq> 0" "c < s_task_count k" using running_started [OF ok r] by (simp_all add: known_def)
  ultimately show ?thesis using b
    by (intro sched_ok_step [OF ok _ s delay_bg(1) [OF inv r d]]) blast+
qed

lemma ok_block:
  assumes ok: "sched_ok k" and r: "running k (Task c)" and f: "f = untimed_wait \<or> f = timed_wait cell ms"
    and b: "block_on (wq_insert cell) f (Task c) k = Some k'"
  shows "sched_ok k'"
proof -
  from ok obtain W where inv: "kern_inv k W" by (auto simp: sched_ok_def)
  note u = running_unqueued [OF inv r]
  have i: "kern_inv k' (enq cell (Task c) k W)"
    using f
  proof
    assume "f = untimed_wait"
    with wq.block_untimed_inv [OF inv, of "Task c" cell] u b show ?thesis by auto
  next
    assume "f = timed_wait cell ms"
    with wq.block_timed_inv [OF inv, of "Task c" cell ms] u b show ?thesis by auto
  qed
  from b obtain k1 where k1: "wq_insert cell (Task c) (upd_tcb (Task c) f k) = Some k1"
    and k': "k' = trigger_pendsv (sched_commit_next (demote_current k1))"
    by (auto simp: block_on_def sched_block_locked_eq split: option.splits)
  note e = wq_insert_erase_links [OF k1]
  have "static (upd_tcb (Task c) f k) = static k"
    using f by (intro static_upd) (auto simp: untimed_wait_def timed_wait_def)
  then have s: "static k' = static k" using static_erase_links [OF e] by (simp add: k')
  have b: "t = Task c \<or> state (tcb k t) = TASK_BLOCKED" if "state (tcb k' t) = TASK_BLOCKED" for t
    using that erase_links_eqD(1) [OF e, of t] by (simp add: k' split: if_splits)
  have "arranged k'" by (simp add: k' arranged_commit)
  moreover have "s_started k \<noteq> 0" "c < s_task_count k" using running_started [OF ok r] by (simp_all add: known_def)
  ultimately show ?thesis using b by (intro sched_ok_step [OF ok _ s i]) blast+
qed

lemma ok_wake:
  assumes ok: "sched_ok k" and st: "s_started k \<noteq> 0" and p: "wq_pop cell k = (t, k')"
  shows "sched_ok (sched_wake_task t k')"
proof -
  from ok obtain W where inv: "kern_inv k W" by (auto simp: sched_ok_def)
  have i: "kern_inv (sched_wake_task t k') (deq cell W)"
    using wq.pop_wake_inv [OF inv, of "\<lambda>k. k" cell] p by simp
  have e: "erase_links k' = erase_links k" using wq_pop_erase_links [of cell k] p by simp
  show ?thesis
  proof (cases t)
    case None
    then have "k' = k" using p by (auto simp: wq_pop_def split: option.splits)
    with None ok show ?thesis by simp
  next
    case (Some u)
    have s: "static (sched_wake_task t k') = static k"
      using static_erase_links [OF e] unfolding Some sched_wake_task_eq by simp
    have b: "state (tcb k v) = TASK_BLOCKED" if "state (tcb (sched_wake_task t k') v) = TASK_BLOCKED" for v
      using that erase_links_eqD(1) [OF e, of v] unfolding Some sched_wake_task_eq by (simp split: if_splits)
    have "arranged (sched_wake_task t k')" unfolding Some sched_wake_task_eq by (simp add: arranged_commit)
    with b show ?thesis by (intro sched_ok_step [OF ok st s i]) blast+
  qed
qed

text \<open>A change of one task that keeps it unblocked and not running.\<close>

lemma ok_upd:
  assumes ok: "sched_ok k" and "state (tcb k t) \<noteq> TASK_BLOCKED"
    and f: "\<And>x. stack (f x) = stack x" "\<And>x. delay_ticks (f x) = delay_ticks x"
      "\<And>x. state (f x) \<noteq> TASK_BLOCKED \<and> state (f x) \<noteq> TASK_RUNNING"
  shows "sched_ok (sched_critical_exit p (upd_tcb t f (k\<lparr>primask := m\<rparr>)))"
proof -
  let ?k' = "sched_critical_exit p (upd_tcb t f (k\<lparr>primask := m\<rparr>))"
  from ok obtain W where inv: "kern_inv k W" by (auto simp: sched_ok_def)
  have "delay_ticks (tcb k t) = 0" "unqueued W t"
    using inv assms(2) by (auto simp: kern_inv_def wait_inv_def unqueued_def)
  then have "kern_inv (upd_tcb t f (k\<lparr>primask := m\<rparr>)) W"
    using inv f by (intro kern_inv_upd) simp_all
  then have "kern_inv ?k' W" by simp
  moreover have s: "static ?k' = static k" using f by simp
  moreover have "blocked_known ?k'" using ok f by (auto simp: sched_ok_def blocked_known_def)
  ultimately show ?thesis using ok stat_ok_frame [OF s]
    by (auto simp: sched_ok_def static_def arranged_def known_def)
qed

lemma ok_pause:
  assumes "sched_ok k" and "state (tcb k (Task i)) \<noteq> TASK_BLOCKED"
  shows "sched_ok (sched_task_pause i k)"
  using assms ok_upd [OF assms, of "\<lambda>x. x\<lparr>state := TASK_PAUSED\<rparr>"]
  by (simp add: sched_task_pause_def sched_critical_enter_def set_state_def)

lemma ok_resume:
  assumes "sched_ok k"
  shows "sched_ok (sched_task_resume i k)"
proof (cases "i < s_task_count k \<and> state (tcb k (Task i)) = TASK_PAUSED")
  case True
  then show ?thesis using ok_upd [OF assms, of "Task i" "\<lambda>x. x\<lparr>state := TASK_READY\<rparr>"]
    by (simp add: sched_task_resume_def sched_critical_enter_def set_state_def)
next
  case False
  then show ?thesis using assms
    by (auto simp: sched_task_resume_def sched_critical_enter_def sched_critical_exit_def)
qed

lemma ok_create:
  assumes ok: "sched_ok k" and c: "sched_task_create f p k = (r, k')"
  shows "sched_ok k'"
proof (cases "s_task_count k \<ge> TASK_MAX \<or> f = 0")
  case True
  with ok c show ?thesis by (auto simp: sched_task_create_def)
next
  case False
  let ?n = "s_task_count k"
  from ok obtain W where inv: "kern_inv k W" and st: "stat_ok k" and bk: "blocked_known k"
    by (auto simp: sched_ok_def)
  obtain t where k': "k' = k\<lparr>s_task_count := ?n + 1, tcb := (tcb k)(Task ?n := t)\<rparr>"
    and t: "state t = TASK_READY" "delay_ticks t = 0" "fresh_stack f (stack t)"
    using create_slot [of k f p] st False c by (auto simp: stat_ok_def)
  have "state (tcb k (Task ?n)) \<noteq> TASK_BLOCKED" using bk by (auto simp: blocked_known_def)
  then have "unqueued W (Task ?n)" by (rule kern_inv_unqueued [OF inv])
  then have "kern_inv (upd_tcb (Task ?n) (\<lambda>_. t) k) W" using inv t by (intro kern_inv_upd) simp_all
  then have "kern_inv k' W"
    by (rule kern_inv_cong [THEN iffD1, rotated -1]) (simp_all add: k' wait_view_def)
  moreover have "stat_ok k'" using st t False
    by (auto simp: k' stat_ok_def fresh_stack_def known_def less_Suc_eq)
  moreover have "blocked_known k'" using bk t by (auto simp: k' blocked_known_def less_Suc_eq)
  ultimately show ?thesis using ok by (auto simp: sched_ok_def k' arranged_def known_def less_Suc_eq)
qed

lemma ok_init: "sched_ok (sched_init idle boot_kern)"
proof -
  let ?k = "sched_init idle boot_kern"
  have b: "length (stack zero_task) = TASK_STACK_SIZE" by (simp add: zero_task_def)
  have "\<not> TASK_STACK_SIZE - 17 \<le> STACK_SCAN_START_INDEX"
    by (simp add: TASK_STACK_SIZE_def STACK_SCAN_START_INDEX_def)
  then have idle_task: "tcb ?k Idle = zero_task\<lparr>priority := TASK_PRIORITY_IDLE, state := TASK_READY, func := idle,
      sp := TASK_STACK_SIZE - 17, stack := stack (tcb ?k Idle)\<rparr>" and fresh: "fresh_stack idle (stack (tcb ?k Idle))"
    using fresh_stack_filled [OF b, of idle]
    by (simp_all add: sched_init_def boot_kern_def task_stack_init_frame [OF b] stack_monitor_fill_def)
  have i: "delay_ticks (tcb ?k Idle) = 0" "state (tcb ?k Idle) = TASK_READY"
      "length (stack (tcb ?k Idle)) = TASK_STACK_SIZE"
    using arg_cong [OF idle_task, of delay_ticks] arg_cong [OF idle_task, of state] fresh
    by (simp_all add: zero_task_def fresh_stack_def)
  have o: "tcb ?k (Task n) = zero_task" for n by (simp add: sched_init_def boot_kern_def)
  have c: "s_task_count ?k = 0" "g_current_task ?k = None" "g_next_task ?k = None" "s_started ?k = 0"
      "wait_head ?k d = None" for d by (simp_all add: sched_init_def boot_kern_def)
  have t: "delay_ticks (tcb ?k t) = 0" "state (tcb ?k t) = TASK_READY" "length (stack (tcb ?k t)) = TASK_STACK_SIZE" for t
    using i o b by (cases t; simp add: zero_task_def)+
  have "running_inv ?k" by (simp add: running_inv_def t)
  with t c have "kern_inv ?k (\<lambda>_. [])" by (intro kern_inv_fresh) simp_all
  with t c show ?thesis by (auto simp: sched_ok_def stat_ok_def blocked_known_def)
qed

lemma ok_start:
  assumes ok: "sched_ok k" and "s_started k = 0"
  shows "sched_ok (sched_start k)"
proof -
  from ok assms(2) obtain W where inv: "kern_inv k W" and st: "stat_ok k" and bk: "blocked_known k"
    and c: "g_current_task k = None" "g_next_task k = None"
    by (auto simp: sched_ok_def stat_ok_def)
  let ?k1 = "k\<lparr>s_started := 1\<rparr>"
  define n where "n = sched_select_next ?k1"
  have nr: "state (tcb k t) \<noteq> TASK_RUNNING" for t using inv c by (auto simp: kern_inv_def running_inv_def)
  have kn: "known k n" and nb: "state (tcb k n) \<noteq> TASK_BLOCKED"
    using sched_select_top_ready [of ?k1] bk unfolding n_def
    by (cases "sched_select_next ?k1"; auto simp: known_def top_ready_def ready_at_def blocked_known_def)+
  have k': "sched_start k = mpu_set_stack_guard n (set_state n TASK_RUNNING (?k1\<lparr>g_current_task := Some n, g_next_task := Some n\<rparr>))"
    by (simp add: sched_start_def Let_def n_def)
  let ?k2 = "?k1\<lparr>g_current_task := Some n, g_next_task := Some n\<rparr>"
  have v: "wait_view (sched_start k) = wait_view k"
    unfolding k' using nb by (simp add: wait_view_def fun_eq_iff mpu_set_stack_guard_def)
  have "running_inv (sched_start k)" using nr by (auto simp: k' running_inv_def mpu_set_stack_guard_def)
  with inv have "kern_inv (sched_start k) W" by (simp add: kern_inv_def wait_inv_cong [OF v])
  moreover have "stat_ok (sched_start k)" using st kn
    by (auto simp: k' stat_ok_def known_def mpu_set_stack_guard_def)
  moreover have "blocked_known (sched_start k)" using bk
    by (auto simp: k' blocked_known_def mpu_set_stack_guard_def)
  moreover have "arranged (sched_start k)" using kn
    by (simp add: k' arranged_def known_def mpu_set_stack_guard_def)
  moreover have "s_started (sched_start k) = 1" by (simp add: k' mpu_set_stack_guard_def)
  ultimately show ?thesis using inv by (auto simp: sched_ok_def)
qed

lemma ok_pendsv:
  assumes ok: "sched_ok k" and "s_started k \<noteq> 0"
  shows "sched_ok (PendSV_Handler k)"
proof -
  from ok assms(2) obtain W where "kern_inv k W" "stat_ok k" "blocked_known k" "arranged k"
    by (auto simp: sched_ok_def)
  moreover from \<open>kern_inv k W\<close> have "kern_inv (PendSV_Handler k) W" by (rule PendSV_Handler_inv)
  ultimately show ?thesis using assms(2)
    by (auto simp: sched_ok_def stat_ok_def blocked_known_def arranged_def known_def PendSV_Handler_def)
qed

lemma sched_reach_ok: "sched_reach idle k \<Longrightarrow> sched_ok k"
  by (induction rule: sched_reach.induct)
    (blast intro: ok_init ok_create ok_start ok_tick ok_pendsv ok_yield ok_delay ok_block ok_wake ok_pause ok_resume)+



end
