(* ===== verification/Startup.thy ===== *)
theory Startup
  imports SchedReach
begin

text \<open>
  The common part of the two entry points: \<open>sched_init\<close>, the creation of the tasks one after
  the other, \<open>sched_start\<close>. The theorem says which state the system is in when the first
  task runs; the entry points of both boards are instances.
\<close>

definition create_all :: "(u32 \<times> u8) list \<Rightarrow> kern \<Rightarrow> kern" where
  "create_all ts k = fold (\<lambda>(f, p) k. snd (sched_task_create f p k)) ts k"

definition fresh_task :: "u32 \<times> u8 \<Rightarrow> task_t \<Rightarrow> bool" where
  "fresh_task fp t \<longleftrightarrow> func t = fst fp \<and> priority t = snd fp \<and> delay_ticks t = 0 \<and> wait_list_head t = None
     \<and> timed_out t = 0 \<and> notify_pending t = 0 \<and> fresh_stack (fst fp) (stack t) \<and> sp t = TASK_STACK_SIZE - 17"

lemma create_all_tasks:
  assumes "\<forall>i. length (stack (tcb k (Task i))) = TASK_STACK_SIZE"
    and "s_task_count k + length ts \<le> TASK_MAX" and "\<forall>(f, p) \<in> set ts. f \<noteq> 0"
  shows "\<exists>k'. create_all ts k = k' \<and> s_task_count k' = s_task_count k + length ts \<and> g_current_task k' = g_current_task k
    \<and> (\<forall>j < length ts. fresh_task (ts ! j) (tcb k' (Task (s_task_count k + j)))
         \<and> state (tcb k' (Task (s_task_count k + j))) = TASK_READY)
    \<and> (\<forall>u. (\<forall>j < length ts. u \<noteq> Task (s_task_count k + j)) \<longrightarrow> tcb k' u = tcb k u)"
  using assms
proof (induction ts arbitrary: k)
  case Nil
  then show ?case by (simp add: create_all_def)
next
  case (Cons fp ts)
  obtain f p where fp: "fp = (f, p)" by fastforce
  let ?n = "s_task_count k"
  have ok: "\<not> (?n \<ge> TASK_MAX \<or> f = 0)" using Cons.prems(2,3) by (simp add: fp)
  from create_slot [OF _ ok, of p] Cons.prems(1) obtain t where
    c: "sched_task_create f p k = (int ?n, k\<lparr>s_task_count := ?n + 1, tcb := (tcb k)(Task ?n := t)\<rparr>)"
    and t: "state t = TASK_READY" "fresh_task fp t"
    by (auto simp: fresh_task_def fp)
  let ?k = "k\<lparr>s_task_count := ?n + 1, tcb := (tcb k)(Task ?n := t)\<rparr>"
  have "length (stack t) = TASK_STACK_SIZE" using t(2) by (simp add: fresh_task_def fresh_stack_def)
  with Cons.prems have "\<exists>k'. create_all ts ?k = k' \<and> s_task_count k' = ?n + 1 + length ts \<and> g_current_task k' = g_current_task k
    \<and> (\<forall>j < length ts. fresh_task (ts ! j) (tcb k' (Task (?n + 1 + j))) \<and> state (tcb k' (Task (?n + 1 + j))) = TASK_READY)
    \<and> (\<forall>u. (\<forall>j < length ts. u \<noteq> Task (?n + 1 + j)) \<longrightarrow> tcb k' u = tcb ?k u)"
    using Cons.IH [of ?k] by simp
  then obtain k' where k': "create_all ts ?k = k'" "s_task_count k' = ?n + 1 + length ts" "g_current_task k' = g_current_task k"
    "\<And>j. j < length ts \<Longrightarrow> fresh_task (ts ! j) (tcb k' (Task (?n + 1 + j))) \<and> state (tcb k' (Task (?n + 1 + j))) = TASK_READY"
    "\<And>u. (\<forall>j < length ts. u \<noteq> Task (?n + 1 + j)) \<Longrightarrow> tcb k' u = tcb ?k u" by blast
  have first: "tcb k' (Task ?n) = t" using k'(5) [of "Task ?n"] by simp
  have "fresh_task ((fp # ts) ! j) (tcb k' (Task (?n + j))) \<and> state (tcb k' (Task (?n + j))) = TASK_READY"
    if "j < length (fp # ts)" for j
    using that first t k'(4) [of "j - 1"] by (cases j) simp_all
  moreover have "tcb k' u = tcb k u" if u: "\<forall>j < length (fp # ts). u \<noteq> Task (?n + j)" for u
  proof -
    have "u \<noteq> Task (?n + 1 + j)" if "j < length ts" for j using u that by (auto dest: spec [of _ "Suc j"])
    moreover have "u \<noteq> Task ?n" using u by (auto dest: spec [of _ 0])
    ultimately show ?thesis using k'(5) [of u] by simp
  qed
  moreover have "create_all (fp # ts) k = k'" using k'(1) by (simp add: create_all_def fp c)
  ultimately show ?case using k'(2,3) by simp
qed

lemma sched_init_tasks:
  "s_task_count (sched_init idle k) = 0" "g_current_task (sched_init idle k) = None"
  "tcb (sched_init idle k) (Task i) = tcb k (Task i)"
  by (simp_all add: sched_init_def)

lemma start_first:
  assumes k: "s_task_count k = 0" "g_current_task k = None"
    and "\<forall>i. length (stack (tcb k (Task i))) = TASK_STACK_SIZE"
    and "length ts \<le> TASK_MAX" and "\<forall>(f, p) \<in> set ts. f \<noteq> 0" and "m < length ts"
    and "\<forall>j < length ts. j \<noteq> m \<longrightarrow> snd (ts ! m) < snd (ts ! j)" and "snd (ts ! m) < 0xFF"
  shows "\<exists>k'. sched_start (create_all ts k) = k' \<and> s_task_count k' = length ts
    \<and> running k' (Task m) \<and> g_next_task k' = Some (Task m) \<and> mpu_guard k' = Some (Task m)
    \<and> (\<forall>j < length ts. fresh_task (ts ! j) (tcb k' (Task j))
         \<and> state (tcb k' (Task j)) = (if j = m then TASK_RUNNING else TASK_READY))
    \<and> sched_check_stack_canaries k' = TASK_STACK_CANARY_ALL_OK"
proof -
  define k1 where "k1 = create_all ts k"
  have k1: "s_task_count k1 = length ts" "g_current_task k1 = None"
    "\<And>j. j < length ts \<Longrightarrow> fresh_task (ts ! j) (tcb k1 (Task j))"
    "\<And>j. j < length ts \<Longrightarrow> state (tcb k1 (Task j)) = TASK_READY"
    using create_all_tasks [of k ts] assms(3-5) k by (auto simp: k1_def)
  let ?k = "k1\<lparr>s_started := 1\<rparr>"
  have top: "top_ready ?k j \<Longrightarrow> j = m" for j
  proof (rule ccontr)
    assume j: "top_ready ?k j" "j \<noteq> m"
    then have "j < length ts" by (simp add: top_ready_def ready_at_def k1(1))
    moreover have "prio_at ?k j \<le> prio_at ?k m"
      using j(1) assms(6) k1(1,4) by (simp add: top_ready_def ready_at_def)
    ultimately have "snd (ts ! j) \<le> snd (ts ! m)" using k1(3) assms(6) by (simp add: prio_at_def fresh_task_def)
    with assms(7) j(2) \<open>j < length ts\<close> show False by (auto dest: leD)
  qed
  have "sched_select_next ?k \<noteq> Idle"
    unfolding sched_select_Idle using assms(6,8) k1(1,3,4)
    by (auto simp: ready_at_def prio_at_def fresh_task_def intro!: exI [of _ m])
  then have sel: "sched_select_next ?k = Task m"
    using sched_select_top_ready top by (cases "sched_select_next ?k") auto
  define k' where "k' = sched_start k1"
  have e: "k' = mpu_set_stack_guard (Task m)
      (set_state (Task m) TASK_RUNNING (?k\<lparr>g_current_task := Some (Task m), g_next_task := Some (Task m)\<rparr>))"
    unfolding k'_def sched_start_def Let_def sel ..
  have f: "fresh_task (ts ! j) (tcb k' (Task j)) \<and> state (tcb k' (Task j)) = (if j = m then TASK_RUNNING else TASK_READY)"
    if "j < length ts" for j
    using k1(3,4) [OF that] by (cases "j = m") (simp_all add: e mpu_set_stack_guard_def fresh_task_def)
  moreover have "s_task_count k' = length ts" "running k' (Task m)" "g_next_task k' = Some (Task m)" "mpu_guard k' = Some (Task m)"
    using k1(1) by (simp_all add: e mpu_set_stack_guard_def running_def)
  moreover have "find (\<lambda>i. stack (tcb k' (Task i)) ! TASK_STACK_CANARY_INDEX \<noteq> TASK_STACK_CANARY_VALUE) [0..<length ts] = None"
    using f by (auto simp: find_None_iff fresh_task_def fresh_stack_def)
  then have "sched_check_stack_canaries k' = TASK_STACK_CANARY_ALL_OK"
    by (simp add: sched_check_stack_canaries_def calculation(2))
  ultimately show ?thesis unfolding k'_def k1_def by blast
qed

text \<open>
  C34: The system starts. From any state of the scheduler's memory, if at most
  \<open>TASK_MAX\<close> tasks with non-null entry points are created and one of them has a priority
  above all others: \<open>sched_start\<close> makes that task the running one and guards its stack;
  every other task is ready; each has its entry point, its priority, no delay, nothing pending
  and a fresh stack with an intact canary, so that the first canary check finds nothing.
\<close>

theorem system_start:
  assumes "\<forall>i. length (stack (tcb k (Task i))) = TASK_STACK_SIZE"
    and "length ts \<le> TASK_MAX" and "\<forall>(f, p) \<in> set ts. f \<noteq> 0" and "m < length ts"
    and "\<forall>j < length ts. j \<noteq> m \<longrightarrow> snd (ts ! m) < snd (ts ! j)" and "snd (ts ! m) < 0xFF"
  shows "\<exists>k'. sched_start (create_all ts (sched_init idle k)) = k' \<and> s_task_count k' = length ts
    \<and> running k' (Task m) \<and> g_next_task k' = Some (Task m) \<and> mpu_guard k' = Some (Task m)
    \<and> (\<forall>j < length ts. fresh_task (ts ! j) (tcb k' (Task j))
         \<and> state (tcb k' (Task j)) = (if j = m then TASK_RUNNING else TASK_READY))
    \<and> sched_check_stack_canaries k' = TASK_STACK_CANARY_ALL_OK"
proof -
  have "\<forall>i. length (stack (tcb (sched_init idle k) (Task i))) = TASK_STACK_SIZE"
    using assms(1) by (simp add: sched_init_tasks)
  from start_first [OF sched_init_tasks(1,2) this assms(2-6)] show ?thesis .
qed

theorem system_start_witness:
  "\<exists>k'. sched_start (create_all [(0x8001001, TASK_PRIORITY_LOW), (0x8002001, TASK_PRIORITY_HIGH)] (sched_init 0x8000101 boot_kern)) = k'
    \<and> running k' (Task 1) \<and> sched_check_stack_canaries k' = TASK_STACK_CANARY_ALL_OK"
  using system_start [where k = boot_kern and idle = "0x8000101" and m = 1
      and ts = "[(0x8001001, TASK_PRIORITY_LOW), (0x8002001, TASK_PRIORITY_HIGH)]"]
  by (auto simp: boot_kern_def zero_task_def TASK_MAX_def TASK_PRIORITY_LOW_def TASK_PRIORITY_HIGH_def less_Suc_eq)

end
