(* ===== verification/K64fMain.thy ===== *)
theory K64fMain
  imports Semaphore Mutex Startup UartK64f
begin

text \<open>
  The image of the K64F board, \<open>src/k64f/main.c\<close>: two tasks that pass the light to each other
  through two semaphores, two tasks that share a mutex, a heartbeat and a task that watches
  the stack canaries. A task is its program point, one constructor per statement, with the
  point inside \<open>sched_delay_ms\<close> where it waits; a step of a task executes its statement with
  the operation of the kernel model. What else runs (the two FPU test tasks, interrupts,
  ticks, switches) may change the scheduler state in any way, but not the objects of these
  tasks. \<open>lit\<close> records the lamps in the order they were switched on.
\<close>

definition LED_RED_PIN :: u32 where "LED_RED_PIN = push_bit 22 1"
definition LED_BLUE_PIN :: u32 where "LED_BLUE_PIN = push_bit 21 1"

subsection \<open>The port pins\<close>

text \<open>The registers \<open>main.c\<close> writes; a pin drives its lamp when it is an output and low.\<close>

record board =
  scgc5 :: u32
  portb_pcr :: "nat \<Rightarrow> u32"
  pddr :: u32
  pdor :: u32

definition gpio_psor :: "u32 \<Rightarrow> board \<Rightarrow> board" where "gpio_psor m b = b\<lparr>pdor := pdor b OR m\<rparr>"
definition gpio_pcor :: "u32 \<Rightarrow> board \<Rightarrow> board" where "gpio_pcor m b = b\<lparr>pdor := pdor b AND NOT m\<rparr>"

definition port_pcr_mux :: "u32 \<Rightarrow> u32" where
  "port_pcr_mux x = push_bit 8 x AND push_bit 8 (push_bit 3 1 - 1)"

definition board_init :: "board \<Rightarrow> board" where
  "board_init b =
     (let b = b\<lparr>scgc5 := scgc5 b OR push_bit 10 1\<rparr>;
          b = b\<lparr>portb_pcr := (portb_pcr b)(22 := port_pcr_mux 1)\<rparr>;
          b = b\<lparr>pddr := pddr b OR LED_RED_PIN\<rparr>;
          b = gpio_psor LED_RED_PIN b;
          b = b\<lparr>portb_pcr := (portb_pcr b)(21 := port_pcr_mux 1)\<rparr>;
          b = b\<lparr>pddr := pddr b OR LED_BLUE_PIN\<rparr>
      in gpio_psor LED_BLUE_PIN b)"

definition shines :: "nat \<Rightarrow> board \<Rightarrow> bool" where
  "shines pin b \<longleftrightarrow> bit (pddr b) pin \<and> \<not> bit (pdor b) pin"

subsection \<open>Tasks\<close>

datatype led = Red | Blue

datatype red_at = R_on | R_delay | R_wait | R_off | R_print1 | R_give | R_print2 | R_take | R_print3
datatype blue_at = B_take | B_print1 | B_on | B_delay | B_wait | B_off | B_give | B_print2
datatype uart_at = U_lock | U_print1 | U_delay1 | U_wait1 | U_print2 | U_unlock | U_delay2 | U_wait2
datatype hb_at = H_print | H_delay | H_wait
datatype wd_at = W_check | W_dead | W_delay | W_wait

record demo =
  board :: board
  g_sem_red_to_blue :: sem_t
  g_sem_blue_to_red :: sem_t
  g_test_mutex :: mutex_t
  kernel :: kern
  red :: red_at
  blue :: blue_at
  high :: uart_at
  low :: uart_at
  heartbeat :: hb_at
  watchdog :: wd_at
  console :: string
  lit :: "led list"

abbreviation CRLF' :: string where "CRLF' \<equiv> [CHR 0x0D, CHR 0x0A]"

definition puts :: "string \<Rightarrow> demo \<Rightarrow> demo" where
  "puts m s = s\<lparr>console := console s @ k64f_uart_puts m\<rparr>"

text \<open>A call of \<open>sched_delay_ms\<close>: \<open>now\<close> if it returns at once, \<open>wait\<close> if the task is blocked.\<close>

definition delay_call :: "u32 \<Rightarrow> 'p \<Rightarrow> 'p \<Rightarrow> kern \<Rightarrow> 'p \<times> kern" where
  "delay_call ms now wait k = (case sched_delay_ms ms k of (r, k') \<Rightarrow> (if r = Ret () then now else wait, k'))"

definition delay_done :: "tid \<Rightarrow> kern \<Rightarrow> bool" where
  "delay_done t k \<longleftrightarrow> sched_delay_ms_resume t k = Ret ()"

definition task_led_red :: "demo \<Rightarrow> demo" where
  "task_led_red s = (case red s of
     R_on \<Rightarrow> s\<lparr>board := gpio_pcor LED_RED_PIN (board s), lit := lit s @ [Red], red := R_delay\<rparr>
   | R_delay \<Rightarrow> (let (p, k') = delay_call 500 R_off R_wait (kernel s) in s\<lparr>kernel := k', red := p\<rparr>)
   | R_wait \<Rightarrow> if delay_done (Task 0) (kernel s) then s\<lparr>red := R_off\<rparr> else s
   | R_off \<Rightarrow> s\<lparr>board := gpio_psor LED_RED_PIN (board s), red := R_print1\<rparr>
   | R_print1 \<Rightarrow> (puts (''[RED] before give'' @ CRLF') s)\<lparr>red := R_give\<rparr>
   | R_give \<Rightarrow> (let (m, k') = sem_give 0 (g_sem_red_to_blue s) (kernel s)
               in s\<lparr>g_sem_red_to_blue := m, kernel := k', red := R_print2\<rparr>)
   | R_print2 \<Rightarrow> (puts (''[RED] after give, before take'' @ CRLF') s)\<lparr>red := R_take\<rparr>
   | R_take \<Rightarrow> (let (r, m, k') = sem_take 1 (g_sem_blue_to_red s) (kernel s)
               in s\<lparr>g_sem_blue_to_red := m, kernel := k', red := (if r = Ret () then R_print3 else R_take)\<rparr>)
   | R_print3 \<Rightarrow> (puts (''[RED] after take'' @ CRLF') s)\<lparr>red := R_on\<rparr>)"

definition task_led_blue :: "demo \<Rightarrow> demo" where
  "task_led_blue s = (case blue s of
     B_take \<Rightarrow> (let (r, m, k') = sem_take 0 (g_sem_red_to_blue s) (kernel s)
               in s\<lparr>g_sem_red_to_blue := m, kernel := k', blue := (if r = Ret () then B_print1 else B_take)\<rparr>)
   | B_print1 \<Rightarrow> (puts (''[BLUE] got sem'' @ CRLF') s)\<lparr>blue := B_on\<rparr>
   | B_on \<Rightarrow> s\<lparr>board := gpio_pcor LED_BLUE_PIN (board s), lit := lit s @ [Blue], blue := B_delay\<rparr>
   | B_delay \<Rightarrow> (let (p, k') = delay_call 500 B_off B_wait (kernel s) in s\<lparr>kernel := k', blue := p\<rparr>)
   | B_wait \<Rightarrow> if delay_done (Task 1) (kernel s) then s\<lparr>blue := B_off\<rparr> else s
   | B_off \<Rightarrow> s\<lparr>board := gpio_psor LED_BLUE_PIN (board s), blue := B_give\<rparr>
   | B_give \<Rightarrow> (let (m, k') = sem_give 1 (g_sem_blue_to_red s) (kernel s)
               in s\<lparr>g_sem_blue_to_red := m, kernel := k', blue := B_print2\<rparr>)
   | B_print2 \<Rightarrow> (puts (''[BLUE] gave sem'' @ CRLF') s)\<lparr>blue := B_take\<rparr>)"

text \<open>The two mutex tasks have the same body but for the texts and the first delay.\<close>

definition task_uart :: "string \<Rightarrow> u32 \<Rightarrow> tid \<Rightarrow> uart_at \<Rightarrow> demo \<Rightarrow> uart_at \<times> demo" where
  "task_uart name ms t p s = (case p of
     U_lock \<Rightarrow> (let (r, m, k') = mutex_lock 0 (g_test_mutex s) (kernel s)
               in (if r = Ret 0 then U_print1 else U_lock, s\<lparr>g_test_mutex := m, kernel := k'\<rparr>))
   | U_print1 \<Rightarrow> (U_delay1, puts (name @ '' locked'' @ CRLF') s)
   | U_delay1 \<Rightarrow> (let (q, k') = delay_call ms U_print2 U_wait1 (kernel s) in (q, s\<lparr>kernel := k'\<rparr>))
   | U_wait1 \<Rightarrow> (if delay_done t (kernel s) then U_print2 else U_wait1, s)
   | U_print2 \<Rightarrow> (U_unlock, puts (name @ '' unlock'' @ CRLF') s)
   | U_unlock \<Rightarrow> (let (m, k') = mutex_unlock 0 (g_test_mutex s) (kernel s)
                 in (U_delay2, s\<lparr>g_test_mutex := m, kernel := k'\<rparr>))
   | U_delay2 \<Rightarrow> (let (q, k') = delay_call 100 U_lock U_wait2 (kernel s) in (q, s\<lparr>kernel := k'\<rparr>))
   | U_wait2 \<Rightarrow> (if delay_done t (kernel s) then U_lock else U_wait2, s))"

definition task_uart_high :: "demo \<Rightarrow> demo" where
  "task_uart_high s = (let (p, s') = task_uart ''[HIGH]'' 300 (Task 2) (high s) s in s'\<lparr>high := p\<rparr>)"

definition task_uart_low :: "demo \<Rightarrow> demo" where
  "task_uart_low s = (let (p, s') = task_uart ''[LOW]'' 500 (Task 3) (low s) s in s'\<lparr>low := p\<rparr>)"

definition task_heartbeat :: "demo \<Rightarrow> demo" where
  "task_heartbeat s = (case heartbeat s of
     H_print \<Rightarrow> (puts (''[HB] tick'' @ CRLF') s)\<lparr>heartbeat := H_delay\<rparr>
   | H_delay \<Rightarrow> (let (p, k') = delay_call 1000 H_print H_wait (kernel s) in s\<lparr>kernel := k', heartbeat := p\<rparr>)
   | H_wait \<Rightarrow> if delay_done (Task 4) (kernel s) then s\<lparr>heartbeat := H_print\<rparr> else s)"

text \<open>\<open>uart_print_uint\<close> fills its 12-byte buffer from the end, as the digit loop of the driver does.\<close>

definition uart_print_uint :: "string \<Rightarrow> u32 \<Rightarrow> string" where
  "uart_print_uint prefix val =
     (let buf = (replicate 12 (CHR ''?''))[11 := NUL]
      in if val = 0 then k64f_uart_puts prefix @ ''0'' @ k64f_uart_puts CRLF'
         else let (i, buf) = print_digits 10 False val 11 buf
              in k64f_uart_puts prefix @ k64f_uart_puts (drop i buf) @ k64f_uart_puts CRLF')"

definition task_watchdog :: "demo \<Rightarrow> demo" where
  "task_watchdog s = (case watchdog s of
     W_check \<Rightarrow> (let bad = sched_check_stack_canaries (kernel s)
                in if bad \<noteq> 0xFF
                   then s\<lparr>console := console s @ uart_print_uint ''!!! STACK OVERFLOW detected on task_idx='' (ucast bad),
                          watchdog := W_dead\<rparr>
                   else s\<lparr>watchdog := W_delay\<rparr>)
   | W_dead \<Rightarrow> s
   | W_delay \<Rightarrow> (let (p, k') = delay_call 100 W_check W_wait (kernel s) in s\<lparr>kernel := k', watchdog := p\<rparr>)
   | W_wait \<Rightarrow> if delay_done (Task 5) (kernel s) then s\<lparr>watchdog := W_check\<rparr> else s)"

subsection \<open>main\<close>

text \<open>\<open>entry i\<close> is the address of the \<open>i\<close>-th task function, in the order of creation.\<close>

definition main_tasks :: "(nat \<Rightarrow> u32) \<Rightarrow> (u32 \<times> u8) list" where
  "main_tasks entry = [(entry 0, TASK_PRIORITY_NORMAL), (entry 1, TASK_PRIORITY_NORMAL), (entry 2, TASK_PRIORITY_HIGH),
     (entry 3, TASK_PRIORITY_LOW), (entry 4, TASK_PRIORITY_NORMAL), (entry 5, TASK_PRIORITY_LOW),
     (entry 6, TASK_PRIORITY_NORMAL), (entry 7, TASK_PRIORITY_NORMAL)]"

definition k64f_main :: "u32 \<Rightarrow> (nat \<Rightarrow> u32) \<Rightarrow> board \<Rightarrow> kern \<Rightarrow> demo" where
  "k64f_main idle entry b k =
     (let out = k64f_uart_puts (''TamgaOS booting (stress test)...'' @ CRLF');
          b = board_init b;
          k = sched_init idle k;
          (mtx, k) = mutex_init 0 k;
          (rb, k) = sem_init 0 0 1 k;
          (br, k) = sem_init 1 0 1 k;
          k = create_all (main_tasks entry) k;
          out = out @ k64f_uart_puts (''Starting scheduler...'' @ CRLF');
          k = sched_start k
      in \<lparr>board = b, g_sem_red_to_blue = rb, g_sem_blue_to_red = br, g_test_mutex = mtx, kernel = k,
          red = R_on, blue = B_take, high = U_lock, low = U_lock, heartbeat = H_print, watchdog = W_check,
          console = out, lit = []\<rparr>)"

inductive demo_reach :: "demo \<Rightarrow> demo \<Rightarrow> bool" for s0 where
  dr_start: "demo_reach s0 s0"
| dr_red: "demo_reach s0 s \<Longrightarrow> running (kernel s) (Task 0) \<Longrightarrow> demo_reach s0 (task_led_red s)"
| dr_blue: "demo_reach s0 s \<Longrightarrow> running (kernel s) (Task 1) \<Longrightarrow> demo_reach s0 (task_led_blue s)"
| dr_high: "demo_reach s0 s \<Longrightarrow> running (kernel s) (Task 2) \<Longrightarrow> demo_reach s0 (task_uart_high s)"
| dr_low: "demo_reach s0 s \<Longrightarrow> running (kernel s) (Task 3) \<Longrightarrow> demo_reach s0 (task_uart_low s)"
| dr_heartbeat: "demo_reach s0 s \<Longrightarrow> running (kernel s) (Task 4) \<Longrightarrow> demo_reach s0 (task_heartbeat s)"
| dr_watchdog: "demo_reach s0 s \<Longrightarrow> running (kernel s) (Task 5) \<Longrightarrow> demo_reach s0 (task_watchdog s)"
| dr_other: "demo_reach s0 s \<Longrightarrow> demo_reach s0 (s\<lparr>kernel := k', console := c'\<rparr>)"


subsection \<open>Invariant\<close>

definition red_holds :: "red_at \<Rightarrow> bool" where
  "red_holds p \<longleftrightarrow> p \<in> {R_print3, R_on, R_delay, R_wait, R_off, R_print1, R_give}"

definition blue_holds :: "blue_at \<Rightarrow> bool" where
  "blue_holds p \<longleftrightarrow> p \<in> {B_print1, B_on, B_delay, B_wait, B_off, B_give}"

definition red_lit :: "red_at \<Rightarrow> bool" where "red_lit p \<longleftrightarrow> p \<in> {R_delay, R_wait, R_off}"
definition blue_lit :: "blue_at \<Rightarrow> bool" where "blue_lit p \<longleftrightarrow> p \<in> {B_delay, B_wait, B_off}"

definition inside :: "uart_at \<Rightarrow> bool" where
  "inside p \<longleftrightarrow> p \<in> {U_print1, U_delay1, U_wait1, U_print2, U_unlock}"

text \<open>Exactly one token: in a task's hands or in one of the semaphores.\<close>

definition token_inv :: "sem_t \<Rightarrow> sem_t \<Rightarrow> red_at \<Rightarrow> blue_at \<Rightarrow> bool" where
  "token_inv rb br r b \<longleftrightarrow> sem_max rb = 1 \<and> sem_max br = 1 \<and> 0 \<le> sem_count rb \<and> 0 \<le> sem_count br
     \<and> sem_count rb + sem_count br + of_bool (red_holds r) + of_bool (blue_holds b) = 1"

definition pins_inv :: "board \<Rightarrow> red_at \<Rightarrow> blue_at \<Rightarrow> bool" where
  "pins_inv bd r b \<longleftrightarrow> shines 22 bd = red_lit r \<and> shines 21 bd = blue_lit b \<and> bit (pddr bd) 22 \<and> bit (pddr bd) 21"

definition alternating :: "led list \<Rightarrow> bool" where
  "alternating l \<longleftrightarrow> (\<forall>i < length l. l ! i = (if even i then Red else Blue))"

text \<open>It is red's turn from the moment blue is switched on until red is.\<close>

definition turn_inv :: "led list \<Rightarrow> sem_t \<Rightarrow> sem_t \<Rightarrow> red_at \<Rightarrow> blue_at \<Rightarrow> bool" where
  "turn_inv l rb br r b \<longleftrightarrow> alternating l
     \<and> even (length l) = (r \<in> {R_print3, R_on} \<or> sem_count br = 1 \<or> b \<in> {B_delay, B_wait, B_off, B_give})"

definition owner_inv :: "mutex_t \<Rightarrow> uart_at \<Rightarrow> uart_at \<Rightarrow> bool" where
  "owner_inv m h l \<longleftrightarrow> (mtx_task m = Some (Task 2) \<longleftrightarrow> inside h) \<and> (mtx_task m = Some (Task 3) \<longleftrightarrow> inside l)
     \<and> mtx_task m \<in> {None, Some (Task 2), Some (Task 3)}"

definition demo_inv :: "demo \<Rightarrow> bool" where
  "demo_inv s \<longleftrightarrow> token_inv (g_sem_red_to_blue s) (g_sem_blue_to_red s) (red s) (blue s)
     \<and> pins_inv (board s) (red s) (blue s)
     \<and> turn_inv (lit s) (g_sem_red_to_blue s) (g_sem_blue_to_red s) (red s) (blue s)
     \<and> owner_inv (g_test_mutex s) (high s) (low s)"

lemmas program_points = red_holds_def blue_holds_def red_lit_def blue_lit_def inside_def

lemma alternating_snoc:
  "alternating (l @ [x]) \<longleftrightarrow> alternating l \<and> x = (if even (length l) then Red else Blue)"
  by (auto simp: alternating_def nth_append less_Suc_eq)

lemma gpio_pins [simp]:
  "shines 22 (gpio_pcor LED_RED_PIN b) = bit (pddr b) 22" "\<not> shines 22 (gpio_psor LED_RED_PIN b)"
  "shines 21 (gpio_pcor LED_RED_PIN b) = shines 21 b" "shines 21 (gpio_psor LED_RED_PIN b) = shines 21 b"
  "shines 21 (gpio_pcor LED_BLUE_PIN b) = bit (pddr b) 21" "\<not> shines 21 (gpio_psor LED_BLUE_PIN b)"
  "shines 22 (gpio_pcor LED_BLUE_PIN b) = shines 22 b" "shines 22 (gpio_psor LED_BLUE_PIN b) = shines 22 b"
  "pddr (gpio_pcor m b) = pddr b" "pddr (gpio_psor m b) = pddr b"
  by (simp_all add: shines_def gpio_pcor_def gpio_psor_def LED_RED_PIN_def LED_BLUE_PIN_def bit_simps del: push_bit_of_1)

lemma sem_take_returns:
  "sem_take i m k = (r, m', k') \<Longrightarrow>
     if 0 < sem_count m then r = Ret () \<and> m' = m\<lparr>sem_count := sem_count m - 1\<rparr> else r \<noteq> Ret () \<and> m' = m"
  by (auto simp: sem_take_def Let_def split: prod.splits option.splits)

lemma sem_give_returns:
  "sem_give i m k = (m', k') \<Longrightarrow> m' = m\<lparr>sem_count := (if sem_count m < sem_max m then sem_count m + 1 else sem_count m)\<rparr>"
  using sem_give_count [of i m k] by simp

lemma delay_call_at: "delay_call ms now wait k = (p, k') \<Longrightarrow> p = now \<or> p = wait"
  by (auto simp: delay_call_def split: prod.splits if_splits)

lemmas demo_inv_defs = demo_inv_def token_inv_def pins_inv_def turn_inv_def alternating_snoc program_points puts_def

lemma red_inv:
  assumes inv: "demo_inv s"
  shows "demo_inv (task_led_red s)"
proof -
  obtain m k where g: "sem_give 0 (g_sem_red_to_blue s) (kernel s) = (m, k)" by fastforce
  obtain r m' k' where t: "sem_take 1 (g_sem_blue_to_red s) (kernel s) = (r, m', k')" by (metis prod_cases3)
  obtain p k'' where d: "delay_call 500 R_off R_wait (kernel s) = (p, k'')" by fastforce
  show ?thesis
  proof (cases "red s")
    case R_delay
    from delay_call_at [OF d] show ?thesis
      by (rule disjE; cases "blue s") (use R_delay d inv in \<open>simp_all add: task_led_red_def demo_inv_defs\<close>)
  next
    case R_give
    with g sem_give_returns [OF g] inv show ?thesis
      by (cases "blue s") (simp_all add: task_led_red_def demo_inv_defs)
  next
    case R_take
    with t sem_take_returns [OF t] inv show ?thesis
      by (cases "blue s") (simp_all add: task_led_red_def demo_inv_defs split: if_splits)
  next
    case R_on
    with inv show ?thesis by (cases "blue s") (simp_all add: task_led_red_def demo_inv_defs, (elim conjE, linarith)+)
  next
    case R_off
    with inv show ?thesis by (cases "blue s") (simp_all add: task_led_red_def demo_inv_defs)
  qed (cases "blue s"; use inv in \<open>simp add: task_led_red_def demo_inv_defs\<close>)+
qed

lemma blue_inv:
  assumes inv: "demo_inv s"
  shows "demo_inv (task_led_blue s)"
proof -
  obtain m k where g: "sem_give 1 (g_sem_blue_to_red s) (kernel s) = (m, k)" by fastforce
  obtain r m' k' where t: "sem_take 0 (g_sem_red_to_blue s) (kernel s) = (r, m', k')" by (metis prod_cases3)
  obtain p k'' where d: "delay_call 500 B_off B_wait (kernel s) = (p, k'')" by fastforce
  show ?thesis
  proof (cases "blue s")
    case B_delay
    from delay_call_at [OF d] show ?thesis
      by (rule disjE; cases "red s") (use B_delay d inv in \<open>simp_all add: task_led_blue_def demo_inv_defs\<close>)
  next
    case B_give
    with g sem_give_returns [OF g] inv show ?thesis
      by (cases "red s") (simp_all add: task_led_blue_def demo_inv_defs)
  next
    case B_take
    with t sem_take_returns [OF t] inv show ?thesis
      by (cases "red s") (simp_all add: task_led_blue_def demo_inv_defs split: if_splits)
  next
    case B_on
    with inv show ?thesis by (cases "red s") (simp_all add: task_led_blue_def demo_inv_defs, (elim conjE, linarith)+)
  next
    case B_off
    with inv show ?thesis by (cases "red s") (simp_all add: task_led_blue_def demo_inv_defs)
  qed (cases "red s"; use inv in \<open>simp add: task_led_blue_def demo_inv_defs\<close>)+
qed

lemma uart_inv:
  assumes "task_uart name ms t p s = (p', s')" and "running (kernel s) t" and "inside p = (mtx_task (g_test_mutex s) = Some t)"
  shows "(mtx_task (g_test_mutex s') = Some t) = inside p'
    \<and> (mtx_task (g_test_mutex s') = mtx_task (g_test_mutex s)
       \<or> mtx_task (g_test_mutex s) \<in> {None, Some t} \<and> mtx_task (g_test_mutex s') \<in> {None, Some t})
    \<and> (s' = s\<lparr>g_test_mutex := g_test_mutex s', kernel := kernel s', console := console s'\<rparr>)"
proof -
  have c: "g_current_task (kernel s) = Some t" using assms(2) by (simp add: running_def)
  obtain r m k where l: "mutex_lock 0 (g_test_mutex s) (kernel s) = (r, m, k)" by (metis prod_cases3)
  obtain m' k' where u: "mutex_unlock 0 (g_test_mutex s) (kernel s) = (m', k')" by fastforce
  show ?thesis
  proof (cases p)
    case U_lock
    with assms l mutex_lock_returns [OF l c] show ?thesis
      by (auto simp: task_uart_def program_points split: if_splits)
  next
    case U_unlock
    with assms u c mutex_unlock_returns [OF u] show ?thesis
      by (auto simp: task_uart_def program_points)
  qed (use assms in \<open>auto simp: task_uart_def program_points puts_def split: prod.splits if_splits dest!: delay_call_at\<close>)
qed


lemma demo_inv_frame:
  "demo_inv s \<Longrightarrow> owner_inv m h l \<Longrightarrow>
   demo_inv (s\<lparr>g_test_mutex := m, high := h, low := l, kernel := k, console := c, heartbeat := hb, watchdog := w\<rparr>)"
  by (simp add: demo_inv_def)

lemma demo_inv_other:
  "demo_inv s \<Longrightarrow> demo_inv (s\<lparr>kernel := k, console := c\<rparr>)"
  "demo_inv s \<Longrightarrow> demo_inv (task_heartbeat s)" "demo_inv s \<Longrightarrow> demo_inv (task_watchdog s)"
  by (auto simp: demo_inv_def task_heartbeat_def task_watchdog_def puts_def Let_def split: hb_at.splits wd_at.splits prod.splits)

lemma high_inv:
  assumes inv: "demo_inv s" and r: "running (kernel s) (Task 2)"
  shows "demo_inv (task_uart_high s)"
proof -
  obtain p' s' where t: "task_uart ''[HIGH]'' 300 (Task 2) (high s) s = (p', s')" by fastforce
  from inv have o: "inside (high s) = (mtx_task (g_test_mutex s) = Some (Task 2))" by (auto simp: demo_inv_def owner_inv_def)
  note u = uart_inv [OF t r o]
  have s': "s' = s\<lparr>g_test_mutex := g_test_mutex s', kernel := kernel s', console := console s'\<rparr>" using u by blast
  have "owner_inv (g_test_mutex s') p' (low s)" using u inv by (auto simp: demo_inv_def owner_inv_def)
  with inv show ?thesis
    unfolding task_uart_high_def t by (subst s') (simp add: demo_inv_def)
qed

lemma low_inv:
  assumes inv: "demo_inv s" and r: "running (kernel s) (Task 3)"
  shows "demo_inv (task_uart_low s)"
proof -
  obtain p' s' where t: "task_uart ''[LOW]'' 500 (Task 3) (low s) s = (p', s')" by fastforce
  from inv have o: "inside (low s) = (mtx_task (g_test_mutex s) = Some (Task 3))" by (auto simp: demo_inv_def owner_inv_def)
  note u = uart_inv [OF t r o]
  have s': "s' = s\<lparr>g_test_mutex := g_test_mutex s', kernel := kernel s', console := console s'\<rparr>" using u by blast
  have "owner_inv (g_test_mutex s') (high s) p'" using u inv by (auto simp: demo_inv_def owner_inv_def)
  with inv show ?thesis
    unfolding task_uart_low_def t by (subst s') (simp add: demo_inv_def)
qed

lemma demo_reach_inv: "demo_reach s0 s \<Longrightarrow> demo_inv s0 \<Longrightarrow> demo_inv s"
  by (induction rule: demo_reach.induct) (auto intro: red_inv blue_inv high_inv low_inv demo_inv_other)

lemma board_init_dark:
  "\<not> shines 22 (board_init b)" "\<not> shines 21 (board_init b)" "bit (pddr (board_init b)) 22" "bit (pddr (board_init b)) 21"
  by (simp_all add: board_init_def shines_def gpio_psor_def LED_RED_PIN_def LED_BLUE_PIN_def Let_def bit_simps del: push_bit_of_1)

lemma k64f_main_inv: "demo_inv (k64f_main idle entry b k)"
  by (simp add: k64f_main_def demo_inv_def token_inv_def pins_inv_def turn_inv_def owner_inv_def alternating_def
      program_points sem_init_def mutex_init_def board_init_dark Let_def)

subsection \<open>What the image does\<close>



text \<open>The first task to run is the one that takes the mutex at high priority.\<close>

lemma k64f_first_task:
  assumes "\<forall>i < 8. entry i \<noteq> 0" and "\<forall>i. length (stack (tcb k (Task i))) = TASK_STACK_SIZE"
  shows "running (kernel (k64f_main idle entry b k)) (Task 2)"
    and "s_task_count (kernel (k64f_main idle entry b k)) = 8"
    and "sched_check_stack_canaries (kernel (k64f_main idle entry b k)) = TASK_STACK_CANARY_ALL_OK"
proof -
  let ?k = "set_head (SemWaiters 1) None (set_head (SemWaiters 0) None (set_head (MutexWaiters 0) None (sched_init idle k)))"
  have "kernel (k64f_main idle entry b k) = sched_start (create_all (main_tasks entry) ?k)"
    by (simp add: k64f_main_def Let_def sem_init_def mutex_init_def)
  moreover have "s_task_count ?k = 0" "g_current_task ?k = None"
    "\<forall>i. length (stack (tcb ?k (Task i))) = TASK_STACK_SIZE"
    using assms(2) by (simp_all add: sched_init_tasks set_head_def)
  moreover have "length (main_tasks entry) = 8" by (simp add: main_tasks_def)
  moreover have "snd (main_tasks entry ! 2) = TASK_PRIORITY_HIGH" by (simp add: main_tasks_def)
  moreover have "TASK_PRIORITY_HIGH < snd (main_tasks entry ! j)" if "j < 8" "j \<noteq> 2" for j
  proof -
    have "j \<in> {0, 1, 3, 4, 5, 6, 7}" using that by auto
    then show ?thesis
      by (elim insertE emptyE; simp add: main_tasks_def TASK_PRIORITY_HIGH_def TASK_PRIORITY_NORMAL_def TASK_PRIORITY_LOW_def)
  qed
  moreover have "\<forall>(f, p) \<in> set (main_tasks entry). f \<noteq> 0" using assms(1) by (simp add: main_tasks_def)
  ultimately show "running (kernel (k64f_main idle entry b k)) (Task 2)"
    "s_task_count (kernel (k64f_main idle entry b k)) = 8"
    "sched_check_stack_canaries (kernel (k64f_main idle entry b k)) = TASK_STACK_CANARY_ALL_OK"
    using start_first [of ?k "main_tasks entry" 2] by (auto simp: TASK_MAX_def TASK_PRIORITY_HIGH_def)
qed


text \<open>The message of the watchdog task prints the number in full.\<close>

lemma puts_digits:
  "\<forall>d \<in> set ds. d < 10 \<Longrightarrow> k64f_uart_puts (map (digit_char False) ds @ [NUL]) = map (digit_char False) ds"
proof (induction ds)
  case (Cons d ds)
  then have "(of_char (digit_char False d) :: nat) = 48 + d" by (simp add: code_digit_char)
  then have "digit_char False d \<noteq> NUL \<and> digit_char False d \<noteq> CHR 0x0A" by auto
  with Cons show ?case by simp
qed simp

lemma uart_print_uint_text:
  "uart_print_uint prefix val = k64f_uart_puts prefix @ number_text False 10 (unat val) @ k64f_uart_puts CRLF'"
proof (cases "val = 0")
  case True
  then show ?thesis by (simp add: uart_print_uint_def number_text_def digits_less)
next
  case False
  let ?buf = "(replicate 12 (CHR ''?''))[11 := NUL]" and ?ds = "digits 10 (unat val)"
  have "length ?ds \<le> Suc 10" using unat32_less [of val] by (intro length_digits) auto
  then have le: "length ?ds \<le> 11" by simp
  have "print_digits 10 False val 11 ?buf =
      (11 - length ?ds, take (11 - length ?ds) ?buf @ map (digit_char False) ?ds @ drop 11 ?buf)"
    using print_digits_eq [OF False, of 10 11 ?buf False] le by (simp add: Let_def)
  moreover have "drop 11 ?buf = [NUL]" by (simp add: eval_nat_numeral)
  moreover have "k64f_uart_puts (map (digit_char False) ?ds @ [NUL]) = map (digit_char False) ?ds"
    by (rule puts_digits) (use digits_bound [of 10] in auto)
  ultimately show ?thesis using False le by (simp add: uart_print_uint_def number_text_def)
qed

end
