(* ===== verification/Stm32Main.thy ===== *)
theory Stm32Main
  imports HardFault Watchdog Sensors Kalman PrintFloat Startup Clocks Systick
begin

text \<open>
  The image of the STM32 board, \<open>src/Stm32h753zi/main.c\<close>: the report on the previous run at
  boot, one round of the sensor task, the task that serves the watchdog, and \<open>main\<close>. Text is
  what is handed to \<open>uart_putc\<close>; \<open>None\<close> is a wait that never ends or undefined behaviour.
\<close>

definition say :: "string \<Rightarrow> string" where "say s = uart_puts_raw (s @ [NUL])"

definition sayf :: "string \<Rightarrow> unit uart_arg list \<Rightarrow> string option" where
  "sayf fmt args = uart_printf (\<lambda>_ _. '''') (fmt @ [NUL]) args"

subsection \<open>The report at boot\<close>

definition report_fault :: "fault_log_t \<Rightarrow> string option" where
  "report_fault f = do {
     a \<leftarrow> sayf (''EXC_RETURN=0x%x PC=0x%x LR=0x%x xPSR=0x%x'' @ CRLF)
            [ArgInt (exc_return f), ArgInt (pc f), ArgInt (lr f), ArgInt (xpsr f)];
     b \<leftarrow> sayf (''CFSR=0x%x HFSR=0x%x'' @ CRLF) [ArgInt (cfsr f), ArgInt (hfsr f)];
     c \<leftarrow> (if mmfar_valid f \<noteq> 0 then sayf (''MMFAR=0x%x'' @ CRLF) [ArgInt (mmfar f)] else Some '''');
     d \<leftarrow> (if bfar_valid f \<noteq> 0 then sayf (''BFAR=0x%x'' @ CRLF) [ArgInt (bfar f)] else Some '''');
     Some (say (''=== Previous boot ended in a fault ==='' @ CRLF) @ a @ b @ c @ d
       @ say (''======================================='' @ CRLF))
   }"

text \<open>\<open>stale\<close>: the local record before it is filled.\<close>

definition report_boot_diagnostics ::
  "fault_log_t \<Rightarrow> mmio \<Rightarrow> bkp_machine \<Rightarrow> (string \<times> mmio \<times> bkp_machine) option" where
  "report_boot_diagnostics stale m s =
     (let s = fault_log_init s;
          out = (if iwdg_reset_was_watchdog m
                 then say (''>>> Previous reset cause: IWDG (watchdog timeout) <<<'' @ CRLF) else '''');
          m = iwdg_clear_reset_flags m
      in case fault_log_check_and_clear stale s of None \<Rightarrow> None
         | Some (found, f, s) \<Rightarrow>
             if found then map_option (\<lambda>o2. (out @ o2, m, s)) (report_fault f) else Some (out, m, s))"

subsection \<open>The tasks\<close>

text \<open>The conversion of a floating-point number to \<open>int\<close>: the fraction is cut off.\<close>

definition to_int :: "'a :: floor_ceiling \<Rightarrow> int" where
  "to_int x = (if x < 0 then - \<lfloor>- x\<rfloor> else \<lfloor>x\<rfloor>)"

definition PI :: "'a :: floor_ceiling" where "PI = 314159265 / 100000000"

definition imu_text :: "'a :: floor_ceiling \<Rightarrow> 'a \<Rightarrow> string option" where
  "imu_text roll pitch =
     (let roll_i = to_int roll; roll_f = to_int (\<bar>roll - of_int roll_i\<bar> * 100);
          pitch_i = to_int pitch; pitch_f = to_int (\<bar>pitch - of_int pitch_i\<bar> * 100)
      in sayf (''R:%d.%d P:%d.%d'' @ CRLF)
           [ArgInt (word_of_int roll_i), ArgInt (word_of_int roll_f),
            ArgInt (word_of_int pitch_i), ArgInt (word_of_int pitch_f)])"

text \<open>A round of \<open>task_imu\<close> after its delay; \<open>buf\<close> is the receive buffer before the read.\<close>

definition task_imu_round ::
  "('a \<Rightarrow> 'a) \<Rightarrow> ('a \<Rightarrow> 'a \<Rightarrow> 'a) \<Rightarrow> (nat \<Rightarrow> u32) \<Rightarrow> (nat \<Rightarrow> u32) \<Rightarrow> u8 list
   \<Rightarrow> mpu6050_data \<times> 'a :: floor_ceiling kalman \<times> i2c_io
   \<Rightarrow> (string \<times> mpu6050_data \<times> 'a kalman \<times> i2c_io) option" where
  "task_imu_round sqrtf atan2f isr rx buf = (\<lambda>(data, k, io).
     let (r, data, io) = mpu6050_read isr rx buf data io in
     if r \<noteq> 0 then Some ('''', data, k, io)
     else
       let ax = of_int (sint (accel_x data)) / 16384;
           ay = of_int (sint (accel_y data)) / 16384;
           az = of_int (sint (accel_z data)) / 16384;
           wx = of_int (sint (gyro_x data)) / 131 * PI / 180;
           wy = of_int (sint (gyro_y data)) / 131 * PI / 180;
           k = kalman_update sqrtf atan2f ax ay az wx wy (1 / 100) k;
           roll = kalman_roll k * 180 / PI;
           pitch = kalman_pitch k * 180 / PI
       in map_option (\<lambda>out. (out, data, k, io)) (imu_text roll pitch))"

datatype imu_at = I_delay | I_wait | I_round
datatype hk_at = K_delay | K_wait | K_kick

text \<open>\<open>task_imu\<close> by program points: the delay at the head of the loop, the wait in it, the round.\<close>

definition task_imu ::
  "('a \<Rightarrow> 'a) \<Rightarrow> ('a \<Rightarrow> 'a \<Rightarrow> 'a) \<Rightarrow> (nat \<Rightarrow> u32) \<Rightarrow> (nat \<Rightarrow> u32) \<Rightarrow> u8 list \<Rightarrow> tid
   \<Rightarrow> imu_at \<times> kern \<times> string \<times> mpu6050_data \<times> 'a :: floor_ceiling kalman \<times> i2c_io
   \<Rightarrow> (imu_at \<times> kern \<times> string \<times> mpu6050_data \<times> 'a kalman \<times> i2c_io) option" where
  "task_imu sqrtf atan2f isr rx buf t = (\<lambda>(p, kn, text, st). case p of
     I_delay \<Rightarrow> (case sched_delay_ms 10 kn of (r, kn') \<Rightarrow> Some (if r = Ret () then I_round else I_wait, kn', text, st))
   | I_wait \<Rightarrow> Some (if sched_delay_ms_resume t kn = Ret () then I_round else I_wait, kn, text, st)
   | I_round \<Rightarrow> map_option (\<lambda>(line, st). (I_delay, kn, text @ line, st)) (task_imu_round sqrtf atan2f isr rx buf st))"

text \<open>\<open>task_housekeep\<close> by program points; the watchdog writes are collected.\<close>

definition task_housekeep :: "tid \<Rightarrow> hk_at \<times> kern \<times> (u32 \<times> u32) list \<Rightarrow> hk_at \<times> kern \<times> (u32 \<times> u32) list" where
  "task_housekeep t = (\<lambda>(p, k, w). case p of
     K_delay \<Rightarrow> (case sched_delay_ms 200 k of (r, k') \<Rightarrow> (if r = Ret () then K_kick else K_wait, k', w))
   | K_wait \<Rightarrow> (if sched_delay_ms_resume t k = Ret () then K_kick else K_wait, k, w)
   | K_kick \<Rightarrow> (K_delay, k, w @ iwdg_kick))"

subsection \<open>main\<close>

record 'a stm_sys =
  out :: string
  regs :: mmio
  ticker :: systick_regs
  i2c :: i2c_io
  backup :: bkp_machine
  g_kalman :: "'a kalman"
  iwdg :: "(u32 \<times> u32) list"
  kernel :: kern
  stuck :: bool

text \<open>The result is the state in which \<open>main\<close> stays in \<open>while (1)\<close> (\<open>stuck\<close>), or starts the
first task. \<open>imu\<close> and \<open>hk\<close> are the addresses of the two task functions.\<close>

definition stm32_main ::
  "(nat \<Rightarrow> nat \<Rightarrow> bool) \<Rightarrow> (nat \<Rightarrow> bool) \<Rightarrow> (nat \<Rightarrow> bool) \<Rightarrow> (nat \<Rightarrow> u32) \<Rightarrow> (nat \<Rightarrow> u32) \<Rightarrow> fault_log_t
   \<Rightarrow> u32 \<Rightarrow> u32 \<Rightarrow> u32 \<Rightarrow> 'a :: floor_ceiling stm_sys \<Rightarrow> 'a stm_sys option" where
  "stm32_main busy pvu rvu isr rx stale idle imu hk s =
     (case rcc_init_pll_480 busy (regs s) of None \<Rightarrow> None
      | Some m \<Rightarrow>
          let s = s\<lparr>ticker := stm32_systick_init 480000000 (ticker s), regs := i2c_init (uart_init m),
                    out := say (''TamgaOS STM32H753ZI @ 480MHz'' @ CRLF) @ say (''Kalman roll/pitch'' @ CRLF)\<rparr>
          in case report_boot_diagnostics stale (regs s) (backup s) of None \<Rightarrow> None
             | Some (text, m, b) \<Rightarrow>
                 let s = s\<lparr>out := out s @ text, regs := m, backup := b\<rparr>;
                     (r, io) = mpu6050_init isr rx (i2c s);
                     s = s\<lparr>i2c := io\<rparr>
                 in if r < 0 then Some (s\<lparr>out := out s @ say (''MPU6050 init failed'' @ CRLF), stuck := True\<rparr>)
                    else let s = s\<lparr>g_kalman := kalman_init\<rparr>
                         in case iwdg_init 1000 pvu rvu of None \<Rightarrow> None
                            | Some w \<Rightarrow> Some (s\<lparr>iwdg := iwdg s @ w,
                                kernel := sched_start (create_all [(imu, TASK_PRIORITY_HIGH), (hk, TASK_PRIORITY_LOW)]
                                                        (sched_init idle (kernel s)))\<rparr>))"

subsection \<open>The report is the fault\<close>

definition hex :: "u32 \<Rightarrow> string" where "hex v = number_text False 16 (unat v)"

text \<open>What a reader of the console should see of a crash.\<close>

definition crash_report :: "u32 \<Rightarrow> u32 \<Rightarrow> u32 \<Rightarrow> u32 \<Rightarrow> u32 \<Rightarrow> u32 \<Rightarrow> u32 option \<Rightarrow> u32 option \<Rightarrow> string" where
  "crash_report exc ret_pc ret_lr psr cfs hfs mma bfa =
     ''=== Previous boot ended in a fault ==='' @ CRLF
     @ ''EXC_RETURN=0x'' @ hex exc @ '' PC=0x'' @ hex ret_pc @ '' LR=0x'' @ hex ret_lr @ '' xPSR=0x'' @ hex psr @ CRLF
     @ ''CFSR=0x'' @ hex cfs @ '' HFSR=0x'' @ hex hfs @ CRLF
     @ (case mma of None \<Rightarrow> '''' | Some a \<Rightarrow> ''MMFAR=0x'' @ hex a @ CRLF)
     @ (case bfa of None \<Rightarrow> '''' | Some a \<Rightarrow> ''BFAR=0x'' @ hex a @ CRLF)
     @ ''======================================='' @ CRLF"

definition reset_cause :: "mmio \<Rightarrow> string" where
  "reset_cause m = (if bit (m RCC_RSR) 26
     then ''>>> Previous reset cause: IWDG (watchdog timeout) <<<'' @ CRLF else '''')"

lemma sayf_segs:
  assumes "\<forall>g \<in> set segs. seg_ok g"
  shows "sayf (concat (map seg_fmt segs)) (concat (map seg_args segs)) = Some (concat (map (seg_text (\<lambda>_ _. '''')) segs))"
  unfolding sayf_def by (rule printf_segs [OF assms])

lemma sayf_hex1:
  assumes "NUL \<notin> set a \<and> CHR ''%'' \<notin> set a"
  shows "sayf (a @ ''%x'' @ CRLF) [ArgInt v] = Some (a @ hex v @ CRLF)"
  using sayf_segs [of "[Lit a, SegX False 0 False v, Lit CRLF]"] assms
  by (simp add: pad_fmt_def padded_def hex_def)

lemma sayf_hex2:
  assumes "NUL \<notin> set a \<and> CHR ''%'' \<notin> set a" and "NUL \<notin> set b \<and> CHR ''%'' \<notin> set b"
  shows "sayf (a @ ''%x'' @ b @ ''%x'' @ CRLF) [ArgInt v, ArgInt w] = Some (a @ hex v @ b @ hex w @ CRLF)"
  using sayf_segs [of "[Lit a, SegX False 0 False v, Lit b, SegX False 0 False w, Lit CRLF]"] assms
  by (simp add: pad_fmt_def padded_def hex_def)

lemma sayf_hex4:
  assumes "NUL \<notin> set a \<and> CHR ''%'' \<notin> set a" and "NUL \<notin> set b \<and> CHR ''%'' \<notin> set b"
    and "NUL \<notin> set c \<and> CHR ''%'' \<notin> set c" and "NUL \<notin> set d \<and> CHR ''%'' \<notin> set d"
  shows "sayf (a @ ''%x'' @ b @ ''%x'' @ c @ ''%x'' @ d @ ''%x'' @ CRLF) [ArgInt v, ArgInt w, ArgInt x, ArgInt y]
    = Some (a @ hex v @ b @ hex w @ c @ hex x @ d @ hex y @ CRLF)"
  using sayf_segs [of "[Lit a, SegX False 0 False v, Lit b, SegX False 0 False w, Lit c, SegX False 0 False x,
      Lit d, SegX False 0 False y, Lit CRLF]"] assms
  by (simp add: pad_fmt_def padded_def hex_def)

lemma say_text: "NUL \<notin> set s \<Longrightarrow> say s = s"
  unfolding say_def by (rule takeWhile_text)

lemma report_fault_text:
  "report_fault f = Some (crash_report (exc_return f) (pc f) (lr f) (xpsr f) (cfsr f) (hfsr f)
     (if mmfar_valid f \<noteq> 0 then Some (mmfar f) else None) (if bfar_valid f \<noteq> 0 then Some (bfar f) else None))"
proof -
  have "sayf (''EXC_RETURN=0x%x PC=0x%x LR=0x%x xPSR=0x%x'' @ CRLF)
      [ArgInt (exc_return f), ArgInt (pc f), ArgInt (lr f), ArgInt (xpsr f)]
    = Some (''EXC_RETURN=0x'' @ hex (exc_return f) @ '' PC=0x'' @ hex (pc f) @ '' LR=0x'' @ hex (lr f)
        @ '' xPSR=0x'' @ hex (xpsr f) @ CRLF)"
    using sayf_hex4 [of "''EXC_RETURN=0x''" "'' PC=0x''" "'' LR=0x''" "'' xPSR=0x''" "exc_return f" "pc f" "lr f" "xpsr f"] by simp
  moreover have "sayf (''CFSR=0x%x HFSR=0x%x'' @ CRLF) [ArgInt (cfsr f), ArgInt (hfsr f)]
    = Some (''CFSR=0x'' @ hex (cfsr f) @ '' HFSR=0x'' @ hex (hfsr f) @ CRLF)"
    using sayf_hex2 [of "''CFSR=0x''" "'' HFSR=0x''" "cfsr f" "hfsr f"] by simp
  moreover have "sayf (''MMFAR=0x%x'' @ CRLF) [ArgInt (mmfar f)] = Some (''MMFAR=0x'' @ hex (mmfar f) @ CRLF)"
    "sayf (''BFAR=0x%x'' @ CRLF) [ArgInt (bfar f)] = Some (''BFAR=0x'' @ hex (bfar f) @ CRLF)"
    using sayf_hex1 [of "''MMFAR=0x''" "mmfar f"] sayf_hex1 [of "''BFAR=0x''" "bfar f"] by simp_all
  ultimately show ?thesis
    unfolding report_fault_def crash_report_def by (simp only:) (simp add: say_text)
qed

lemma report_boot_cause: "reset_cause m = (if iwdg_reset_was_watchdog m
    then say (''>>> Previous reset cause: IWDG (watchdog timeout) <<<'' @ CRLF) else '''')"
proof -
  have "iwdg_reset_was_watchdog m = bit (m RCC_RSR) 26"
    using and_bit [of "m RCC_RSR" 26] by (simp add: iwdg_reset_was_watchdog_def RCC_RSR_IWDGRSTF_def)
  then show ?thesis by (simp add: reset_cause_def say_text)
qed

text \<open>
  C32: The next boot reports the fault that happened, once. After a fault through any of the
  four vectors, with the cache lines written back in any order before the reset: the report
  of the next boot names the watchdog if it caused the reset, then prints exactly the return
  code, the stacked PC, LR and xPSR and the status registers of the fault, and an address
  register only if the hardware marked it valid; a boot after that reports no fault.
\<close>

theorem boot_report_exact:
  assumes "bkp_writable s"
    and "h \<in> {HardFault_Handler, MemManage_Handler, BusFault_Handler, UsageFault_Handler}"
    and "h msp psp link = (frame, exc)"
    and "hardfault_c stale (\<lambda>i. mem (frame + 4 * of_nat i)) frame exc scb s = Some (printed, g, scb', s1)"
  shows "\<exists>m2 s2. report_boot_diagnostics blank m (system_reset (fold evict_line ls s1))
      = Some (reset_cause m @ crash_report link (mem (frame + 24)) (mem (frame + 20)) (mem (frame + 28))
                (SCB_CFSR scb) (SCB_HFSR scb)
                (if bit (SCB_CFSR scb) 7 then Some (SCB_MMFAR scb) else None)
                (if bit (SCB_CFSR scb) 15 then Some (SCB_BFAR scb) else None), m2, s2)
    \<and> (\<forall>ls' m'. \<exists>m3 s3. report_boot_diagnostics blank m' (system_reset (fold evict_line ls' s2))
          = Some (reset_cause m', m3, s3))"
proof -
  have exc: "exc = link"
    using assms(2,3) by (auto simp: fault_entry_def HardFault_Handler_def MemManage_Handler_def BusFault_Handler_def
        UsageFault_Handler_def split: if_splits)
  let ?e = "hf_entry stale exc (hf_capture (\<lambda>i. mem (frame + 4 * of_nat i)) scb)"
  from fault_log_recovered [OF assms(1), of ?e blank ls] obtain s1' s2 where
    s: "fault_log_write ?e s = Some s1'"
    "fault_log_check_and_clear blank (fault_log_init (system_reset (fold evict_line ls s1')))
      = Some (True, ?e\<lparr>magic := magic blank\<rparr>, s2)"
    "\<And>ls' out'. fault_log_check_and_clear out' (fault_log_init (system_reset (fold evict_line ls' s2)))
      = Some (False, out', fault_log_init (system_reset (fold evict_line ls' s2)))" by blast
  have s1: "s1' = s1" using assms(4) s(1) by (simp add: hardfault_c_def Let_def)
  have b: "bit (SCB_CFSR scb) 7 \<longleftrightarrow> SCB_CFSR scb AND push_bit 7 1 \<noteq> 0"
    "bit (SCB_CFSR scb) 15 \<longleftrightarrow> SCB_CFSR scb AND push_bit 15 1 \<noteq> 0"
    using and_bit [of "SCB_CFSR scb" 7] and_bit [of "SCB_CFSR scb" 15] by simp_all
  have e: "exc_return ?e = link" "pc ?e = mem (frame + 24)" "lr ?e = mem (frame + 20)" "xpsr ?e = mem (frame + 28)"
    "cfsr ?e = SCB_CFSR scb" "hfsr ?e = SCB_HFSR scb" "mmfar ?e = SCB_MMFAR scb" "bfar ?e = SCB_BFAR scb"
    "(mmfar_valid ?e \<noteq> 0) = bit (SCB_CFSR scb) 7" "(bfar_valid ?e \<noteq> 0) = bit (SCB_CFSR scb) 15"
    unfolding b by (simp_all add: hf_entry_def hf_capture_def exc)
  have "report_fault (?e\<lparr>magic := magic blank\<rparr>) = Some (crash_report link (mem (frame + 24)) (mem (frame + 20)) (mem (frame + 28))
      (SCB_CFSR scb) (SCB_HFSR scb) (if bit (SCB_CFSR scb) 7 then Some (SCB_MMFAR scb) else None)
      (if bit (SCB_CFSR scb) 15 then Some (SCB_BFAR scb) else None))"
    using e by (simp add: report_fault_text)
  with s(2,3) show ?thesis
    by (simp add: report_boot_diagnostics_def s1 Let_def report_boot_cause [symmetric])
qed

theorem boot_report_exact_witness:
  "\<exists>m2 s1 s2. fault_log_write (hf_entry 0 0xFFFFFFFD (hf_capture (\<lambda>i. 0x20000100 + 4 * of_nat i)
       \<lparr>SCB_CFSR = 0x82, SCB_HFSR = 0, SCB_DFSR = 0, SCB_MMFAR = 0x2001F000, SCB_BFAR = 7, SCB_AFSR = 0\<rparr>)) demo_bkp = Some s1
     \<and> report_boot_diagnostics demo_fault (\<lambda>_. 0) (system_reset s1)
       = Some (crash_report 0xFFFFFFFD 0x20000118 0x20000114 0x2000011C 0x82 0 (Some 0x2001F000) None, m2, s2)"
proof -
  let ?scb = "\<lparr>SCB_CFSR = 0x82, SCB_HFSR = 0, SCB_DFSR = 0, SCB_MMFAR = 0x2001F000, SCB_BFAR = 7, SCB_AFSR = 0\<rparr> :: scb_regs"
  have w: "bkp_writable demo_bkp" by (simp add: demo_bkp_def)
  have h: "HardFault_Handler 0x20020000 0x20000100 0xFFFFFFFD = (0x20000100, 0xFFFFFFFD)"
    by (simp add: HardFault_Handler_def fault_entry_def)
  obtain s1 where s1: "fault_log_write (hf_entry 0 0xFFFFFFFD (hf_capture (\<lambda>i. 0x20000100 + 4 * of_nat i) ?scb)) demo_bkp = Some s1"
    using fault_log_recovered [OF w] by blast
  then obtain o1 g scb' where c: "hardfault_c 0 (\<lambda>i. 0x20000100 + 4 * of_nat i) 0x20000100 0xFFFFFFFD ?scb demo_bkp = Some (o1, g, scb', s1)"
    by (simp add: hardfault_c_def Let_def)
  have b: "bit (0x82 :: u32) 7" "\<not> bit (0x82 :: u32) 15" by simp_all
  from boot_report_exact [where mem = "\<lambda>a. a" and m = "\<lambda>_. 0" and ls = "[]" and blank = demo_fault
      and h = HardFault_Handler and msp = "0x20020000" and psp = "0x20000100" and link = "0xFFFFFFFD"
      and frame = "0x20000100", OF w _ h c] obtain m2 s2 where
    "report_boot_diagnostics demo_fault (\<lambda>_. 0) (system_reset s1)
       = Some (crash_report 0xFFFFFFFD 0x20000118 0x20000114 0x2000011C 0x82 0 (Some 0x2001F000) None, m2, s2)"
    using b by (auto simp: reset_cause_def)
  with s1 show ?thesis by blast
qed

subsection \<open>The watchdog\<close>

text \<open>\<open>iwdg_init(1000)\<close> is one second to the tick, five periods of the task that serves it.\<close>

lemma housekeep_margin: "iwdg_config 1000 = (1, 4000)" "iwdg_units (iwdg_config 1000) = 32 * 1000" "5 * 200 \<le> (1000 :: nat)"
proof -
  show c: "iwdg_config 1000 = (1, 4000)"
    by (simp add: iwdg_config_def prescaler_table_def LSI_FREQ_HZ_def)
  show "iwdg_units (iwdg_config 1000) = 32 * 1000" by (simp add: c iwdg_units_def)
qed simp

text \<open>If the sensor does not answer, \<open>main\<close> stays in its loop with the watchdog never started.\<close>

lemma stuck_without_watchdog:
  "stm32_main busy pvu rvu isr rx stale idle imu hk s = Some s' \<Longrightarrow> stuck s = False \<Longrightarrow> stuck s' \<Longrightarrow> iwdg s' = iwdg s"
  by (auto simp: stm32_main_def Let_def split: option.splits prod.splits if_splits)

lemma started_with_watchdog:
  assumes "stm32_main busy pvu rvu isr rx stale idle imu hk s = Some s'" and "stuck s = False" and "\<not> stuck s'"
    and "imu \<noteq> 0" and "hk \<noteq> 0" and "\<forall>i. length (stack (tcb (kernel s) (Task i))) = TASK_STACK_SIZE"
  shows "running (kernel s') (Task 0) \<and> (\<exists>w. iwdg_init 1000 pvu rvu = Some w \<and> iwdg s' = iwdg s @ w)"
proof -
  let ?ts = "[(imu, TASK_PRIORITY_HIGH), (hk, TASK_PRIORITY_LOW)]"
  have "\<exists>w. iwdg_init 1000 pvu rvu = Some w \<and> iwdg s' = iwdg s @ w
      \<and> kernel s' = sched_start (create_all ?ts (sched_init idle (kernel s)))"
    using assms(1-3) by (auto simp: stm32_main_def Let_def split: option.splits prod.splits if_splits)
  moreover have "running (sched_start (create_all ?ts (sched_init idle (kernel s)))) (Task 0)"
    using start_first [OF sched_init_tasks(1,2), of idle "kernel s" ?ts 0] assms(4-6)
    by (auto simp: sched_init_tasks TASK_MAX_def TASK_PRIORITY_HIGH_def TASK_PRIORITY_LOW_def less_Suc_eq)
  ultimately show ?thesis by auto
qed

text \<open>
  The hundredths are printed without a leading zero, and the sign is lost between -1 and 0:
  5.03 degrees come out as 5.3 and half a degree down as 0.50.
\<close>

lemma imu_text_misleads: "imu_text (503 / 100 :: 'a :: floor_ceiling) (- 1 / 2) = Some (''R:5.3 P:0.50'' @ CRLF)"
proof -
  let ?segs = "[Lit ''R:'', SegD False 0 5, Lit ''.'', SegD False 0 3, Lit '' P:'', SegD False 0 0, Lit ''.'',
    SegD False 0 50, Lit CRLF] :: unit seg list"
  have f: "\<lfloor>503 / 100 :: 'a\<rfloor> = 5" "\<lfloor>1 / 2 :: 'a\<rfloor> = 0" by (rule floor_unique, simp, simp)+
  have "\<bar>503 / 100 - 5 :: 'a\<bar> * 100 = 3" "\<bar>- 1 / 2 - 0 :: 'a\<bar> * 100 = 50" by simp_all
  then have "imu_text (503 / 100 :: 'a) (- 1 / 2) = sayf (concat (map seg_fmt ?segs)) (concat (map seg_args ?segs))"
    by (simp add: imu_text_def to_int_def f pad_fmt_def Let_def)
  also have "\<dots> = Some (concat (map (seg_text (\<lambda>_ _. '''')) ?segs))" by (rule sayf_segs) simp
  also have "\<dots> = Some (''R:5.3 P:0.50'' @ CRLF)"
    by (simp add: padded_def number_text_def digits_less digits_step digit_char_def
      char_of_char [of "CHR ''3''", where 'a = nat, simplified] char_of_char [of "CHR ''5''", where 'a = nat, simplified]
      char_of_char [of "CHR ''0''", where 'a = nat, simplified])
  finally show ?thesis .
qed

end
