(* ===== verification/FaultMinimal.thy ===== *)
theory FaultMinimal
  imports UartK64f
begin

text \<open>
  \<open>kernel/core/hardfault_minimal.c\<close>, the fault handlers meant for the K64F board: each prints
  a line with \<open>uart_putc\<close> of \<open>drivers/k64f/uart.c\<close> and stops in an endless loop. The result
  is the state of the UART when that loop is reached; \<open>None\<close> is a wait for room in the
  transmit ring, which no interrupt can end while a fault handler runs.
\<close>

fun min_hf_puts :: "char list \<Rightarrow> uart \<Rightarrow> uart option" where
  "min_hf_puts [] u = Some u"
| "min_hf_puts (c # s) u =
     (if c = NUL then Some u
      else case k64f_uart_putc c u of None \<Rightarrow> None | Some u' \<Rightarrow> min_hf_puts s u')"

abbreviation fault_line :: "string \<Rightarrow> string" where
  "fault_line name \<equiv> [CHR 0x0D, CHR 0x0A] @ ''*** '' @ name @ '' ***'' @ [CHR 0x0D, CHR 0x0A]"

definition min_HardFault_Handler :: "uart \<Rightarrow> uart option" where
  "min_HardFault_Handler u = min_hf_puts (fault_line ''HARDFAULT'') u"
definition min_MemManage_Handler :: "uart \<Rightarrow> uart option" where
  "min_MemManage_Handler u = min_hf_puts (fault_line ''MEMFAULT'') u"
definition min_BusFault_Handler :: "uart \<Rightarrow> uart option" where
  "min_BusFault_Handler u = min_hf_puts (fault_line ''BUSFAULT'') u"
definition min_UsageFault_Handler :: "uart \<Rightarrow> uart option" where
  "min_UsageFault_Handler u = min_hf_puts (fault_line ''USAGEFAULT'') u"

lemma min_hf_puts_line: "min_hf_puts s u = Some u' \<Longrightarrow> line u' = line u \<and> s_tx_tail u' = s_tx_tail u"
  by (induction s u rule: min_hf_puts.induct)
    (auto simp: k64f_uart_putc_def putc_store_def split: if_splits option.splits)

text \<open>
  On the K64F the fault message is never seen. The handlers only put their line into the
  transmit ring. What empties the ring is the UART interrupt, which cannot preempt a fault
  handler, and the handlers never return: not one character reaches the data register, and
  with the ring too full the handler does not even get to its endless loop.
\<close>

theorem minimal_fault_message_lost:
  assumes "h \<in> {min_HardFault_Handler, min_MemManage_Handler, min_BusFault_Handler, min_UsageFault_Handler}"
  shows "(case h u of None \<Rightarrow> True | Some u' \<Rightarrow> line u' = line u)
    \<and> (putc_next u = s_tx_tail u \<longrightarrow> h u = None)"
proof -
  obtain name where "h u = min_hf_puts (fault_line name) u"
    using assms unfolding min_HardFault_Handler_def min_MemManage_Handler_def min_BusFault_Handler_def
      min_UsageFault_Handler_def by blast
  then obtain s where h: "h u = min_hf_puts (CHR 0x0D # s) u" by simp
  have "putc_next u = s_tx_tail u \<Longrightarrow> h u = None" unfolding h by (simp add: k64f_uart_putc_def)
  moreover have "h u = Some u' \<Longrightarrow> line u' = line u" for u' unfolding h using min_hf_puts_line by blast
  ultimately show ?thesis by (simp split: option.split)
qed

theorem minimal_fault_message_lost_witness:
  "\<exists>u. min_HardFault_Handler (k64f_uart_init 115200 uart_reset) = Some u
     \<and> line u = line (k64f_uart_init 115200 uart_reset) \<and> s_tx_head u = 21"
proof -
  let ?u = "k64f_uart_init 115200 uart_reset"
  obtain u where u: "min_HardFault_Handler ?u = Some u" "s_tx_head u = 21"
    by (simp add: min_HardFault_Handler_def k64f_uart_putc_def putc_next_def putc_store_def k64f_uart_init_def
        UART_TX_BUF_SIZE_def)
  with minimal_fault_message_lost [of min_HardFault_Handler ?u] show ?thesis by auto
qed

end
