(* ===== verification/Syscalls.thy ===== *)
theory Syscalls
  imports Prelude
begin

text \<open>
  The C library stubs of \<open>kernel/port/syscalls.c\<close>: the heap of \<open>_sbrk\<close>, the console behind
  \<open>_write\<close>, and the constant answers of the others. Pointers are 32-bit addresses and
  \<open>heap_end = 0\<close> is the null pointer of the first call; \<open>heap_base\<close> and \<open>stack_top\<close> are the addresses
  of the linker symbols \<open>_end\<close> and \<open>_stack_top\<close>.
\<close>

record newlib =
  heap_end :: u32
  errno :: nat
  console :: string

definition ENOMEM :: nat where "ENOMEM = 12"
definition EINVAL :: nat where "EINVAL = 22"
definition S_IFCHR :: nat where "S_IFCHR = 0x2000"

definition sys_close :: "int \<Rightarrow> int" where "sys_close file = - 1"
definition sys_fstat :: "int \<Rightarrow> nat \<times> int" where "sys_fstat file = (S_IFCHR, 0)"
definition sys_isatty :: "int \<Rightarrow> int" where "sys_isatty file = 1"
definition sys_lseek :: "int \<Rightarrow> int \<Rightarrow> int \<Rightarrow> int" where "sys_lseek file ptr dir = 0"
definition sys_read :: "int \<Rightarrow> int \<Rightarrow> int" where "sys_read file len = 0"
definition sys_getpid :: int where "sys_getpid = 1"

definition sys_kill :: "int \<Rightarrow> int \<Rightarrow> newlib \<Rightarrow> int \<times> newlib" where
  "sys_kill pid sig s = (- 1, s\<lparr> errno := EINVAL \<rparr>)"

text \<open>\<open>for (i = 0; i < len; i++) uart_putc(ptr[i])\<close>; \<open>ptr i\<close> is the byte at index \<open>i\<close>.\<close>

definition sys_write :: "int \<Rightarrow> (nat \<Rightarrow> char) \<Rightarrow> int \<Rightarrow> newlib \<Rightarrow> int \<times> newlib" where
  "sys_write file ptr len s =
     (len, fold (\<lambda>i s. s\<lparr> console := console s @ [ptr i] \<rparr>) [0..<nat len] s)"

definition sys_sbrk :: "u32 \<Rightarrow> u32 \<Rightarrow> u32 \<Rightarrow> newlib \<Rightarrow> u32 \<times> newlib" where
  "sys_sbrk heap_base stack_top incr s =
     (let s = (if heap_end s = 0 then s\<lparr> heap_end := heap_base \<rparr> else s);
          prev = heap_end s
      in if stack_top < heap_end s + incr then (- 1, s\<lparr> errno := ENOMEM \<rparr>)
         else (prev, s\<lparr> heap_end := heap_end s + incr \<rparr>))"

text \<open>A sequence of requests, with the address each was answered with.\<close>

fun sbrk_calls :: "u32 \<Rightarrow> u32 \<Rightarrow> u32 list \<Rightarrow> newlib \<Rightarrow> (u32 \<times> u32) list \<times> newlib" where
  "sbrk_calls heap_base stack_top [] s = ([], s)"
| "sbrk_calls heap_base stack_top (n # ns) s =
     (let (p, s) = sys_sbrk heap_base stack_top n s; (ps, s) = sbrk_calls heap_base stack_top ns s in ((p, n) # ps, s))"

definition granted :: "(u32 \<times> u32) list \<Rightarrow> (nat \<times> nat) list" where
  "granted ps = map (\<lambda>(p, n). (unat p, unat n)) (filter (\<lambda>(p, n). p \<noteq> - 1) ps)"

text \<open>Blocks that lie one behind the other from \<open>a\<close> on.\<close>

fun stacked :: "nat \<Rightarrow> (nat \<times> nat) list \<Rightarrow> nat \<Rightarrow> bool" where
  "stacked a [] e = (e = a)"
| "stacked a ((p, n) # bs) e = (p = a \<and> stacked (a + n) bs e)"

definition brk :: "u32 \<Rightarrow> newlib \<Rightarrow> nat" where
  "brk heap_base s = unat (if heap_end s = 0 then heap_base else heap_end s)"

lemma sys_write_console: "snd (sys_write file ptr len s) = s\<lparr> console := console s @ map ptr [0..<nat len] \<rparr>"
proof -
  have "fold (\<lambda>i s. s\<lparr> console := console s @ [ptr i] \<rparr>) is s = s\<lparr> console := console s @ map ptr is \<rparr>" for "is"
    by (induction "is" arbitrary: s) simp_all
  then show ?thesis by (simp add: sys_write_def)
qed

lemma sys_sbrk_cases:
  assumes "0 < heap_base" and "unat stack_top + 2 ^ 31 \<le> 2 ^ 32" and "brk heap_base s \<le> unat stack_top" and "unat n < 2 ^ 31"
  shows "if unat stack_top < brk heap_base s + unat n
    then fst (sys_sbrk heap_base stack_top n s) = - 1 \<and> brk heap_base (snd (sys_sbrk heap_base stack_top n s)) = brk heap_base s
      \<and> errno (snd (sys_sbrk heap_base stack_top n s)) = ENOMEM
    else unat (fst (sys_sbrk heap_base stack_top n s)) = brk heap_base s \<and> fst (sys_sbrk heap_base stack_top n s) \<noteq> - 1
      \<and> brk heap_base (snd (sys_sbrk heap_base stack_top n s)) = brk heap_base s + unat n"
proof -
  define h where "h = (if heap_end s = 0 then heap_base else heap_end s)"
  have h: "h \<noteq> 0" "brk heap_base s = unat h" using assms(1) by (auto simp: h_def brk_def word_neq_0_conv)
  have e: "unat (h + n) = unat h + unat n"
    using assms(2-4) h(2) by (subst unat_plus_simple [THEN iffD1]) (auto simp: word_le_nat_alt unat_plus_if')
  have nz: "h + n \<noteq> 0" using e h(1) by (metis add_is_0 unat_0 unat_eq_0)
  have "unat (- 1 :: u32) = 2 ^ 32 - 1" by (simp add: unsigned_minus_1_eq_mask mask_eq_exp_minus_1)
  then have m1: "h \<noteq> - 1" using assms(2,3) h(2) by auto
  have t: "(stack_top < h + n) = (unat stack_top < unat h + unat n)" by (simp add: word_less_nat_alt e)
  have "sys_sbrk heap_base stack_top n s = (if stack_top < h + n then (- 1, s\<lparr> heap_end := h, errno := ENOMEM \<rparr>)
      else (h, s\<lparr> heap_end := h + n \<rparr>))"
    by (simp add: sys_sbrk_def h_def Let_def)
  then show ?thesis using h nz m1 by (simp add: t brk_def e)
qed

lemma granted_Nil [simp]: "granted [] = []"
  by (simp add: granted_def)

lemma granted_Cons [simp]:
  "granted ((p, n) # ps) = (if p = - 1 then granted ps else (unat p, unat n) # granted ps)"
  by (simp add: granted_def)

lemma sbrk_calls_sound:
  assumes "0 < heap_base" and "unat stack_top \<le> 2 ^ 31" and "\<forall>n \<in> set ns. unat n < 2 ^ 31"
    and "brk heap_base s \<le> unat stack_top"
  shows "let (ps, s') = sbrk_calls heap_base stack_top ns s in
    stacked (brk heap_base s) (granted ps) (brk heap_base s') \<and> brk heap_base s' \<le> unat stack_top
    \<and> map snd ps = ns
    \<and> (\<forall>i < length ns. (fst (ps ! i) = - 1) =
        (unat stack_top < brk heap_base s + sum_list (map snd (granted (take i ps))) + unat (ns ! i)))"
  using assms(3,4)
proof (induction ns arbitrary: s)
  case (Cons n ns)
  obtain p s1 where c: "sys_sbrk heap_base stack_top n s = (p, s1)" by fastforce
  obtain ps s2 where r: "sbrk_calls heap_base stack_top ns s1 = (ps, s2)" by fastforce
  have o: "if unat stack_top < brk heap_base s + unat n then p = - 1 \<and> brk heap_base s1 = brk heap_base s
      else unat p = brk heap_base s \<and> p \<noteq> - 1 \<and> brk heap_base s1 = brk heap_base s + unat n"
    using sys_sbrk_cases [OF assms(1) _ Cons.prems(2), of n] assms(2) Cons.prems(1) c by (auto split: if_splits)
  then have "brk heap_base s1 \<le> unat stack_top" using Cons.prems(2) by (auto split: if_splits)
  with Cons.IH [of s1] Cons.prems(1) r
  have IH: "stacked (brk heap_base s1) (granted ps) (brk heap_base s2)" "brk heap_base s2 \<le> unat stack_top" "map snd ps = ns"
    "\<forall>i < length ns. (fst (ps ! i) = - 1) =
        (unat stack_top < brk heap_base s1 + sum_list (map snd (granted (take i ps))) + unat (ns ! i))" by auto
  have "(fst (((p, n) # ps) ! i) = - 1) =
      (unat stack_top < brk heap_base s + sum_list (map snd (granted (take i ((p, n) # ps)))) + unat ((n # ns) ! i))"
    if "i < length (n # ns)" for i
    using that o IH(4) by (cases i) (auto simp: add.assoc split: if_splits)
  then show ?case using o IH by (auto simp: c r split: if_splits)
qed simp

text \<open>
  C37: The heap is sound. From the first request on, for any requests that do not shrink it: the
  blocks handed out lie one behind the other from \<open>_end\<close>, so they never overlap, the last
  one ends at or below \<open>_stack_top\<close>, and a request is refused exactly if it would go past
  that address; a refusal changes nothing for the requests after it.
\<close>

theorem sbrk_blocks_sound:
  assumes "0 < heap_base" and "heap_base \<le> stack_top" and "unat stack_top \<le> 2 ^ 31"
    and "\<forall>n \<in> set ns. unat n < 2 ^ 31" and "heap_end s = 0"
  shows "\<exists>ps s'. sbrk_calls heap_base stack_top ns s = (ps, s')
    \<and> stacked (unat heap_base) (granted ps) (brk heap_base s') \<and> brk heap_base s' \<le> unat stack_top
    \<and> (\<forall>i < length ns. (fst (ps ! i) = - 1) =
        (unat stack_top < unat heap_base + sum_list (map snd (granted (take i ps))) + unat (ns ! i)))"
proof -
  have "brk heap_base s = unat heap_base" using assms(5) by (simp add: brk_def)
  then show ?thesis
    using sbrk_calls_sound [OF assms(1,3,4), of s] assms(2)
    by (cases "sbrk_calls heap_base stack_top ns s") (auto simp: word_le_nat_alt)
qed

lemma sbrk_blocks_sound_witness:
  "\<exists>ps s'. sbrk_calls 0x20000100 0x20020000 [64, 0x30000, 32] \<lparr> heap_end = 0, errno = 0, console = '''' \<rparr> = (ps, s')
    \<and> stacked 0x20000100 (granted ps) (brk 0x20000100 s') \<and> fst (ps ! 0) \<noteq> - 1"
  using sbrk_blocks_sound [where heap_base = "0x20000100" and stack_top = "0x20020000" and ns = "[64, 0x30000, 32]"
    and s = "\<lparr> heap_end = 0, errno = 0, console = '''' \<rparr>"]
  by (auto simp: granted_def)

text \<open>
  The check looks at the top of the stack, not at the stack pointer, and not at the bottom of
  the heap: a heap of any size up to the whole memory above \<open>_end\<close> is granted although the
  stack grows down from the same address, and a negative request moves the heap below \<open>_end\<close>.
\<close>

lemma sbrk_grants_the_stack:
  assumes "0 < heap_base" and "heap_base < stack_top" and "heap_end s = 0"
  shows "sys_sbrk heap_base stack_top (stack_top - heap_base) s = (heap_base, s\<lparr> heap_end := stack_top \<rparr>)"
    and "sys_sbrk heap_base stack_top (- 1) s = (heap_base, s\<lparr> heap_end := heap_base - 1 \<rparr>)"
proof -
  have "heap_base - 1 < heap_base" 
    using assms(1) by (simp add: word_less_nat_alt unat_sub_if')
  then show "sys_sbrk heap_base stack_top (- 1) s = (heap_base, s\<lparr> heap_end := heap_base - 1 \<rparr>)"
    using assms by (auto simp: sys_sbrk_def Let_def not_less)
qed (use assms in \<open>simp add: sys_sbrk_def Let_def\<close>)

end
