(* ===== verification/X86.thy ===== *)
theory X86
  imports Mmio
begin

text \<open>
  The x86 boot kernel of \<open>src/kernels/x86-zig/src/C\<close>: \<open>gdt.c\<close>, \<open>idt.c\<close>, \<open>isr.c\<close>,
  \<open>serial.c\<close>, \<open>kernel.c\<close>, and the exception stubs of \<open>src/kernels/x86-zig/src/isr.asm\<close>.
  The state is the two descriptor tables, the table registers of the processor, its segment
  and general registers, the stack as a list of words (the top first), the screen memory and
  the bytes written to I/O ports. How the processor reads the tables, when it raises an
  exception, is written out from its documentation (\<open>seg_base\<close>, \<open>seg_limit\<close>, \<open>gate_of\<close>,
  \<open>linear\<close>, \<open>raise_exception\<close>); the addresses of the tables and of the stubs, which the linker
  chooses, are parameters, and so are the values the line status register is read as.
\<close>

subsection \<open>State\<close>

record gdt_entry =
  limit_low :: u16
  base_low :: u16
  base_mid :: u8
  access :: u8
  granularity :: u8
  base_high :: u8

record gdt_ptr =
  gdt_limit :: u16
  gdt_base :: u32

record idt_entry =
  offset_low :: u16
  selector :: u16
  zero :: u8
  type_attr :: u8
  offset_high :: u16

record idt_ptr =
  idt_limit :: u16
  idt_base :: u32

record cpu =
  x_eax :: u32
  x_ecx :: u32
  x_edx :: u32
  x_ebx :: u32
  x_esp :: u32
  x_ebp :: u32
  x_esi :: u32
  x_edi :: u32
  x_eip :: u32
  x_eflags :: u32
  x_cs :: u16
  x_ds :: u16
  x_es :: u16
  x_fs :: u16
  x_gs :: u16
  x_ss :: u16

record x86 =
  gdt :: "gdt_entry list"
  gdtr :: gdt_ptr
  idt :: "idt_entry list"
  idt_ptr :: idt_ptr
  lgdt :: gdt_ptr
  lidt :: idt_ptr
  regs :: cpu
  stack :: "u32 list"
  vga :: "nat \<Rightarrow> u16"
  ports :: "(u16 \<times> u8) list"

definition GDT_ENTRIES :: nat where "GDT_ENTRIES = 3"
definition IDT_ENTRIES :: nat where "IDT_ENTRIES = 256"

subsection \<open>gdt.c\<close>

definition make_entry :: "nat \<Rightarrow> u32 \<Rightarrow> u32 \<Rightarrow> u8 \<Rightarrow> u8 \<Rightarrow> gdt_entry list \<Rightarrow> gdt_entry list" where
  "make_entry i base lim acc gran t =
     t[i := \<lparr> limit_low = ucast (lim AND 0xFFFF), base_low = ucast (base AND 0xFFFF),
              base_mid = ucast (drop_bit 16 base AND 0xFF), access = acc,
              granularity = ucast (drop_bit 16 lim AND 0x0F) OR (gran AND 0xF0),
              base_high = ucast (drop_bit 24 base AND 0xFF) \<rparr>]"

definition gdt_init :: "u32 \<Rightarrow> x86 \<Rightarrow> x86" where
  "gdt_init addr s =
     (let r = \<lparr> gdt_limit = of_nat (8 * GDT_ENTRIES - 1), gdt_base = addr \<rparr>;
          t = make_entry 2 0 0xFFFFF 0x92 0xCF (make_entry 1 0 0xFFFFF 0x9A 0xCF (make_entry 0 0 0 0 0 (gdt s)))
      in s\<lparr> gdt := t, gdtr := r, lgdt := r,
            regs := (regs s)\<lparr> x_eflags := x_eflags (regs s) AND NOT (push_bit 9 1),
                             x_cs := 0x08, x_eax := (x_eax (regs s) AND 0xFFFF0000) OR 0x10,
                             x_ds := 0x10, x_es := 0x10, x_fs := 0x10, x_gs := 0x10, x_ss := 0x10 \<rparr> \<rparr>)"

subsection \<open>idt.c\<close>

definition setEntry :: "nat \<Rightarrow> u32 \<Rightarrow> idt_entry list \<Rightarrow> idt_entry list" where
  "setEntry n handler t =
     t[n := \<lparr> offset_low = ucast (handler AND 0xFFFF), selector = 0x08, zero = 0, type_attr = 0x8E,
              offset_high = ucast (drop_bit 16 handler AND 0xFFFF) \<rparr>]"

definition idt_init :: "(nat \<Rightarrow> u32) \<Rightarrow> u32 \<Rightarrow> x86 \<Rightarrow> x86" where
  "idt_init isr addr s =
     (let r = \<lparr> idt_limit = of_nat (8 * IDT_ENTRIES - 1), idt_base = addr \<rparr>;
          t = fold (\<lambda>i. setEntry i 0) [0..<IDT_ENTRIES] (idt s);
          t = setEntry 14 (isr 14) (setEntry 13 (isr 13) (setEntry 8 (isr 8)
                (setEntry 6 (isr 6) (setEntry 0 (isr 0) t))))
      in s\<lparr> idt := t, idt_ptr := r, lidt := r \<rparr>)"

subsection \<open>serial.c\<close>

definition COM :: u16 where "COM = 0x3F8"

definition outb :: "u16 \<Rightarrow> u8 \<Rightarrow> x86 \<Rightarrow> x86" where
  "outb port value s = s\<lparr> ports := ports s @ [(port, value)] \<rparr>"

definition is_transmit_empty :: "u8 \<Rightarrow> u8" where "is_transmit_empty status = status AND 0x20"

definition serial_init :: "x86 \<Rightarrow> x86" where
  "serial_init s =
     outb (COM + 4) 0x0B (outb (COM + 2) 0xC7 (outb (COM + 3) 0x03 (outb (COM + 1) 0x00
       (outb (COM + 0) 0x01 (outb (COM + 3) 0x80 (outb (COM + 1) 0x00 s))))))"

text \<open>\<open>lsr k\<close> is what the \<open>k\<close>-th read of the line status register yields. The result carries
  the index of the next read; \<open>None\<close> is a wait that never ends.\<close>

fun serial_write :: "(nat \<Rightarrow> u8) \<Rightarrow> string \<Rightarrow> nat \<times> x86 \<Rightarrow> (nat \<times> x86) option" where
  "serial_write lsr [] ks = Some ks"
| "serial_write lsr (c # cs) (k, s) =
     (if c = CHR 0x00 then Some (k, s)
      else case spin (\<lambda>j. is_transmit_empty (lsr j) = 0) k of None \<Rightarrow> None
           | Some j \<Rightarrow> serial_write lsr cs (j + 1, outb COM (of_char c) s))"

subsection \<open>isr.c and isr.asm\<close>

record register_t =
  gs :: u32
  fs :: u32
  es :: u32
  ds :: u32
  edi :: u32
  esi :: u32
  ebp :: u32
  esp :: u32
  ebx :: u32
  edx :: u32
  ecx :: u32
  eax :: u32
  int_no :: u32
  err_code :: u32
  eip :: u32
  cs :: u32
  eflags :: u32

definition exception_name :: "u32 \<Rightarrow> string" where
  "exception_name n =
     (if n = 0 then ''#DE Divide Error'' else if n = 6 then ''#UD Invalid Opcode''
      else if n = 8 then ''#DF Double Fault'' else if n = 13 then ''#GP General Protection''
      else if n = 14 then ''#PF Page Fault'' else ''Unknown Exception'') @ [CHR 0x0A]"

text \<open>The handler never returns: the result is the state in which it halts.\<close>

definition isr_handler :: "(nat \<Rightarrow> u8) \<Rightarrow> register_t \<Rightarrow> nat \<times> x86 \<Rightarrow> (nat \<times> x86) option" where
  "isr_handler lsr r ks =
     (case serial_write lsr ''EXCEPTION:'' ks of None \<Rightarrow> None
      | Some ks \<Rightarrow> serial_write lsr (exception_name (int_no r)) ks)"

definition push :: "u32 \<Rightarrow> x86 \<Rightarrow> x86" where
  "push w s = s\<lparr> stack := w # stack s, regs := (regs s)\<lparr> x_esp := x_esp (regs s) - 4 \<rparr> \<rparr>"

definition isr0 :: "x86 \<Rightarrow> x86" where "isr0 s = push 0 (push 0 s)"
definition isr6 :: "x86 \<Rightarrow> x86" where "isr6 s = push 6 (push 0 s)"
definition isr8 :: "x86 \<Rightarrow> x86" where "isr8 s = push 8 s"
definition isr13 :: "x86 \<Rightarrow> x86" where "isr13 s = push 13 s"
definition isr14 :: "x86 \<Rightarrow> x86" where "isr14 s = push 14 s"

definition pusha :: "x86 \<Rightarrow> x86" where
  "pusha s = (let c = regs s in
     push (x_edi c) (push (x_esi c) (push (x_ebp c) (push (x_esp c)
       (push (x_ebx c) (push (x_edx c) (push (x_ecx c) (push (x_eax c) s))))))))"

text \<open>The words from the stack pointer upwards, read as the structure the handler is given.\<close>

definition register_at :: "u32 list \<Rightarrow> register_t" where
  "register_at w = \<lparr> gs = w ! 0, fs = w ! 1, es = w ! 2, ds = w ! 3, edi = w ! 4, esi = w ! 5,
     ebp = w ! 6, esp = w ! 7, ebx = w ! 8, edx = w ! 9, ecx = w ! 10, eax = w ! 11,
     int_no = w ! 12, err_code = w ! 13, eip = w ! 14, cs = w ! 15, eflags = w ! 16 \<rparr>"

definition save_context :: "x86 \<Rightarrow> x86" where
  "save_context s = (let s = pusha s; c = regs s in
     push (ucast (x_gs c)) (push (ucast (x_fs c)) (push (ucast (x_es c)) (push (ucast (x_ds c)) s))))"

definition isr_common_stub :: "(nat \<Rightarrow> u8) \<Rightarrow> nat \<times> x86 \<Rightarrow> (nat \<times> x86) option" where
  "isr_common_stub lsr ks = (case ks of (k, s) \<Rightarrow>
     let s = save_context s;
         r = register_at (stack s);
         c = regs s;
         s = s\<lparr> regs := c\<lparr> x_eax := (x_eax c AND 0xFFFF0000) OR 0x10, x_ds := 0x10, x_es := 0x10,
                          x_fs := 0x10, x_gs := 0x10 \<rparr> \<rparr>
     in isr_handler lsr r (k, push (x_esp c) s))"

subsection \<open>kernel.c\<close>

fun print_from :: "string \<Rightarrow> nat \<Rightarrow> x86 \<Rightarrow> x86" where
  "print_from [] a s = s"
| "print_from (c # msg) a s =
     (if c = CHR 0x00 then s
      else print_from msg (a + 1) (s\<lparr> vga := (vga s)(a := 0x0F00 OR scast (of_char c :: u8)) \<rparr>))"

definition print_vga :: "string \<Rightarrow> nat \<Rightarrow> x86 \<Rightarrow> x86" where
  "print_vga msg offset s = print_from msg offset s"

definition start :: "(nat \<Rightarrow> u32) \<Rightarrow> u32 \<Rightarrow> u32 \<Rightarrow> (nat \<Rightarrow> u8) \<Rightarrow> x86 \<Rightarrow> (nat \<times> x86) option" where
  "start isr gdt_addr idt_addr lsr s =
     (case serial_write lsr (''IDT OK'' @ [CHR 0x0A]) (0, idt_init isr idt_addr (serial_init (gdt_init gdt_addr s))) of
        None \<Rightarrow> None
      | Some (k, s) \<Rightarrow>
          Some (k, print_vga ''Kernel OK __C__'' 160 (print_vga ''GDT OK __C__'' 80 (print_vga ''TamgaOS __C__'' 0 s))))"


subsection \<open>What the processor makes of the tables\<close>

definition seg_base :: "gdt_entry \<Rightarrow> u32" where
  "seg_base e = push_bit 24 (ucast (base_high e)) OR push_bit 16 (ucast (base_mid e)) OR ucast (base_low e)"

definition seg_limit :: "gdt_entry \<Rightarrow> u32" where
  "seg_limit e = (let l = push_bit 16 (ucast (granularity e AND 0x0F)) OR ucast (limit_low e)
                  in if bit (granularity e) 7 then push_bit 12 l OR 0xFFF else l)"

definition segment_of :: "x86 \<Rightarrow> u16 \<Rightarrow> gdt_entry option" where
  "segment_of s sel = (let i = unat sel div 8 in
     if 0 < i \<and> 8 * i + 7 \<le> unat (gdt_limit (lgdt s)) \<and> bit (access (gdt s ! i)) 7 then Some (gdt s ! i) else None)"

definition linear :: "x86 \<Rightarrow> u16 \<Rightarrow> u32 \<Rightarrow> u32 option" where
  "linear s sel off = (case segment_of s sel of None \<Rightarrow> None
     | Some e \<Rightarrow> if off \<le> seg_limit e then Some (seg_base e + off) else None)"

definition gate_offset :: "idt_entry \<Rightarrow> u32" where
  "gate_offset e = push_bit 16 (ucast (offset_high e)) OR ucast (offset_low e)"

definition gate_of :: "x86 \<Rightarrow> nat \<Rightarrow> (u16 \<times> u32) option" where
  "gate_of s v = (let e = idt s ! v in
     if 8 * v + 7 \<le> unat (idt_limit (lidt s)) \<and> bit (type_attr e) 7 \<and> type_attr e AND 0x1F = 0x0E
     then Some (selector e, gate_offset e) else None)"

text \<open>An exception in kernel mode: the interrupted flags, code selector and instruction are
pushed, then the error code of those exceptions that have one; interrupts are disabled and
execution goes on at the linear address returned.\<close>

definition raise_exception :: "nat \<Rightarrow> u32 option \<Rightarrow> x86 \<Rightarrow> (u32 \<times> x86) option" where
  "raise_exception v err s =
     (case gate_of s v of None \<Rightarrow> None
      | Some (sel, off) \<Rightarrow> (case linear s sel off of None \<Rightarrow> None
          | Some a \<Rightarrow>
              let c = regs s;
                  s = push (x_eip c) (push (ucast (x_cs c)) (push (x_eflags c) s));
                  s = (case err of None \<Rightarrow> s | Some e \<Rightarrow> push e s)
              in Some (a, s\<lparr> regs := (regs s)\<lparr> x_cs := sel, x_eip := off,
                                 x_eflags := x_eflags c AND NOT (push_bit 9 1) \<rparr> \<rparr>)))"

subsection \<open>Descriptors\<close>

lemma length_make_entry [simp]: "length (make_entry i b l a g t) = length t"
  by (simp add: make_entry_def)

lemma length_setEntry [simp]: "length (setEntry n h t) = length t"
  by (simp add: setEntry_def)

lemma make_entry_other: "j \<noteq> i \<Longrightarrow> make_entry i b l a g t ! j = t ! j"
  by (simp add: make_entry_def)

lemma setEntry_other: "j \<noteq> n \<Longrightarrow> setEntry n h t ! j = t ! j"
  by (simp add: setEntry_def)

lemma bit_masks:
  "bit (15 :: int) n = (n < 4)" "bit (255 :: int) n = (n < 8)" "bit (4095 :: int) n = (n < 12)"
  "bit (65535 :: int) n = (n < 16)" "bit (1048575 :: int) n = (n < 20)"
  "bit (240 :: int) n = (4 \<le> n \<and> n < 8)"
proof -
  have m: "(15 :: int) = mask 4" "(255 :: int) = mask 8" "(4095 :: int) = mask 12" "(65535 :: int) = mask 16"
    "(1048575 :: int) = mask 20" "(240 :: int) = push_bit 4 (mask 4)"
    by (simp_all add: mask_eq_exp_minus_1 push_bit_eq_mult)
  show "bit (15 :: int) n = (n < 4)" "bit (255 :: int) n = (n < 8)" "bit (4095 :: int) n = (n < 12)"
    "bit (65535 :: int) n = (n < 16)" "bit (1048575 :: int) n = (n < 20)" "bit (240 :: int) n = (4 \<le> n \<and> n < 8)"
    unfolding m by (auto simp: bit_simps)
qed

lemma gate_offset_setEntry: "n < length t \<Longrightarrow> gate_offset (setEntry n h t ! n) = h"
  by (simp add: setEntry_def gate_offset_def) (rule bit_word_eqI, auto simp: bit_simps bit_masks)

lemma seg_base_make_entry: "i < length t \<Longrightarrow> seg_base (make_entry i b l a g t ! i) = b"
  by (simp add: make_entry_def seg_base_def)
    (rule bit_word_eqI, rename_tac n, case_tac "n < 24", auto simp: bit_simps bit_masks)

lemma seg_limit_make_entry:
  assumes "i < length t"
  shows "seg_limit (make_entry i b l a g t ! i) =
    (if bit g 7 then push_bit 12 (l AND 0xFFFFF) OR 0xFFF else l AND 0xFFFFF)"
proof -
  have "push_bit 16 (ucast (granularity (make_entry i b l a g t ! i) AND 0x0F))
      OR ucast (limit_low (make_entry i b l a g t ! i)) = l AND 0xFFFFF"
    using assms by (simp add: make_entry_def) (rule bit_word_eqI, auto simp: bit_simps bit_masks)
  moreover have "bit (granularity (make_entry i b l a g t ! i)) 7 = bit g 7"
    using assms by (simp add: make_entry_def bit_simps bit_masks)
  ultimately show ?thesis by (simp add: seg_limit_def)
qed

lemma access_make_entry: "i < length t \<Longrightarrow> access (make_entry i b l a g t ! i) = a"
  by (simp add: make_entry_def)

subsection \<open>The tables of the running kernel\<close>

lemma flat_limit: "push_bit 12 (0xFFFFF AND 0xFFFFF) OR 0xFFF = (- 1 :: u32)"
  by simp

lemma flat_code:
  assumes "length (gdt s0) = GDT_ENTRIES" and "gdt s = gdt (gdt_init ga s0)" and "lgdt s = lgdt (gdt_init ga s0)"
  shows "linear s 0x08 off = Some off"
proof -
  have g: "gdt s ! 1 = make_entry 1 0 0xFFFFF 0x9A 0xCF (make_entry 0 0 0 0 0 (gdt s0)) ! 1"
    by (simp add: assms gdt_init_def Let_def make_entry_other)
  have "seg_base (gdt s ! 1) = 0" "access (gdt s ! 1) = 0x9A"
    using assms(1) by (simp_all add: g seg_base_make_entry access_make_entry GDT_ENTRIES_def del: One_nat_def)
  moreover have "seg_limit (gdt s ! 1) = - 1"
    by (subst g, subst seg_limit_make_entry) (use assms(1) in \<open>simp_all add: GDT_ENTRIES_def\<close>)
  moreover have "gdt_limit (lgdt s) = 23" by (simp add: assms gdt_init_def Let_def GDT_ENTRIES_def)
  ultimately show ?thesis by (simp add: linear_def segment_of_def)
qed

lemma idt_clear:
  "v < n \<Longrightarrow> n \<le> length t \<Longrightarrow> fold (\<lambda>i. setEntry i h) [0..<n] t ! v = setEntry v h t ! v"
proof (induction n)
  case (Suc n)
  have l: "length (fold (\<lambda>i. setEntry i h) [0..<n] t) = length t" for n by (induction n) simp_all
  show ?case
    using Suc by (cases "v = n") (simp_all add: l setEntry_other, simp add: setEntry_def l)
qed simp

definition handled :: "nat set" where "handled = {0, 6, 8, 13, 14}"

lemma idt_entries:
  assumes "length (idt s0) = IDT_ENTRIES" and "v < 256"
  shows "idt (idt_init isr ia s0) ! v = setEntry v (if v \<in> handled then isr v else 0) (idt s0) ! v"
proof -
  let ?t = "fold (\<lambda>i. setEntry i 0) [0..<IDT_ENTRIES] (idt s0)"
  have l: "length (fold (\<lambda>i. setEntry i h) xs t) = length t" for h xs t
    by (induction xs arbitrary: t) simp_all
  have c: "?t ! v = setEntry v 0 (idt s0) ! v"
    using assms by (intro idt_clear) (simp_all add: IDT_ENTRIES_def)
  have u: "w < 256 \<Longrightarrow> setEntry w h ?t ! w = setEntry w h (idt s0) ! w" for w h
    using assms(1) by (simp add: setEntry_def l IDT_ENTRIES_def)
  have i: "idt (idt_init isr ia s0) = setEntry 14 (isr 14) (setEntry 13 (isr 13) (setEntry 8 (isr 8)
    (setEntry 6 (isr 6) (setEntry 0 (isr 0) ?t))))" by (simp add: idt_init_def Let_def)
  show ?thesis
  proof (cases "v \<in> handled")
    case False
    then show ?thesis using c by (simp add: i setEntry_other handled_def)
  next
    case True
    then show ?thesis using u assms(1)
      by (auto simp: i handled_def setEntry_def l IDT_ENTRIES_def)
  qed
qed

lemma gate_of_idt_init:
  assumes "length (idt s0) = IDT_ENTRIES" and "v < 256"
    and "idt s = idt (idt_init isr ia s0)" and "lidt s = lidt (idt_init isr ia s0)"
  shows "gate_of s v = Some (0x08, if v \<in> handled then isr v else 0)"
proof -
  let ?h = "if v \<in> handled then isr v else 0"
  have e: "idt s ! v = setEntry v ?h (idt s0) ! v" using idt_entries [OF assms(1,2)] assms(3) by simp
  have "v < length (idt s0)" using assms(1,2) by (simp add: IDT_ENTRIES_def)
  then have "selector (idt s ! v) = 0x08" "type_attr (idt s ! v) = 0x8E" "gate_offset (idt s ! v) = ?h"
    by (simp_all add: e gate_offset_setEntry) (simp_all add: setEntry_def)
  moreover have "idt_limit (lidt s) = 2047" by (simp add: assms(4) idt_init_def Let_def IDT_ENTRIES_def)
  ultimately show ?thesis using assms(2) by (simp add: gate_of_def Let_def)
qed

subsection \<open>Messages\<close>

lemma serial_write_sends:
  assumes "\<forall>k. \<exists>j\<ge>k. lsr j AND 0x20 \<noteq> (0 :: u8)" and "CHR 0x00 \<notin> set msg"
  shows "\<exists>k'. serial_write lsr msg (k, s) =
    Some (k', s\<lparr> ports := ports s @ map (\<lambda>c. (COM, of_char c)) msg \<rparr>)"
  using assms(2)
proof (induction msg arbitrary: k s)
  case (Cons c msg)
  obtain n where "k \<le> n" "is_transmit_empty (lsr n) \<noteq> 0"
    using assms(1) by (auto simp: is_transmit_empty_def)
  then obtain j where "spin (\<lambda>j. is_transmit_empty (lsr j) = 0) k = Some j"
    using spin_ends [of "\<lambda>j. is_transmit_empty (lsr j) = 0" n k] by auto
  with Cons.prems Cons.IH [of "j + 1" "outb COM (of_char c) s"] show ?case by (auto simp: outb_def)
qed simp

lemma print_from_eq:
  "CHR 0x00 \<notin> set msg \<Longrightarrow> print_from msg a s =
     s\<lparr> vga := \<lambda>i. if a \<le> i \<and> i < a + length msg then 0x0F00 OR scast (of_char (msg ! (i - a)) :: u8) else vga s i \<rparr>"
proof (induction msg arbitrary: a s)
  case Nil
  have "(\<lambda>i. if a \<le> i \<and> i < a then f i else vga s i) = vga s" for f by (rule ext) auto
  then show ?case by simp
next
  case (Cons c msg)
  then have "print_from (c # msg) a s = s\<lparr> vga := \<lambda>i. if Suc a \<le> i \<and> i < Suc a + length msg
      then 0x0F00 OR scast (of_char (msg ! (i - Suc a)) :: u8)
      else ((vga s)(a := 0x0F00 OR scast (of_char c :: u8))) i \<rparr>"
    by (auto simp: Cons.IH cong del: if_weak_cong)
  also have "\<dots> = s\<lparr> vga := \<lambda>i. if a \<le> i \<and> i < a + length (c # msg)
      then 0x0F00 OR scast (of_char ((c # msg) ! (i - a)) :: u8) else vga s i \<rparr>"
    by (rule arg_cong [where f = "\<lambda>f. s\<lparr> vga := f \<rparr>"]) (auto simp: fun_eq_iff nth_Cons')
  finally show ?case .
qed

definition serial_ready :: "(nat \<Rightarrow> u8) \<Rightarrow> bool" where
  "serial_ready lsr = (\<forall>k. \<exists>j\<ge>k. lsr j AND 0x20 \<noteq> 0)"

definition same_tables :: "x86 \<Rightarrow> x86 \<Rightarrow> bool" where
  "same_tables s t = (gdt t = gdt s \<and> lgdt t = lgdt s \<and> idt t = idt s \<and> lidt t = lidt s)"

lemma print_vga_tables [simp]: "CHR 0x00 \<notin> set msg \<Longrightarrow> same_tables s (print_vga msg a t) = same_tables s t"
  by (simp add: print_vga_def print_from_eq same_tables_def)

lemma start_tables:
  assumes "serial_ready lsr"
  shows "\<exists>k s'. start isr ga ia lsr s0 = Some (k, s') \<and> gdt s' = gdt (gdt_init ga s0)
    \<and> lgdt s' = lgdt (gdt_init ga s0) \<and> idt s' = idt (idt_init isr ia s0) \<and> lidt s' = lidt (idt_init isr ia s0)"
proof -
  let ?s = "idt_init isr ia (serial_init (gdt_init ga s0))"
  obtain k where w: "serial_write lsr (''IDT OK'' @ [CHR 0x0A]) (0, ?s) =
      Some (k, ?s\<lparr> ports := ports ?s @ map (\<lambda>c. (COM, of_char c)) (''IDT OK'' @ [CHR 0x0A]) \<rparr>)"
    using serial_write_sends [of lsr "''IDT OK'' @ [CHR 0x0A]" 0 ?s] assms by (auto simp: serial_ready_def)
  have "same_tables ?s (snd (the (start isr ga ia lsr s0))) \<and> start isr ga ia lsr s0 \<noteq> None"
    unfolding start_def w by (simp add: same_tables_def print_vga_def print_from_eq)
  moreover have "gdt ?s = gdt (gdt_init ga s0)" "lgdt ?s = lgdt (gdt_init ga s0)"
    "idt ?s = idt (idt_init isr ia s0)" "lidt ?s = lidt (idt_init isr ia s0)"
    by (simp_all add: idt_init_def serial_init_def outb_def gdt_init_def Let_def)
  ultimately show ?thesis
    by (cases "start isr ga ia lsr s0") (auto simp: same_tables_def)
qed

definition demo_x86 :: x86 where
  "demo_x86 = \<lparr> gdt = replicate 3 (\<lparr> limit_low = 0, base_low = 0, base_mid = 0, access = 0, granularity = 0, base_high = 0 \<rparr>), gdtr = \<lparr> gdt_limit = 0, gdt_base = 0 \<rparr>,
     idt = replicate 256 (\<lparr> offset_low = 0, selector = 0, zero = 0, type_attr = 0, offset_high = 0 \<rparr>), idt_ptr = \<lparr> idt_limit = 0, idt_base = 0 \<rparr>,
     lgdt = \<lparr> gdt_limit = 0, gdt_base = 0 \<rparr>, lidt = \<lparr> idt_limit = 0, idt_base = 0 \<rparr>,
     regs = \<lparr> x_eax = 1, x_ecx = 2, x_edx = 3, x_ebx = 4, x_esp = 0x90000, x_ebp = 6, x_esi = 7, x_edi = 8,
       x_eip = 0x100000, x_eflags = 0x202, x_cs = 8, x_ds = 16, x_es = 16, x_fs = 16, x_gs = 16, x_ss = 16 \<rparr>,
     stack = [], vga = (\<lambda>_. 0), ports = [] \<rparr>"

definition demo_isr :: "nat \<Rightarrow> u32" where "demo_isr v = 0x101000 + 16 * of_nat v"

subsection \<open>Exceptions\<close>

definition isr_entry :: "nat \<Rightarrow> x86 \<Rightarrow> x86" where
  "isr_entry v s = (if v = 0 then isr0 s else if v = 6 then isr6 s else if v = 8 then isr8 s
                    else if v = 13 then isr13 s else isr14 s)"

definition has_error_code :: "nat \<Rightarrow> bool" where
  "has_error_code v = (v \<in> {8, 10, 11, 12, 13, 14, 17})"

text \<open>The registers of the interrupted code, as the handler should see them.\<close>

definition frame_of :: "cpu \<Rightarrow> nat \<Rightarrow> u32 \<Rightarrow> u32 \<Rightarrow> register_t" where
  "frame_of c v err sp = \<lparr> gs = ucast (x_gs c), fs = ucast (x_fs c), es = ucast (x_es c), ds = ucast (x_ds c),
     edi = x_edi c, esi = x_esi c, ebp = x_ebp c, esp = sp, ebx = x_ebx c, edx = x_edx c,
     ecx = x_ecx c, eax = x_eax c, int_no = of_nat v, err_code = err, eip = x_eip c,
     cs = ucast (x_cs c), eflags = x_eflags c \<rparr>"

lemma push_simps [simp]:
  "stack (push w s) = w # stack s" "ports (push w s) = ports s" "gdt (push w s) = gdt s"
  "x_esp (regs (push w s)) = x_esp (regs s) - 4"
  "x_eax (regs (push w s)) = x_eax (regs s)" "x_ecx (regs (push w s)) = x_ecx (regs s)"
  "x_edx (regs (push w s)) = x_edx (regs s)" "x_ebx (regs (push w s)) = x_ebx (regs s)"
  "x_ebp (regs (push w s)) = x_ebp (regs s)" "x_esi (regs (push w s)) = x_esi (regs s)"
  "x_edi (regs (push w s)) = x_edi (regs s)" "x_ds (regs (push w s)) = x_ds (regs s)"
  "x_es (regs (push w s)) = x_es (regs s)" "x_fs (regs (push w s)) = x_fs (regs s)"
  "x_gs (regs (push w s)) = x_gs (regs s)"
  by (simp_all add: push_def)

lemma stack_save_context:
  "stack (save_context s) = (let c = regs s in
     [ucast (x_gs c), ucast (x_fs c), ucast (x_es c), ucast (x_ds c), x_edi c, x_esi c, x_ebp c, x_esp c,
      x_ebx c, x_edx c, x_ecx c, x_eax c] @ stack s)"
  by (simp add: save_context_def pusha_def Let_def)

lemma stack_isr_entry:
  assumes "v \<in> handled"
  shows "stack (isr_entry v s) = of_nat v # (if has_error_code v then [] else [0]) @ stack s"
    and "regs (isr_entry v s) = (regs s)\<lparr> x_esp := x_esp (regs s) - (if has_error_code v then 4 else 8) \<rparr>"
  using assms
  by (auto simp: handled_def has_error_code_def isr_entry_def isr0_def isr6_def isr8_def isr13_def isr14_def push_def)

lemma raise_exception_Some:
  assumes "raise_exception v err t = Some (a, t')"
  shows "stack t' = (case err of None \<Rightarrow> [] | Some e \<Rightarrow> [e]) @
      [x_eip (regs t), ucast (x_cs (regs t)), x_eflags (regs t)] @ stack t"
    and "regs t' = (regs t)\<lparr> x_esp := x_esp (regs t) - (case err of None \<Rightarrow> 12 | Some _ \<Rightarrow> 16),
      x_cs := x_cs (regs t'), x_eip := x_eip (regs t'), x_eflags := x_eflags (regs t') \<rparr>"
  using assms by (auto simp: raise_exception_def push_def Let_def split: option.splits prod.splits)

lemma frame_saved:
  assumes v: "v \<in> handled" and e: "(err \<noteq> None) = has_error_code v" and r: "raise_exception v err t = Some (a, t')"
  shows "register_at (stack (save_context (isr_entry v t'))) =
    frame_of (regs t) v (case err of None \<Rightarrow> 0 | Some e \<Rightarrow> e) (x_esp (regs t) - 20)"
proof -
  obtain sel off fl where c: "regs t' = (regs t)\<lparr> x_esp := x_esp (regs t) - (case err of None \<Rightarrow> 12 | Some _ \<Rightarrow> 16),
      x_cs := sel, x_eip := off, x_eflags := fl \<rparr>"
    using raise_exception_Some (2) [OF r] by blast
  let ?e = "case err of None \<Rightarrow> 0 | Some e \<Rightarrow> e"
  have "(if has_error_code v then [] else [0]) @ (case err of None \<Rightarrow> [] | Some e \<Rightarrow> [e]) = [?e]"
    and "(case err of None \<Rightarrow> 12 | Some _ \<Rightarrow> 16) + (if has_error_code v then 4 else 8) = (20 :: u32)"
    using e by (auto split: option.splits)
  then have "stack (isr_entry v t') = of_nat v # ?e # x_eip (regs t) # ucast (x_cs (regs t)) # x_eflags (regs t) # stack t"
    and "regs (isr_entry v t') = (regs t)\<lparr> x_esp := x_esp (regs t) - 20, x_cs := sel, x_eip := off, x_eflags := fl \<rparr>"
    by (simp_all add: stack_isr_entry [OF v] raise_exception_Some (1) [OF r] c diff_diff_eq)
  then show ?thesis
    by (simp add: stack_save_context register_at_def frame_of_def Let_def)
qed

lemma context_outside:
  "ports (save_context s) = ports s" "ports (isr_entry v s) = ports s"
  "raise_exception v err t = Some (a, t') \<Longrightarrow> ports t' = ports t"
  by (auto simp: save_context_def pusha_def isr_entry_def isr0_def isr6_def isr8_def isr13_def isr14_def
    raise_exception_def Let_def split: option.splits prod.splits)

lemma name_no_nul: "CHR 0x00 \<notin> set (exception_name n)"
  by (simp add: exception_name_def)

lemma stub_reports:
  assumes "serial_ready lsr" and "v \<in> handled" and "(err \<noteq> None) = has_error_code v"
    and "raise_exception v err t = Some (a, t')"
  shows "\<exists>j h. isr_common_stub lsr (n, isr_entry v t') = Some (j, h)
    \<and> ports h = ports t @ map (\<lambda>c. (COM, of_char c)) (''EXCEPTION:'' @ exception_name (of_nat v))"
proof -
  let ?r = "register_at (stack (save_context (isr_entry v t')))"
  have r: "int_no ?r = of_nat v"
    by (simp add: frame_saved [OF assms(2-4)] frame_of_def)
  have w: "\<exists>k'. serial_write lsr msg (k, s) = Some (k', s\<lparr> ports := ports s @ map (\<lambda>c. (COM, of_char c)) msg \<rparr>)"
    if "CHR 0x00 \<notin> set msg" for msg k s
    using serial_write_sends [OF _ that] assms(1) by (simp add: serial_ready_def)
  have h: "\<exists>j h. isr_handler lsr ?r (k, s) = Some (j, h)
      \<and> ports h = ports s @ map (\<lambda>c. (COM, of_char c)) (''EXCEPTION:'' @ exception_name (of_nat v))" for k s
  proof -
    obtain k1 where w1: "serial_write lsr ''EXCEPTION:'' (k, s) =
        Some (k1, s\<lparr> ports := ports s @ map (\<lambda>c. (COM, of_char c)) ''EXCEPTION:'' \<rparr>)"
      using w [of "''EXCEPTION:''"] by auto
    show ?thesis
      unfolding isr_handler_def w1 r using w [OF name_no_nul] by fastforce
  qed
  let ?s = "save_context (isr_entry v t')"
  define S where "S = push (x_esp (regs ?s)) (?s\<lparr> regs := (regs ?s)\<lparr> x_eax := (x_eax (regs ?s) AND 0xFFFF0000) OR 0x10,
    x_ds := 0x10, x_es := 0x10, x_fs := 0x10, x_gs := 0x10 \<rparr> \<rparr>)"
  have "isr_common_stub lsr (n, isr_entry v t') = isr_handler lsr ?r (n, S)"
    by (simp add: isr_common_stub_def Let_def S_def)
  moreover have "ports S = ports t"
    by (simp add: S_def context_outside (1,2) context_outside (3) [OF assms(4)])
  ultimately show ?thesis using h [of n S] by simp
qed

text \<open>
  C38: Exceptions are reported. After the kernel has started, whatever runs since as long as it
  leaves the tables alone: an exception with a handler enters its stub; the handler is given
  the number of the exception, its error code (zero if it has none) and the registers as the
  interrupted code left them, writes the name of the exception to the serial port and halts.
  Every other vector also counts as present, with address 0: the processor does not fault but
  goes on executing there.
\<close>

theorem x86_exceptions_reported:
  assumes "length (gdt s0) = GDT_ENTRIES" and "length (idt s0) = IDT_ENTRIES" and "serial_ready lsr"
    and "start isr ga ia lsr0 s0 = Some (k, s)" and "serial_ready lsr0" and "same_tables s t"
    and "v < 256" and "(err \<noteq> None) = has_error_code v"
  shows "\<exists>t'. raise_exception v err t = Some (if v \<in> handled then isr v else 0, t') \<and>
    (v \<in> handled \<longrightarrow>
       register_at (stack (save_context (isr_entry v t'))) =
         frame_of (regs t) v (case err of None \<Rightarrow> 0 | Some e \<Rightarrow> e) (x_esp (regs t) - 20)
     \<and> (\<exists>j h. isr_common_stub lsr (n, isr_entry v t') = Some (j, h)
          \<and> ports h = ports t @ map (\<lambda>c. (COM, of_char c)) (''EXCEPTION:'' @ exception_name (of_nat v))))"
proof -
  have tab: "gdt t = gdt (gdt_init ga s0)" "lgdt t = lgdt (gdt_init ga s0)"
    "idt t = idt (idt_init isr ia s0)" "lidt t = lidt (idt_init isr ia s0)"
    using start_tables [OF assms(5), of isr ga ia s0] assms(4,6) by (auto simp: same_tables_def)
  have g: "gate_of t v = Some (0x08, if v \<in> handled then isr v else 0)"
    by (rule gate_of_idt_init [OF assms(2,7) tab(3,4)])
  have l: "linear t 0x08 off = Some off" for off by (rule flat_code [OF assms(1) tab(1,2)])
  obtain t' where t': "raise_exception v err t = Some (if v \<in> handled then isr v else 0, t')"
    using g l by (auto simp: raise_exception_def Let_def)
  have "\<exists>j h. isr_common_stub lsr (n, isr_entry v t') = Some (j, h)
      \<and> ports h = ports t @ map (\<lambda>c. (COM, of_char c)) (''EXCEPTION:'' @ exception_name (of_nat v))"
    if v: "v \<in> handled"
    by (rule stub_reports [OF assms(3) v assms(8) t'])
  with t' frame_saved [OF _ assms(8) t'] show ?thesis by blast
qed

lemma x86_exceptions_reported_witness:
  "\<exists>t'. raise_exception 13 (Some 0x10) (snd (the (start demo_isr 0x102000 0x103000 (\<lambda>_. 0x60) demo_x86))) = Some (0x1010D0, t')
      \<and> int_no (register_at (stack (save_context (isr13 t')))) = 13
      \<and> err_code (register_at (stack (save_context (isr13 t')))) = 0x10"
proof -
  let ?s = "snd (the (start demo_isr 0x102000 0x103000 (\<lambda>_. 0x60) demo_x86))"
  have r: "serial_ready (\<lambda>_. 0x60)" by (auto simp: serial_ready_def)
  obtain k where k: "start demo_isr 0x102000 0x103000 (\<lambda>_. 0x60) demo_x86 = Some (k, ?s)"
    using start_tables [OF r, where isr = demo_isr and ga = "0x102000" and ia = "0x103000" and ?s0.0 = demo_x86] by auto
  have "13 \<in> handled" and "demo_isr 13 = 0x1010D0" and "isr_entry 13 = isr13"
    by (auto simp: handled_def demo_isr_def isr_entry_def)
  with x86_exceptions_reported [where v = 13 and err = "Some 0x10" and t = ?s and n = 0, OF _ _ r k r] show ?thesis
    by (auto simp: demo_x86_def GDT_ENTRIES_def IDT_ENTRIES_def same_tables_def has_error_code_def frame_of_def)
qed

end
