(* ===== verification/PwmDebug.thy ===== *)
theory PwmDebug
  imports Actuators UartK64f "HOL-Library.Monad_Syntax"
begin

text \<open>
  The register dumps \<open>pwm_debug_print_regs\<close> of \<open>drivers/stm32h753zi/pwm.c\<close> and
  \<open>drivers/k64f/pwm.c\<close>, and the pin toggle test of the STM32, one round of whose endless loop
  is \<open>toggle_round\<close> (its delay loop changes no state). Text is what reaches \<open>uart_putc\<close>. The
  K64F formatter's text is derived here for every format it understands.
\<close>

subsection \<open>The K64F formatter on a list of fields\<close>

definition newlines :: "string \<Rightarrow> string" where
  "newlines s = concat (map (\<lambda>c. if c = CHR 0x0A then [CHR 0x0D, c] else [c]) s)"

lemma newlines_id: "CHR 0x0A \<notin> set s \<Longrightarrow> newlines s = s"
  unfolding newlines_def by (induction s) auto

fun k64f_seg_ok :: "'d seg \<Rightarrow> bool" where
  "k64f_seg_ok (SegD z w v) \<longleftrightarrow> \<not> z \<and> w = 0"
| "k64f_seg_ok (SegU z w v) \<longleftrightarrow> \<not> z \<and> w = 0"
| "k64f_seg_ok (SegX z w up v) \<longleftrightarrow> \<not> z \<and> w = 0"
| "k64f_seg_ok (SegF p d) \<longleftrightarrow> False"
| "k64f_seg_ok g \<longleftrightarrow> seg_ok g"

fun k64f_seg_text :: "'d seg \<Rightarrow> string" where
  "k64f_seg_text (Lit s) = newlines s"
| "k64f_seg_text (SegS s) = newlines s"
| "k64f_seg_text g = seg_text (\<lambda>_ _. '''') g"

lemma k64f_puts_newlines: "NUL \<notin> set s \<Longrightarrow> k64f_uart_puts (s @ [NUL]) = newlines s"
  unfolding newlines_def by (induction s) auto

lemma k64f_printf_lit:
  "NUL \<notin> set s \<Longrightarrow> CHR ''%'' \<notin> set s \<Longrightarrow>
   k64f_uart_printf (s @ fmt) args = map_option ((@) (newlines s)) (k64f_uart_printf fmt args)"
proof (induction s)
  case Nil
  then show ?case by (simp add: newlines_def map_option.identity option.map_ident)
next
  case (Cons c s)
  then have "c \<noteq> NUL" "c \<noteq> CHR ''%''" by auto
  with Cons show ?case
    by (simp add: k64f_uart_printf.simps(2) newlines_def option.map_comp comp_def)
qed

lemma k64f_printf_conv:
  assumes "k64f_convert x args = Some (shown, rest)"
  shows "k64f_uart_printf (CHR ''%'' # x # fmt) args = map_option ((@) shown) (k64f_uart_printf fmt rest)"
  using assms by (simp add: k64f_uart_printf.simps(2))

lemma k64f_print_int: "uart_put_int v = Some ((if sint v < 0 then ''-'' else '''') @ number_text False 10 (nat \<bar>sint v\<bar>))"
  using print_int_text [of v] by (simp add: uart_put_int_text)

lemma k64f_printf_seg:
  assumes "k64f_seg_ok g"
  shows "k64f_uart_printf (seg_fmt g @ fmt) (seg_args g @ args)
    = map_option ((@) (k64f_seg_text g)) (k64f_uart_printf fmt args)"
proof -
  have c: "k64f_uart_printf (seg_fmt g @ fmt) (seg_args g @ args)
      = map_option ((@) shown) (k64f_uart_printf fmt rest)"
    if "seg_fmt g = [CHR ''%'', x]" "k64f_convert x (seg_args g @ args) = Some (shown, rest)" for x shown rest
    using k64f_printf_conv [OF that(2), of fmt] that(1) by simp
  show ?thesis
  proof (cases g)
    case (Lit s)
    then show ?thesis using assms by (simp add: k64f_printf_lit)
  next
    case (SegC ch)
    have b: "(of_char ch :: nat) mod 4294967296 = of_char ch" by (rule mod_less) (rule less_trans [OF nat_of_char_less_256], simp)
    from SegC show ?thesis
      using c [of "CHR ''c''" "[ch]" args] b by (simp add: k64f_convert_def unat_of_nat take_bit_nat_eq_self)
  next
    case (SegS s)
    then show ?thesis using c [of "CHR ''s''" "newlines s" args] assms
      by (simp add: k64f_convert_def k64f_puts_newlines)
  next
    case (SegX z w up v)
    then show ?thesis using c [of "CHR ''X''" "k64f_seg_text g" args] c [of "CHR ''x''" "k64f_seg_text g" args] assms
      by (cases up) (simp_all add: k64f_convert_def pad_fmt_def padded_def uart_put_uint_text)
  next
    case (SegD z w v)
    then show ?thesis using c [of "CHR ''d''" "k64f_seg_text g" args] assms
      by (simp add: k64f_convert_def pad_fmt_def padded_def k64f_print_int)
  next
    case (SegU z w v)
    then show ?thesis using c [of "CHR ''u''" "k64f_seg_text g" args] assms
      by (simp add: k64f_convert_def pad_fmt_def padded_def uart_put_uint_text)
  next
    case SegPercent
    then show ?thesis using c [of "CHR ''%''" "''%''" args] by (simp add: k64f_convert_def)
  qed (use assms in simp)
qed

interpretation k64f_printf: formatter k64f_uart_printf k64f_seg_ok k64f_seg_text
  by unfold_locales (simp_all add: k64f_printf_seg k64f_uart_printf.simps(2))

text \<open>
  The K64F's formatter prints a format of plain fields (no zero flag, width or floating point,
  which it does not know) with a carriage return before every newline of the format and of a
  string argument, also where one is there already; apart from that as the STM32's does.
\<close>

theorem k64f_printf_renders:
  assumes "\<forall>g \<in> set segs. k64f_seg_ok g"
  shows "k64f_uart_printf (concat (map seg_fmt segs) @ [NUL]) (concat (map seg_args segs))
      = Some (concat (map k64f_seg_text segs))
    \<and> ((\<forall>g \<in> set segs. CHR 0x0A \<notin> set (seg_fmt g) \<and> (\<forall>s. g = SegS s \<longrightarrow> CHR 0x0A \<notin> set s)) \<longrightarrow>
      k64f_uart_printf (concat (map seg_fmt segs) @ [NUL]) (concat (map seg_args segs))
      = uart_printf pf (concat (map seg_fmt segs) @ [NUL]) (concat (map seg_args segs)))"
proof -
  have ok: "seg_ok g" if "k64f_seg_ok g" for g :: "'a seg" using that by (cases g) auto
  have e: "k64f_seg_text g = seg_text pf g"
    if "k64f_seg_ok g" "CHR 0x0A \<notin> set (seg_fmt g)" "\<forall>s. g = SegS s \<longrightarrow> CHR 0x0A \<notin> set s" for g :: "'a seg"
    using that by (cases g) (auto simp: newlines_id)
  have "k64f_uart_printf (concat (map seg_fmt segs) @ [NUL]) (concat (map seg_args segs))
      = uart_printf pf (concat (map seg_fmt segs) @ [NUL]) (concat (map seg_args segs))"
    if "\<forall>g \<in> set segs. CHR 0x0A \<notin> set (seg_fmt g) \<and> (\<forall>s. g = SegS s \<longrightarrow> CHR 0x0A \<notin> set s)"
  proof -
    have "\<forall>g \<in> set segs. k64f_seg_text g = seg_text pf g" using e assms that by blast
    from k64f_printf.renders_as [OF assms this] show ?thesis
      using stm_printf.renders [of segs pf] ok assms by simp
  qed
  then show ?thesis using k64f_printf.renders [OF assms] by blast
qed

lemma k64f_printf_renders_witness:
  "k64f_uart_printf (''n=%u %s'' @ [CHR 0x0D, CHR 0x0A] @ [NUL]) [ArgInt 7 :: unit uart_arg, ArgStr (''ok'' @ [NUL])]
     = Some (''n=7 ok'' @ [CHR 0x0D, CHR 0x0D, CHR 0x0A])"
  using k64f_printf_renders [of "[Lit ''n='', SegU False 0 7, Lit '' '', SegS ''ok'', Lit [CHR 0x0D, CHR 0x0A]]
      :: unit seg list" undefined]
  by (simp add: pad_fmt_def newlines_def padded_def number_text_def digits_less digit_char_def
      char_of_char [of "CHR ''7''", where 'a = nat, simplified])

subsection \<open>The dumps\<close>

definition pwm_debug_print_regs :: "mmio \<Rightarrow> string option" where
  "pwm_debug_print_regs m = do {
     a \<leftarrow> uart_printf (\<lambda>(_ :: unit) _. '''')
           (''[PWM-DEBUG] TIM2_CR1=0x%x TIM2_CCER=0x%x'' @ [CHR 0x0D, CHR 0x0A] @ [NUL])
           [ArgInt (m TIM2_CR1), ArgInt (m TIM2_CCER)];
     b \<leftarrow> uart_printf (\<lambda>(_ :: unit) _. '''')
           (''[PWM-DEBUG] GPIOA_MODER=0x%x GPIOA_AFRL=0x%x'' @ [CHR 0x0D, CHR 0x0A] @ [NUL])
           [ArgInt (m GPIOA_MODER), ArgInt (m GPIOA_AFRL)];
     Some (a @ b)
   }"

definition FTM0_CNT :: u32 where "FTM0_CNT = 0x40038004"

definition k64f_pwm_debug_print_regs :: "mmio \<Rightarrow> string option" where
  "k64f_pwm_debug_print_regs m = do {
     a \<leftarrow> k64f_uart_printf
           (''[PWM-DEBUG] FTM0_SC=0x%x FTM0_MOD=%u FTM0_C0V=%u FTM0_C2V=%u'' @ [CHR 0x0D, CHR 0x0A] @ [NUL])
           [ArgInt (m FTM0_SC) :: unit uart_arg, ArgInt (m FTM0_MOD), ArgInt (m FTM0_C0V), ArgInt (m FTM0_C2V)];
     b \<leftarrow> k64f_uart_printf
           (''[PWM-DEBUG] FTM3_SC=0x%x FTM3_MOD=%u FTM3_C4V=%u FTM3_C5V=%u'' @ [CHR 0x0D, CHR 0x0A] @ [NUL])
           [ArgInt (m FTM3_SC) :: unit uart_arg, ArgInt (m FTM3_MOD), ArgInt (m FTM3_C4V), ArgInt (m FTM3_C5V)];
     c \<leftarrow> k64f_uart_printf
           (''[PWM-LIVE] SC=0x%x MOD=%u CNT=%u C0V=%u'' @ [CHR 0x0D, CHR 0x0A] @ [NUL])
           [ArgInt (m FTM0_SC) :: unit uart_arg, ArgInt (m FTM0_MOD), ArgInt (m FTM0_CNT), ArgInt (m FTM0_C0V)];
     Some (a @ b @ c)
   }"

definition GPIOA_ODR :: u32 where "GPIOA_ODR = 0x58020014"

definition toggle_start :: "mmio \<Rightarrow> mmio" where
  "toggle_start m = mm_or GPIOA_MODER 1 (mm_clear GPIOA_MODER 3 (mm_or PWM_RCC_AHB4ENR 1 m))"

definition toggle_round :: "u32 \<Rightarrow> mmio \<Rightarrow> string option \<times> u32 \<times> mmio" where
  "toggle_round counter m =
     (let m = mm_write GPIOA_ODR (m GPIOA_ODR XOR 1) m
      in (uart_printf (\<lambda>(_ :: unit) _. '''')
            (''[TOGGLE-TEST-PA0] tick=%u, GPIOA_ODR=0x%x'' @ [CHR 0x0D, CHR 0x0A] @ [NUL])
            [ArgInt counter, ArgInt (m GPIOA_ODR)], counter + 1, m))"

text \<open>The first \<open>n\<close> rounds: what they print, the counter, and the registers.\<close>

primrec pwm_debug_gpio_toggle_test :: "nat \<Rightarrow> mmio \<Rightarrow> string option list \<times> u32 \<times> mmio" where
  "pwm_debug_gpio_toggle_test 0 m = ([], 0, toggle_start m)"
| "pwm_debug_gpio_toggle_test (Suc n) m =
     (case pwm_debug_gpio_toggle_test n m of (lines, counter, m1) \<Rightarrow>
      case toggle_round counter m1 of (l, counter, m2) \<Rightarrow> (lines @ [l], counter, m2))"

definition hex_of :: "u32 \<Rightarrow> string" where "hex_of v = number_text False 16 (unat v)"
definition dec_of :: "u32 \<Rightarrow> string" where "dec_of v = number_text False 10 (unat v)"

lemma stm_line:
  assumes "NUL \<notin> set (a @ b)" and "CHR ''%'' \<notin> set (a @ b)"
  shows "uart_printf pf (a @ ''%x'' @ b @ ''%x'' @ [CHR 0x0D, CHR 0x0A] @ [NUL]) [ArgInt v, ArgInt w]
      = Some (a @ hex_of v @ b @ hex_of w @ [CHR 0x0D, CHR 0x0A])"
    and "uart_printf pf (a @ ''%u'' @ b @ ''%x'' @ [CHR 0x0D, CHR 0x0A] @ [NUL]) [ArgInt v, ArgInt w]
      = Some (a @ dec_of v @ b @ hex_of w @ [CHR 0x0D, CHR 0x0A])"
  using printf_segs [of "[Lit a, SegX False 0 False v, Lit b, SegX False 0 False w, Lit [CHR 0x0D, CHR 0x0A]]" pf]
    printf_segs [of "[Lit a, SegU False 0 v, Lit b, SegX False 0 False w, Lit [CHR 0x0D, CHR 0x0A]]" pf] assms
  by (simp_all add: pad_fmt_def padded_def hex_of_def dec_of_def)

lemma k64f_line:
  assumes "NUL \<notin> set (a @ b @ c @ d)" and "CHR ''%'' \<notin> set (a @ b @ c @ d)" and "CHR 0x0A \<notin> set (a @ b @ c @ d)"
  shows "k64f_uart_printf (a @ ''%x'' @ b @ ''%u'' @ c @ ''%u'' @ d @ ''%u'' @ [CHR 0x0D, CHR 0x0A] @ [NUL])
      [ArgInt v, ArgInt w, ArgInt x, ArgInt y]
    = Some (a @ hex_of v @ b @ dec_of w @ c @ dec_of x @ d @ dec_of y @ [CHR 0x0D, CHR 0x0D, CHR 0x0A])"
proof -
  have n: "newlines [CHR 0x0D, CHR 0x0A] = [CHR 0x0D, CHR 0x0D, CHR 0x0A]" by (simp add: newlines_def)
  show ?thesis
    using k64f_printf.renders [of "[Lit a, SegX False 0 False v, Lit b, SegU False 0 w, Lit c, SegU False 0 x,
        Lit d, SegU False 0 y, Lit [CHR 0x0D, CHR 0x0A]]"] assms
    by (simp add: pad_fmt_def padded_def hex_of_def dec_of_def newlines_id n)
qed

text \<open>
  The dumps print the registers as they are, control registers in hexadecimal, counters in
  decimal, line by line; the K64F's lines end in two carriage returns and a newline.
\<close>

theorem pwm_dumps_exact:
  "pwm_debug_print_regs m
     = Some (''[PWM-DEBUG] TIM2_CR1=0x'' @ hex_of (m TIM2_CR1) @ '' TIM2_CCER=0x'' @ hex_of (m TIM2_CCER) @ [CHR 0x0D, CHR 0x0A]
        @ ''[PWM-DEBUG] GPIOA_MODER=0x'' @ hex_of (m GPIOA_MODER) @ '' GPIOA_AFRL=0x'' @ hex_of (m GPIOA_AFRL) @ [CHR 0x0D, CHR 0x0A])
   \<and> k64f_pwm_debug_print_regs m
     = Some (''[PWM-DEBUG] FTM0_SC=0x'' @ hex_of (m FTM0_SC) @ '' FTM0_MOD='' @ dec_of (m FTM0_MOD)
          @ '' FTM0_C0V='' @ dec_of (m FTM0_C0V) @ '' FTM0_C2V='' @ dec_of (m FTM0_C2V) @ [CHR 0x0D, CHR 0x0D, CHR 0x0A]
        @ ''[PWM-DEBUG] FTM3_SC=0x'' @ hex_of (m FTM3_SC) @ '' FTM3_MOD='' @ dec_of (m FTM3_MOD)
          @ '' FTM3_C4V='' @ dec_of (m FTM3_C4V) @ '' FTM3_C5V='' @ dec_of (m FTM3_C5V) @ [CHR 0x0D, CHR 0x0D, CHR 0x0A]
        @ ''[PWM-LIVE] SC=0x'' @ hex_of (m FTM0_SC) @ '' MOD='' @ dec_of (m FTM0_MOD)
          @ '' CNT='' @ dec_of (m FTM0_CNT) @ '' C0V='' @ dec_of (m FTM0_C0V) @ [CHR 0x0D, CHR 0x0D, CHR 0x0A])"
proof -
  note s = stm_line(1) [of "''[PWM-DEBUG] TIM2_CR1=0x''" "'' TIM2_CCER=0x''", simplified]
    stm_line(1) [of "''[PWM-DEBUG] GPIOA_MODER=0x''" "'' GPIOA_AFRL=0x''", simplified]
  note k = k64f_line [of "''[PWM-DEBUG] FTM0_SC=0x''" "'' FTM0_MOD=''" "'' FTM0_C0V=''" "'' FTM0_C2V=''", simplified]
    k64f_line [of "''[PWM-DEBUG] FTM3_SC=0x''" "'' FTM3_MOD=''" "'' FTM3_C4V=''" "'' FTM3_C5V=''", simplified]
    k64f_line [of "''[PWM-LIVE] SC=0x''" "'' MOD=''" "'' CNT=''" "'' C0V=''", simplified]
  show ?thesis by (simp add: pwm_debug_print_regs_def k64f_pwm_debug_print_regs_def s k)
qed

text \<open>
  The toggle test drives the pin as a square wave: after \<open>n\<close> rounds bit 0 of the output
  register has changed \<open>n\<close> times and no other register since the set-up, and round \<open>i\<close> has
  printed its number and the level it set.
\<close>

theorem toggle_test_square_wave:
  "pwm_debug_gpio_toggle_test n m
     = (map (\<lambda>i. Some (''[TOGGLE-TEST-PA0] tick='' @ dec_of (of_nat i) @ '', GPIOA_ODR=0x''
              @ hex_of (m GPIOA_ODR XOR (if even i then 1 else 0)) @ [CHR 0x0D, CHR 0x0A])) [0..<n],
        of_nat n, (toggle_start m)(GPIOA_ODR := m GPIOA_ODR XOR (if even n then 0 else 1)))"
proof (induction n)
  case 0
  have "GPIOA_ODR \<noteq> GPIOA_MODER" "GPIOA_ODR \<noteq> PWM_RCC_AHB4ENR"
    by (simp_all add: GPIOA_ODR_def GPIOA_MODER_def PWM_RCC_AHB4ENR_def)
  then have "toggle_start m GPIOA_ODR = m GPIOA_ODR" by (simp add: toggle_start_def)
  then show ?case by (simp add: fun_upd_idem)
next
  case (Suc n)
  note p = stm_line(2) [of "''[TOGGLE-TEST-PA0] tick=''" "'', GPIOA_ODR=0x''" "\<lambda>(_ :: unit) _. ''''"]
  have "(w XOR 1) XOR 1 = w" for w :: u32 by (simp add: xor.assoc)
  then show ?case using Suc p by (simp add: toggle_round_def mm_write_def Let_def fun_eq_iff)
qed

end
