(* ===== verification/Altitude.thy ===== *)
theory Altitude
  imports Sensors Complex_Main
begin

text \<open>
  The altitude of \<open>sensors/bmp280.c\<close>: the last lines of \<open>bmp280_read\<close> and the reference that
  \<open>bmp280_zero_altitude\<close> sets. The arithmetic is that of an ordered field, single-precision
  rounding is not modelled; the compiler's \<open>__builtin_powf\<close> is the parameter \<open>powf\<close>, of which the
  theorem uses that a power of 1 is 1 and that the power grows with its base.
\<close>

definition ALTITUDE_EXPONENT :: "'a :: linordered_field" where
  "ALTITUDE_EXPONENT = 1902949 / 10000000"

definition bmp280_altitude :: "('a \<Rightarrow> 'a \<Rightarrow> 'a) \<Rightarrow> u32 \<Rightarrow> int \<Rightarrow> 'a :: linordered_field" where
  "bmp280_altitude powf reference pressure_x256 =
     (let pressure_pa = of_int pressure_x256 / 256;
          ratio = pressure_pa / (of_int (sint reference) / 256)
      in 44330 * (1 - powf ratio ALTITUDE_EXPONENT))"

record 'a bmp280_full = bmp280_data +
  altitude_m :: 'a

definition bmp280_measure ::
  "('a \<Rightarrow> 'a \<Rightarrow> 'a) \<Rightarrow> u32 \<Rightarrow> bmp280_calib \<Rightarrow> u8 list \<Rightarrow> ('a :: linordered_field) bmp280_full" where
  "bmp280_measure powf reference cal b =
     (let d = bmp280_compensate cal b;
          t_fine = bmp280_t_fine cal (adc20 (b ! 3) (b ! 4) (b ! 5));
          p = bmp280_pressure cal t_fine (adc20 (b ! 0) (b ! 1) (b ! 2))
      in \<lparr>temperature_x100 = temperature_x100 d, pressure_pa_x256 = pressure_pa_x256 d,
          altitude_m = bmp280_altitude powf reference p\<rparr>)"

definition bmp280_read_full ::
  "('a \<Rightarrow> 'a \<Rightarrow> 'a) \<Rightarrow> u32 \<Rightarrow> (nat \<Rightarrow> u32) \<Rightarrow> (nat \<Rightarrow> u32) \<Rightarrow> u8 list \<Rightarrow> bmp280_calib \<Rightarrow>
    ('a :: linordered_field) bmp280_full \<Rightarrow> i2c_io \<Rightarrow> int \<times> 'a bmp280_full \<times> i2c_io" where
  "bmp280_read_full powf reference isr rx stack cal out io =
     (let (r, buf, io) = i2c_read isr rx BMP280_ADDR 0xF7 stack io in
      if r < 0 then (-1, out, io) else (0, bmp280_measure powf reference cal buf, io))"

lemma read_full_extends:
  "bmp280_read isr rx stack cal d io = (0, d', io') \<Longrightarrow>
   \<exists>f. bmp280_read_full powf reference isr rx stack cal out io = (0, f, io')
     \<and> temperature_x100 f = temperature_x100 d' \<and> pressure_pa_x256 f = pressure_pa_x256 d'"
  by (auto simp: bmp280_read_def bmp280_read_full_def bmp280_measure_def Let_def split: prod.splits if_splits)

lemma zero_of_constant:
  assumes "good reading (max 1 (unat n)) \<noteq> []" and "\<forall>i p. reading i = Some p \<longrightarrow> p = P"
  shows "bmp280_zero_altitude n reading = Some P"
proof -
  let ?g = "good reading (max 1 (unat n))"
  have "\<forall>x \<in> set ?g. x = uint P" using assms(2) by (auto simp: good_def)
  moreover have "\<forall>x \<in> set xs. x = (c :: int) \<Longrightarrow> sum_list xs = int (length xs) * c" for xs c
    by (induction xs) (auto simp: algebra_simps)
  ultimately have "sum_list ?g = int (length ?g) * uint P" by blast
  then show ?thesis using bmp280_zero_altitude_mean [of n reading] assms(1) by (simp add: Let_def)
qed

lemma altitude_less:
  assumes "\<And>x y. 0 \<le> x \<Longrightarrow> x < y \<Longrightarrow> powf x ALTITUDE_EXPONENT < powf y ALTITUDE_EXPONENT"
    and "0 < sint r" and "0 \<le> p" and "p < q"
  shows "bmp280_altitude powf r q < bmp280_altitude powf r p"
proof -
  define R where "R = sint r"
  have "0 \<le> of_int p / 256 / (of_int R / 256 :: 'a)" "of_int p / 256 / (of_int R / 256 :: 'a) < of_int q / 256 / (of_int R / 256)"
    using assms(2-4) unfolding R_def [symmetric] by (simp_all add: divide_strict_right_mono)
  then show ?thesis unfolding bmp280_altitude_def Let_def R_def [symmetric] using assms(1) by auto
qed

text \<open>
  The altitude is what it says. When every reading of bmp280_zero_altitude that succeeds, and
  at least one does, finds the pressure P, then P becomes the reference, the altitude at P is
  0, it falls strictly as the pressure rises, and so it is positive just below P.
\<close>

theorem bmp280_altitude_correct:
  assumes "powf 1 ALTITUDE_EXPONENT = 1"
    and "\<And>x y. 0 \<le> x \<Longrightarrow> x < y \<Longrightarrow> powf x ALTITUDE_EXPONENT < powf y ALTITUDE_EXPONENT"
    and "0 < P" and "unat P < 2 ^ 31"
    and "good reading (max 1 (unat n)) \<noteq> []" and "\<forall>i p. reading i = Some p \<longrightarrow> p = P"
  shows "\<exists>r. bmp280_zero_altitude n reading = Some r \<and> bmp280_altitude powf r (uint P) = 0
    \<and> (\<forall>p q. 0 \<le> p \<and> p < q \<longrightarrow> bmp280_altitude powf r q < bmp280_altitude powf r p)
    \<and> (\<forall>p \<ge> 0. 0 < bmp280_altitude powf r p \<longleftrightarrow> p < uint P)"
proof -
  have P: "sint P = uint P" "0 < uint P" using assms(3,4) sint32_small [of P] by (simp_all add: word_less_def)
  have z: "bmp280_altitude powf P (uint P) = 0" using P assms(1) by (simp add: bmp280_altitude_def Let_def del: of_int_uint)
  have m: "0 \<le> p \<Longrightarrow> p < q \<Longrightarrow> bmp280_altitude powf P q < bmp280_altitude powf P p" for p q
    using P by (intro altitude_less) (simp_all add: assms(2))
  have "0 < bmp280_altitude powf P p \<longleftrightarrow> p < uint P" if "0 \<le> p" for p
  proof (cases p "uint P" rule: linorder_cases)
    case less
    then show ?thesis using m [OF that less] z by simp
  next
    case equal
    then show ?thesis using z by simp
  next
    case greater
    then show ?thesis using m [OF _ greater] z P(2) by simp
  qed
  then show ?thesis using zero_of_constant [OF assms(5,6)] z m by blast
qed

lemma bmp280_altitude_correct_witness:
  "\<exists>r. bmp280_zero_altitude 1 (\<lambda>_. Some 25767233) = Some r \<and> bmp280_altitude (powr) r 25767233 = (0 :: real)
    \<and> (0 :: real) < bmp280_altitude (powr) r 25000000"
proof -
  have "(ALTITUDE_EXPONENT :: real) > 0" by (simp add: ALTITUDE_EXPONENT_def)
  then have m: "x powr ALTITUDE_EXPONENT < y powr ALTITUDE_EXPONENT" if "0 \<le> x" "x < y" for x y :: real
    using that by (intro powr_less_mono2) auto
  have "\<exists>r. bmp280_zero_altitude 1 (\<lambda>_. Some 25767233) = Some r
      \<and> bmp280_altitude (powr) r (uint (25767233 :: u32)) = (0 :: real)
      \<and> (\<forall>p q. 0 \<le> p \<and> p < q \<longrightarrow> bmp280_altitude (powr) r q < (bmp280_altitude (powr) r p :: real))
      \<and> (\<forall>p \<ge> 0. (0 :: real) < bmp280_altitude (powr) r p \<longleftrightarrow> p < uint (25767233 :: u32))"
    by (rule bmp280_altitude_correct) (simp_all add: good_def m)
  then show ?thesis by auto
qed

end
