(* ===== verification/BmpRange.thy ===== *)
theory BmpRange
  imports Sensors "HOL-Library.Monad_Syntax"
begin

text \<open>
  The compensation of \<open>sensors/bmp280.c\<close> in the integer types of the source. Here every signed
  operation is checked against its type, \<open>int32_t\<close> or \<open>int64_t\<close>, and \<open>None\<close> is an overflow, which C
  leaves undefined; a shift to the left is a multiplication, as the compiler defines it. The
  theorem gives a condition on the calibration under which no reading overflows, so that
  theory \<open>Sensors\<close>, which computes on unbounded integers, is exact.
\<close>

definition c32 :: "int \<Rightarrow> int option" where
  "c32 x = (if - (2 ^ 31) \<le> x \<and> x < 2 ^ 31 then Some x else None)"

definition c64 :: "int \<Rightarrow> int option" where
  "c64 x = (if - (2 ^ 63) \<le> x \<and> x < 2 ^ 63 then Some x else None)"

definition t_fine_checked :: "bmp280_calib \<Rightarrow> int \<Rightarrow> int option" where
  "t_fine_checked cal adc_t =
     (let T1 = uint (dig_T1 cal); T2 = sint (dig_T2 cal); T3 = sint (dig_T3 cal) in do {
        a \<leftarrow> c32 (adc_t div 2 ^ 3 - T1 * 2);
        x \<leftarrow> c32 (a * T2);
        d \<leftarrow> c32 (adc_t div 2 ^ 4 - T1);
        q \<leftarrow> c32 (d * d);
        y \<leftarrow> c32 ((q div 2 ^ 12) * T3);
        c32 (x div 2 ^ 11 + y div 2 ^ 14)
      })"

definition temperature_checked :: "int \<Rightarrow> int option" where
  "temperature_checked t_fine = do { f \<leftarrow> c32 (t_fine * 5); g \<leftarrow> c32 (f + 128); Some (g div 2 ^ 8) }"

definition pressure_checked :: "bmp280_calib \<Rightarrow> int \<Rightarrow> int \<Rightarrow> int option" where
  "pressure_checked cal t_fine adc_p = do {
     v \<leftarrow> c64 (t_fine - 128000);
     vv \<leftarrow> c64 (v * v);
     a \<leftarrow> c64 (vv * sint (dig_P6 cal));
     b0 \<leftarrow> c64 (v * sint (dig_P5 cal));
     b \<leftarrow> c64 (b0 * 2 ^ 17);
     ab \<leftarrow> c64 (a + b);
     c \<leftarrow> c64 (sint (dig_P4 cal) * 2 ^ 35);
     var2 \<leftarrow> c64 (ab + c);
     d \<leftarrow> c64 (vv * sint (dig_P3 cal));
     e0 \<leftarrow> c64 (v * sint (dig_P2 cal));
     e \<leftarrow> c64 (e0 * 2 ^ 12);
     w \<leftarrow> c64 (d div 2 ^ 8 + e);
     w1 \<leftarrow> c64 (2 ^ 47 + w);
     w2 \<leftarrow> c64 (w1 * uint (dig_P1 cal));
     (let var1 = w2 div 2 ^ 33 in
      if var1 = 0 then Some 0
      else do {
        s \<leftarrow> c64 ((1048576 - adc_p) * 2 ^ 31);
        u \<leftarrow> c64 (s - var2);
        n \<leftarrow> c64 (u * 3125);
        p \<leftarrow> c64 (n sdiv var1);
        f0 \<leftarrow> c64 (sint (dig_P9 cal) * (p div 2 ^ 13));
        f \<leftarrow> c64 (f0 * (p div 2 ^ 13));
        g \<leftarrow> c64 (sint (dig_P8 cal) * p);
        h0 \<leftarrow> c64 (p + f div 2 ^ 25);
        h \<leftarrow> c64 (h0 + g div 2 ^ 19);
        i \<leftarrow> c64 (sint (dig_P7 cal) * 2 ^ 4);
        c64 (h div 2 ^ 8 + i)
      })
   }"

definition compensate_checked :: "bmp280_calib \<Rightarrow> u8 list \<Rightarrow> bmp280_data option" where
  "compensate_checked cal b =
     (let adc_p = adc20 (b ! 0) (b ! 1) (b ! 2); adc_t = adc20 (b ! 3) (b ! 4) (b ! 5) in do {
        t_fine \<leftarrow> t_fine_checked cal adc_t;
        t \<leftarrow> temperature_checked t_fine;
        p \<leftarrow> pressure_checked cal t_fine adc_p;
        Some \<lparr>temperature_x100 = t, pressure_pa_x256 = word_of_int p\<rparr>
      })"

subsection \<open>Where nothing overflows, the integers are exact\<close>

lemma c_Some: "c32 x = Some y \<longleftrightarrow> y = x \<and> - (2 ^ 31) \<le> x \<and> x < 2 ^ 31"
  "c64 x = Some y \<longleftrightarrow> y = x \<and> - (2 ^ 63) \<le> x \<and> x < 2 ^ 63"
  by (auto simp: c32_def c64_def)

lemma temperature_exact: "temperature_checked t = Some c \<Longrightarrow> c = bmp280_temperature t"
  by (auto simp: temperature_checked_def bmp280_temperature_def Option.bind_eq_Some_conv c_Some)

lemma bind64: "Option.bind (c64 x) f = Some r \<Longrightarrow> f x = Some r"
  by (simp add: c64_def split: if_splits)

lemma bind32: "Option.bind (c32 x) f = Some r \<Longrightarrow> f x = Some r"
  by (simp add: c32_def split: if_splits)

lemma t_fine_exact: "t_fine_checked cal adc_t = Some t \<Longrightarrow> t = bmp280_t_fine cal adc_t"
  unfolding t_fine_checked_def bmp280_t_fine_def Let_def by ((drule bind32)+) (simp only: c_Some)

lemma pressure_exact: "pressure_checked cal t_fine adc_p = Some p \<Longrightarrow> p = bmp280_pressure cal t_fine adc_p"
  unfolding pressure_checked_def bmp280_pressure_def bmp280_var1_def bmp280_var2_def Let_def
  apply ((drule bind64)+)
  apply (simp only: split: if_splits)
   apply simp
  apply ((drule bind64)+)
  apply (simp only: c_Some)
  apply (elim conjE)
  apply (simp only: simp_thms)
  done

lemma compensate_exact: "compensate_checked cal b = Some d \<Longrightarrow> d = bmp280_compensate cal b"
  unfolding compensate_checked_def bmp280_compensate_def Let_def
  by (auto simp: Option.bind_eq_Some_conv dest!: t_fine_exact temperature_exact pressure_exact)

subsection \<open>Bounds\<close>

lemma c_fits: "\<bar>x\<bar> < 2 ^ 31 \<Longrightarrow> c32 x = Some x" "\<bar>x\<bar> < 2 ^ 63 \<Longrightarrow> c64 x = Some x"
  by (auto simp: c32_def c64_def)

lemma abs_mul: "\<bar>x\<bar> \<le> a \<Longrightarrow> \<bar>y\<bar> \<le> b \<Longrightarrow> \<bar>x * y\<bar> \<le> a * b" for a b x y :: int
  unfolding abs_mult by (intro mult_mono) simp_all

lemma abs_diff: "0 \<le> x \<Longrightarrow> x \<le> m \<Longrightarrow> 0 \<le> t \<Longrightarrow> \<bar>x - t\<bar> \<le> max t (m - t)" for x m t :: int
  by (auto simp: max_def)

lemma abs_div: "\<bar>x\<bar> \<le> a \<Longrightarrow> 0 < k \<Longrightarrow> \<bar>x div k\<bar> \<le> a div k + 1" for a k x :: int
proof -
  assume a: "\<bar>x\<bar> \<le> a" and k: "0 < k"
  have "x div k \<le> a div k" "(- a) div k \<le> x div k" using a k by (auto intro: zdiv_mono1)
  moreover have "- (a div k + 1) \<le> (- a) div k"
    using k by (simp add: div_minus_minus zdiv_zminus1_eq_if)
  ultimately show ?thesis by linarith
qed

lemma abs_sdiv: "\<bar>x\<bar> \<le> a \<Longrightarrow> 0 < l \<Longrightarrow> l \<le> d \<Longrightarrow> \<bar>x sdiv d\<bar> \<le> a div l" for a l d x :: int
proof -
  assume a: "\<bar>x\<bar> \<le> a" and l: "0 < l" "l \<le> d"
  have "0 \<le> \<bar>x\<bar> div d" using l by (simp add: pos_imp_zdiv_nonneg_iff)
  then have "\<bar>x sdiv d\<bar> = \<bar>x\<bar> div d" using l by (auto simp: signed_divide_int_def abs_mult sgn_if)
  also have "\<dots> \<le> a div d" using a l by (intro zdiv_mono1) simp_all
  also have "\<dots> \<le> a div l" using a l by (intro zdiv_mono2) simp_all
  finally show ?thesis .
qed

text \<open>How large the intermediate values can get, from the calibration alone.\<close>

definition A_max :: "bmp280_calib \<Rightarrow> int" where
  "A_max cal = max (2 * uint (dig_T1 cal)) (131071 - 2 * uint (dig_T1 cal))"

definition D_max :: "bmp280_calib \<Rightarrow> int" where
  "D_max cal = max (uint (dig_T1 cal)) (65535 - uint (dig_T1 cal))"

definition t_max :: "bmp280_calib \<Rightarrow> int" where
  "t_max cal = A_max cal * \<bar>sint (dig_T2 cal)\<bar> div 2 ^ 11 + 1
     + ((D_max cal * D_max cal div 2 ^ 12 + 1) * \<bar>sint (dig_T3 cal)\<bar> div 2 ^ 14 + 1)"

definition temp_ok :: "bmp280_calib \<Rightarrow> bool" where
  "temp_ok cal \<longleftrightarrow> A_max cal * \<bar>sint (dig_T2 cal)\<bar> < 2 ^ 31 \<and> D_max cal * D_max cal < 2 ^ 31
     \<and> (D_max cal * D_max cal div 2 ^ 12 + 1) * \<bar>sint (dig_T3 cal)\<bar> < 2 ^ 31 \<and> t_max cal * 5 + 128 < 2 ^ 31"

lemma t_fine_fits:
  assumes "temp_ok cal" and "0 \<le> adc_t" and "adc_t < 2 ^ 20"
  shows "\<exists>t. t_fine_checked cal adc_t = Some t \<and> \<bar>t\<bar> \<le> t_max cal"
proof -
  let ?T1 = "uint (dig_T1 cal)" and ?T2 = "sint (dig_T2 cal)" and ?T3 = "sint (dig_T3 cal)"
  let ?a = "adc_t div 2 ^ 3 - ?T1 * 2" and ?d = "adc_t div 2 ^ 4 - ?T1"
  let ?x = "?a * ?T2" and ?y = "(?d * ?d div 2 ^ 12) * ?T3"
  have r: "0 \<le> adc_t div 2 ^ 3" "adc_t div 2 ^ 3 \<le> 131071" "0 \<le> adc_t div 2 ^ 4" "adc_t div 2 ^ 4 \<le> 65535"
    using assms(2,3) by auto
  have T1: "0 \<le> ?T1" "?T1 < 65536" using unsigned_less [of "dig_T1 cal", where 'a = int] by simp_all
  have a: "\<bar>?a\<bar> \<le> A_max cal" using abs_diff [OF r(1,2), of "?T1 * 2"] T1(1) by (simp add: A_max_def mult.commute)
  have d: "\<bar>?d\<bar> \<le> D_max cal" using abs_diff [OF r(3,4) T1(1)] by (simp add: D_max_def)
  have x: "\<bar>?x\<bar> \<le> A_max cal * \<bar>?T2\<bar>" by (rule abs_mul [OF a]) simp
  have q: "\<bar>?d * ?d\<bar> \<le> D_max cal * D_max cal" by (rule abs_mul [OF d d])
  have y: "\<bar>?y\<bar> \<le> (D_max cal * D_max cal div 2 ^ 12 + 1) * \<bar>?T3\<bar>" by (rule abs_mul [OF abs_div [OF q]]) simp_all
  have "\<bar>?x div 2 ^ 11 + ?y div 2 ^ 14\<bar> \<le> \<bar>?x div 2 ^ 11\<bar> + \<bar>?y div 2 ^ 14\<bar>" by (rule abs_triangle_ineq)
  also have "\<dots> \<le> t_max cal" unfolding t_max_def by (intro add_mono abs_div x y) simp_all
  finally have t: "\<bar>?x div 2 ^ 11 + ?y div 2 ^ 14\<bar> \<le> t_max cal" .
  have "\<bar>?a\<bar> < 2147483648" "\<bar>?d\<bar> < 2147483648" unfolding abs_less_iff using r T1 by linarith+
  then have s: "\<bar>?a\<bar> < 2 ^ 31" "\<bar>?d\<bar> < 2 ^ 31" by simp_all
  have tm: "t_max cal * 5 + 128 < 2 ^ 31" using assms(1) by (simp add: temp_ok_def)
  have "0 \<le> \<bar>?x div 2 ^ 11 + ?y div 2 ^ 14\<bar>" by simp
  then have "\<bar>?x div 2 ^ 11 + ?y div 2 ^ 14\<bar> < 2 ^ 31" using t tm by linarith
  then have "t_fine_checked cal adc_t = Some (?x div 2 ^ 11 + ?y div 2 ^ 14)"
    unfolding t_fine_checked_def Let_def
    using s x q y assms(1) by (simp only: c_fits Option.bind.simps temp_ok_def order_le_less_trans [OF x] order_le_less_trans [OF q] order_le_less_trans [OF y])
  with t show ?thesis by blast
qed

lemma temperature_fits: "temp_ok cal \<Longrightarrow> \<bar>t\<bar> \<le> t_max cal \<Longrightarrow> temperature_checked t \<noteq> None"
  by (auto simp: temperature_checked_def temp_ok_def c32_def)

text \<open>
  The same for the pressure: \<open>v\<close> bounds the centred temperature, then the bounds of \<open>var2_p\<close>,
  of the correction to \<open>2 ^ 47\<close>, the least \<open>var1_p\<close>, the quotient, and a 13th of its bits.
\<close>

definition v_max :: "bmp280_calib \<Rightarrow> int" where "v_max cal = t_max cal + 128000"

definition var2_max :: "bmp280_calib \<Rightarrow> int" where
  "var2_max cal = v_max cal * v_max cal * \<bar>sint (dig_P6 cal)\<bar> + v_max cal * \<bar>sint (dig_P5 cal)\<bar> * 2 ^ 17
     + \<bar>sint (dig_P4 cal)\<bar> * 2 ^ 35"

definition w_max :: "bmp280_calib \<Rightarrow> int" where
  "w_max cal = v_max cal * v_max cal * \<bar>sint (dig_P3 cal)\<bar> div 2 ^ 8 + 1 + v_max cal * \<bar>sint (dig_P2 cal)\<bar> * 2 ^ 12"

definition var1_min :: "bmp280_calib \<Rightarrow> int" where
  "var1_min cal = (2 ^ 47 - w_max cal) * uint (dig_P1 cal) div 2 ^ 33"

definition n_max :: "bmp280_calib \<Rightarrow> int" where "n_max cal = (2 ^ 51 + var2_max cal) * 3125"
definition p_max :: "bmp280_calib \<Rightarrow> int" where "p_max cal = n_max cal div var1_min cal"
definition s_max :: "bmp280_calib \<Rightarrow> int" where "s_max cal = p_max cal div 2 ^ 13 + 1"

definition f_max :: "bmp280_calib \<Rightarrow> int" where "f_max cal = \<bar>sint (dig_P9 cal)\<bar> * s_max cal * s_max cal"
definition g_max :: "bmp280_calib \<Rightarrow> int" where "g_max cal = \<bar>sint (dig_P8 cal)\<bar> * p_max cal"

definition press_ok :: "bmp280_calib \<Rightarrow> bool" where
  "press_ok cal \<longleftrightarrow> v_max cal * v_max cal < 2 ^ 63 \<and> var2_max cal < 2 ^ 63
     \<and> v_max cal * v_max cal * \<bar>sint (dig_P3 cal)\<bar> < 2 ^ 63 \<and> w_max cal < 2 ^ 47
     \<and> (2 ^ 47 + w_max cal) * uint (dig_P1 cal) < 2 ^ 63 \<and> 0 < var1_min cal \<and> n_max cal < 2 ^ 63
     \<and> \<bar>sint (dig_P9 cal)\<bar> * s_max cal < 2 ^ 63 \<and> f_max cal < 2 ^ 63 \<and> g_max cal < 2 ^ 63
     \<and> p_max cal + (f_max cal div 2 ^ 25 + 1) + (g_max cal div 2 ^ 19 + 1) < 2 ^ 62"

lemma var2_fits:
  assumes "press_ok cal" and "\<bar>v\<bar> \<le> v_max cal"
  shows "\<bar>v * v * sint (dig_P6 cal)\<bar> < 2 ^ 63" "\<bar>v * sint (dig_P5 cal)\<bar> < 2 ^ 63" "\<bar>v * sint (dig_P5 cal) * 2 ^ 17\<bar> < 2 ^ 63"
    "\<bar>v * v * sint (dig_P6 cal) + v * sint (dig_P5 cal) * 2 ^ 17\<bar> < 2 ^ 63" "\<bar>sint (dig_P4 cal) * 2 ^ 35\<bar> < 2 ^ 63"
    "\<bar>v * v * sint (dig_P6 cal) + v * sint (dig_P5 cal) * 2 ^ 17 + sint (dig_P4 cal) * 2 ^ 35\<bar> \<le> var2_max cal"
proof -
  let ?a = "v * v * sint (dig_P6 cal)" and ?b0 = "v * sint (dig_P5 cal)" and ?c = "sint (dig_P4 cal) * 2 ^ 35"
  have a: "\<bar>?a\<bar> \<le> v_max cal * v_max cal * \<bar>sint (dig_P6 cal)\<bar>" by (intro abs_mul assms(2)) simp
  have b: "\<bar>?b0\<bar> \<le> v_max cal * \<bar>sint (dig_P5 cal)\<bar>" by (intro abs_mul assms(2)) simp
  have b2: "\<bar>?b0 * 2 ^ 17\<bar> \<le> v_max cal * \<bar>sint (dig_P5 cal)\<bar> * 2 ^ 17" by (intro abs_mul b) simp
  have c: "\<bar>?c\<bar> = \<bar>sint (dig_P4 cal)\<bar> * 2 ^ 35" by (simp add: abs_mult)
  have m: "var2_max cal < 2 ^ 63" using assms(1) by (simp add: press_ok_def)
  have b0: "\<bar>?b0\<bar> \<le> \<bar>?b0 * 2 ^ 17\<bar>" by (simp add: abs_mult)
  show "\<bar>?a\<bar> < 2 ^ 63" "\<bar>?b0\<bar> < 2 ^ 63" "\<bar>?b0 * 2 ^ 17\<bar> < 2 ^ 63" "\<bar>?a + ?b0 * 2 ^ 17\<bar> < 2 ^ 63" "\<bar>?c\<bar> < 2 ^ 63"
    "\<bar>?a + ?b0 * 2 ^ 17 + ?c\<bar> \<le> var2_max cal"
    using a b0 b2 c m unfolding var2_max_def by linarith+
qed

lemma w_fits:
  assumes "press_ok cal" and "\<bar>v\<bar> \<le> v_max cal"
  shows "\<bar>v * v * sint (dig_P3 cal)\<bar> < 2 ^ 63" "\<bar>v * sint (dig_P2 cal)\<bar> < 2 ^ 63" "\<bar>v * sint (dig_P2 cal) * 2 ^ 12\<bar> < 2 ^ 63"
    "\<bar>v * v * sint (dig_P3 cal) div 2 ^ 8 + v * sint (dig_P2 cal) * 2 ^ 12\<bar> \<le> w_max cal"
proof -
  let ?d = "v * v * sint (dig_P3 cal)" and ?e0 = "v * sint (dig_P2 cal)"
  have d: "\<bar>?d\<bar> \<le> v_max cal * v_max cal * \<bar>sint (dig_P3 cal)\<bar>" by (intro abs_mul assms(2)) simp
  have d2: "\<bar>?d div 2 ^ 8\<bar> \<le> v_max cal * v_max cal * \<bar>sint (dig_P3 cal)\<bar> div 2 ^ 8 + 1" by (rule abs_div [OF d]) simp
  have e: "\<bar>?e0\<bar> \<le> v_max cal * \<bar>sint (dig_P2 cal)\<bar>" by (intro abs_mul assms(2)) simp
  have e2: "\<bar>?e0 * 2 ^ 12\<bar> \<le> v_max cal * \<bar>sint (dig_P2 cal)\<bar> * 2 ^ 12" by (intro abs_mul e) simp
  have e0: "\<bar>?e0\<bar> \<le> \<bar>?e0 * 2 ^ 12\<bar>" by (simp add: abs_mult)
  have m: "w_max cal < 2 ^ 47" "v_max cal * v_max cal * \<bar>sint (dig_P3 cal)\<bar> < 2 ^ 63" using assms(1) by (simp_all add: press_ok_def)
  have big: "(2 :: int) ^ 47 < 2 ^ 63" by simp
  show "\<bar>?d\<bar> < 2 ^ 63" using d m(2) by linarith
  show w: "\<bar>?d div 2 ^ 8 + ?e0 * 2 ^ 12\<bar> \<le> w_max cal" using d2 e2 unfolding w_max_def by linarith
  show "\<bar>?e0 * 2 ^ 12\<bar> < 2 ^ 63" "\<bar>?e0\<bar> < 2 ^ 63"
    using d2 e2 e0 m(1) big unfolding w_max_def by linarith+
qed

lemma var1_fits:
  assumes "press_ok cal" and "\<bar>w\<bar> \<le> w_max cal"
  shows "\<bar>2 ^ 47 + w\<bar> < 2 ^ 63" "\<bar>(2 ^ 47 + w) * uint (dig_P1 cal)\<bar> < 2 ^ 63"
    "var1_min cal \<le> (2 ^ 47 + w) * uint (dig_P1 cal) div 2 ^ 33"
proof -
  have m: "w_max cal < 2 ^ 47" "(2 ^ 47 + w_max cal) * uint (dig_P1 cal) < 2 ^ 63" using assms(1) by (simp_all add: press_ok_def)
  have big: "(2 :: int) ^ 47 + 2 ^ 47 < 2 ^ 63" by simp
  show "\<bar>2 ^ 47 + w\<bar> < 2 ^ 63" using assms(2) m(1) big by linarith
  have "\<bar>2 ^ 47 + w\<bar> \<le> \<bar>2 ^ 47\<bar> + \<bar>w\<bar>" by (rule abs_triangle_ineq)
  then have "\<bar>2 ^ 47 + w\<bar> \<le> 2 ^ 47 + w_max cal" using assms(2) by simp
  then have "\<bar>(2 ^ 47 + w) * uint (dig_P1 cal)\<bar> \<le> (2 ^ 47 + w_max cal) * uint (dig_P1 cal)" by (rule abs_mul) simp
  then show "\<bar>(2 ^ 47 + w) * uint (dig_P1 cal)\<bar> < 2 ^ 63" using m(2) by linarith
  show "var1_min cal \<le> (2 ^ 47 + w) * uint (dig_P1 cal) div 2 ^ 33"
    unfolding var1_min_def using assms(2) by (intro zdiv_mono1 mult_right_mono) simp_all
qed

lemma quotient_fits:
  assumes "press_ok cal" and "0 \<le> adc_p" and "adc_p < 2 ^ 20" and "\<bar>z\<bar> \<le> var2_max cal" and "var1_min cal \<le> y"
  shows "\<bar>(1048576 - adc_p) * 2 ^ 31\<bar> < 2 ^ 63" "\<bar>(1048576 - adc_p) * 2 ^ 31 - z\<bar> < 2 ^ 63"
    "\<bar>((1048576 - adc_p) * 2 ^ 31 - z) * 3125\<bar> < 2 ^ 63" "\<bar>(((1048576 - adc_p) * 2 ^ 31 - z) * 3125) sdiv y\<bar> \<le> p_max cal"
proof -
  have m: "n_max cal < 2 ^ 63" "0 < var1_min cal" using assms(1) by (simp_all add: press_ok_def)
  have "\<bar>(1048576 - adc_p) * 2 ^ 31\<bar> \<le> 2 ^ 20 * 2 ^ 31" by (rule abs_mul) (use assms(2,3) in simp_all)
  then have s: "\<bar>(1048576 - adc_p) * 2 ^ 31\<bar> \<le> 2 ^ 51" by simp
  have u: "\<bar>(1048576 - adc_p) * 2 ^ 31 - z\<bar> \<le> 2 ^ 51 + var2_max cal" using s assms(4) by linarith
  have n: "\<bar>((1048576 - adc_p) * 2 ^ 31 - z) * 3125\<bar> \<le> n_max cal" unfolding n_max_def by (rule abs_mul [OF u]) simp
  show "\<bar>((1048576 - adc_p) * 2 ^ 31 - z) * 3125\<bar> < 2 ^ 63" using n m(1) by linarith
  moreover have "\<bar>x\<bar> \<le> \<bar>x * 3125\<bar>" for x :: int by (simp add: abs_mult)
  ultimately show "\<bar>(1048576 - adc_p) * 2 ^ 31 - z\<bar> < 2 ^ 63" by (rule order_le_less_trans [rotated])
  have "(2 :: int) ^ 51 < 2 ^ 63" by simp
  then show "\<bar>(1048576 - adc_p) * 2 ^ 31\<bar> < 2 ^ 63" using s by linarith
  show "\<bar>(((1048576 - adc_p) * 2 ^ 31 - z) * 3125) sdiv y\<bar> \<le> p_max cal"
    unfolding p_max_def by (rule abs_sdiv [OF n m(2) assms(5)])
qed

lemma result_fits:
  assumes "press_ok cal" and "\<bar>p\<bar> \<le> p_max cal"
  shows "\<bar>p\<bar> < 2 ^ 63" "\<bar>sint (dig_P9 cal) * (p div 2 ^ 13)\<bar> < 2 ^ 63" "\<bar>sint (dig_P9 cal) * (p div 2 ^ 13) * (p div 2 ^ 13)\<bar> < 2 ^ 63"
    "\<bar>sint (dig_P8 cal) * p\<bar> < 2 ^ 63" "\<bar>p + sint (dig_P9 cal) * (p div 2 ^ 13) * (p div 2 ^ 13) div 2 ^ 25\<bar> < 2 ^ 63"
    "\<bar>p + sint (dig_P9 cal) * (p div 2 ^ 13) * (p div 2 ^ 13) div 2 ^ 25 + sint (dig_P8 cal) * p div 2 ^ 19\<bar> < 2 ^ 63"
    "\<bar>sint (dig_P7 cal) * 2 ^ 4\<bar> < 2 ^ 63"
    "\<bar>(p + sint (dig_P9 cal) * (p div 2 ^ 13) * (p div 2 ^ 13) div 2 ^ 25 + sint (dig_P8 cal) * p div 2 ^ 19) div 2 ^ 8
      + sint (dig_P7 cal) * 2 ^ 4\<bar> < 2 ^ 63"
proof -
  let ?r = "p div 2 ^ 13" and ?P9 = "sint (dig_P9 cal)" and ?g = "sint (dig_P8 cal) * p" and ?i = "sint (dig_P7 cal) * 2 ^ 4"
  let ?f = "?P9 * ?r * ?r" and ?B = "p_max cal + (f_max cal div 2 ^ 25 + 1) + (g_max cal div 2 ^ 19 + 1)"
  have r: "\<bar>?r\<bar> \<le> s_max cal" unfolding s_max_def by (rule abs_div [OF assms(2)]) simp
  have f0: "\<bar>?P9 * ?r\<bar> \<le> \<bar>?P9\<bar> * s_max cal" by (rule abs_mul [OF _ r]) simp
  have f: "\<bar>?f\<bar> \<le> f_max cal" unfolding f_max_def by (rule abs_mul [OF f0 r])
  have g: "\<bar>?g\<bar> \<le> g_max cal" unfolding g_max_def by (rule abs_mul [OF _ assms(2)]) simp
  have fd: "\<bar>?f div 2 ^ 25\<bar> \<le> f_max cal div 2 ^ 25 + 1" by (rule abs_div [OF f]) simp
  have gd: "\<bar>?g div 2 ^ 19\<bar> \<le> g_max cal div 2 ^ 19 + 1" by (rule abs_div [OF g]) simp
  have m: "\<bar>?P9\<bar> * s_max cal < 2 ^ 63" "f_max cal < 2 ^ 63" "g_max cal < 2 ^ 63" "?B < 2 ^ 62"
    using assms(1) by (simp_all add: press_ok_def)
  have "\<bar>sint (dig_P7 cal)\<bar> \<le> 2 ^ 15"
    using sint_ge [of "dig_P7 cal"] sint_lt [of "dig_P7 cal"] by simp
  then have "\<bar>?i\<bar> \<le> 2 ^ 15 * 2 ^ 4" by (rule abs_mul) simp
  then have i: "\<bar>?i\<bar> < 2 ^ 20" by simp
  have h: "\<bar>p + ?f div 2 ^ 25 + ?g div 2 ^ 19\<bar> \<le> ?B" using assms(2) fd gd by linarith
  have "\<bar>(p + ?f div 2 ^ 25 + ?g div 2 ^ 19) div 2 ^ 8\<bar> \<le> ?B div 2 ^ 8 + 1" by (rule abs_div [OF h]) simp
  moreover have "0 \<le> ?B" using h by linarith
  then have "?B div 2 ^ 8 \<le> ?B" using zdiv_mono2 [of ?B 1 "2 ^ 8"] by simp
  ultimately have hd: "\<bar>(p + ?f div 2 ^ 25 + ?g div 2 ^ 19) div 2 ^ 8\<bar> \<le> ?B + 1" by linarith
  have B: "?B + 1 + 2 ^ 20 < 2 ^ 63" "?B < 2 ^ 63" using m(4) by simp_all
  have gd0: "0 \<le> f_max cal div 2 ^ 25 + 1" "0 \<le> g_max cal div 2 ^ 19 + 1" using fd gd by linarith+
  show "\<bar>?P9 * ?r\<bar> < 2 ^ 63" "\<bar>?f\<bar> < 2 ^ 63" "\<bar>?g\<bar> < 2 ^ 63"
    by (rule order_le_less_trans, fact f0 f g, fact m)+
  show "\<bar>p\<bar> < 2 ^ 63" by (rule order_le_less_trans [OF _ B(2)]) (use assms(2) gd0 in linarith)
  show "\<bar>p + ?f div 2 ^ 25\<bar> < 2 ^ 63" by (rule order_le_less_trans [OF _ B(2)]) (use assms(2) fd gd0 in linarith)
  show "\<bar>p + ?f div 2 ^ 25 + ?g div 2 ^ 19\<bar> < 2 ^ 63" by (rule order_le_less_trans [OF h B(2)])
  show "\<bar>?i\<bar> < 2 ^ 63" using i by simp
  show "\<bar>(p + ?f div 2 ^ 25 + ?g div 2 ^ 19) div 2 ^ 8 + ?i\<bar> < 2 ^ 63"
    by (rule order_le_less_trans [OF _ B(1)]) (use hd i in linarith)
qed

lemma pressure_fits:
  assumes "press_ok cal" and "\<bar>t\<bar> \<le> t_max cal" and "0 \<le> adc_p" and "adc_p < 2 ^ 20"
  shows "pressure_checked cal t adc_p \<noteq> None"
proof -
  have v: "\<bar>t - 128000\<bar> \<le> v_max cal" using assms(2) by (simp add: v_max_def)
  have "v_max cal * v_max cal < 2 ^ 63" using assms(1) by (simp add: press_ok_def)
  moreover have "\<bar>(t - 128000) * (t - 128000)\<bar> \<le> v_max cal * v_max cal" by (rule abs_mul [OF v v])
  ultimately have vv: "\<bar>(t - 128000) * (t - 128000)\<bar> < 2 ^ 63" by linarith
  have "\<bar>x\<bar> \<le> \<bar>x * x\<bar>" for x :: int
    using mult_right_mono [of 1 "\<bar>x\<bar>" "\<bar>x\<bar>"] by (cases "x = 0") (simp_all add: abs_mult)
  then have v0: "\<bar>t - 128000\<bar> < 2 ^ 63" using vv by (meson order_le_less_trans)
  note V = var2_fits [OF assms(1) v] and W = w_fits [OF assms(1) v]
  note Y = var1_fits [OF assms(1) W(4)]
  have m: "w_max cal < 2 ^ 47" "var2_max cal < 2 ^ 63" using assms(1) by (simp_all add: press_ok_def)
  have big: "(2 :: int) ^ 47 < 2 ^ 63" by simp
  have w: "\<bar>(t - 128000) * (t - 128000) * sint (dig_P3 cal) div 2 ^ 8 + (t - 128000) * sint (dig_P2 cal) * 2 ^ 12\<bar> < 2 ^ 63"
    "\<bar>(t - 128000) * (t - 128000) * sint (dig_P6 cal) + (t - 128000) * sint (dig_P5 cal) * 2 ^ 17 + sint (dig_P4 cal) * 2 ^ 35\<bar> < 2 ^ 63"
    using W(4) V(6) m big by linarith+
  note Q = quotient_fits [OF assms(1,3,4) V(6) Y(3)]
  note R = result_fits [OF assms(1) Q(4)]
  show ?thesis
    unfolding pressure_checked_def Let_def
    by (simp only: c_fits v0 vv V(1-5) W(1-3) w Y(1,2) Q(1-3) R Option.bind.simps) simp
qed

lemma adc20_range: "0 \<le> adc20 x y z" "adc20 x y z < 2 ^ 20"
proof -
  let ?w = "push_bit 12 (ucast x :: u32) OR push_bit 4 (ucast y) OR drop_bit 4 (ucast z)"
  have "take_bit 20 ?w = ?w"
  proof (rule bit_word_eqI)
    fix n
    have "\<not> bit x (n - 12) \<and> \<not> bit y (n - 4) \<and> \<not> bit z (4 + n)" if "\<not> n < 20"
      using that bit_imp_le_length [of x "n - 12"] bit_imp_le_length [of y "n - 4"] bit_imp_le_length [of z "4 + n"] by auto
    then show "bit (take_bit 20 ?w) n \<longleftrightarrow> bit ?w n"
      by (cases "n < 20") (simp_all add: bit_take_bit_iff bit_or_iff bit_push_bit_iff bit_drop_bit_eq bit_ucast_iff)
  qed
  then have "uint ?w = uint (take_bit 20 ?w)" by (rule arg_cong [OF sym])
  also have "\<dots> = take_bit 20 (uint ?w)" by (rule unsigned_take_bit_eq)
  also have "\<dots> < 2 ^ 20" by (rule take_bit_int_less_exp)
  finally show "adc20 x y z < 2 ^ 20" unfolding adc20_def .
qed (simp add: adc20_def)

text \<open>
  C39: The compensation never overflows for a calibration within bounds, whatever six bytes the
  sensor sends, and its result is then that of the unbounded integers. The bounds are computed
  from the calibration alone; the datasheet's calibration satisfies them.
\<close>

theorem bmp280_no_overflow:
  assumes "temp_ok cal" and "press_ok cal"
  shows "compensate_checked cal b = Some (bmp280_compensate cal b)"
proof -
  have r: "0 \<le> adc20 x y z" "adc20 x y z < 2 ^ 20" for x y z by (rule adc20_range)+
  obtain t where t: "t_fine_checked cal (adc20 (b ! 3) (b ! 4) (b ! 5)) = Some t" "\<bar>t\<bar> \<le> t_max cal"
    using t_fine_fits [OF assms(1) r] by blast
  obtain c where "temperature_checked t = Some c" using temperature_fits [OF assms(1) t(2)] by blast
  moreover obtain p where "pressure_checked cal t (adc20 (b ! 0) (b ! 1) (b ! 2)) = Some p"
    using pressure_fits [OF assms(2) t(2) r] by blast
  ultimately have "compensate_checked cal b = Some \<lparr>temperature_x100 = c, pressure_pa_x256 = word_of_int p\<rparr>"
    using t(1) by (simp add: compensate_checked_def Let_def)
  then show ?thesis using compensate_exact by simp
qed

lemma bmp280_no_overflow_witness:
  "compensate_checked datasheet_calib datasheet_adc = Some (bmp280_compensate datasheet_calib datasheet_adc)"
proof (rule bmp280_no_overflow)
  show "temp_ok datasheet_calib" by code_simp
  show "press_ok datasheet_calib" by code_simp
qed

text \<open>
  Nothing checks the calibration that the sensor sends: with the datasheet's values and another
  \<open>dig_T2\<close> the warmest reading overflows a 32-bit product, with another \<open>dig_T1\<close> the square.
\<close>

lemma bmp280_calibration_unchecked:
  "t_fine_checked (datasheet_calib\<lparr>dig_T2 := 32767\<rparr>) 0xFFFFF = None"
  "t_fine_checked (datasheet_calib\<lparr>dig_T1 := 60000\<rparr>) 0 = None"
  by (simp_all add: t_fine_checked_def c32_def datasheet_calib_def Let_def)

end
