(* ===== verification/ResetK64f.thy ===== *)
theory ResetK64f
  imports Pit
begin

text \<open>
  \<open>legacy/startup_mk64f12.c\<close>: what the K64F runs from reset to \<open>main\<close>, and its vector table.
  Memory is a map of words by address. The section tables, whose addresses the linker chooses,
  are read from memory as the code reads them. The 16-bit writes to the watchdog are a trace.
  A loop that does not end is \<open>None\<close>.
\<close>

type_synonym mem = "u32 \<Rightarrow> u32"

subsection \<open>The sections\<close>

partial_function (option) data_init_loop :: "u32 \<Rightarrow> u32 \<Rightarrow> u32 \<Rightarrow> u32 \<Rightarrow> mem \<Rightarrow> mem option" where
  "data_init_loop pulSrc pulDest loop len m =
     (if loop < len then data_init_loop (pulSrc + 4) (pulDest + 4) (loop + 4) len (m(pulDest := m pulSrc))
      else Some m)"

definition data_init :: "u32 \<Rightarrow> u32 \<Rightarrow> u32 \<Rightarrow> mem \<Rightarrow> mem option" where
  "data_init romstart start len m = data_init_loop romstart start 0 len m"

partial_function (option) bss_init_loop :: "u32 \<Rightarrow> u32 \<Rightarrow> u32 \<Rightarrow> mem \<Rightarrow> mem option" where
  "bss_init_loop pulDest loop len m =
     (if loop < len then bss_init_loop (pulDest + 4) (loop + 4) len (m(pulDest := 0)) else Some m)"

definition bss_init :: "u32 \<Rightarrow> u32 \<Rightarrow> mem \<Rightarrow> mem option" where
  "bss_init start len m = bss_init_loop start 0 len m"

partial_function (option) data_sections :: "u32 \<Rightarrow> u32 \<Rightarrow> mem \<Rightarrow> (u32 \<times> mem) option" where
  "data_sections addr table_end m =
     (if addr < table_end then
        case data_init (m addr) (m (addr + 4)) (m (addr + 8)) m of
          None \<Rightarrow> None
        | Some m' \<Rightarrow> data_sections (addr + 12) table_end m'
      else Some (addr, m))"

partial_function (option) bss_sections :: "u32 \<Rightarrow> u32 \<Rightarrow> mem \<Rightarrow> (u32 \<times> mem) option" where
  "bss_sections addr table_end m =
     (if addr < table_end then
        case bss_init (m addr) (m (addr + 4)) m of
          None \<Rightarrow> None
        | Some m' \<Rightarrow> bss_sections (addr + 8) table_end m'
      else Some (addr, m))"

record reset_state =
  memory :: mem
  wdog_writes :: "(u32 \<times> u16) list"
  irq_off :: bool

definition CPACR :: u32 where "CPACR = 0xE000ED88"
definition SCB_VTOR :: u32 where "SCB_VTOR = 0xE000ED08"

text \<open>The state in which \<open>main\<close> is called; the image is built with hardware floating point.\<close>

definition ResetISR :: "u32 \<Rightarrow> u32 \<Rightarrow> u32 \<Rightarrow> u32 \<Rightarrow> reset_state \<Rightarrow> reset_state option" where
  "ResetISR vectors data_table data_table_end bss_table_end s =
     (let s = s\<lparr>irq_off := True\<rparr>;
          s = s\<lparr>wdog_writes := wdog_writes s @ [(0x4005200E, 0xC520), (0x4005200E, 0xD928), (0x40052000, 0x01D2)]\<rparr>
      in case data_sections data_table data_table_end (memory s) of
           None \<Rightarrow> None
         | Some (addr, m) \<Rightarrow>
             (case bss_sections addr bss_table_end m of
                None \<Rightarrow> None
              | Some (_, m) \<Rightarrow>
                  (let m = m(CPACR := m CPACR OR push_bit 20 0xF);
                       m = (if vectors \<noteq> 0 then m(SCB_VTOR := vectors) else m)
                   in Some (s\<lparr>memory := m, irq_off := False\<rparr>))))"

subsection \<open>One section\<close>

definition nwords :: "u32 \<Rightarrow> nat" where "nwords len = (unat len + 3) div 4"

definition cell :: "u32 \<Rightarrow> nat \<Rightarrow> u32" where "cell a i = a + 4 * of_nat i"

definition cells :: "u32 \<Rightarrow> nat \<Rightarrow> u32 set" where "cells a n = cell a ` {..<n}"

lemma cell_Suc: "cell (a + 4) i = cell a (Suc i)" by (simp add: cell_def algebra_simps)

lemma cells_0: "cells a 0 = {}" by (simp add: cells_def)

lemma cells_Suc: "cells a (Suc n) = insert a (cells (a + 4) n)"
  by (simp add: cells_def lessThan_Suc_eq_insert_0 image_image cell_Suc) (simp add: cell_def)

lemma unat_cell_offset: "i < 2 ^ 30 \<Longrightarrow> unat (4 * of_nat i :: u32) = 4 * i"
proof -
  assume "i < 2 ^ 30"
  then have "unat (of_nat (4 * i) :: u32) = 4 * i" by (simp only: unat_of_nat) (simp add: take_bit_nat_eq_self)
  then show ?thesis by simp
qed

lemma cell_inj:
  assumes "i < 2 ^ 30" and "j < 2 ^ 30"
  shows "cell a i = cell a j \<longleftrightarrow> i = j"
proof -
  have "cell a i = cell a j \<longleftrightarrow> unat (4 * of_nat i :: u32) = unat (4 * of_nat j :: u32)"
    using word_unat_eq_iff [of "4 * of_nat i :: u32" "4 * of_nat j"] by (simp add: cell_def)
  then show ?thesis by (simp only: unat_cell_offset [OF assms(1)] unat_cell_offset [OF assms(2)]) simp
qed

lemma nwords_bounds: "unat len \<le> 4 * nwords len" "4 * nwords len < unat len + 4"
  by (simp_all add: nwords_def)

primrec copy_words :: "nat \<Rightarrow> u32 \<Rightarrow> u32 \<Rightarrow> mem \<Rightarrow> mem" where
  "copy_words 0 src dest m = m"
| "copy_words (Suc n) src dest m = copy_words n (src + 4) (dest + 4) (m(dest := m src))"

primrec zero_words :: "nat \<Rightarrow> u32 \<Rightarrow> mem \<Rightarrow> mem" where
  "zero_words 0 dest m = m"
| "zero_words (Suc n) dest m = zero_words n (dest + 4) (m(dest := 0))"

text \<open>One test of the loops' condition, \<open>k\<close> words done.\<close>

lemma loop_test:
  assumes "unat len \<le> 2 ^ 32 - 4" and "unat loop = 4 * k" and "k + n = nwords len"
  shows "loop < len \<longleftrightarrow> n \<noteq> 0" and "n \<noteq> 0 \<Longrightarrow> unat (loop + 4) = 4 * (k + 1)"
proof -
  have b: "n \<noteq> 0 \<longleftrightarrow> 4 * k < unat len"
    using assms(3) nwords_bounds [of len] by linarith
  show "loop < len \<longleftrightarrow> n \<noteq> 0" unfolding b word_less_nat_alt assms(2) ..
  assume "n \<noteq> 0"
  then have "unat loop + unat (4 :: u32) < 2 ^ LENGTH(32)" using b assms(1,2) by simp
  then have "unat (loop + 4) = unat loop + unat (4 :: u32)" by (rule unat_add_if_no_wrap)
  then show "unat (loop + 4) = 4 * (k + 1)" using assms(2) by simp
qed

lemma data_loop_copies:
  assumes "unat len \<le> 2 ^ 32 - 4" and "unat loop = 4 * k" and "k + n = nwords len"
  shows "data_init_loop src dest loop len m = Some (copy_words n src dest m)"
  using assms(2,3)
proof (induction n arbitrary: k loop src dest m)
  case 0
  then show ?case using loop_test(1) [OF assms(1) 0] by (simp add: data_init_loop.simps)
next
  case (Suc n)
  have "data_init_loop (src + 4) (dest + 4) (loop + 4) len (m(dest := m src))
      = Some (copy_words n (src + 4) (dest + 4) (m(dest := m src)))"
    using loop_test(2) [OF assms(1) Suc.prems] Suc.prems(2) by (intro Suc.IH [of _ "k + 1"]) simp_all
  then show ?case using loop_test(1) [OF assms(1) Suc.prems] by (subst data_init_loop.simps) simp
qed

lemma bss_loop_zeroes:
  assumes "unat len \<le> 2 ^ 32 - 4" and "unat loop = 4 * k" and "k + n = nwords len"
  shows "bss_init_loop dest loop len m = Some (zero_words n dest m)"
  using assms(2,3)
proof (induction n arbitrary: k loop dest m)
  case 0
  then show ?case using loop_test(1) [OF assms(1) 0] by (simp add: bss_init_loop.simps)
next
  case (Suc n)
  have "bss_init_loop (dest + 4) (loop + 4) len (m(dest := 0)) = Some (zero_words n (dest + 4) (m(dest := 0)))"
    using loop_test(2) [OF assms(1) Suc.prems] Suc.prems(2) by (intro Suc.IH [of _ "k + 1"]) simp_all
  then show ?case using loop_test(1) [OF assms(1) Suc.prems] by (subst bss_init_loop.simps) simp
qed

text \<open>A length above \<open>2 ^ 32 - 4\<close> makes the loop counter wrap around: the loop does not end.\<close>

lemma data_loop_wraps:
  assumes "2 ^ 32 - 4 < unat len"
  shows "data_init romstart start len m = None"
proof -
  have "data_init_loop src dest loop l m = Some r \<Longrightarrow> l = len \<longrightarrow> \<not> 4 dvd unat loop" for src dest loop l m r
  proof (rule data_init_loop.raw_induct [where P = "\<lambda>src dest loop l m r. l = len \<longrightarrow> \<not> 4 dvd unat loop"])
    fix f :: "u32 \<Rightarrow> u32 \<Rightarrow> u32 \<Rightarrow> u32 \<Rightarrow> mem \<Rightarrow> mem option" and src dest loop l m r
    assume f: "\<And>src dest loop l m r. f src dest loop l m = Some r \<Longrightarrow> l = len \<longrightarrow> \<not> 4 dvd unat loop"
      and s: "(if loop < l then f (src + 4) (dest + 4) (loop + 4) l (m(dest := m src)) else Some m) = Some r"
    show "l = len \<longrightarrow> \<not> 4 dvd unat loop"
    proof (intro impI notI)
      assume l: "l = len" and d: "4 dvd unat loop"
      then obtain k where "unat loop = 4 * k" by blast
      then have "unat loop \<le> 2 ^ 32 - 4" using unat32_less [of loop] by simp
      then have "loop < len" using assms by (simp add: word_less_nat_alt)
      then have "\<not> 4 dvd unat (loop + 4)" using f s l by auto
      then show False using d by (simp add: unat_word_ariths(1) dvd_mod_iff)
    qed
  qed simp
  then show ?thesis unfolding data_init_def by (metis dvd_0_right not_Some_eq unat_0)
qed

lemma copy_words_at:
  assumes "n \<le> 2 ^ 30" and "cells src n \<inter> cells dest n = {}"
  shows "(\<forall>i < n. copy_words n src dest m (cell dest i) = m (cell src i))
    \<and> (\<forall>a. a \<notin> cells dest n \<longrightarrow> copy_words n src dest m a = m a)"
  using assms
proof (induction n arbitrary: src dest m)
  case (Suc n)
  have c0: "cell a 0 = a" for a by (simp add: cell_def)
  have d: "dest \<notin> cells (dest + 4) n"
  proof
    assume "dest \<in> cells (dest + 4) n"
    then obtain i where "i < n" "cell dest 0 = cell dest (Suc i)" by (auto simp: cells_def cell_Suc c0)
    then show False using cell_inj [of 0 "Suc i" dest] Suc.prems(1) by simp
  qed
  have disj: "cells (src + 4) n \<inter> cells (dest + 4) n = {}" "dest \<notin> cells (src + 4) n"
    using Suc.prems(2) by (auto simp: cells_Suc)
  define m1 where "m1 = m(dest := m src)"
  have m1: "m1 dest = m src" "a \<noteq> dest \<Longrightarrow> m1 a = m a" for a by (simp_all add: m1_def)
  have IH: "\<forall>i < n. copy_words n (src + 4) (dest + 4) m1 (cell (dest + 4) i) = m1 (cell (src + 4) i)"
    "\<forall>a. a \<notin> cells (dest + 4) n \<longrightarrow> copy_words n (src + 4) (dest + 4) m1 a = m1 a"
    using Suc.IH [OF _ disj(1), of m1] Suc.prems(1) by simp_all
  have "copy_words n (src + 4) (dest + 4) m1 (cell dest i) = m (cell src i)" if "i < Suc n" for i
  proof (cases i)
    case 0
    then show ?thesis using IH(2) d m1(1) by (simp add: c0)
  next
    case (Suc j)
    then have "cell (src + 4) j \<noteq> dest" using disj(2) that by (auto simp: cells_def)
    then show ?thesis using IH(1) Suc that m1(2) by (simp add: cell_Suc)
  qed
  then show ?case using IH(2) m1(2) by (simp add: cells_Suc m1_def [symmetric])
qed simp_all

lemma zero_words_at:
  assumes "n \<le> 2 ^ 30"
  shows "zero_words n dest m a = (if a \<in> cells dest n then 0 else m a)"
  using assms
proof (induction n arbitrary: dest m)
  case 0
  then show ?case by (simp add: cells_def)
next
  case (Suc n)
  then show ?case by (auto simp: cells_Suc)
qed

subsection \<open>All sections\<close>

text \<open>
  The section tables as the linker lays them out: load address, address and length of each
  data section; address and length of each zeroed section.
\<close>

fun data_table_at :: "mem \<Rightarrow> u32 \<Rightarrow> (u32 \<times> u32 \<times> u32) list \<Rightarrow> bool" where
  "data_table_at m t [] \<longleftrightarrow> True"
| "data_table_at m t ((ld, ex, n) # ds) \<longleftrightarrow> m t = ld \<and> m (t + 4) = ex \<and> m (t + 8) = n \<and> data_table_at m (t + 12) ds"

fun bss_table_at :: "mem \<Rightarrow> u32 \<Rightarrow> (u32 \<times> u32) list \<Rightarrow> bool" where
  "bss_table_at m t [] \<longleftrightarrow> True"
| "bss_table_at m t ((ex, n) # bs) \<longleftrightarrow> m t = ex \<and> m (t + 4) = n \<and> bss_table_at m (t + 8) bs"

fun data_dest :: "u32 \<times> u32 \<times> u32 \<Rightarrow> u32 set" where "data_dest (ld, ex, n) = cells ex (nwords n)"
fun data_src :: "u32 \<times> u32 \<times> u32 \<Rightarrow> u32 set" where "data_src (ld, ex, n) = cells ld (nwords n)"
fun bss_dest :: "u32 \<times> u32 \<Rightarrow> u32 set" where "bss_dest (ex, n) = cells ex (nwords n)"
fun data_len :: "u32 \<times> u32 \<times> u32 \<Rightarrow> nat" where "data_len (ld, ex, n) = unat n"

definition loaded :: "mem \<Rightarrow> mem \<Rightarrow> u32 \<times> u32 \<times> u32 \<Rightarrow> bool" where
  "loaded m m' d \<longleftrightarrow> (case d of (ld, ex, n) \<Rightarrow> \<forall>i < nwords n. m' (cell ex i) = m (cell ld i))"

lemma cell_in: "i < n \<Longrightarrow> cell t i \<in> cells t n" by (simp add: cells_def)

lemma cells_table:
  "cells (t + 12) n \<subseteq> cells t (3 + n)" "t \<in> cells t (3 + n)" "t + 4 \<in> cells t (3 + n)" "t + 8 \<in> cells t (3 + n)"
  "cells (t + 8) n \<subseteq> cells t (2 + n)" "t \<in> cells t (2 + n)" "t + 4 \<in> cells t (2 + n)"
proof -
  have c: "cell (t + 12) i = cell t (3 + i)" "cell (t + 8) i = cell t (2 + i)" for i
    by (simp_all add: cell_def algebra_simps)
  show "cells (t + 12) n \<subseteq> cells t (3 + n)" "cells (t + 8) n \<subseteq> cells t (2 + n)" by (auto simp: cells_def c)
  show "t \<in> cells t (3 + n)" "t + 4 \<in> cells t (3 + n)" "t + 8 \<in> cells t (3 + n)"
      "t \<in> cells t (2 + n)" "t + 4 \<in> cells t (2 + n)"
    using cell_in [of 0 "3 + n" t] cell_in [of 1 "3 + n" t] cell_in [of 2 "3 + n" t]
      cell_in [of 0 "2 + n" t] cell_in [of 1 "2 + n" t]
    by (simp_all add: cell_def)
qed

lemma data_table_frame:
  "(\<And>a. a \<in> cells t (3 * length ds) \<Longrightarrow> m a = m' a) \<Longrightarrow> data_table_at m t ds \<Longrightarrow> data_table_at m' t ds"
proof (induction m t ds rule: data_table_at.induct)
  case (2 m t ld ex n ds)
  have l: "3 * length ((ld, ex, n) # ds) = 3 + 3 * length ds" by simp
  have "m a = m' a" if "a \<in> cells t (3 + 3 * length ds)" for a using 2(2) that unfolding l by simp
  then show ?case using 2(1,3) cells_table(1-4) [of t "3 * length ds"] by (simp add: subset_iff)
qed simp

lemma bss_table_frame:
  "(\<And>a. a \<in> cells t (2 * length bs) \<Longrightarrow> m a = m' a) \<Longrightarrow> bss_table_at m t bs \<Longrightarrow> bss_table_at m' t bs"
proof (induction m t bs rule: bss_table_at.induct)
  case (2 m t ex n bs)
  have l: "2 * length ((ex, n) # bs) = 2 + 2 * length bs" by simp
  have "m a = m' a" if "a \<in> cells t (2 + 2 * length bs)" for a using 2(2) that unfolding l by simp
  then show ?case using 2(1,3) cells_table(5-7) [of t "2 * length bs"] by (simp add: subset_iff)
qed simp

lemma nwords_bound: "unat len \<le> 2 ^ 32 - 4 \<Longrightarrow> nwords len \<le> 2 ^ 30"
  by (simp add: nwords_def)

lemma data_init_loads:
  assumes "unat n \<le> 2 ^ 32 - 4" and "data_src (ld, ex, n) \<inter> data_dest (ld, ex, n) = {}"
  shows "\<exists>m'. data_init ld ex n m = Some m' \<and> loaded m m' (ld, ex, n)
    \<and> (\<forall>a. a \<notin> data_dest (ld, ex, n) \<longrightarrow> m' a = m a)"
proof -
  have "data_init ld ex n m = Some (copy_words (nwords n) ld ex m)"
    unfolding data_init_def by (rule data_loop_copies [OF assms(1), where k = 0]) simp_all
  then show ?thesis
    using copy_words_at [OF nwords_bound [OF assms(1)], of ld ex m] assms(2) by (simp add: loaded_def)
qed

lemma bss_init_zeroes:
  assumes "unat n \<le> 2 ^ 32 - 4"
  shows "\<exists>m'. bss_init ex n m = Some m' \<and> (\<forall>a. m' a = (if a \<in> bss_dest (ex, n) then 0 else m a))"
proof -
  have "bss_init ex n m = Some (zero_words (nwords n) ex m)"
    unfolding bss_init_def by (rule bss_loop_zeroes [OF assms(1), where k = 0]) simp_all
  then show ?thesis using zero_words_at [OF nwords_bound [OF assms(1)], of ex m] by simp
qed

lemma loaded_cong:
  assumes "loaded m1 m' d" and "\<And>a. a \<in> data_src d \<Longrightarrow> m1 a = m a" and "\<And>a. a \<in> data_dest d \<Longrightarrow> m2 a = m' a"
  shows "loaded m m2 d"
  using assms by (cases d) (simp add: loaded_def cells_def)

text \<open>The end of a table that does not wrap around.\<close>

lemma table_step:
  fixes t e :: u32
  assumes "unat t + k * length (x # xs) < 2 ^ 32" and "e = t + of_nat (k * length (x # xs))" and "0 < k"
  shows "t < e" and "e = t + of_nat k + of_nat (k * length xs)" and "unat (t + of_nat k) + k * length xs < 2 ^ 32"
proof -
  have k: "k + k * length xs < 2 ^ 32" "unat (of_nat k :: u32) = k" "unat (of_nat (k * length (x # xs)) :: u32) = k * length (x # xs)"
    using assms(1) by (simp_all only: unat_of_nat) (simp_all add: take_bit_nat_eq_self)
  have "unat e = unat t + k * length (x # xs)"
    unfolding assms(2) using assms(1) k(3) by (subst unat_add_if_no_wrap) simp_all
  then show "t < e" using assms(3) by (simp add: word_less_nat_alt)
  show "e = t + of_nat k + of_nat (k * length xs)" unfolding assms(2) by (simp add: algebra_simps)
  have "unat (t + of_nat k) = unat t + k" using assms(1) k(2) by (subst unat_add_if_no_wrap) simp_all
  then show "unat (t + of_nat k) + k * length xs < 2 ^ 32" using assms(1) by simp
qed

lemma data_sections_load:
  assumes "data_table_at m t ds" and "unat t + 12 * length ds < 2 ^ 32" and "e = t + of_nat (12 * length ds)"
    and "\<forall>d \<in> set ds. data_len d \<le> 2 ^ 32 - 4"
    and "\<forall>d \<in> set ds. data_dest d \<inter> F = {} \<and> data_src d \<subseteq> F" and "cells t (3 * length ds) \<subseteq> F"
    and "sorted_wrt (\<lambda>c d. data_dest c \<inter> data_dest d = {}) ds"
  shows "\<exists>m'. data_sections t e m = Some (e, m') \<and> (\<forall>d \<in> set ds. loaded m m' d)
    \<and> (\<forall>a. a \<notin> \<Union> (data_dest ` set ds) \<longrightarrow> m' a = m a)"
  using assms
proof (induction ds arbitrary: t m)
  case Nil
  then show ?case by (simp add: data_sections.simps)
next
  case (Cons d ds)
  obtain ld ex n where d: "d = (ld, ex, n)" by (cases d)
  have tab: "m t = ld" "m (t + 4) = ex" "m (t + 8) = n" "data_table_at m (t + 12) ds" using Cons.prems(1) d by simp_all
  have st: "t < e" "e = t + 12 + of_nat (12 * length ds)" "unat (t + 12) + 12 * length ds < 2 ^ 32"
    using table_step [OF Cons.prems(2,3)] by simp_all
  have "data_src d \<inter> data_dest d = {}" using Cons.prems(5) by auto
  then obtain m1 where m1: "data_init ld ex n m = Some m1" "loaded m m1 d" "\<And>a. a \<notin> data_dest d \<Longrightarrow> m1 a = m a"
    using data_init_loads [of n ld ex m] Cons.prems(4) d by auto
  have F: "a \<in> F \<Longrightarrow> m1 a = m a" for a using m1(3) Cons.prems(5) by auto
  have c: "cells (t + 12) (3 * length ds) \<subseteq> F"
    using Cons.prems(6) cells_table(1) [of t "3 * length ds"] by auto
  have "data_table_at m1 (t + 12) ds"
    by (rule data_table_frame [OF _ tab(4)]) (use F c in auto)
  then obtain m' where m': "data_sections (t + 12) e m1 = Some (e, m')" "\<forall>d \<in> set ds. loaded m1 m' d"
      "\<forall>a. a \<notin> \<Union> (data_dest ` set ds) \<longrightarrow> m' a = m1 a"
    using Cons.IH [of m1 "t + 12"] st(2,3) Cons.prems(4,5,7) c by auto
  have "data_sections t e m = Some (e, m')"
    using st(1) tab(1-3) m1(1) m'(1) by (subst data_sections.simps) simp
  moreover have "loaded m m' d"
    by (rule loaded_cong [OF m1(2)]) (use m'(3) Cons.prems(7) in auto)
  moreover have "loaded m m' c" if "c \<in> set ds" for c
  proof (rule loaded_cong [of m1 m'])
    have "data_src c \<subseteq> F" using that Cons.prems(5) by simp
    then show "\<And>a. a \<in> data_src c \<Longrightarrow> m1 a = m a" using F by blast
  qed (use m'(2) that in auto)
  ultimately show ?case using m'(3) m1(3) by auto
qed

lemma bss_sections_zero:
  assumes "bss_table_at m t bs" and "unat t + 8 * length bs < 2 ^ 32" and "e = t + of_nat (8 * length bs)"
    and "\<forall>b \<in> set bs. unat (snd b) \<le> 2 ^ 32 - 4 \<and> bss_dest b \<inter> F = {}" and "cells t (2 * length bs) \<subseteq> F"
  shows "\<exists>m'. bss_sections t e m = Some (e, m') \<and> (\<forall>a. m' a = (if a \<in> \<Union> (bss_dest ` set bs) then 0 else m a))"
  using assms
proof (induction bs arbitrary: t m)
  case Nil
  then show ?case by (simp add: bss_sections.simps)
next
  case (Cons b bs)
  obtain ex n where b: "b = (ex, n)" by (cases b)
  have tab: "m t = ex" "m (t + 4) = n" "bss_table_at m (t + 8) bs" using Cons.prems(1) b by simp_all
  have st: "t < e" "e = t + 8 + of_nat (8 * length bs)" "unat (t + 8) + 8 * length bs < 2 ^ 32"
    using table_step [OF Cons.prems(2,3)] by simp_all
  obtain m1 where m1: "bss_init ex n m = Some m1" "\<And>a. m1 a = (if a \<in> bss_dest b then 0 else m a)"
    using bss_init_zeroes [of n ex m] Cons.prems(4) b by auto
  have c: "cells (t + 8) (2 * length bs) \<subseteq> F" using Cons.prems(5) cells_table(5) [of t "2 * length bs"] by auto
  have "bss_table_at m1 (t + 8) bs"
    by (rule bss_table_frame [OF _ tab(3)]) (use m1(2) c Cons.prems(4) in auto)
  then obtain m' where m': "bss_sections (t + 8) e m1 = Some (e, m')"
      "\<forall>a. m' a = (if a \<in> \<Union> (bss_dest ` set bs) then 0 else m1 a)"
    using Cons.IH [of m1 "t + 8"] st(2,3) Cons.prems(4) c by auto
  have "bss_sections t e m = Some (e, m')"
    using st(1) tab(1,2) m1(1) m'(1) by (subst bss_sections.simps) simp
  then show ?case using m'(2) m1(2) by auto
qed

subsection \<open>From reset to main\<close>

text \<open>
  From reset to main. Let the section tables list data sections and zeroed sections of any
  number, of at most 2^32 - 4 bytes each, that do not overlap one another, the tables, the load
  images or the two system registers that are written. Then ResetISR reaches main; there every
  data section holds its load image, every zeroed section is zero, no other word of memory has
  changed but the floating-point enable and the vector table register, the watchdog has been
  unlocked before it was disabled, and interrupts are on.
\<close>

theorem reset_loads_image:
  assumes "data_table_at (memory s) t ds" and "bss_table_at (memory s) tb bs"
    and "tb = t + of_nat (12 * length ds)" and "te = tb + of_nat (8 * length bs)"
    and "unat t + 12 * length ds < 2 ^ 32" and "unat tb + 8 * length bs < 2 ^ 32"
    and "\<forall>d \<in> set ds. data_len d \<le> 2 ^ 32 - 4" and "\<forall>b \<in> set bs. unat (snd b) \<le> 2 ^ 32 - 4"
    and "F = cells t (3 * length ds) \<union> cells tb (2 * length bs) \<union> \<Union> (data_src ` set ds) \<union> {CPACR, SCB_VTOR}"
    and "\<forall>D \<in> data_dest ` set ds \<union> bss_dest ` set bs. D \<inter> F = {}"
    and "sorted_wrt (\<lambda>c d. data_dest c \<inter> data_dest d = {}) ds"
    and "\<forall>d \<in> set ds. \<forall>b \<in> set bs. data_dest d \<inter> bss_dest b = {}"
  shows "\<exists>s'. ResetISR vectors t tb te s = Some s' \<and> (\<forall>d \<in> set ds. loaded (memory s) (memory s') d)
    \<and> (\<forall>b \<in> set bs. \<forall>a \<in> bss_dest b. memory s' a = 0)
    \<and> (\<forall>a. a \<notin> \<Union> (data_dest ` set ds) \<union> \<Union> (bss_dest ` set bs) \<union> {CPACR, SCB_VTOR} \<longrightarrow> memory s' a = memory s a)
    \<and> memory s' CPACR = memory s CPACR OR 0x00F00000
    \<and> memory s' SCB_VTOR = (if vectors = 0 then memory s SCB_VTOR else vectors)
    \<and> wdog_writes s' = wdog_writes s @ [(0x4005200E, 0xC520), (0x4005200E, 0xD928), (0x40052000, 0x01D2)] \<and> \<not> irq_off s'"
proof -
  have F: "cells t (3 * length ds) \<subseteq> F" "cells tb (2 * length bs) \<subseteq> F" "CPACR \<in> F" "SCB_VTOR \<in> F"
    "\<forall>d \<in> set ds. data_dest d \<inter> F = {} \<and> data_src d \<subseteq> F" "\<forall>b \<in> set bs. bss_dest b \<inter> F = {}"
    using assms(9,10) by auto
  obtain m1 where m1: "data_sections t tb (memory s) = Some (tb, m1)" "\<forall>d \<in> set ds. loaded (memory s) m1 d"
      "\<forall>a. a \<notin> \<Union> (data_dest ` set ds) \<longrightarrow> m1 a = memory s a"
    using data_sections_load [OF assms(1,5,3,7) F(5,1) assms(11)] by blast
  have keep: "m1 a = memory s a" if "a \<in> F" for a using m1(3) F(5) that by blast
  have "bss_table_at m1 tb bs"
    by (rule bss_table_frame [OF _ assms(2)]) (use keep F(2) in auto)
  then obtain m2 where m2: "bss_sections tb te m1 = Some (te, m2)"
      "\<forall>a. m2 a = (if a \<in> \<Union> (bss_dest ` set bs) then 0 else m1 a)"
    using bss_sections_zero [of m1 tb bs te F] assms(4,6,8) F(2,6) by auto
  define m3 where "m3 = m2(CPACR := m2 CPACR OR push_bit 20 0xF)"
  define m4 where "m4 = (if vectors \<noteq> 0 then m3(SCB_VTOR := vectors) else m3)"
  have ne: "CPACR \<noteq> SCB_VTOR" by (simp add: CPACR_def SCB_VTOR_def)
  have m4: "m4 a = m2 a" if "a \<notin> {CPACR, SCB_VTOR}" for a using that by (simp add: m4_def m3_def)
  have in_F: "a \<in> F \<Longrightarrow> m2 a = memory s a" for a using m2(2) keep F(6) by auto
  have regs: "m4 CPACR = memory s CPACR OR 0x00F00000"
    "m4 SCB_VTOR = (if vectors = 0 then memory s SCB_VTOR else vectors)"
    using ne in_F [OF F(3)] in_F [OF F(4)] by (simp_all add: m4_def m3_def push_bit_eq_mult)
  have off: "m4 a = m1 a" if "a \<in> data_dest d" "d \<in> set ds" for a d
  proof -
    have "a \<notin> {CPACR, SCB_VTOR}" "a \<notin> \<Union> (bss_dest ` set bs)" using that F(3-5) assms(12) by blast+
    then show ?thesis using m2(2) m4 by simp
  qed
  have "loaded (memory s) m4 d" if "d \<in> set ds" for d
    by (rule loaded_cong [of "memory s" m1]) (use m1(2) off that in auto)
  moreover have "m4 a = 0" if "b \<in> set bs" "a \<in> bss_dest b" for a b
  proof -
    have "a \<notin> {CPACR, SCB_VTOR}" using that F(3,4,6) by blast
    then show ?thesis using that m2(2) m4 by auto
  qed
  moreover have "m4 a = memory s a"
    if "a \<notin> \<Union> (data_dest ` set ds) \<union> \<Union> (bss_dest ` set bs) \<union> {CPACR, SCB_VTOR}" for a
    using that m4 [of a] m2(2) m1(3) by auto
  moreover have "ResetISR vectors t tb te s = Some (s\<lparr>irq_off := False, wdog_writes := wdog_writes s
      @ [(0x4005200E, 0xC520), (0x4005200E, 0xD928), (0x40052000, 0x01D2)], memory := m4\<rparr>)"
    using m1(1) m2(1) by (simp add: ResetISR_def Let_def m4_def m3_def)
  ultimately show ?thesis using regs by auto
qed

text \<open>Two words of data, loaded from address 0x1000, and one zeroed word.\<close>

definition demo_flash :: reset_state where
  "demo_flash = \<lparr>memory = (\<lambda>a. 0xFF)(0x800 := 0x1000, 0x804 := 0x20000000, 0x808 := 8,
     0x80C := 0x20000100, 0x810 := 4, 0x1000 := 11, 0x1004 := 22), wdog_writes = [], irq_off = False\<rparr>"

lemma reset_loads_image_witness:
  "\<exists>s'. ResetISR 0 0x800 0x80C 0x814 demo_flash = Some s' \<and> memory s' 0x20000000 = 11 \<and> memory s' 0x20000004 = 22
    \<and> memory s' 0x20000100 = 0 \<and> memory s' 0x20000104 = 0xFF"
proof -
  let ?ds = "[(0x1000, 0x20000000, 8)]" and ?bs = "[(0x20000100, 4)]"
  have c: "nwords 8 = 2" "nwords 4 = 1" "cells a 1 = {a}" "cells a (Suc 0) = {a}" "cells a 2 = {a, a + 4}" "cells a 3 = {a, a + 4, a + 8}" for a
    by (simp_all add: nwords_def) (simp_all only: One_nat_def numeral_2_eq_2 numeral_3_eq_3 cells_Suc cells_0, simp_all add: add.assoc)
  have t: "data_table_at (memory demo_flash) 0x800 ?ds" "bss_table_at (memory demo_flash) 0x80C ?bs"
    by (simp_all add: demo_flash_def)
  have "\<exists>s'. ResetISR 0 0x800 0x80C 0x814 demo_flash = Some s' \<and> (\<forall>d \<in> set ?ds. loaded (memory demo_flash) (memory s') d)
    \<and> (\<forall>b \<in> set ?bs. \<forall>a \<in> bss_dest b. memory s' a = 0)
    \<and> (\<forall>a. a \<notin> \<Union> (data_dest ` set ?ds) \<union> \<Union> (bss_dest ` set ?bs) \<union> {CPACR, SCB_VTOR} \<longrightarrow> memory s' a = memory demo_flash a)
    \<and> memory s' CPACR = memory demo_flash CPACR OR 0x00F00000
    \<and> memory s' SCB_VTOR = (if (0 :: u32) = 0 then memory demo_flash SCB_VTOR else 0)
    \<and> wdog_writes s' = wdog_writes demo_flash @ [(0x4005200E, 0xC520), (0x4005200E, 0xD928), (0x40052000, 0x01D2)]
    \<and> \<not> irq_off s'"
    by (rule reset_loads_image [OF t _ _ _ _ _ _ refl]) (simp_all add: c CPACR_def SCB_VTOR_def)
  then obtain s' where s': "ResetISR 0 0x800 0x80C 0x814 demo_flash = Some s'"
    "loaded (memory demo_flash) (memory s') (0x1000, 0x20000000, 8)" "memory s' 0x20000100 = 0"
    "memory s' 0x20000104 = memory demo_flash 0x20000104"
    by (auto simp: c CPACR_def SCB_VTOR_def)
  moreover have "\<forall>i < 2. memory s' (cell 0x20000000 i) = memory demo_flash (cell 0x1000 i)"
    using s'(2) c(1) by (simp add: loaded_def)
  then have "memory s' (cell 0x20000000 0) = memory demo_flash (cell 0x1000 0)"
    "memory s' (cell 0x20000000 1) = memory demo_flash (cell 0x1000 1)" by simp_all
  then have "memory s' 0x20000000 = 11 \<and> memory s' 0x20000004 = 22"
    by (simp add: cell_def demo_flash_def)
  ultimately show ?thesis by (auto simp: demo_flash_def)
qed

subsection \<open>The vector table\<close>

text \<open>
  Handlers by their linker symbols. The handlers of the chip come in pairs: the weak
  \<open>X_IRQHandler\<close> of the table calls \<open>X_DriverIRQHandler\<close>, a weak alias of the endless
  \<open>IntDefaultHandler\<close>; the six CAN0 handlers share one driver handler.
\<close>

definition chip_irqs :: "string list" where
  "chip_irqs =
    [''DMA0'', ''DMA1'', ''DMA2'', ''DMA3'', ''DMA4'', ''DMA5'', ''DMA6'', ''DMA7'', ''DMA8'', ''DMA9'', ''DMA10'',
     ''DMA11'', ''DMA12'', ''DMA13'', ''DMA14'', ''DMA15'', ''DMA_Error'', ''MCM'', ''FTFE'', ''Read_Collision'',
     ''LVD_LVW'', ''LLWU'', ''WDOG_EWM'', ''RNG'', ''I2C0'', ''I2C1'', ''SPI0'', ''SPI1'', ''I2S0_Tx'', ''I2S0_Rx'',
     ''UART0_LON'', ''UART0_RX_TX'', ''UART0_ERR'', ''UART1_RX_TX'', ''UART1_ERR'', ''UART2_RX_TX'', ''UART2_ERR'',
     ''UART3_RX_TX'', ''UART3_ERR'', ''ADC0'', ''CMP0'', ''CMP1'', ''FTM0'', ''FTM1'', ''FTM2'', ''CMT'', ''RTC'',
     ''RTC_Seconds'', ''PIT0'', ''PIT1'', ''PIT2'', ''PIT3'', ''PDB0'', ''USB0'', ''USBDCD'', ''Reserved71'', ''DAC0'',
     ''MCG'', ''LPTMR0'', ''PORTA'', ''PORTB'', ''PORTC'', ''PORTD'', ''PORTE'', ''SWI'', ''SPI2'', ''UART4_RX_TX'',
     ''UART4_ERR'', ''UART5_RX_TX'', ''UART5_ERR'', ''CMP2'', ''FTM3'', ''DAC1'', ''ADC1'', ''I2C2'',
     ''CAN0_ORed_Message_buffer'', ''CAN0_Bus_Off'', ''CAN0_Error'', ''CAN0_Tx_Warning'', ''CAN0_Rx_Warning'',
     ''CAN0_Wake_Up'', ''SDHC'', ''ENET_1588_Timer'', ''ENET_Transmit'', ''ENET_Receive'', ''ENET_Error'']"

definition g_pfnVectors :: "string option list" where
  "g_pfnVectors =
     map Some [''_vStackTop'', ''ResetISR'', ''NMI_Handler'', ''HardFault_Handler'', ''MemManage_Handler'',
       ''BusFault_Handler'', ''UsageFault_Handler'']
     @ [None, None, None, None, Some ''SVC_Handler'', Some ''DebugMon_Handler'', None, Some ''PendSV_Handler'',
        Some ''SysTick_Handler'']
     @ map (\<lambda>x. Some (x @ ''_IRQHandler'')) chip_irqs"

definition driver_handler :: "string \<Rightarrow> string" where
  "driver_handler x = (if take 4 x = ''CAN0'' then ''CAN0'' else x) @ ''_DriverIRQHandler''"

text \<open>
  What runs when exception \<open>n\<close> is taken, given the handlers the application defines; the
  core's own weak handlers loop for ever.
\<close>

datatype runs = App string | Halts | Undefined_Vector

definition exception_entry :: "string set \<Rightarrow> nat \<Rightarrow> runs" where
  "exception_entry defs n =
     (if n < 2 \<or> length g_pfnVectors \<le> n then Undefined_Vector
      else case g_pfnVectors ! n of
        None \<Rightarrow> Undefined_Vector
      | Some h \<Rightarrow>
          (if h \<in> defs then App h
           else if n < 16 then Halts
           else let d = driver_handler (chip_irqs ! (n - 16)) in if d \<in> defs then App d else Halts))"

definition k64f_symbols :: "string set" where
  "k64f_symbols = {''UART0_RX_TX_IRQHandler'', ''PIT0_IRQHandler'', ''SysTick_Handler'', ''PendSV_Handler'',
     ''HardFault_Handler'', ''MemManage_Handler'', ''BusFault_Handler'', ''UsageFault_Handler''}"

lemma vector_count: "length chip_irqs = 86" "length g_pfnVectors = 102"
  by (simp_all add: chip_irqs_def g_pfnVectors_def)

lemma chip_vector: "k < 86 \<Longrightarrow> g_pfnVectors ! (16 + k) = Some (chip_irqs ! k @ ''_IRQHandler'')"
  using vector_count(1) by (simp add: g_pfnVectors_def nth_append)

lemma k64f_reaches:
  "filter (\<lambda>n. exception_entry k64f_symbols n \<notin> {Halts, Undefined_Vector}) [0..<102] = [3, 4, 5, 6, 14, 15, 47, 64]"
  by code_simp

text \<open>
  The vector table has 102 entries. Interrupt \<open>k\<close> of the chip reaches the handler that the
  application defines for it, else the driver's, else the endless default. With the handlers
  of this repository's K64F code, exactly the faults, PendSV, SysTick, the UART (the interrupt
  31 that \<open>uart_init\<close> enables) and the PIT (the interrupt 48 that \<open>pit_init\<close> enables) reach
  code; every other exception stops the machine.
\<close>

theorem vectors_reach_handlers:
  "length g_pfnVectors = 102
   \<and> (\<forall>k < 86. exception_entry defs (16 + k) =
        (let x = chip_irqs ! k; h = x @ ''_IRQHandler''; d = driver_handler x
         in if h \<in> defs then App h else if d \<in> defs then App d else Halts))
   \<and> exception_entry k64f_symbols (16 + 31) = App ''UART0_RX_TX_IRQHandler''
   \<and> exception_entry k64f_symbols (16 + unat PIT0_IRQ_NUMBER) = App ''PIT0_IRQHandler''
   \<and> (\<forall>n < 102. exception_entry k64f_symbols n \<notin> {Halts, Undefined_Vector} \<longleftrightarrow> n \<in> {3, 4, 5, 6, 14, 15, 47, 64})"
proof -
  have e: "exception_entry ds (16 + k) =
        (let x = chip_irqs ! k; h = x @ ''_IRQHandler''; d = driver_handler x
         in if h \<in> ds then App h else if d \<in> ds then App d else Halts)" if "k < 86" for k ds
    using that by (simp add: exception_entry_def vector_count chip_vector Let_def)
  have n: "chip_irqs ! 31 = ''UART0_RX_TX''" "chip_irqs ! 48 = ''PIT0''" by (simp_all add: chip_irqs_def)
  have "exception_entry k64f_symbols (16 + 31) = App ''UART0_RX_TX_IRQHandler''"
    "exception_entry k64f_symbols (16 + 48) = App ''PIT0_IRQHandler''"
    by (simp_all only: e n Let_def) (simp_all add: e n k64f_symbols_def)
  moreover have "n \<in> set (filter (\<lambda>n. exception_entry k64f_symbols n \<notin> {Halts, Undefined_Vector}) [0..<102])
      \<longleftrightarrow> n \<in> {3, 4, 5, 6, 14, 15, 47, 64}" for n unfolding k64f_reaches by simp
  ultimately show ?thesis using e vector_count(2) by (auto simp: PIT0_IRQ_NUMBER_def)
qed

end
