(* ===== verification/Registers.thy ===== *)
theory Registers
  imports Can
begin

text \<open>
  The bit fields that \<open>boards/k64f/MK64F12REGS.h\<close> and \<open>mmio_deviation.h\<close> define over the
  register blocks of theory \<open>Mmio\<close>, and the map of the blocks. A field is its name, its mask as
  the header writes it, its lowest bit and its width (of which the header names those that the
  \<open>_SHIFT\<close> and \<open>_WIDTH\<close> macros give; a one-bit field has only a mask). A table lists the fields
  register by register.
\<close>

record bitfield =
  fname :: string
  fmask :: u32
  fshift :: nat
  fwidth :: nat

text \<open>The mask of a field given by shift and width, and a one-bit mask.\<close>

definition spanned :: "string \<Rightarrow> nat \<Rightarrow> nat \<Rightarrow> bitfield" where
  "spanned x sh w = \<lparr>fname = x, fmask = push_bit sh (push_bit w 1 - 1), fshift = sh, fwidth = w\<rparr>"

definition masked :: "string \<Rightarrow> u32 \<Rightarrow> nat \<Rightarrow> nat \<Rightarrow> bitfield" where
  "masked x m sh w = \<lparr>fname = x, fmask = m, fshift = sh, fwidth = w\<rparr>"

text \<open>The macros that put a value into a field, and their form with a cast to eight bits first.\<close>

definition field_put :: "bitfield \<Rightarrow> u32 \<Rightarrow> u32" where
  "field_put f x = push_bit (fshift f) x AND fmask f"

definition field_put8 :: "bitfield \<Rightarrow> u32 \<Rightarrow> u32" where
  "field_put8 f x = push_bit (fshift f) (ucast (ucast x :: u8)) AND fmask f"

definition clkdiv_put :: "nat \<Rightarrow> u32 \<Rightarrow> u32" where
  "clkdiv_put sh x = push_bit sh (x AND 0xF)"

type_synonym field_table = "(string \<times> bitfield list) list"

definition MCG_bits :: field_table where
  "MCG_bits =
    [(''C1'', [masked ''IREFSTEN'' 0x01 0 1, masked ''IRCLKEN'' 0x02 1 1, masked ''IREFS'' 0x04 2 1,
        spanned ''FRDIV'' 3 3, spanned ''CLKS'' 6 2]),
     (''C2'', [masked ''IRCS'' 0x01 0 1, masked ''LP'' 0x02 1 1, masked ''EREFS0'' 0x04 2 1,
        masked ''HGO0'' 0x08 3 1, spanned ''RANGE0'' 4 2, masked ''LOCRE0'' 0x80 7 1]),
     (''C5'', [spanned ''PRDIV0'' 0 5, masked ''PLLCLKEN0'' 0x40 6 1]),
     (''C6'', [spanned ''VDIV0'' 0 5, masked ''CME0'' 0x20 5 1, masked ''PLLS'' 0x40 6 1, masked ''LOLIE0'' 0x80 7 1]),
     (''S'', [masked ''IRCST'' 0x01 0 1, masked ''OSCINIT0'' 0x02 1 1, spanned ''CLKST'' 2 2,
        masked ''IREFST'' 0x10 4 1, masked ''PLLST'' 0x20 5 1, masked ''LOCK0'' 0x40 6 1, masked ''LOLS0'' 0x80 7 1])]"

definition SIM_bits :: field_table where
  "SIM_bits =
    [(''CLKDIV1'', [masked ''OUTDIV4'' (push_bit 16 0xF) 16 4, masked ''OUTDIV3'' (push_bit 20 0xF) 20 4,
        masked ''OUTDIV2'' (push_bit 24 0xF) 24 4, masked ''OUTDIV1'' (push_bit 28 0xF) 28 4]),
     (''SCGC2'', [masked ''ENET'' (push_bit 1 1) 1 1]),
     (''SCGC4'', [masked ''UART0'' (push_bit 10 1) 10 1]),
     (''SCGC5'', [masked ''PORTA'' (push_bit 9 1) 9 1, masked ''PORTB'' (push_bit 10 1) 10 1,
        masked ''PORTC'' (push_bit 11 1) 11 1, masked ''PORTD'' (push_bit 12 1) 12 1, masked ''PORTE'' (push_bit 13 1) 13 1]),
     (''SOPT2'', [spanned ''PLLFLLSEL'' 28 1, spanned ''UART0SRC'' 26 2])]"

definition ENET_bits :: field_table where
  "ENET_bits =
    [(''ECR'', [masked ''RESET'' (push_bit 0 1) 0 1, masked ''ENABLE'' (push_bit 1 1) 1 1]),
     (''RCTRL'', [masked ''MII_MODE'' (push_bit 1 1) 1 1])]"

definition UART_bits :: field_table where
  "UART_bits =
    [(''C2'', [masked ''TE'' 0x08 3 1, masked ''RE'' 0x04 2 1]),
     (''S1'', [masked ''TDRE'' 0x80 7 1, masked ''RDRF'' 0x20 5 1]),
     (''BDH'', [spanned ''SBR'' 0 5]),
     (''C4'', [spanned ''BRFA'' 0 5])]"

definition SYSTICK_bits :: field_table where
  "SYSTICK_bits =
    [(''CTRL'', [masked ''ENABLE'' (push_bit 0 1) 0 1, masked ''TICKINT'' (push_bit 1 1) 1 1,
        masked ''CLKSOURCE'' (push_bit 2 1) 2 1, masked ''COUNTFLAG'' (push_bit 16 1) 16 1]),
     (''LOAD'', [masked ''RELOAD'' 0x00FFFFFF 0 24])]"

definition PORT_bits :: field_table where
  "PORT_bits = [(''PCR'', [spanned ''MUX'' 8 3])]"

text \<open>The timer's bits, and the two further clock gates the headers define.\<close>

definition PIT_bits :: field_table where
  "PIT_bits =
    [(''MCR'', [masked ''MDIS'' (push_bit 1 1) 1 1, masked ''FRZ'' (push_bit 0 1) 0 1]),
     (''TCTRL'', [masked ''TEN'' (push_bit 0 1) 0 1, masked ''TIE'' (push_bit 1 1) 1 1]),
     (''TFLG'', [masked ''TIF'' (push_bit 0 1) 0 1])]"

definition SCGC6_bits :: field_table where
  "SCGC6_bits = [(''SCGC6'', [masked ''FLEXCAN0'' 0x10 4 1, masked ''PIT'' (push_bit 23 1) 23 1])]"

definition CAN_bits :: field_table where
  "CAN_bits =
    [(''MCR'', [masked ''MDIS'' 0x80000000 31 1, masked ''FRZ'' 0x40000000 30 1, masked ''HALT'' 0x10000000 28 1,
        masked ''FRZACK'' 0x01000000 24 1]),
     (''CTRL1'', [masked ''PROPSEG'' 0x7 0 3, masked ''LPB'' 0x1000 12 1, masked ''CLKSRC'' 0x2000 13 1,
        masked ''PSEG2'' 0x70000 16 3, masked ''PSEG1'' 0x380000 19 3, masked ''RJW'' 0xC00000 22 2,
        masked ''PRESDIV'' 0xFF000000 24 8]),
     (''CS'', [masked ''CODE'' 0xF000000 24 4, masked ''SRR'' 0x400000 22 1, masked ''IDE'' 0x200000 21 1,
        masked ''RTR'' 0x100000 20 1, masked ''DLC'' 0xF0000 16 4]),
     (''ID'', [masked ''STD'' 0x1FFC0000 18 11])]"

text \<open>The map: every block with its base address and layout.\<close>

definition k64f_blocks :: "(string \<times> nat \<times> layout) list" where
  "k64f_blocks =
    [(''SIM'', 0x40047000, SIM_Type), (''PORTA'', 0x40049000, PORT_Type), (''PORTB'', 0x4004A000, PORT_Type),
     (''PORTC'', 0x4004B000, PORT_Type), (''PORTD'', 0x4004C000, PORT_Type), (''PORTE'', 0x4004D000, PORT_Type),
     (''UART0'', 0x4006A000, UART_Type), (''UART1'', 0x4006B000, UART_Type), (''WDOG'', 0x40052000, WDOG_Type),
     (''GPIOA'', 0x400FF000, GPIO_Type), (''GPIOB'', 0x400FF040, GPIO_Type), (''GPIOC'', 0x400FF080, GPIO_Type),
     (''GPIOD'', 0x400FF0C0, GPIO_Type), (''GPIOE'', 0x400FF100, GPIO_Type), (''MCG'', 0x40064000, MCG_Type),
     (''ENET'', 0x400C0000, ENET_Type), (''SYSTICK'', 0xE000E010, SysTick_Type), (''PIT'', 0x40037000, PIT_Type)]"

definition flexcan0_block :: "string \<times> nat \<times> layout" where
  "flexcan0_block = (''FLEXCAN0'', 0x40024000, CAN_Type)"

subsection \<open>Fields\<close>

text \<open>A field's mask covers its bits, all of them in the register.\<close>

definition field_ok :: "nat \<Rightarrow> bitfield \<Rightarrow> bool" where
  "field_ok bits f \<longleftrightarrow> fmask f = push_bit (fshift f) (mask (fwidth f)) \<and> 0 < fwidth f \<and> fshift f + fwidth f \<le> bits"

definition apart :: "bitfield \<Rightarrow> bitfield \<Rightarrow> bool" where
  "apart f g \<longleftrightarrow> fshift f + fwidth f \<le> fshift g \<or> fshift g + fwidth g \<le> fshift f"

definition table_ok :: "nat \<Rightarrow> field_table \<Rightarrow> bool" where
  "table_ok bits t \<longleftrightarrow> (\<forall>(r, fs) \<in> set t. (\<forall>f \<in> set fs. field_ok bits f) \<and> sorted_wrt apart fs)"

lemma masked_ok [simp]: "field_ok bits (masked x m sh w) \<longleftrightarrow> m = push_bit sh (mask w) \<and> 0 < w \<and> sh + w \<le> bits"
  by (simp add: field_ok_def masked_def)

lemma spanned_ok [simp]: "field_ok bits (spanned x sh w) \<longleftrightarrow> 0 < w \<and> sh + w \<le> bits"
  by (simp add: field_ok_def spanned_def mask_eq_decr_exp)

lemma shifts [simp]:
  "fshift (masked x m sh w) = sh" "fwidth (masked x m sh w) = w" "fshift (spanned x sh w) = sh" "fwidth (spanned x sh w) = w"
  "fmask (masked x m sh w) = m" "fmask (spanned x sh w) = push_bit sh (push_bit w 1 - 1)"
  by (simp_all add: masked_def spanned_def)

lemma field_put8_eq: "field_ok 8 f \<Longrightarrow> field_put8 f x = field_put f x"
  by (rule bit_word_eqI) (auto simp: field_put8_def field_put_def field_ok_def bit_simps)

lemma clkdiv_put_eq: "field_ok 32 (masked n (push_bit sh 0xF) sh 4) \<Longrightarrow> clkdiv_put sh x = field_put (masked n (push_bit sh 0xF) sh 4) x"
  by (rule bit_word_eqI) (auto simp: clkdiv_put_def field_put_def bit_simps)

text \<open>What a driver puts into a field reads back, reduced to the width of the field, and leaves the others alone.\<close>

lemma field_put_reads:
  assumes "field_ok bits f" and "bits \<le> 32"
  shows "field (fshift f) (fwidth f) ((w AND NOT (fmask f)) OR field_put f x) = unat x mod 2 ^ fwidth f"
proof -
  have "take_bit (fwidth f) (drop_bit (fshift f) ((w AND NOT (fmask f)) OR field_put f x)) = take_bit (fwidth f) x"
    by (rule bit_word_eqI) (use assms in \<open>auto simp: field_ok_def field_put_def bit_simps\<close>)
  then show ?thesis by (simp only: field_def unsigned_take_bit_eq) (simp only: take_bit_eq_mod)
qed

lemma field_put_keeps:
  assumes "field_ok bits f" and "apart f g" and "bits \<le> 32"
  shows "field (fshift g) (fwidth g) ((w AND NOT (fmask f)) OR field_put f x) = field (fshift g) (fwidth g) w"
proof -
  have "take_bit (fwidth g) (drop_bit (fshift g) ((w AND NOT (fmask f)) OR field_put f x))
      = take_bit (fwidth g) (drop_bit (fshift g) w)"
    by (rule bit_word_eqI) (use assms in \<open>auto simp: field_ok_def field_put_def apart_def bit_simps dest: bit_imp_le_length\<close>)
  then show ?thesis by (simp add: field_def)
qed

lemma tables_ok:
  "table_ok 8 MCG_bits" "table_ok 8 UART_bits" "table_ok 32 SIM_bits" "table_ok 32 ENET_bits"
  "table_ok 32 SYSTICK_bits" "table_ok 32 PORT_bits" "table_ok 32 PIT_bits" "table_ok 32 SCGC6_bits"
  "table_ok 32 CAN_bits"
  by (simp_all add: table_ok_def apart_def MCG_bits_def UART_bits_def SIM_bits_def ENET_bits_def SYSTICK_bits_def
      PORT_bits_def PIT_bits_def SCGC6_bits_def CAN_bits_def mask_eq_decr_exp push_bit_eq_mult)

lemma sorted_wrt_apart: "sorted_wrt apart fs \<Longrightarrow> f \<in> set fs \<Longrightarrow> g \<in> set fs \<Longrightarrow> f = g \<or> apart f g"
proof (induction fs)
  case (Cons h fs)
  then show ?case by (auto simp: apart_def)
qed simp

text \<open>
  The bit fields of the K64F headers are sound: in every register they lie within its width,
  no two overlap, and a value that a driver puts into one (by mask, shift and the macros) reads
  back modulo the field's size while every other field of the register keeps its value.
\<close>

theorem register_fields_sound:
  assumes "(bits, t) \<in> {(8, MCG_bits), (8, UART_bits), (32, SIM_bits), (32, ENET_bits), (32, SYSTICK_bits),
      (32, PORT_bits), (32, PIT_bits), (32, SCGC6_bits), (32, CAN_bits)}"
    and "(r, fs) \<in> set t" and "f \<in> set fs"
  shows "field (fshift f) (fwidth f) ((w AND NOT (fmask f)) OR field_put f x) = unat x mod 2 ^ fwidth f
    \<and> (\<forall>g \<in> set fs. g \<noteq> f \<longrightarrow> field (fshift g) (fwidth g) ((w AND NOT (fmask f)) OR field_put f x)
          = field (fshift g) (fwidth g) w)
    \<and> fshift f + fwidth f \<le> bits \<and> (bits = 8 \<longrightarrow> field_put8 f x = field_put f x)"
proof -
  have t: "table_ok bits t" "bits \<le> 32" using assms(1) tables_ok by auto
  then have fs: "\<forall>f \<in> set fs. field_ok bits f" "sorted_wrt apart fs" using assms(2) by (auto simp: table_ok_def)
  have f: "field_ok bits f" using fs(1) assms(3) by blast
  have "field (fshift g) (fwidth g) ((w AND NOT (fmask f)) OR field_put f x) = field (fshift g) (fwidth g) w"
    if "g \<in> set fs" "g \<noteq> f" for g
    using field_put_keeps [OF f _ t(2)] sorted_wrt_apart [OF fs(2) assms(3) that(1)] that(2) by blast
  moreover have "bits = 8 \<longrightarrow> field_put8 f x = field_put f x" using f field_put8_eq by blast
  moreover have "fshift f + fwidth f \<le> bits" using f by (simp add: field_ok_def)
  ultimately show ?thesis using field_put_reads [OF f t(2)] by blast
qed

lemma register_fields_sound_witness:
  "field 6 2 ((0x3F AND NOT (fmask (spanned ''CLKS'' 6 2))) OR field_put (spanned ''CLKS'' 6 2) 6) = 2"
  using register_fields_sound [of 8 MCG_bits "''C1''" "[masked ''IREFSTEN'' 0x01 0 1, masked ''IRCLKEN'' 0x02 1 1,
      masked ''IREFS'' 0x04 2 1, spanned ''FRDIV'' 3 3, spanned ''CLKS'' 6 2]" "spanned ''CLKS'' 6 2" "0x3F" 6]
  by (simp add: MCG_bits_def)

subsection \<open>Blocks\<close>

text \<open>No two register blocks overlap, and each is aligned to a word.\<close>

definition blocks_apart :: "string \<times> nat \<times> layout \<Rightarrow> string \<times> nat \<times> layout \<Rightarrow> bool" where
  "blocks_apart = (\<lambda>(x, a, l) (y, b, k). a + layout_size l \<le> b \<or> b + layout_size k \<le> a)"

theorem register_blocks_disjoint:
  "sorted_wrt blocks_apart (k64f_blocks @ [flexcan0_block])
   \<and> (\<forall>(x, a, l) \<in> set (k64f_blocks @ [flexcan0_block]). a mod 4 = 0 \<and> a + layout_size l < 2 ^ 32)"
  by (simp add: k64f_blocks_def flexcan0_block_def blocks_apart_def layout_defs ENET_Type_def)

subsection \<open>The FlexCAN driver uses these fields\<close>

theorem flexcan_fields:
  "CAN_CS_CODE x = field_put (masked ''CODE'' 0xF000000 24 4) x"
  "CAN_CS_DLC x = field_put (masked ''DLC'' 0xF0000 16 4) x"
  "CAN_ID_STD x = field_put (masked ''STD'' 0x1FFC0000 18 11) x"
  by (simp_all add: CAN_CS_CODE_def CAN_CS_DLC_def CAN_ID_STD_def field_put_def)

end
