(* ===== verification/Spec2Isabelle.thy ===== *)
theory Spec2Isabelle
  imports Semaphore Mutex MsgQueue EventFlags Notify SoftTimer Systick StackMonitor
    FaultLog HardFault DeadlineMonitor JitterMonitor UartStm UartK64f Mmio Can Actuators
    Watchdog I2c Sensors Eth Clocks Pit Kalman PrintFloat
    UartLock MpuGuard Startup K64fMain Stm32Main FaultMinimal Syscalls X86
    PwmDebug Altitude BmpRange ResetK64f Registers
begin

text \<open>
  TamgaOS is a preemptive real-time kernel in C for two Cortex-M boards (STM32H753ZI and
  FRDM-K64F), with the drivers, monitors and fault logging that its images are built from; a
  small x86 boot kernel stands beside it. This library models the C code under
  \<open>src/kernels/arm\<close> and \<open>src/kernels/x86-zig/src/C\<close> and proves it correct, or proves how it
  fails, component by component. Paths below are relative to \<open>src/kernels/arm\<close>.

  \<^bold>\<open>How the program hangs together.\<close> A tick source (SysTick or the PIT) interrupts every
  millisecond and calls the scheduler, which counts the delays of blocked tasks down, wakes
  those that expire, and names the next task; PendSV performs the switch. Semaphores,
  mutexes, queues, event flags and notifications block the running task on a wait list, a
  linked list through the task control blocks, and wake tasks from it; timed waits arm the
  same delay counter. The idle task may stop the tick and sleep until the next delay or
  software timer is due. Drivers are polled, except the K64F UART, which is interrupt driven.
  A fault stores its registers in battery-backed memory, from which the next boot reports.

  \<^bold>\<open>Theories, in the order of their dependence.\<close>
  \<^item> \<open>Prelude\<close>: word and list lemmas, machine word abbreviations (\<open>u8\<close> to \<open>u64\<close>), folding of
    a step that may fail, and the outcomes of a call that may block. \<open>Fifo\<close>: the contract of a
    bounded first-in first-out buffer as the locale \<open>fifo\<close>, with what follows for any sequence
    of calls; the byte ring of \<open>MsgQueue\<close> and both rings of \<open>UartK64f\<close> interpret it.
  \<^item> \<open>Task\<close> (\<open>include/task.h\<close>, the variables of \<open>kernel/core/scheduler.c\<close>): the record
    \<open>task_t\<close> of a task control block and \<open>kern\<close> of all scheduler variables; tasks are named
    \<open>Idle\<close> or \<open>Task i\<close>, wait list heads by \<open>wait_cell\<close>, so that pointers are names.
  \<^item> \<open>WaitList\<close>, \<open>WaitQueue\<close> (\<open>wq_insert\<close>, \<open>wq_pop\<close> of \<open>kernel/core/queue.c\<close>, shared by every
    blocking object, and \<open>sched_wait_list_remove\<close>): the linked lists and their refinement to
    lists of tasks; a walk over a cyclic list does not end, so these loops are partial.
  \<^item> \<open>Scheduler\<close>, \<open>SchedSelect\<close>, \<open>SchedInv\<close>, \<open>SchedTick\<close>, \<open>SchedWakeup\<close>, \<open>KernSteps\<close>
    (\<open>kernel/core/scheduler.c\<close>): every operation; the kernel invariant \<open>kern_inv\<close> and that each
    operation keeps it; the choice of the best task; ticks; and the background steps that
    other tasks and interrupts take between the steps of a system under study.
  \<^item> \<open>SchedRun\<close>, \<open>SchedReach\<close>, \<open>Startup\<close>, \<open>MpuGuard\<close> (the same file): creation and stack frames,
    taking turns, the typing invariant of every reachable state, from reset to the first
    task, and the registers of the MPU stack guard.
  \<^item> \<open>StackMonitor\<close> (\<open>kernel/core/stack_monitor.c\<close>).
  \<^item> \<open>Semaphore\<close>, \<open>Mutex\<close>, \<open>MsgQueue\<close>, \<open>EventFlags\<close>, \<open>Notify\<close> (the files of these names in
    \<open>kernel/core\<close>): every operation. A call is split where the code blocks: one definition
    runs to the point where the task is suspended, another is the rest of the call after
    it runs again. Step relations over these pieces, interleaved with the background
    steps, are what the invariants range over.
  \<^item> \<open>SoftTimer\<close> (\<open>kernel/core/timer.c\<close>): the timer table, its service and the next deadline.
  \<^item> \<open>Systick\<close> (\<open>drivers/*/systick.c\<close>, the idle task of \<open>scheduler.c\<close>), \<open>Pit\<close>
    (\<open>drivers/k64f/pit.c\<close>): the tick sources composed with scheduler and timers.
  \<^item> \<open>FaultLog\<close>, \<open>HardFault\<close> (\<open>kernel/core/fault_log.c\<close>, \<open>hardfault.c\<close>): the record in backup
    memory behind a write-back cache whose lines may be evicted at any time, and the handler.
  \<^item> \<open>MonitorStats\<close>, \<open>DeadlineMonitor\<close>, \<open>JitterMonitor\<close> (the monitors in \<open>kernel/core\<close>).
  \<^item> \<open>TextFmt\<close>, \<open>UartStm\<close>, \<open>PrintFloat\<close>, \<open>UartLock\<close>, \<open>UartK64f\<close> (\<open>drivers/*/uart.c\<close>): the formatters,
    the digits of \<open>%f\<close>, whole lines under the UART mutex, and the K64F rings. The locale
    \<open>formatter\<close> states what both boards' formatters promise of a single field, from which the
    text of a whole format follows.
  \<^item> \<open>Mmio\<close>, \<open>Registers\<close> (\<open>boards/k64f/*.h\<close>): register blocks laid out by the rules of C,
    memory-mapped registers as a function from addresses, polling loops; the bit fields of the
    headers, which lie apart and read back what is put into them, and the map of the blocks.
  \<^item> \<open>Can\<close>, \<open>Eth\<close>, \<open>I2c\<close>, \<open>Watchdog\<close>, \<open>Actuators\<close>, \<open>Clocks\<close> (\<open>drivers\<close>, \<open>actuators\<close>) and
    \<open>Sensors\<close>, \<open>BmpRange\<close>, \<open>Altitude\<close> (\<open>sensors\<close>): the drivers of both boards, with the bounds
    of the barometer's integers; \<open>PwmDebug\<close>: the register dumps of the PWM drivers and the
    text of the K64F formatter.
  \<^item> \<open>Kalman\<close> (\<open>controls/kalman.c\<close>), \<open>Syscalls\<close> (\<open>kernel/port/syscalls.c\<close>), \<open>FaultMinimal\<close>
    (\<open>kernel/core/hardfault_minimal.c\<close>), \<open>ResetK64f\<close> (\<open>legacy/startup_mk64f12.c\<close>: section loops
    and vector table).
  \<^item> \<open>K64fMain\<close>, \<open>Stm32Main\<close> (\<open>src/k64f/main.c\<close>, \<open>src/Stm32h753zi/main.c\<close>): the images, which
    compose the components above.
  \<^item> \<open>X86\<close> (\<open>x86-zig/src/C\<close> with the entry stubs of \<open>isr.asm\<close>): descriptor tables, exceptions
    and the serial port.

  \<^bold>\<open>Correspondence.\<close> Definitions carry the names of the C functions. Machine integers are
  words of the C width, so that wrap-around is that of the code; the signed
  arithmetic of the barometer's compensation is on \<open>int\<close> with the rounding of C written out,
  and \<open>BmpRange\<close> shows for which calibrations it stays in the range of its types. The interrupt mask (PRIMASK) is part of the kernel state, and critical
  sections are the atomic steps of the relations. A register is read and written through
  its address; what hardware answers to a poll is an arbitrary function of the poll number,
  a parameter of the definition. Callbacks, the state they change, and the addresses the
  linker chooses are parameters as well.

  \<^bold>\<open>What is shown.\<close> Invariants over all interleavings (semaphores, queues, mutexes, the UART
  and Ethernet rings): nothing lost, no wake-up lost, mutual exclusion. Functional results
  of each call on every branch. Refinements of the byte ring to a FIFO and of the rings to
  queues. Time: delays, timers, timeouts, tickless sleep and watchdog are exact, and where
  they are not the deviation is computed. Round trips through the formatter, the CAN
  controllers, the I2C bus and the backup memory. Errors: timeouts and failed transfers
  leave the devices as stated. Several theorems prove that the code does not do what it
  means to; each has a concrete witness.

  \<^bold>\<open>Bounds, loops and termination.\<close> No fuel is used. Polls bounded by a counter are structural
  recursion on it. A wait list walk, a copying loop and an unbounded poll are partial functions whose result
  \<open>None\<close> is a loop that does not end; that they end is proved under the invariant or under
  the hypothesis that the hardware gets ready.

  \<^bold>\<open>Not modelled.\<close> Assembly (saving and restoring registers, the start-up code and vector
  tables in assembly); delay loops, which change no state; the rounding of single-precision
  numbers: the filter, the altitude, the printed angles and \<open>%f\<close> are over an ordered field,
  with square root, arc tangent and power as parameters; the names of the STM32 drivers' bit
  masks, which are written out at their uses; the Zig version of the x86 kernel; the on-target
  tests, scripts and documents.
\<close>

end
